(* ===== verification/Prelude.thy ===== *)
theory Prelude
  imports Main "HOL-Library.Word" "HOL-Library.Multiset" "HOL-Library.Char_ord"
    "HOL-Library.List_Lexorder" "HOL-Library.Product_Lexorder"
begin

text \<open>
  Shared vocabulary of the development.

  A Go \<open>string\<close> and a Go \<open>[]byte\<close> are both a list of bytes, \<^typ>\<open>char list\<close>
  (an Isabelle \<^typ>\<open>char\<close> is exactly one byte).  \<open>uint64\<close> is \<^typ>\<open>64 word\<close>.
  A Go call that returns \<open>(T, error)\<close> is a value of \<open>go_error + 'a\<close>, with
  \<^const>\<open>Inl\<close> the error.  Errors keep the structure that \<open>errors.Is\<close> inspects:
  a sentinel or plain message, a \<open>%w\<close> wrapping, or \<open>errors.Join\<close>; values that a
  message interpolates are not part of the model.
\<close>

type_synonym bytes = "char list"
type_synonym u64 = "64 word"
type_synonym rune = nat

section \<open>Errors\<close>

datatype go_error =
    ErrText string
  | ErrWrap string go_error
  | ErrJoin go_error go_error

type_synonym 'a result = "go_error + 'a"

text \<open>\<open>errors.Is\<close>: the error itself, or anything reached by unwrapping.\<close>

fun errors_is :: "go_error \<Rightarrow> go_error \<Rightarrow> bool" where
  "errors_is (ErrText m) t = (ErrText m = t)"
| "errors_is (ErrWrap m e) t = (ErrWrap m e = t \<or> errors_is e t)"
| "errors_is (ErrJoin a b) t = (ErrJoin a b = t \<or> errors_is a t \<or> errors_is b t)"

lemma errors_is_refl [simp]: "errors_is e e"
  by (cases e) auto

lemma errors_is_trans: "errors_is a b \<Longrightarrow> errors_is b c \<Longrightarrow> errors_is a c"
  by (induction a b rule: errors_is.induct) auto

text \<open>\<open>errors.Join\<close> of two possibly nil errors; nil operands are dropped.\<close>

fun errors_join :: "go_error option \<Rightarrow> go_error option \<Rightarrow> go_error option" where
  "errors_join None None = None"
| "errors_join (Some a) None = Some (ErrJoin a a)"
| "errors_join None (Some b) = Some (ErrJoin b b)"
| "errors_join (Some a) (Some b) = Some (ErrJoin a b)"

text \<open>
  A join of a single error is still a join node in Go; the model repeats the operand,
  which \<open>errors.Is\<close> cannot tell apart.
\<close>

lemma errors_join_eq_None [simp]: "errors_join a b = None \<longleftrightarrow> a = None \<and> b = None"
  by (cases a; cases b) auto

lemma errors_join_is:
  "errors_join a b = Some e \<Longrightarrow> a = Some x \<or> b = Some x \<Longrightarrow> errors_is e x"
  by (cases a; cases b) auto

definition ErrCanceled :: go_error where
  "ErrCanceled = ErrText ''context canceled''"

definition ErrDeadlineExceeded :: go_error where
  "ErrDeadlineExceeded = ErrText ''context deadline exceeded''"

definition ErrShortWrite :: go_error where
  "ErrShortWrite = ErrText ''short write''"

section \<open>Collections of facts\<close>

named_theorems wire_simps \<open>facts on record framing and parsing\<close>
named_theorems path_simps \<open>facts on lexical path operations\<close>
named_theorems actor_defs \<open>definitions of the session actor's handlers\<close>
named_theorems gate_defs \<open>definitions of the enrichment gate's operations\<close>
named_theorems effect_simps \<open>facts on effects and their rendering\<close>

section \<open>Reachability and invariants\<close>

text \<open>
  Every stateful component below is a step relation.  The interface asks for an invariant
  that the initial states satisfy and that steps keep; what a client gets is that it holds
  in every state the component can reach.
\<close>

inductive reach :: "('s \<Rightarrow> bool) \<Rightarrow> ('s \<Rightarrow> 's \<Rightarrow> bool) \<Rightarrow> 's \<Rightarrow> bool"
  for init :: "'s \<Rightarrow> bool" and step :: "'s \<Rightarrow> 's \<Rightarrow> bool" where
  reach_start: "init s \<Longrightarrow> reach init step s"
| reach_next: "reach init step s \<Longrightarrow> step s t \<Longrightarrow> reach init step t"

locale transition_system =
  fixes init :: "'s \<Rightarrow> bool"
    and step :: "'s \<Rightarrow> 's \<Rightarrow> bool"
    and inv :: "'s \<Rightarrow> bool"
  assumes inv_init: "init s \<Longrightarrow> inv s"
    and inv_step: "inv s \<Longrightarrow> step s t \<Longrightarrow> inv t"
begin

lemma reach_inv: "reach init step s \<Longrightarrow> inv s"
  by (induction rule: reach.induct) (auto intro: inv_init inv_step)

lemma steps_inv: "inv s \<Longrightarrow> step\<^sup>*\<^sup>* s t \<Longrightarrow> inv t"
  by (rotate_tac 1, induction rule: rtranclp_induct) (auto intro: inv_step)

end

text \<open>
  A quantity that no step decreases never decreases along a run; used for generations and
  event identifiers.
\<close>

locale monotone_system = transition_system +
  fixes rank :: "'s \<Rightarrow> nat"
  assumes rank_step: "inv s \<Longrightarrow> step s t \<Longrightarrow> rank s \<le> rank t"
begin

lemma steps_rank: "inv s \<Longrightarrow> step\<^sup>*\<^sup>* s t \<Longrightarrow> rank s \<le> rank t"
proof (rotate_tac 1, induction rule: rtranclp_induct)
  case base
  show ?case by simp
next
  case (step t u)
  then have "inv t" using steps_inv by blast
  with step show ?case using rank_step le_trans by blast
qed

end

text \<open>
  When moreover a step that keeps the quantity keeps a payload, the quantity names the payload: two
  states of one run with the same value carry the same payload.
\<close>

locale versioned_system = monotone_system +
  fixes payload :: "'s \<Rightarrow> 'p"
  assumes payload_step: "inv s \<Longrightarrow> step s t \<Longrightarrow> rank s = rank t \<Longrightarrow> payload s = payload t"
begin

lemma steps_payload: "inv s \<Longrightarrow> step\<^sup>*\<^sup>* s t \<Longrightarrow> rank s = rank t \<Longrightarrow> payload s = payload t"
proof (rotate_tac 1, induction rule: rtranclp_induct)
  case base
  show ?case by simp
next
  case (step t u)
  then have t: "inv t" using steps_inv by blast
  have "rank s \<le> rank t" "rank t \<le> rank u" using step.prems step.hyps t steps_rank rank_step by blast+
  with step.prems have "rank s = rank t" "rank t = rank u" by auto
  with step t show ?case using payload_step by metis
qed

end

end
