(* ===== verification/Go_Bytes.thy ===== *)
theory Go_Bytes
  imports Prelude
begin

text \<open>
  The parts of Go's \<open>bytes\<close>, \<open>strings\<close> and \<open>strconv\<close> that the sources call, on
  byte lists: searching, splitting, trimming, joining, and decimal conversion.
\<close>

section \<open>Searching, splitting, joining\<close>

definition NUL :: char where "NUL = CHR 0x00"
definition TAB :: char where "TAB = CHR 0x09"
definition LF :: char where "LF = CHR 0x0A"
definition CR :: char where "CR = CHR 0x0D"
definition SLASH :: char where "SLASH = CHR ''/''"
definition BACKSLASH :: char where "BACKSLASH = CHR 0x5C"
definition QUOTE :: char where "QUOTE = CHR 0x27"

lemmas char_consts = NUL_def TAB_def LF_def CR_def SLASH_def BACKSLASH_def QUOTE_def

definition byte_of :: "char \<Rightarrow> nat" where
  "byte_of c = of_char c"

lemma byte_of_less [simp]: "byte_of c < 256"
  by (simp add: byte_of_def)

lemma byte_of_inject [simp]: "byte_of c = byte_of d \<longleftrightarrow> c = d"
  by (simp add: byte_of_def)

lemma char_of_byte_of [simp]: "char_of (byte_of c) = c"
  by (simp add: byte_of_def)

lemma byte_of_char_of [simp]: "byte_of (char_of n) = n mod 256"
  by (simp add: byte_of_def)

text \<open>\<open>bytes.Split\<close> with a one-byte separator: always one part more than separators.\<close>

fun split_on :: "char \<Rightarrow> bytes \<Rightarrow> bytes list" where
  "split_on c [] = [[]]"
| "split_on c (x # xs) =
     (if x = c then [] # split_on c xs
      else (case split_on c xs of [] \<Rightarrow> [[x]] | p # ps \<Rightarrow> (x # p) # ps))"

text \<open>\<open>bytes.FieldsFunc\<close>/\<open>strings.FieldsFunc\<close> on a one-byte class: the nonempty runs.\<close>

definition fields_on :: "char \<Rightarrow> bytes \<Rightarrow> bytes list" where
  "fields_on c s = filter (\<lambda>p. p \<noteq> []) (split_on c s)"

fun join_with :: "bytes \<Rightarrow> bytes list \<Rightarrow> bytes" where
  "join_with sep [] = []"
| "join_with sep [p] = p"
| "join_with sep (p # q # ps) = p @ sep @ join_with sep (q # ps)"

definition has_prefix :: "bytes \<Rightarrow> bytes \<Rightarrow> bool" where
  "has_prefix s p \<longleftrightarrow> take (length p) s = p"

definition count_byte :: "char \<Rightarrow> bytes \<Rightarrow> nat" where
  "count_byte c s = length (filter (\<lambda>x. x = c) s)"

text \<open>\<open>bytes.IndexByte\<close>; Go's \<open>-1\<close> is \<^const>\<open>None\<close>.\<close>

fun index_byte :: "bytes \<Rightarrow> char \<Rightarrow> nat option" where
  "index_byte [] c = None"
| "index_byte (x # xs) c = (if x = c then Some 0 else map_option Suc (index_byte xs c))"

definition trim_right :: "char \<Rightarrow> bytes \<Rightarrow> bytes" where
  "trim_right c s = rev (dropWhile (\<lambda>x. x = c) (rev s))"

lemma split_on_nonempty [simp]: "split_on c s \<noteq> []"
  by (cases s) (auto split: list.splits)

lemma split_on_no_sep: "c \<notin> set s \<Longrightarrow> split_on c s = [s]"
  by (induction s) auto

lemma split_on_append: "c \<notin> set s \<Longrightarrow> split_on c (s @ c # t) = s # split_on c t"
  by (induction s) auto

lemma split_on_parts: "p \<in> set (split_on c s) \<Longrightarrow> c \<notin> set p"
  by (induction c s arbitrary: p rule: split_on.induct) (auto split: if_splits list.splits)

lemma join_with_Cons_hd: "join_with sep ((x # p) # ps) = x # join_with sep (p # ps)"
  by (cases ps) auto

lemma join_split_on [simp]: "join_with [c] (split_on c s) = s"
proof (induction c s rule: split_on.induct)
  case (2 c x xs)
  then show ?case
    by (cases "split_on c xs") (auto simp: join_with_Cons_hd neq_Nil_conv split: list.splits)
qed simp

lemma split_on_join:
  "ps \<noteq> [] \<Longrightarrow> \<forall>p \<in> set ps. c \<notin> set p \<Longrightarrow> split_on c (join_with [c] ps) = ps"
proof (induction "[c]" ps rule: join_with.induct)
  case (3 p q ps)
  then show ?case by (simp add: split_on_append)
qed (auto simp: split_on_no_sep)

lemma set_join_with: "x \<in> set (join_with sep ps) \<Longrightarrow> x \<in> set sep \<or> (\<exists>p \<in> set ps. x \<in> set p)"
  by (induction sep ps rule: join_with.induct) auto

lemma length_split_on: "length (split_on c s) = Suc (count_byte c s)"
  by (induction c s rule: split_on.induct) (auto simp: count_byte_def split: list.splits)

lemma split_on_exists_sep: "c \<in> set s \<Longrightarrow> \<exists>p q ps. split_on c s = p # q # ps"
proof -
  assume "c \<in> set s"
  then have "filter (\<lambda>x. x = c) s \<noteq> []" by (auto simp: filter_empty_conv)
  then have "2 \<le> length (split_on c s)"
    by (cases "filter (\<lambda>x. x = c) s") (auto simp: length_split_on count_byte_def)
  then show ?thesis
    by (cases "split_on c s"; cases "tl (split_on c s)") auto
qed

lemma count_byte_append [simp]: "count_byte c (s @ t) = count_byte c s + count_byte c t"
  by (simp add: count_byte_def)

lemma count_byte_Cons [simp]: "count_byte c (x # s) = (if x = c then Suc (count_byte c s) else count_byte c s)"
  by (simp add: count_byte_def)

lemma count_byte_Nil [simp]: "count_byte c [] = 0"
  by (simp add: count_byte_def)

lemma count_byte_zero [simp]: "count_byte c s = 0 \<longleftrightarrow> c \<notin> set s"
  by (induction s) auto

lemma has_prefix_append [simp]: "has_prefix (p @ s) p"
  by (simp add: has_prefix_def)

lemma has_prefix_conv: "has_prefix s p \<longleftrightarrow> (\<exists>t. s = p @ t)"
  by (metis append_eq_conv_conj append_take_drop_id has_prefix_def)

lemma index_byte_None: "index_byte s c = None \<longleftrightarrow> c \<notin> set s"
  by (induction s) auto

lemma index_byte_Some:
  "index_byte s c = Some i \<Longrightarrow> i < length s \<and> s = take i s @ c # drop (Suc i) s \<and> c \<notin> set (take i s)"
proof (induction s arbitrary: i)
  case (Cons x xs)
  then show ?case by (cases "x = c") auto
qed simp

lemma index_byte_append: "c \<notin> set s \<Longrightarrow> index_byte (s @ c # t) c = Some (length s)"
  by (induction s) auto

lemma fields_on_parts: "p \<in> set (fields_on c s) \<Longrightarrow> p \<noteq> [] \<and> c \<notin> set p"
  by (auto simp: fields_on_def dest: split_on_parts)

lemma trim_right_append: "\<exists>n. s = trim_right c s @ replicate n c"
proof -
  have "takeWhile (\<lambda>x. x = c) (rev s) = replicate (length (takeWhile (\<lambda>x. x = c) (rev s))) c"
    by (intro replicate_eqI) (auto dest: set_takeWhileD)
  moreover have "s = rev (dropWhile (\<lambda>x. x = c) (rev s)) @ rev (takeWhile (\<lambda>x. x = c) (rev s))"
    by (metis rev_append rev_rev_ident takeWhile_dropWhile_id)
  ultimately show ?thesis
    unfolding trim_right_def by (metis rev_replicate)
qed

section \<open>Decimal numbers\<close>

definition digit_char :: "nat \<Rightarrow> char" where
  "digit_char d = char_of (48 + d)"

definition is_digit :: "char \<Rightarrow> bool" where
  "is_digit c \<longleftrightarrow> CHR ''0'' \<le> c \<and> c \<le> CHR ''9''"

text \<open>\<open>strconv.Itoa\<close> and the \<open>%d\<close> verb on nonnegative values.\<close>

fun itoa :: "nat \<Rightarrow> bytes" where
  "itoa n = (if n < 10 then [digit_char n] else itoa (n div 10) @ [digit_char (n mod 10)])"

declare itoa.simps [simp del]

definition dec_value :: "bytes \<Rightarrow> nat" where
  "dec_value s = foldl (\<lambda>a c. 10 * a + (byte_of c - 48)) 0 s"

lemma is_digit_conv: "is_digit c \<longleftrightarrow> 48 \<le> byte_of c \<and> byte_of c \<le> 57"
  by (simp add: is_digit_def byte_of_def less_eq_char_def)

lemma byte_of_digit_char: "d < 10 \<Longrightarrow> byte_of (digit_char d) = 48 + d"
  by (simp add: digit_char_def)

lemma is_digit_digit_char: "d < 10 \<Longrightarrow> is_digit (digit_char d)"
  by (simp add: is_digit_conv byte_of_digit_char)

lemma dec_value_snoc: "dec_value (s @ [c]) = 10 * dec_value s + (byte_of c - 48)"
  by (simp add: dec_value_def)

lemma dec_value_itoa [simp]: "dec_value (itoa n) = n"
proof (induction n rule: itoa.induct)
  case (1 n)
  show ?case
  proof (cases "n < 10")
    case True
    then show ?thesis by (subst itoa.simps) (simp add: dec_value_def byte_of_digit_char)
  next
    case False
    with 1 show ?thesis by (subst itoa.simps) (simp add: dec_value_snoc byte_of_digit_char)
  qed
qed

lemma itoa_inject [simp]: "itoa m = itoa n \<longleftrightarrow> m = n"
  by (metis dec_value_itoa)

lemma itoa_nonempty [simp]: "itoa n \<noteq> []"
  by (subst itoa.simps) simp

lemma itoa_digits: "c \<in> set (itoa n) \<Longrightarrow> is_digit c"
proof (induction n arbitrary: c rule: itoa.induct)
  case (1 n)
  then show ?case
    by (subst (asm) itoa.simps) (auto simp: is_digit_digit_char split: if_splits)
qed

lemma list_all_itoa [simp]: "list_all is_digit (itoa n)"
  by (simp add: list_all_iff itoa_digits)

lemma itoa_hd: "0 < n \<Longrightarrow> hd (itoa n) \<noteq> CHR ''0''"
proof (induction n rule: itoa.induct)
  case (1 n)
  show ?case
  proof (cases "n < 10")
    case True
    then have "byte_of (digit_char n) \<noteq> 48" using 1 by (simp add: byte_of_digit_char)
    then have "digit_char n \<noteq> CHR ''0''" by (auto simp: byte_of_def)
    with True show ?thesis by (subst itoa.simps) simp
  next
    case False
    then have "0 < n div 10" by simp
    with 1 False show ?thesis by (subst itoa.simps) simp
  qed
qed

lemma itoa_snoc: "0 < n \<Longrightarrow> d < 10 \<Longrightarrow> itoa (10 * n + d) = itoa n @ [digit_char d]"
  by (subst itoa.simps) simp

lemma digit_char_value: "is_digit c \<Longrightarrow> digit_char (byte_of c - 48) = c"
  by (simp add: digit_char_def is_digit_conv)

text \<open>A digit string without a leading zero is the decimal form of its value.\<close>

lemma itoa_dec_value:
  assumes "s \<noteq> []" and "list_all is_digit s" and "hd s \<noteq> CHR ''0''"
  shows "itoa (dec_value s) = s \<and> 0 < dec_value s"
  using assms
proof (induction s rule: rev_induct)
  case (snoc c s)
  have c: "is_digit c" using snoc by (simp add: list_all_iff)
  then have d: "byte_of c - 48 < 10" by (auto simp: is_digit_conv)
  show ?case
  proof (cases "s = []")
    case True
    with snoc have "c \<noteq> CHR ''0''" by simp
    then have "byte_of c \<noteq> byte_of (CHR ''0'')" by (simp only: byte_of_inject not_False_eq_True)
    then have "0 < byte_of c - 48" using c by (simp add: is_digit_conv byte_of_def)
    with True c d show ?thesis
      by (subst itoa.simps) (simp add: dec_value_def digit_char_value)
  next
    case False
    with snoc have "itoa (dec_value s) = s" "0 < dec_value s"
      by (auto simp: list_all_iff)
    with c d show ?thesis
      by (simp add: dec_value_snoc itoa_snoc digit_char_value)
  qed
qed simp

lemma itoa_zero [simp]: "itoa 0 = ''0''"
  by (subst itoa.simps) (simp add: digit_char_def, code_simp)

text \<open>\<open>strconv.ParseUint(s, 10, 64)\<close>: digits only, at most \<open>2^64 - 1\<close>.\<close>

definition parse_uint64 :: "bytes \<Rightarrow> u64 option" where
  "parse_uint64 s =
     (if s \<noteq> [] \<and> list_all is_digit s \<and> dec_value s < 2 ^ 64
      then Some (of_nat (dec_value s)) else None)"

text \<open>\<open>strconv.Atoi\<close> with a 64-bit \<open>int\<close>: an optional sign, then digits, in range.\<close>

definition atoi :: "bytes \<Rightarrow> int option" where
  "atoi s =
     (let neg = (s \<noteq> [] \<and> hd s = CHR ''-'');
          ds = (if s \<noteq> [] \<and> (hd s = CHR ''-'' \<or> hd s = CHR ''+'') then tl s else s);
          v = (if neg then - int (dec_value ds) else int (dec_value ds))
      in if ds \<noteq> [] \<and> list_all is_digit ds \<and> - (2 ^ 63) \<le> v \<and> v < 2 ^ 63
         then Some v else None)"

definition itoa_u64 :: "u64 \<Rightarrow> bytes" where
  "itoa_u64 w = itoa (unat w)"

lemma parse_uint64_itoa [simp]: "parse_uint64 (itoa_u64 w) = Some w"
proof -
  have "unat w < 2 ^ 64" using unsigned_less [of w] by simp
  then show ?thesis by (simp add: parse_uint64_def itoa_u64_def)
qed

lemma parse_uint64_Some:
  "parse_uint64 s = Some w \<Longrightarrow> s \<noteq> [] \<and> list_all is_digit s \<and> unat w = dec_value s"
  by (auto simp: parse_uint64_def unat_of_nat split: if_splits)

lemma is_digit_not_sign: "is_digit c \<Longrightarrow> c \<noteq> CHR ''-'' \<and> c \<noteq> CHR ''+''"
  by (auto simp: is_digit_conv byte_of_def)

lemma atoi_digits:
  assumes "s \<noteq> []" and "list_all is_digit s"
  shows "atoi s = (if dec_value s < 2 ^ 63 then Some (int (dec_value s)) else None)"
proof -
  have "hd s \<noteq> CHR ''-'' \<and> hd s \<noteq> CHR ''+''"
    using assms by (auto simp: list_all_iff dest: is_digit_not_sign hd_in_set)
  moreover have "- (2 ^ 63) \<le> int (dec_value s)" by simp
  moreover have "int (dec_value s) < 2 ^ 63 \<longleftrightarrow> dec_value s < 2 ^ 63"
    by (metis of_nat_less_iff of_nat_numeral of_nat_power)
  ultimately show ?thesis using assms by (simp add: atoi_def Let_def)
qed

end
