(* ===== verification/Go_Base64.thy ===== *)
theory Go_Base64
  imports Go_Bytes
begin

text \<open>
  Go's \<open>encoding/base64\<close> as the sources use it: \<open>StdEncoding\<close> (padded) and
  \<open>RawURLEncoding\<close> (unpadded), both with \<open>Strict()\<close> decoding.  As documented there,
  a strict decoder insists on zero trailing bits but still skips carriage returns and line
  feeds anywhere in its input; that is why the callers compare against the re-encoding.
\<close>

record base64 =
  enc62 :: char
  enc63 :: char
  padded :: bool

definition StdEncoding :: base64 where
  "StdEncoding = \<lparr>enc62 = CHR ''+'', enc63 = CHR ''/'', padded = True\<rparr>"

definition RawURLEncoding :: base64 where
  "RawURLEncoding = \<lparr>enc62 = CHR ''-'', enc63 = CHR ''_'', padded = False\<rparr>"

definition PAD :: char where "PAD = CHR ''=''"

definition b64_char :: "base64 \<Rightarrow> nat \<Rightarrow> char" where
  "b64_char e n =
     (if n < 26 then char_of (65 + n) else if n < 52 then char_of (71 + n)
      else if n < 62 then char_of (n - 4) else if n = 62 then enc62 e else enc63 e)"

definition b64_val :: "base64 \<Rightarrow> char \<Rightarrow> nat option" where
  "b64_val e c =
     (let b = byte_of c in
      if 65 \<le> b \<and> b \<le> 90 then Some (b - 65)
      else if 97 \<le> b \<and> b \<le> 122 then Some (b - 71)
      else if 48 \<le> b \<and> b \<le> 57 then Some (b + 4)
      else if c = enc62 e then Some 62 else if c = enc63 e then Some 63 else None)"

fun b64_encode :: "base64 \<Rightarrow> bytes \<Rightarrow> bytes" where
  "b64_encode e [] = []"
| "b64_encode e [x] =
     [b64_char e (byte_of x div 4), b64_char e (byte_of x mod 4 * 16)]
     @ (if padded e then [PAD, PAD] else [])"
| "b64_encode e [x, y] =
     [b64_char e (byte_of x div 4), b64_char e (byte_of x mod 4 * 16 + byte_of y div 16),
      b64_char e (byte_of y mod 16 * 4)] @ (if padded e then [PAD] else [])"
| "b64_encode e (x # y # z # rest) =
     b64_char e (byte_of x div 4) # b64_char e (byte_of x mod 4 * 16 + byte_of y div 16)
     # b64_char e (byte_of y mod 16 * 4 + byte_of z div 64) # b64_char e (byte_of z mod 64)
     # b64_encode e rest"

text \<open>The last, short quantum; \<open>Strict\<close> wants the unused low bits to be zero.\<close>

definition quantum2 :: "nat \<Rightarrow> nat \<Rightarrow> bytes option" where
  "quantum2 a b = (if b mod 16 = 0 then Some [char_of (a * 4 + b div 16)] else None)"

definition quantum3 :: "nat \<Rightarrow> nat \<Rightarrow> nat \<Rightarrow> bytes option" where
  "quantum3 a b c =
     (if c mod 4 = 0 then Some [char_of (a * 4 + b div 16), char_of (b mod 16 * 16 + c div 4)]
      else None)"

definition quantum4 :: "nat \<Rightarrow> nat \<Rightarrow> nat \<Rightarrow> nat \<Rightarrow> bytes" where
  "quantum4 a b c d =
     [char_of (a * 4 + b div 16), char_of (b mod 16 * 16 + c div 4), char_of (c mod 4 * 64 + d)]"

fun b64_quanta :: "base64 \<Rightarrow> bytes \<Rightarrow> bytes option" where
  "b64_quanta e [] = Some []"
| "b64_quanta e [a] = None"
| "b64_quanta e [a, b] =
     (if padded e then None
      else case (b64_val e a, b64_val e b) of
             (Some va, Some vb) \<Rightarrow> quantum2 va vb | _ \<Rightarrow> None)"
| "b64_quanta e [a, b, c] =
     (if padded e then None
      else case (b64_val e a, b64_val e b, b64_val e c) of
             (Some va, Some vb, Some vc) \<Rightarrow> quantum3 va vb vc | _ \<Rightarrow> None)"
| "b64_quanta e (a # b # c # d # rest) =
     (case (b64_val e a, b64_val e b) of
        (Some va, Some vb) \<Rightarrow>
          (if padded e \<and> c = PAD then (if d = PAD \<and> rest = [] then quantum2 va vb else None)
           else case b64_val e c of
                  None \<Rightarrow> None
                | Some vc \<Rightarrow>
                    (if padded e \<and> d = PAD
                     then (if rest = [] then quantum3 va vb vc else None)
                     else case b64_val e d of
                            None \<Rightarrow> None
                          | Some vd \<Rightarrow> map_option (\<lambda>r. quantum4 va vb vc vd @ r) (b64_quanta e rest)))
      | _ \<Rightarrow> None)"

definition not_newline :: "char \<Rightarrow> bool" where
  "not_newline c \<longleftrightarrow> c \<noteq> CR \<and> c \<noteq> LF"

definition b64_decode :: "base64 \<Rightarrow> bytes \<Rightarrow> bytes option" where
  "b64_decode e s = b64_quanta e (filter not_newline s)"

section \<open>The alphabet\<close>

definition b64_symbol :: "char \<Rightarrow> bool" where
  "b64_symbol c \<longleftrightarrow> (let b = byte_of c in 33 \<le> b \<and> b \<le> 122 \<and> b \<noteq> 61 \<and> b \<noteq> 92)"

definition wf_base64 :: "base64 \<Rightarrow> bool" where
  "wf_base64 e \<longleftrightarrow> b64_symbol (enc62 e) \<and> b64_symbol (enc63 e) \<and> enc62 e \<noteq> enc63 e
     \<and> (\<forall>n < 62. b64_char e n \<noteq> enc62 e \<and> b64_char e n \<noteq> enc63 e)"

lemma char_of_neq: "byte_of d \<noteq> n \<Longrightarrow> n < 256 \<Longrightarrow> char_of n \<noteq> d"
  by auto

lemma b64_char_bytes:
  assumes "n < 62"
  shows "byte_of (b64_char e n) = (if n < 26 then 65 + n else if n < 52 then 71 + n else n - 4)"
  using assms by (auto simp: b64_char_def)

lemma wf_StdEncoding [simp]: "wf_base64 StdEncoding"
proof -
  have "byte_of (CHR ''+'') = 43" "byte_of (CHR ''/'') = 47" by (simp_all add: byte_of_def)
  then have "b64_char StdEncoding n \<noteq> CHR ''+'' \<and> b64_char StdEncoding n \<noteq> CHR ''/''" if "n < 62" for n
    using b64_char_bytes [OF that, of StdEncoding] that by (auto split: if_splits)
  then show ?thesis
    by (simp add: wf_base64_def b64_symbol_def) (simp add: StdEncoding_def byte_of_def)
qed

lemma wf_RawURLEncoding [simp]: "wf_base64 RawURLEncoding"
proof -
  have "byte_of (CHR ''-'') = 45" "byte_of (CHR ''_'') = 95" by (simp_all add: byte_of_def)
  then have "b64_char RawURLEncoding n \<noteq> CHR ''-'' \<and> b64_char RawURLEncoding n \<noteq> CHR ''_''" if "n < 62" for n
    using b64_char_bytes [OF that, of RawURLEncoding] that by (auto split: if_splits)
  then show ?thesis
    by (simp add: wf_base64_def b64_symbol_def) (simp add: RawURLEncoding_def byte_of_def)
qed

lemma b64_char_symbol:
  assumes "wf_base64 e" and "n < 64"
  shows "b64_symbol (b64_char e n)"
proof (cases "n < 62")
  case True
  then show ?thesis by (auto simp: b64_symbol_def b64_char_bytes Let_def)
next
  case False
  with assms have "n = 62 \<or> n = 63" by auto
  with assms show ?thesis by (auto simp: wf_base64_def b64_char_def)
qed

lemma b64_symbol_clean: "b64_symbol c \<Longrightarrow> c \<noteq> PAD \<and> not_newline c \<and> c \<noteq> TAB \<and> c \<noteq> NUL"
  by (auto simp: b64_symbol_def PAD_def not_newline_def char_consts byte_of_def)

lemma b64_val_char:
  assumes "wf_base64 e" and "n < 64"
  shows "b64_val e (b64_char e n) = Some n"
proof (cases "n < 62")
  case True
  then show ?thesis by (auto simp: b64_val_def Let_def b64_char_bytes)
next
  case False
  have *: "\<forall>m < 62. byte_of (b64_char e m) \<noteq> byte_of (enc62 e) \<and> byte_of (b64_char e m) \<noteq> byte_of (enc63 e)"
    using assms(1) by (simp add: wf_base64_def)
  have range: "\<not> (65 \<le> b \<and> b \<le> 90) \<and> \<not> (97 \<le> b \<and> b \<le> 122) \<and> \<not> (48 \<le> b \<and> b \<le> 57)"
    if "b = byte_of (enc62 e) \<or> b = byte_of (enc63 e)" for b
  proof (intro conjI notI)
    assume b: "65 \<le> b \<and> b \<le> 90"
    then have "b - 65 < 26" by auto
    with b * [rule_format, of "b - 65"] that show False by (auto simp: b64_char_bytes)
  next
    assume b: "97 \<le> b \<and> b \<le> 122"
    then have "b - 71 < 52" "\<not> b - 71 < 26" by auto
    with b * [rule_format, of "b - 71"] that show False by (auto simp: b64_char_bytes)
  next
    assume "48 \<le> b \<and> b \<le> 57"
    with * [rule_format, of "b + 4"] that show False by (auto simp: b64_char_bytes)
  qed
  from False assms consider "n = 62" | "n = 63" by linarith
  then show ?thesis
  proof cases
    case 1
    with range [of "byte_of (enc62 e)"] show ?thesis
      by (auto simp: b64_val_def b64_char_def Let_def)
  next
    case 2
    with range [of "byte_of (enc63 e)"] assms show ?thesis
      by (auto simp: b64_val_def b64_char_def Let_def wf_base64_def)
  qed
qed

lemma b64_val_Some:
  assumes "b64_val e c = Some n"
  shows "n < 64 \<and> b64_char e n = c"
proof -
  have "b64_char e (byte_of c - 65) = c" if "65 \<le> byte_of c" "byte_of c \<le> 90"
  proof -
    from that have "byte_of c - 65 < 26" by auto
    with that show ?thesis by (simp add: b64_char_def)
  qed
  moreover have "b64_char e (byte_of c - 71) = c" if "97 \<le> byte_of c" "byte_of c \<le> 122"
  proof -
    from that have "byte_of c - 71 < 52" "\<not> byte_of c - 71 < 26" by auto
    with that show ?thesis by (simp add: b64_char_def)
  qed
  moreover have "b64_char e (byte_of c + 4) = c" if "48 \<le> byte_of c" "byte_of c \<le> 57"
    using that by (simp add: b64_char_def)
  ultimately show ?thesis
    using assms by (auto simp: b64_val_def Let_def b64_char_def split: if_splits)
qed

lemma b64_val_PAD: "wf_base64 e \<Longrightarrow> b64_val e PAD = None"
  using b64_val_Some [of e PAD] b64_char_symbol [of e] b64_symbol_clean
  by (cases "b64_val e PAD") fastforce+

section \<open>Encoding is decoded back, and only encodings are accepted\<close>

lemma byte_quotients [simp]:
  "byte_of x div 4 < 64" "byte_of x mod 4 * 16 + byte_of y div 16 < 64"
  "byte_of y mod 16 * 4 + byte_of z div 64 < 64" "byte_of x mod 4 * 16 < 64" "byte_of y mod 16 * 4 < 64"
  using byte_of_less [of x] byte_of_less [of y] byte_of_less [of z] by linarith+

lemma mod_mult_add_div: "(r::nat) < k \<Longrightarrow> (q * k + r) div k = q" "(r::nat) < k \<Longrightarrow> (q * k + r) mod k = r"
  by auto

lemma quantum4_bytes:
  "quantum4 (byte_of x div 4) (byte_of x mod 4 * 16 + byte_of y div 16)
     (byte_of y mod 16 * 4 + byte_of z div 64) (byte_of z mod 64) = [x, y, z]"
proof -
  have y: "byte_of y div 16 < 16" and z: "byte_of z div 64 < 4"
    using byte_of_less [of y] byte_of_less [of z] by linarith+
  then show ?thesis
    by (simp add: quantum4_def mod_mult_add_div [OF y] mod_mult_add_div [OF z])
qed

lemma quantum3_bytes:
  "quantum3 (byte_of x div 4) (byte_of x mod 4 * 16 + byte_of y div 16) (byte_of y mod 16 * 4)
   = Some [x, y]"
proof -
  have y: "byte_of y div 16 < 16" using byte_of_less [of y] by linarith
  then show ?thesis by (simp add: quantum3_def mod_mult_add_div [OF y])
qed

lemma quantum2_bytes: "quantum2 (byte_of x div 4) (byte_of x mod 4 * 16) = Some [x]"
  by (simp add: quantum2_def)

lemma b64_char_not_PAD: "wf_base64 e \<Longrightarrow> n < 64 \<Longrightarrow> b64_char e n \<noteq> PAD"
  using b64_char_symbol b64_symbol_clean by blast

lemma b64_quanta_encode: "wf_base64 e \<Longrightarrow> b64_quanta e (b64_encode e s) = Some s"
  by (induction e s rule: b64_encode.induct)
     (auto simp: b64_val_char b64_char_not_PAD quantum2_bytes quantum3_bytes quantum4_bytes)

lemma b64_encode_symbols:
  "wf_base64 e \<Longrightarrow> c \<in> set (b64_encode e s) \<Longrightarrow> b64_symbol c \<or> c = PAD"
  by (induction e s rule: b64_encode.induct) (auto simp: b64_char_symbol split: if_splits)

lemma PAD_clean: "not_newline PAD" "PAD \<noteq> TAB" "PAD \<noteq> NUL"
  by (simp_all add: PAD_def not_newline_def char_consts)

lemma b64_encode_clean:
  assumes "wf_base64 e" and "c \<in> set (b64_encode e s)"
  shows "not_newline c \<and> c \<noteq> TAB \<and> c \<noteq> NUL"
  using b64_encode_symbols [OF assms] b64_symbol_clean [of c] PAD_clean by auto

lemma filter_encode: "wf_base64 e \<Longrightarrow> filter not_newline (b64_encode e s) = b64_encode e s"
  using b64_encode_clean by (simp add: filter_id_conv)

lemma b64_decode_encode: "wf_base64 e \<Longrightarrow> b64_decode e (b64_encode e s) = Some s"
  by (simp add: b64_decode_def filter_encode b64_quanta_encode)

lemma quantum2_Some:
  assumes "quantum2 a b = Some r" and "a < 64" and "b < 64"
  shows "\<exists>x. r = [x] \<and> byte_of x div 4 = a \<and> byte_of x mod 4 * 16 = b"
proof -
  have "a * 4 + b div 16 < 256" "b div 16 < 4" using assms by linarith+
  moreover have "b div 16 * 16 = b" using assms by (auto simp: quantum2_def split: if_splits)
  ultimately show ?thesis using assms by (auto simp: quantum2_def split: if_splits)
qed

lemma quantum3_Some:
  assumes "quantum3 a b c = Some r" and "a < 64" and "b < 64" and "c < 64"
  shows "\<exists>x y. r = [x, y] \<and> byte_of x div 4 = a \<and> byte_of x mod 4 * 16 + byte_of y div 16 = b
      \<and> byte_of y mod 16 * 4 = c"
proof -
  have s: "a * 4 + b div 16 < 256" "b div 16 < 4" "b mod 16 * 16 + c div 4 < 256" "c div 4 < 16"
    using assms by linarith+
  moreover have "c div 4 * 4 = c" using assms by (auto simp: quantum3_def split: if_splits)
  ultimately show ?thesis
    using assms by (auto simp: quantum3_def mod_mult_add_div [OF s(4)] split: if_splits)
qed

lemma quantum4_eq:
  assumes "a < 64" and "b < 64" and "c < 64" and "d < 64"
  shows "\<exists>x y z. quantum4 a b c d = [x, y, z] \<and> byte_of x div 4 = a
      \<and> byte_of x mod 4 * 16 + byte_of y div 16 = b
      \<and> byte_of y mod 16 * 4 + byte_of z div 64 = c \<and> byte_of z mod 64 = d"
proof -
  have s: "a * 4 + b div 16 < 256" "b div 16 < 4" "b mod 16 * 16 + c div 4 < 256" "c div 4 < 16"
    "c mod 4 * 64 + d < 256"
    using assms by linarith+
  then show ?thesis
    using assms by (auto simp: quantum4_def mod_mult_add_div [OF s(4)])
qed

lemma b64_encode_quanta: "b64_quanta e s = Some r \<Longrightarrow> b64_encode e r = s"
proof (induction e s arbitrary: r rule: b64_quanta.induct)
  case (3 e a b)
  then show ?case
    by (auto split: if_splits option.splits dest!: b64_val_Some quantum2_Some)
next
  case (4 e a b c)
  then show ?case
    by (auto split: if_splits option.splits dest!: b64_val_Some quantum3_Some)
next
  case (5 e a b c d rest)
  from 5(2) obtain va vb where v: "b64_val e a = Some va" "b64_val e b = Some vb"
    by (auto split: option.splits)
  note ab = b64_val_Some [OF v(1)] b64_val_Some [OF v(2)]
  consider (two) "padded e" "c = PAD" "d = PAD" "rest = []" "quantum2 va vb = Some r"
    | (three) vc where "b64_val e c = Some vc" "padded e" "d = PAD" "rest = []" "quantum3 va vb vc = Some r"
    | (four) vc vd r' where "\<not> (padded e \<and> c = PAD)" "b64_val e c = Some vc" "\<not> (padded e \<and> d = PAD)"
        "b64_val e d = Some vd" "b64_quanta e rest = Some r'" "r = quantum4 va vb vc vd @ r'"
    using 5(2) v by (auto split: if_splits option.splits)
  then show ?case
  proof cases
    case two
    with ab show ?thesis by (auto dest!: quantum2_Some)
  next
    case three
    with ab b64_val_Some [OF three(1)] show ?thesis by (auto dest!: quantum3_Some)
  next
    case four
    then have "b64_encode e r' = rest"
      using 5(1) [OF refl v four(1,2,3,4,5)] by simp
    with four ab b64_val_Some [OF four(2)] b64_val_Some [OF four(4)] show ?thesis
      using quantum4_eq [of va vb vc vd] by auto
  qed
qed auto

lemma b64_decode_Some: "b64_decode e s = Some r \<Longrightarrow> b64_encode e r = filter not_newline s"
  by (simp add: b64_decode_def b64_encode_quanta)

section \<open>The interface the callers rely on\<close>

text \<open>
  Callers decode strictly and then compare the re-encoding with the input.  What they rely on
  is only that decoding inverts encoding; the check then admits exactly the encodings.
\<close>

locale codec =
  fixes enc :: "'b \<Rightarrow> bytes" and dec :: "bytes \<Rightarrow> 'b option"
  assumes dec_enc: "dec (enc b) = Some b"
begin

lemma canonical_iff: "(case dec s of None \<Rightarrow> None | Some b \<Rightarrow> if enc b = s then Some b else None) = Some b
    \<longleftrightarrow> s = enc b"
  using dec_enc by (auto split: option.splits)

lemma enc_inject: "enc a = enc b \<longleftrightarrow> a = b"
  by (metis dec_enc option.inject)

end

interpretation std64: codec "b64_encode StdEncoding" "b64_decode StdEncoding"
  by unfold_locales (simp add: b64_decode_encode)

interpretation url64: codec "b64_encode RawURLEncoding" "b64_decode RawURLEncoding"
  by unfold_locales (simp add: b64_decode_encode)

lemma b64_encode_eq_Nil [simp]: "b64_encode e s = [] \<longleftrightarrow> s = []"
  by (cases "(e, s)" rule: b64_encode.cases) auto

end
