(* ===== verification/Go_Utf8.thy ===== *)
theory Go_Utf8
  imports Go_Bytes
begin

text \<open>
  Go's \<open>unicode/utf8\<close> on byte lists: \<open>DecodeRune\<close>, \<open>DecodeLastRune\<close>, \<open>Valid\<close>,
  \<open>AppendRune\<close> and the rune iteration of \<open>for _, r := range s\<close>.  An invalid byte
  decodes to \<open>(RuneError, 1)\<close>.

  The category and case tables of package \<open>unicode\<close> are data of the Go distribution; the
  definitions that consult them take them as the record \<open>unicode\<close>.
\<close>

record unicode =
  is_graphic :: "rune \<Rightarrow> bool"
  to_lower :: "rune \<Rightarrow> rune"
  simple_fold_eq :: "rune \<Rightarrow> rune \<Rightarrow> bool"

text \<open>
  The tables restricted to one byte, for concrete runs: graphic are the printable ASCII
  characters and the Latin-1 ones without the soft hyphen; case pairs differ by 32.
\<close>

definition latin1 :: unicode where
  "latin1 = \<lparr>is_graphic = (\<lambda>r. 32 \<le> r \<and> r \<le> 126 \<or> 160 \<le> r \<and> r \<le> 255 \<and> r \<noteq> 173),
     to_lower = (\<lambda>r. if 65 \<le> r \<and> r \<le> 90 then r + 32 else r),
     simple_fold_eq = (\<lambda>a b. a = b \<or> 65 \<le> a \<and> a \<le> 90 \<and> b = a + 32 \<or> 65 \<le> b \<and> b \<le> 90 \<and> a = b + 32)\<rparr>"

definition RuneError :: rune where "RuneError = 65533"

definition cont :: "char \<Rightarrow> bool" where
  "cont c \<longleftrightarrow> 128 \<le> byte_of c \<and> byte_of c \<le> 191"

definition cont_bits :: "char \<Rightarrow> nat" where
  "cont_bits c = byte_of c - 128"

text \<open>
  How many continuation bytes a lead byte announces, and the range of the first of them
  (it rules out overlong forms, surrogates and values above U+10FFFF).
\<close>

definition tail_len :: "nat \<Rightarrow> nat" where
  "tail_len b0 =
     (if 194 \<le> b0 \<and> b0 \<le> 223 then 1 else if 224 \<le> b0 \<and> b0 \<le> 239 then 2
      else if 240 \<le> b0 \<and> b0 \<le> 244 then 3 else 0)"

definition lead_bits :: "nat \<Rightarrow> nat" where
  "lead_bits b0 = (if b0 < 224 then b0 - 192 else if b0 < 240 then b0 - 224 else b0 - 240)"

definition second_ok :: "nat \<Rightarrow> char \<Rightarrow> bool" where
  "second_ok b0 c \<longleftrightarrow> (b0 = 224 \<longrightarrow> 160 \<le> byte_of c) \<and> (b0 = 237 \<longrightarrow> byte_of c \<le> 159)
     \<and> (b0 = 240 \<longrightarrow> 144 \<le> byte_of c) \<and> (b0 = 244 \<longrightarrow> byte_of c \<le> 143)"

definition decode_rune :: "bytes \<Rightarrow> rune \<times> nat" where
  "decode_rune p =
     (case p of
        [] \<Rightarrow> (RuneError, 0)
      | a # q \<Rightarrow>
          let b0 = byte_of a; n = tail_len b0; cs = take n q in
          if b0 < 128 then (b0, 1)
          else if n = 0 \<or> length cs < n \<or> \<not> second_ok b0 (hd cs) \<or> \<not> list_all cont cs then (RuneError, 1)
          else (foldl (\<lambda>r c. r * 64 + cont_bits c) (lead_bits b0) cs, Suc n))"

definition invalid_head :: "bytes \<Rightarrow> bool" where
  "invalid_head p \<longleftrightarrow> fst (decode_rune p) = RuneError \<and> snd (decode_rune p) = 1"

text \<open>
  What decoding a nonempty input can yield: an ASCII byte, an invalid byte, or a proper
  multi-byte sequence made of a lead byte and continuation bytes only.
\<close>

lemma decode_rune_Cons [simp]:
  "byte_of a < 128 \<Longrightarrow> decode_rune (a # q) = (byte_of a, 1)"
  by (simp add: decode_rune_def Let_def)

definition multi_head :: "char \<Rightarrow> bytes \<Rightarrow> bool" where
  "multi_head a cs \<longleftrightarrow> 128 \<le> byte_of a \<and> cs \<noteq> [] \<and> length cs = tail_len (byte_of a)
     \<and> second_ok (byte_of a) (hd cs) \<and> list_all cont cs"

lemma multi_head_facts: "multi_head a cs \<Longrightarrow> 194 \<le> byte_of a \<and> length cs \<le> 3"
  by (auto simp: multi_head_def tail_len_def split: if_splits)

lemma length_Suc_cases:
  "length cs = 1 \<Longrightarrow> \<exists>a. cs = [a]" "length cs = 2 \<Longrightarrow> \<exists>a b. cs = [a, b]"
  "length cs = 3 \<Longrightarrow> \<exists>a b c. cs = [a, b, c]"
  by (auto simp: length_Suc_conv numeral_2_eq_2 numeral_3_eq_3)

lemma multi_head_rune:
  assumes "multi_head a cs"
  shows "128 \<le> foldl (\<lambda>r c. r * 64 + cont_bits c) (lead_bits (byte_of a)) cs"
proof -
  let ?b = "byte_of a"
  consider "194 \<le> ?b" "?b \<le> 223" "length cs = 1" | "224 \<le> ?b" "?b \<le> 239" "length cs = 2"
    | "240 \<le> ?b" "?b \<le> 244" "length cs = 3"
    using assms by (auto simp: multi_head_def tail_len_def split: if_splits)
  then show ?thesis
  proof cases
    case 1
    then have "2 \<le> lead_bits ?b" by (simp add: lead_bits_def)
    then have "128 \<le> lead_bits ?b * 64" by linarith
    moreover obtain c where "cs = [c]" using 1 length_Suc_cases(1) by blast
    ultimately show ?thesis by simp
  next
    case 2
    then obtain c d where cs: "cs = [c, d]" using length_Suc_cases(2) by blast
    then have "?b = 224 \<Longrightarrow> 32 \<le> cont_bits c" using assms by (auto simp: multi_head_def second_ok_def cont_bits_def)
    moreover have "?b \<noteq> 224 \<Longrightarrow> 1 \<le> lead_bits ?b" using 2 by (simp add: lead_bits_def)
    ultimately have "2 \<le> lead_bits ?b * 64 + cont_bits c" by (cases "?b = 224") auto
    from mult_le_mono1 [OF this, of 64] have "128 \<le> (lead_bits ?b * 64 + cont_bits c) * 64" by simp
    then show ?thesis using cs by simp
  next
    case 3
    then obtain c d e where cs: "cs = [c, d, e]" using length_Suc_cases(3) by blast
    then have "?b = 240 \<Longrightarrow> 16 \<le> cont_bits c" using assms by (auto simp: multi_head_def second_ok_def cont_bits_def)
    moreover have "?b \<noteq> 240 \<Longrightarrow> 1 \<le> lead_bits ?b" using 3 by (simp add: lead_bits_def)
    ultimately have "1 \<le> lead_bits ?b * 64 + cont_bits c" by (cases "?b = 240") auto
    from mult_le_mono1 [OF this, of 64]
    have "2 \<le> (lead_bits ?b * 64 + cont_bits c) * 64 + cont_bits d" by simp
    from mult_le_mono1 [OF this, of 64]
    have "128 \<le> ((lead_bits ?b * 64 + cont_bits c) * 64 + cont_bits d) * 64" by simp
    then show ?thesis using cs by simp
  qed
qed

lemma decode_rune_multi:
  assumes "multi_head a cs"
  shows "decode_rune (a # cs @ t) =
     (foldl (\<lambda>r c. r * 64 + cont_bits c) (lead_bits (byte_of a)) cs, Suc (length cs))"
proof -
  have "tail_len (byte_of a) = length cs" using assms by (simp add: multi_head_def)
  moreover have "cs \<noteq> []" using assms by (simp add: multi_head_def)
  ultimately show ?thesis using assms by (simp add: decode_rune_def multi_head_def)
qed

lemma decode_rune_cases:
  obtains (ascii) "byte_of a < 128" "decode_rune (a # q) = (byte_of a, 1)"
  | (bad) "128 \<le> byte_of a" "decode_rune (a # q) = (RuneError, 1)"
  | (multi) r cs q' where "q = cs @ q'" "multi_head a cs" "128 \<le> r"
      "decode_rune (a # q) = (r, Suc (length cs))"
proof -
  let ?n = "tail_len (byte_of a)" and ?cs = "take (tail_len (byte_of a)) q"
  consider "byte_of a < 128" | "128 \<le> byte_of a" "decode_rune (a # q) = (RuneError, 1)"
    | "128 \<le> byte_of a" "?n \<noteq> 0" "\<not> length ?cs < ?n" "second_ok (byte_of a) (hd ?cs)" "list_all cont ?cs"
  proof -
    assume a: "byte_of a < 128 \<Longrightarrow> thesis" "128 \<le> byte_of a \<Longrightarrow> decode_rune (a # q) = (RuneError, 1) \<Longrightarrow> thesis"
      "128 \<le> byte_of a \<Longrightarrow> ?n \<noteq> 0 \<Longrightarrow> \<not> length ?cs < ?n \<Longrightarrow> second_ok (byte_of a) (hd ?cs)
        \<Longrightarrow> list_all cont ?cs \<Longrightarrow> thesis"
    show thesis
    proof (cases "?n = 0 \<or> length ?cs < ?n \<or> \<not> second_ok (byte_of a) (hd ?cs) \<or> \<not> list_all cont ?cs")
      case True
      then show ?thesis using a(1,2) by (cases "byte_of a < 128") (simp_all add: decode_rune_def Let_def)
    next
      case False
      then show ?thesis using a(1,3) not_less [of "byte_of a" 128] by blast
    qed
  qed
  then show thesis
  proof cases
    case 1
    then show ?thesis using ascii by (simp add: decode_rune_Cons)
  next
    case 2
    then show ?thesis using bad by simp
  next
    case 3
    then have m: "multi_head a ?cs" by (auto simp: multi_head_def)
    show ?thesis
      using multi [of ?cs "drop ?n q", OF _ m multi_head_rune [OF m]]
        decode_rune_multi [OF m, of "drop ?n q"] by simp
  qed
qed

lemma decode_rune_size:
  assumes "p \<noteq> []"
  shows "0 < snd (decode_rune p) \<and> snd (decode_rune p) \<le> length p \<and> snd (decode_rune p) \<le> 4"
proof -
  from assms obtain a q where "p = a # q" by (cases p) auto
  then show ?thesis
    by (cases rule: decode_rune_cases [where a = a and q = q]) (auto dest: multi_head_facts)
qed

lemma decode_rune_drop_less: "Suc (length q) - snd (decode_rune (a # q)) < Suc (length q)"
  using decode_rune_size [of "a # q"] by auto

text \<open>Decoding looks only at the bytes it consumes.\<close>

lemma decode_rune_append:
  assumes "s \<noteq> []" and "\<not> invalid_head s"
  shows "decode_rune (s @ t) = decode_rune s"
proof -
  from assms obtain a q where s: "s = a # q" by (cases s) auto
  show ?thesis
  proof (cases rule: decode_rune_cases [where a = a and q = q])
    case (multi r cs q')
    with s show ?thesis by (simp add: decode_rune_multi)
  qed (use assms s in \<open>auto simp: invalid_head_def decode_rune_Cons\<close>)
qed

section \<open>Validity and iteration\<close>

function valid_utf8 :: "bytes \<Rightarrow> bool" where
  "valid_utf8 p =
     (if p = [] then True
      else \<not> invalid_head p \<and> valid_utf8 (drop (snd (decode_rune p)) p))"
  by pat_completeness auto
termination
  by (relation "measure length") (use decode_rune_size in \<open>auto simp: less_diff_conv\<close>)

declare valid_utf8.simps [simp del]

text \<open>The runes of \<open>for _, r := range s\<close>.\<close>

function runes :: "bytes \<Rightarrow> rune list" where
  "runes p =
     (if p = [] then [] else fst (decode_rune p) # runes (drop (snd (decode_rune p)) p))"
  by pat_completeness auto
termination
  by (relation "measure length") (use decode_rune_size in \<open>auto simp: less_diff_conv\<close>)

declare runes.simps [simp del]

lemma valid_utf8_ascii [simp]: "byte_of a < 128 \<Longrightarrow> valid_utf8 (a # q) = valid_utf8 q"
  by (simp add: valid_utf8.simps [of "a # q"] invalid_head_def RuneError_def)

lemma runes_ascii [simp]: "byte_of a < 128 \<Longrightarrow> runes (a # q) = byte_of a # runes q"
  by (simp add: runes.simps [of "a # q"])

lemma runes_Nil [simp]: "runes [] = []"
  by (simp add: runes.simps)

lemma valid_utf8_Nil [simp]: "valid_utf8 []"
  by (simp add: valid_utf8.simps)

text \<open>\<open>utf8.AppendRune\<close>; surrogates and values above U+10FFFF become RuneError.\<close>

definition encode_rune :: "rune \<Rightarrow> bytes" where
  "encode_rune r =
     (let r = (if r > 1114111 \<or> 55296 \<le> r \<and> r \<le> 57343 then RuneError else r) in
      if r < 128 then [char_of r]
      else if r < 2048 then [char_of (192 + r div 64), char_of (128 + r mod 64)]
      else if r < 65536 then
        [char_of (224 + r div 4096), char_of (128 + r div 64 mod 64), char_of (128 + r mod 64)]
      else [char_of (240 + r div 262144), char_of (128 + r div 4096 mod 64),
            char_of (128 + r div 64 mod 64), char_of (128 + r mod 64)])"

section \<open>Decoding from the end\<close>

definition rune_start :: "char \<Rightarrow> bool" where
  "rune_start c \<longleftrightarrow> \<not> cont c"

text \<open>
  \<open>DecodeLastRune\<close> walks back to the nearest rune start, at most \<open>UTFMax\<close> bytes;
  \<open>Suc i\<close> stands for the candidate start \<open>i\<close>, \<open>0\<close> for Go's \<open>-1\<close>, which it clamps.
\<close>

fun scan_start :: "bytes \<Rightarrow> nat \<Rightarrow> nat \<Rightarrow> nat" where
  "scan_start p lim 0 = 0"
| "scan_start p lim (Suc i) =
     (if i < lim then i else if rune_start (p ! i) then i else scan_start p lim i)"

definition decode_last_rune :: "bytes \<Rightarrow> rune \<times> nat" where
  "decode_last_rune p =
     (if p = [] then (RuneError, 0)
      else if byte_of (last p) < 128 then (byte_of (last p), 1)
      else let start = scan_start p (length p - 4) (length p - 1);
               (r, size) = decode_rune (drop start p)
           in if start + size \<noteq> length p then (RuneError, 1) else (r, size))"

lemma scan_start_le: "scan_start p lim (Suc i) \<le> i"
  by (induction i) (auto intro: le_SucI)

lemma scan_start_less: "0 < n \<Longrightarrow> scan_start p lim (n - 1) < n"
proof (cases "n - 1")
  case (Suc i)
  assume "0 < n"
  then show ?thesis using scan_start_le [of p lim i] unfolding Suc using Suc by linarith
qed simp

lemma decode_last_rune_size:
  assumes "p \<noteq> []"
  shows "0 < snd (decode_last_rune p) \<and> snd (decode_last_rune p) \<le> length p"
proof -
  let ?s = "scan_start p (length p - 4) (length p - 1)"
  have "?s < length p" using assms scan_start_less [of "length p" p] by simp
  then have "drop ?s p \<noteq> []" by simp
  from decode_rune_size [OF this]
  have "0 < snd (decode_rune (drop ?s p)) \<and> snd (decode_rune (drop ?s p)) \<le> length p"
    unfolding length_drop by linarith
  moreover have "1 \<le> length p" using assms by (cases p) auto
  ultimately show ?thesis
    using assms by (simp add: decode_last_rune_def Let_def split_beta)
qed

text \<open>On a valid string, the last rune is the one the forward decoding ends with.\<close>

lemma scan_start_run:
  assumes "list_all cont cs" and "\<not> cont a" and "lim \<le> length s" and "k < length cs"
  shows "scan_start (s @ a # cs) lim (Suc (length s + k)) = length s"
  using assms(4)
proof (induction k)
  case 0
  show ?case using assms(2,3) by (simp add: rune_start_def)
next
  case (Suc k)
  have "cont (cs ! k)" using assms(1) Suc by (simp add: list_all_length)
  moreover have "(s @ a # cs) ! (length s + Suc k) = cs ! k" by (simp add: nth_append)
  moreover have "\<not> length s + Suc k < lim" using assms(3) by simp
  ultimately show ?case using Suc by (simp add: rune_start_def)
qed

lemma lead_not_cont: "194 \<le> byte_of a \<Longrightarrow> \<not> cont a"
  by (simp add: cont_def)

lemma decode_last_rune_append:
  assumes "c \<noteq> []" and "snd (decode_rune c) = length c" and "\<not> invalid_head c"
  shows "decode_last_rune (s @ c) = decode_rune c"
proof -
  from assms obtain a q where c: "c = a # q" by (cases c) auto
  show ?thesis
  proof (cases rule: decode_rune_cases [where a = a and q = q])
    case ascii
    with assms c have "q = []" by simp
    with ascii c show ?thesis by (simp add: decode_last_rune_def)
  next
    case bad
    with assms c show ?thesis by (simp add: invalid_head_def)
  next
    case (multi r cs q')
    with assms c have q: "q = cs" by simp
    note f = multi_head_facts [OF multi(2)]
    have l: "list_all cont cs" "cs \<noteq> []" using multi by (simp_all add: multi_head_def)
    then have "cont (last cs)" by (simp add: list_all_iff)
    then have "\<not> byte_of (last (s @ c)) < 128" using l c q by (simp add: cont_def)
    moreover have "scan_start (s @ c) (length (s @ c) - 4) (length (s @ c) - 1) = length s"
    proof -
      have "length (s @ c) - 1 = Suc (length s + (length cs - 1))"
        using l c q by (cases cs) auto
      moreover have "length (s @ c) - 4 \<le> length s" using f c q by auto
      ultimately show ?thesis
        using scan_start_run [OF l(1) lead_not_cont, of a "length (s @ c) - 4" s "length cs - 1"] f l c q
        by (cases cs) auto
    qed
    ultimately show ?thesis using multi c q l
      by (simp add: decode_last_rune_def Let_def split_beta)
  qed
qed

text \<open>A valid string splits into the chunks that forward decoding consumes.\<close>

definition rune_chunk :: "bytes \<Rightarrow> bool" where
  "rune_chunk c \<longleftrightarrow> c \<noteq> [] \<and> snd (decode_rune c) = length c \<and> \<not> invalid_head c"

lemma decode_rune_take:
  assumes "p \<noteq> []" and "\<not> invalid_head p"
  shows "rune_chunk (take (snd (decode_rune p)) p)
       \<and> decode_rune (take (snd (decode_rune p)) p) = decode_rune p"
proof -
  from assms obtain a q where p: "p = a # q" by (cases p) auto
  show ?thesis
  proof (cases rule: decode_rune_cases [where a = a and q = q])
    case ascii
    with assms p show ?thesis by (simp add: rune_chunk_def invalid_head_def decode_rune_Cons)
  next
    case bad
    with assms p show ?thesis by (simp add: invalid_head_def)
  next
    case (multi r cs q')
    have "cs \<noteq> []" using multi(2) by (simp add: multi_head_def)
    with multi p decode_rune_multi [OF multi(2), of "[]"] decode_rune_multi [OF multi(2), of q']
    show ?thesis by (auto simp: rune_chunk_def invalid_head_def)
  qed
qed

lemma valid_utf8_chunks:
  assumes "valid_utf8 p"
  shows "\<exists>cs. p = concat cs \<and> list_all rune_chunk cs \<and> runes p = map (fst \<circ> decode_rune) cs"
  using assms
proof (induction p rule: valid_utf8.induct)
  case (1 p)
  show ?case
  proof (cases "p = []")
    case True
    then show ?thesis by (intro exI [of _ "[]"]) simp
  next
    case False
    let ?n = "snd (decode_rune p)"
    from False 1(2) have v: "\<not> invalid_head p" "valid_utf8 (drop ?n p)"
      by (simp_all add: valid_utf8.simps [of p])
    with 1(1) False obtain cs where cs: "drop ?n p = concat cs" "list_all rune_chunk cs"
      "runes (drop ?n p) = map (fst \<circ> decode_rune) cs" by blast
    have "p = concat (take ?n p # cs)" by (simp add: cs(1) [symmetric])
    moreover have "list_all rune_chunk (take ?n p # cs)"
      using cs decode_rune_take [OF False v(1)] by simp
    moreover have "runes p = map (fst \<circ> decode_rune) (take ?n p # cs)"
      using cs decode_rune_take [OF False v(1)] False by (simp add: runes.simps [of p])
    ultimately show ?thesis by blast
  qed
qed

lemma rune_chunk_append:
  assumes "rune_chunk c"
  shows "decode_rune (c @ s) = decode_rune c" and "drop (snd (decode_rune (c @ s))) (c @ s) = s"
  using assms decode_rune_append [of c s] by (auto simp: rune_chunk_def)

lemma runes_chunks: "list_all rune_chunk cs \<Longrightarrow> runes (concat cs) = map (fst \<circ> decode_rune) cs"
proof (induction cs)
  case (Cons c cs)
  then have "c @ concat cs \<noteq> []" by (auto simp: rune_chunk_def)
  with Cons show ?case
    using rune_chunk_append [of c "concat cs"] by (simp add: runes.simps [of "c @ concat cs"])
qed simp

lemma runes_append_chunk:
  "list_all rune_chunk cs \<Longrightarrow> rune_chunk c \<Longrightarrow> runes (concat cs @ c) = runes (concat cs) @ [fst (decode_rune c)]"
  using runes_chunks [of "cs @ [c]"] by (simp add: runes_chunks)

end
