(* ===== verification/Go_Filepath.thy ===== *)
theory Go_Filepath
  imports Go_Bytes
begin

text \<open>
  Go's \<open>path/filepath\<close> on Unix, as purely lexical functions on byte lists: \<open>Clean\<close>,
  \<open>Dir\<close>, \<open>Base\<close>, \<open>Join\<close>, \<open>IsAbs\<close> and \<open>Rel\<close>.  \<open>Clean\<close> is written over the
  list of components with the stack that its one-pass buffer implements; the facts below
  describe it on absolute paths, the only ones the picker navigates.
\<close>

definition DOT :: bytes where "DOT = ''.''"
definition DOTDOT :: bytes where "DOTDOT = ''..''"

definition is_abs :: "bytes \<Rightarrow> bool" where
  "is_abs p \<longleftrightarrow> p \<noteq> [] \<and> hd p = SLASH"

definition clean_step :: "bool \<Rightarrow> bytes list \<Rightarrow> bytes \<Rightarrow> bytes list" where
  "clean_step rooted st c =
     (if c = [] \<or> c = DOT then st
      else if c = DOTDOT then
        (if st \<noteq> [] \<and> last st \<noteq> DOTDOT then butlast st
         else if rooted then st else st @ [DOTDOT])
      else st @ [c])"

definition clean_stack :: "bytes \<Rightarrow> bytes list" where
  "clean_stack p = foldl (clean_step (is_abs p)) [] (split_on SLASH p)"

definition path_clean :: "bytes \<Rightarrow> bytes" where
  "path_clean p =
     (if p = [] then DOT
      else if is_abs p then SLASH # join_with [SLASH] (clean_stack p)
      else if clean_stack p = [] then DOT
      else join_with [SLASH] (clean_stack p))"

definition path_dir :: "bytes \<Rightarrow> bytes" where
  "path_dir p = path_clean (rev (dropWhile (\<lambda>c. c \<noteq> SLASH) (rev p)))"

definition path_base :: "bytes \<Rightarrow> bytes" where
  "path_base p =
     (if p = [] then DOT
      else let r = rev (takeWhile (\<lambda>c. c \<noteq> SLASH) (rev (trim_right SLASH p)))
           in if r = [] then [SLASH] else r)"

text \<open>\<open>Join\<close> of two elements; empty leading elements are dropped.\<close>

definition path_join :: "bytes \<Rightarrow> bytes \<Rightarrow> bytes" where
  "path_join a b =
     (if a \<noteq> [] then path_clean (a @ SLASH # b) else if b \<noteq> [] then path_clean b else [])"

fun strip_common :: "bytes list \<Rightarrow> bytes list \<Rightarrow> bytes list \<times> bytes list" where
  "strip_common (x # xs) (y # ys) = (if x = y then strip_common xs ys else (x # xs, y # ys))"
| "strip_common xs ys = (xs, ys)"

text \<open>\<open>Rel\<close>: the components of the cleaned paths, without the common prefix.\<close>

definition rel_comps :: "bytes \<Rightarrow> bytes list" where
  "rel_comps p = (if path_clean p = DOT then [] else fields_on SLASH (path_clean p))"

definition path_rel :: "bytes \<Rightarrow> bytes \<Rightarrow> bytes option" where
  "path_rel base targ =
     (if is_abs base \<noteq> is_abs targ then None
      else case strip_common (rel_comps base) (rel_comps targ) of
             (bs, ts) \<Rightarrow>
               if bs \<noteq> [] \<and> hd bs = DOTDOT then None
               else let parts = map (\<lambda>_. DOTDOT) bs @ ts
                    in Some (if parts = [] then DOT else join_with [SLASH] parts))"

section \<open>Absolute paths in normal form\<close>

definition norm_comp :: "bytes \<Rightarrow> bool" where
  "norm_comp c \<longleftrightarrow> c \<noteq> [] \<and> c \<noteq> DOT \<and> c \<noteq> DOTDOT \<and> SLASH \<notin> set c"

definition abs_path :: "bytes list \<Rightarrow> bytes" where
  "abs_path cs = SLASH # join_with [SLASH] cs"

lemma is_abs_abs_path [simp]: "is_abs (abs_path cs)"
  by (simp add: is_abs_def abs_path_def)

lemma is_abs_append [simp]: "is_abs p \<Longrightarrow> is_abs (p @ q)"
  by (cases p) (auto simp: is_abs_def)

lemma DOT_neq [simp]: "DOT \<noteq> []" "DOTDOT \<noteq> []" "DOT \<noteq> DOTDOT" "DOTDOT \<noteq> DOT" "SLASH \<notin> set DOT" "SLASH \<notin> set DOTDOT"
  by (simp_all add: DOT_def DOTDOT_def SLASH_def)

lemma norm_compD: "norm_comp c \<Longrightarrow> c \<noteq> [] \<and> c \<noteq> DOT \<and> c \<noteq> DOTDOT \<and> SLASH \<notin> set c"
  by (simp add: norm_comp_def)

lemma clean_step_norm: "norm_comp c \<Longrightarrow> clean_step r st c = st @ [c]"
  by (simp add: clean_step_def norm_comp_def)

lemma clean_fold_norm: "list_all norm_comp cs \<Longrightarrow> foldl (clean_step r) st cs = st @ cs"
  by (induction cs arbitrary: st) (auto simp: clean_step_norm)

lemma clean_step_rooted:
  "list_all norm_comp st \<Longrightarrow> SLASH \<notin> set c \<Longrightarrow> list_all norm_comp (clean_step True st c)"
  by (auto simp: clean_step_def norm_comp_def list_all_iff dest: in_set_butlastD)

lemma clean_fold_rooted:
  "list_all norm_comp st \<Longrightarrow> \<forall>c \<in> set cs. SLASH \<notin> set c \<Longrightarrow>
     list_all norm_comp (foldl (clean_step True) st cs)"
  by (induction cs arbitrary: st) (auto simp: clean_step_rooted)

lemma clean_stack_abs: "is_abs p \<Longrightarrow> list_all norm_comp (clean_stack p)"
  unfolding clean_stack_def by (auto intro: clean_fold_rooted dest: split_on_parts)

lemma path_clean_abs: "is_abs p \<Longrightarrow> path_clean p = abs_path (clean_stack p)"
  by (auto simp: path_clean_def abs_path_def is_abs_def)

lemma is_abs_path_clean: "is_abs p \<Longrightarrow> is_abs (path_clean p)"
  by (simp add: path_clean_abs)

lemma split_abs_path:
  "list_all norm_comp cs \<Longrightarrow> split_on SLASH (abs_path cs) = [] # (if cs = [] then [[]] else cs)"
  by (auto simp: abs_path_def norm_comp_def list_all_iff intro: split_on_join)

lemma clean_stack_abs_path: "list_all norm_comp cs \<Longrightarrow> clean_stack (abs_path cs) = cs"
  by (cases "cs = []")
     (auto simp: clean_stack_def split_abs_path clean_step_def clean_fold_norm)

lemma path_clean_abs_path [path_simps]: "list_all norm_comp cs \<Longrightarrow> path_clean (abs_path cs) = abs_path cs"
  by (simp add: path_clean_abs clean_stack_abs_path)

lemma path_clean_idem: "is_abs p \<Longrightarrow> path_clean (path_clean p) = path_clean p"
  using path_clean_abs clean_stack_abs path_clean_abs_path by metis

lemma abs_path_inject:
  "list_all norm_comp xs \<Longrightarrow> list_all norm_comp ys \<Longrightarrow> abs_path xs = abs_path ys \<longleftrightarrow> xs = ys"
  by (metis clean_stack_abs_path)

lemma split_on_snoc_sep: "split_on c (s @ c # t) = split_on c s @ split_on c t"
proof (induction c s rule: split_on.induct)
  case (2 c x xs)
  then show ?case by (cases "split_on c xs") auto
qed simp

lemma clean_stack_append:
  assumes "is_abs p"
  shows "clean_stack (p @ SLASH # q) = foldl (clean_step True) (clean_stack p) (split_on SLASH q)"
  using assms by (simp add: clean_stack_def split_on_snoc_sep)

lemma path_join_abs:
  assumes "is_abs p"
  shows "path_join p q = abs_path (foldl (clean_step True) (clean_stack p) (split_on SLASH q))"
proof -
  from assms have "p \<noteq> []" by (auto simp: is_abs_def)
  with assms show ?thesis by (simp add: path_join_def path_clean_abs clean_stack_append)
qed

lemma path_join_comp [path_simps]:
  assumes "list_all norm_comp cs" and "norm_comp c"
  shows "path_join (abs_path cs) c = abs_path (cs @ [c])"
  using assms norm_compD [OF assms(2)]
  by (simp add: path_join_abs clean_stack_abs_path split_on_no_sep clean_step_norm)

lemma join_with_snoc: "cs \<noteq> [] \<Longrightarrow> join_with sep (cs @ [c]) = join_with sep cs @ sep @ c"
  by (induction sep cs rule: join_with.induct) auto

lemma abs_path_snoc: "abs_path (cs @ [c]) = (if cs = [] then [SLASH] else abs_path cs @ [SLASH]) @ c"
  by (simp add: abs_path_def join_with_snoc)

lemma path_dir_snoc [path_simps]:
  assumes "list_all norm_comp cs" and "norm_comp c"
  shows "path_dir (abs_path (cs @ [c])) = abs_path cs"
proof -
  have c: "SLASH \<notin> set c" using assms(2) by (simp add: norm_comp_def)
  then have "dropWhile (\<lambda>x. x \<noteq> SLASH) (rev c @ SLASH # t) = SLASH # t" for t
    by (subst dropWhile_append2) auto
  then have "path_dir (abs_path (cs @ [c])) = path_clean (if cs = [] then [SLASH] else abs_path cs @ [SLASH])"
    unfolding path_dir_def abs_path_snoc by auto
  also have "\<dots> = abs_path cs"
  proof (cases "cs = []")
    case True
    then show ?thesis using path_clean_abs_path [of "[]"] by (simp add: abs_path_def)
  next
    case False
    have "path_clean (abs_path cs @ SLASH # []) = abs_path cs"
      using assms(1) by (simp add: path_clean_abs clean_stack_append clean_stack_abs_path clean_step_def)
    with False show ?thesis by simp
  qed
  finally show ?thesis .
qed

lemma path_dir_root [path_simps]: "path_dir (abs_path []) = abs_path []"
  using path_clean_abs_path [of "[]"] by (simp add: path_dir_def abs_path_def)

lemma trim_right_no_sep: "c \<noteq> [] \<Longrightarrow> last c \<noteq> x \<Longrightarrow> trim_right x c = c"
  by (cases c rule: rev_cases) (auto simp: trim_right_def)

lemma path_base_snoc [path_simps]:
  assumes "norm_comp c"
  shows "path_base (abs_path (cs @ [c])) = c"
proof -
  have c: "SLASH \<notin> set c" "c \<noteq> []" using assms by (simp_all add: norm_comp_def)
  then have "last c \<noteq> SLASH" using last_in_set by metis
  then have "last (abs_path (cs @ [c])) \<noteq> SLASH" "abs_path (cs @ [c]) \<noteq> []"
    using c by (auto simp: abs_path_snoc)
  moreover have "takeWhile (\<lambda>x. x \<noteq> SLASH) (rev c @ SLASH # t) = rev c" for t
    using c by (subst takeWhile_append2) auto
  ultimately show ?thesis
    using c by (auto simp: path_base_def trim_right_no_sep abs_path_snoc Let_def)
qed

section \<open>Relative paths\<close>

lemma fields_abs_path: "list_all norm_comp cs \<Longrightarrow> fields_on SLASH (abs_path cs) = cs"
  by (auto simp: fields_on_def split_abs_path norm_comp_def list_all_iff filter_id_conv)

lemma rel_comps_abs:
  assumes "is_abs p"
  shows "rel_comps p = clean_stack p"
proof -
  have "abs_path cs \<noteq> DOT" for cs by (simp add: abs_path_def DOT_def SLASH_def)
  then show ?thesis
    using assms by (simp add: rel_comps_def path_clean_abs fields_abs_path clean_stack_abs)
qed

lemma strip_common_spec:
  "strip_common xs ys = (bs, ts) \<Longrightarrow> \<exists>ps. xs = ps @ bs \<and> ys = ps @ ts \<and> (bs = [] \<or> ts = [] \<or> hd bs \<noteq> hd ts)"
proof (induction xs ys rule: strip_common.induct)
  case (1 x xs y ys)
  show ?case
  proof (cases "x = y")
    case True
    with 1 obtain ps where "xs = ps @ bs \<and> ys = ps @ ts \<and> (bs = [] \<or> ts = [] \<or> hd bs \<noteq> hd ts)" by auto
    with True show ?thesis by (intro exI [of _ "x # ps"]) auto
  next
    case False
    with 1 show ?thesis by auto
  qed
qed auto

lemma strip_common_prefix: "strip_common xs (xs @ ys) = ([], ys)"
  by (induction xs) auto

lemma path_rel_abs:
  assumes "is_abs base" and "is_abs targ"
  shows "\<exists>ps bs ts. clean_stack base = ps @ bs \<and> clean_stack targ = ps @ ts
    \<and> (bs = [] \<or> ts = [] \<or> hd bs \<noteq> hd ts)
    \<and> path_rel base targ = Some (if bs = [] \<and> ts = [] then DOT
         else join_with [SLASH] (map (\<lambda>_. DOTDOT) bs @ ts))"
proof -
  obtain bs ts where st: "strip_common (clean_stack base) (clean_stack targ) = (bs, ts)"
    by (cases "strip_common (clean_stack base) (clean_stack targ)") auto
  then obtain ps where ps: "clean_stack base = ps @ bs" "clean_stack targ = ps @ ts"
    "bs = [] \<or> ts = [] \<or> hd bs \<noteq> hd ts"
    using strip_common_spec by blast
  have "bs \<noteq> [] \<Longrightarrow> hd bs \<noteq> DOTDOT"
    using clean_stack_abs [OF assms(1)] ps(1) by (cases bs) (auto simp: norm_comp_def)
  then have "path_rel base targ = Some (if bs = [] \<and> ts = [] then DOT
         else join_with [SLASH] (map (\<lambda>_. DOTDOT) bs @ ts))"
    using assms by (auto simp: path_rel_def rel_comps_abs st Let_def)
  with ps show ?thesis by blast
qed

text \<open>
  Climbing \<open>length bs\<close> components undoes \<open>bs\<close>: following a relative path from its base
  leads to the target.
\<close>

lemma clean_fold_up:
  "list_all norm_comp bs \<Longrightarrow> foldl (clean_step True) (ps @ bs) (map (\<lambda>_. DOTDOT) bs) = ps"
proof (induction bs rule: rev_induct)
  case (snoc b bs)
  then have "norm_comp b" by simp
  then have "clean_step True (ps @ bs @ [b]) DOTDOT = ps @ bs"
    by (simp add: clean_step_def norm_comp_def butlast_append)
  moreover have "map (\<lambda>_. DOTDOT) (bs @ [b]) = DOTDOT # map (\<lambda>_. DOTDOT) bs"
    by (induction bs) auto
  ultimately show ?case using snoc by simp
qed simp

lemma path_join_rel:
  assumes "is_abs base" and "is_abs targ" and "path_rel base targ = Some r"
  shows "path_join base r = path_clean targ"
proof -
  from path_rel_abs [OF assms(1,2)] obtain ps bs ts where
    st: "clean_stack base = ps @ bs" "clean_stack targ = ps @ ts"
    and r: "path_rel base targ = Some (if bs = [] \<and> ts = [] then DOT
         else join_with [SLASH] (map (\<lambda>_. DOTDOT) bs @ ts))" by blast
  have n: "list_all norm_comp bs" "list_all norm_comp ts"
    using clean_stack_abs [OF assms(1)] clean_stack_abs [OF assms(2)] st by auto
  show ?thesis
  proof (cases "bs = [] \<and> ts = []")
    case True
    then have "r = DOT" using r assms(3) by simp
    then show ?thesis using True st assms(1,2)
      by (simp add: path_join_abs path_clean_abs split_on_no_sep clean_step_def)
  next
    case False
    let ?parts = "map (\<lambda>_. DOTDOT) bs @ ts"
    have "r = join_with [SLASH] ?parts" using r assms(3) False by (auto simp del: map_replicate_const)
    moreover have "\<forall>c \<in> set ?parts. SLASH \<notin> set c" using n by (auto simp: list_all_iff norm_comp_def)
    ultimately have "split_on SLASH r = ?parts" using False split_on_join [of ?parts SLASH] by blast
    then have "path_join base r = abs_path (foldl (clean_step True) (ps @ bs) ?parts)"
      by (simp only: path_join_abs [OF assms(1)] st(1))
    also have "\<dots> = abs_path (ps @ ts)"
      by (simp only: foldl_append clean_fold_up [OF n(1)] clean_fold_norm [OF n(2)])
    finally show ?thesis using st(2) assms(2) by (simp add: path_clean_abs)
  qed
qed

end
