(* ===== verification/Protocol.thy ===== *)
theory Protocol
  imports Go_Base64 Go_Utf8
begin

text \<open>
  \<open>internal/protocol\<close>: the closed vocabularies and the \<open>Effect\<close> record (types.go), the
  wire record codec and display escaping (codec.go), and the outcome encoders
  (outcome.go).

  The string-typed enumerations become datatypes with one extra constructor for any other
  text, so that every \<open>default:\<close> branch of the code has values that reach it.  A writer is
  an arbitrary state transformer that reports a count and an error, as \<open>io.Writer\<close> does.
\<close>

section \<open>types.go\<close>

datatype picker = PickerCD | PickerCP | PickerOther string

datatype mode = ModeInsert | ModeNormal | ModeAdd | ModeOther string

datatype kind = KindLocal | KindDirectory | KindFile | KindZoxide | KindDrive | KindVirtual
  | KindOther string

datatype cursor_shape = CursorLine | CursorBlock | CursorOther string

datatype opcode = OpModeInsert | OpModeAdd | OpEscape | OpForward | OpParent | OpSlash | OpHome
  | OpEnter | OpRestoreView | OpOther string

record event =
  ev_opcode :: opcode
  ev_key :: string
  ev_query :: bytes
  ev_current_item :: bytes

record effect =
  ef_mode :: mode
  ef_prompt :: string
  ef_header :: string
  ef_search :: string
  ef_rebind :: mode
  ef_clear_query :: bool
  ef_clear_multi :: bool
  ef_accept :: bool
  ef_abort :: bool
  ef_ignore :: bool
  ef_put :: string
  ef_invalid_path :: bool
  ef_reload_generation :: u64
  ef_restore_generation :: u64
  ef_cursor :: cursor_shape
  ef_error_prompt :: bool

text \<open>Go's zero value of \<open>Effect\<close>.\<close>

definition no_effect :: effect where
  "no_effect = \<lparr>ef_mode = ModeOther [], ef_prompt = [], ef_header = [], ef_search = [],
     ef_rebind = ModeOther [], ef_clear_query = False, ef_clear_multi = False, ef_accept = False,
     ef_abort = False, ef_ignore = False, ef_put = [], ef_invalid_path = False,
     ef_reload_generation = 0, ef_restore_generation = 0, ef_cursor = CursorOther [],
     ef_error_prompt = False\<rparr>"

datatype output_format = OutputNUL | OutputNUON | OutputOther string

datatype status = StatusAccepted | StatusAborted | StatusOther string

record outcome =
  out_status :: status
  out_paths :: "bytes list"

definition VirtualDrivesTarget :: bytes where
  "VirtualDrivesTarget = ''drives''"

definition picker_text :: "picker \<Rightarrow> string" where
  "picker_text p = (case p of PickerCD \<Rightarrow> ''cd'' | PickerCP \<Rightarrow> ''cp'' | PickerOther s \<Rightarrow> s)"

definition opcode_text :: "opcode \<Rightarrow> string" where
  "opcode_text x = (case x of OpModeInsert \<Rightarrow> ''mi'' | OpModeAdd \<Rightarrow> ''ma'' | OpEscape \<Rightarrow> ''es''
     | OpForward \<Rightarrow> ''fw'' | OpParent \<Rightarrow> ''up'' | OpSlash \<Rightarrow> ''sl'' | OpHome \<Rightarrow> ''hm''
     | OpEnter \<Rightarrow> ''en'' | OpRestoreView \<Rightarrow> ''rs'' | OpOther s \<Rightarrow> s)"

definition kind_text :: "kind \<Rightarrow> string" where
  "kind_text k = (case k of KindLocal \<Rightarrow> ''local'' | KindDirectory \<Rightarrow> ''directory''
     | KindFile \<Rightarrow> ''file'' | KindZoxide \<Rightarrow> ''zoxide'' | KindDrive \<Rightarrow> ''drive''
     | KindVirtual \<Rightarrow> ''virtual'' | KindOther s \<Rightarrow> s)"

definition kind_of_text :: "string \<Rightarrow> kind" where
  "kind_of_text s =
     (if s = ''local'' then KindLocal else if s = ''directory'' then KindDirectory
      else if s = ''file'' then KindFile else if s = ''zoxide'' then KindZoxide
      else if s = ''drive'' then KindDrive else if s = ''virtual'' then KindVirtual
      else KindOther s)"

section \<open>codec.go: wire records\<close>

record wire_record =
  wr_kind :: kind
  wr_display :: string
  wr_payload :: string

definition append_record :: "bytes \<Rightarrow> wire_record \<Rightarrow> bytes" where
  "append_record dst r = dst @ kind_text (wr_kind r) @ [TAB] @ wr_display r @ [TAB] @ wr_payload r"

definition wire_bytes :: "wire_record \<Rightarrow> bytes" where
  "wire_bytes r = append_record [] r"

definition EncodePath :: "bytes \<Rightarrow> string" where
  "EncodePath p = b64_encode StdEncoding p"

definition errEmptyPathPayload :: go_error where
  "errEmptyPathPayload = ErrText ''empty path payload''"

definition DecodePath :: "string \<Rightarrow> bytes result" where
  "DecodePath payload =
     (if payload = [] then Inl errEmptyPathPayload
      else case b64_decode StdEncoding payload of
             None \<Rightarrow> Inl (ErrWrap ''decode path payload'' (ErrText ''illegal base64 data''))
           | Some p \<Rightarrow> Inr p)"

definition validKind :: "kind \<Rightarrow> bool" where
  "validKind k = (case k of KindLocal \<Rightarrow> True | KindDirectory \<Rightarrow> True | KindFile \<Rightarrow> True
     | KindZoxide \<Rightarrow> True | KindDrive \<Rightarrow> True | KindVirtual \<Rightarrow> True | KindOther _ \<Rightarrow> False)"

text \<open>
  With exactly two tabs both searches succeed; the last branch stands for the slice panic
  that cannot happen.
\<close>

definition split_tabs :: "bytes \<Rightarrow> (bytes \<times> bytes \<times> bytes) option" where
  "split_tabs r =
     (case index_byte r TAB of
        None \<Rightarrow> None
      | Some i \<Rightarrow>
          (case index_byte (drop (Suc i) r) TAB of
             None \<Rightarrow> None
           | Some j \<Rightarrow> Some (take i r, take j (drop (Suc i) r), drop (Suc j) (drop (Suc i) r))))"

definition ParseRecord :: "bytes \<Rightarrow> wire_record result" where
  "ParseRecord r =
     (if NUL \<in> set r then Inl (ErrText ''record contains NUL'')
      else if count_byte TAB r \<noteq> 2 then Inl (ErrText ''record must contain exactly two tabs'')
      else case split_tabs r of
             None \<Rightarrow> Inl (ErrText ''unreachable'')
           | Some (k, d, p) \<Rightarrow>
               let wire = \<lparr>wr_kind = kind_of_text k, wr_display = d, wr_payload = p\<rparr> in
               if \<not> validKind (wr_kind wire) then Inl (ErrText ''invalid record kind'')
               else case DecodePath (wr_payload wire) of
                      Inl e \<Rightarrow> Inl e
                    | Inr path \<Rightarrow>
                        if EncodePath path \<noteq> wr_payload wire
                        then Inl (ErrText ''non-canonical path payload'')
                        else if wr_kind wire = KindVirtual \<and> path \<noteq> VirtualDrivesTarget
                        then Inl (ErrText ''invalid virtual target'')
                        else Inr wire)"

definition FrameRecords :: "wire_record list \<Rightarrow> bytes" where
  "FrameRecords rs = foldl (\<lambda>framed r. append_record framed r @ [NUL]) [] rs"

text \<open>The generic variant, for any type with a \<open>Wire\<close> method.\<close>

definition FrameRecordValues :: "('a \<Rightarrow> wire_record) \<Rightarrow> 'a list \<Rightarrow> bytes" where
  "FrameRecordValues wire vs = foldl (\<lambda>framed v. append_record framed (wire v) @ [NUL]) [] vs"

section \<open>codec.go: display escaping\<close>

definition hex_digit :: "nat \<Rightarrow> char" where
  "hex_digit n = ''0123456789ABCDEF'' ! n"

definition hex_escape :: "char \<Rightarrow> bytes" where
  "hex_escape b = [BACKSLASH, CHR ''x'', hex_digit (byte_of b div 16), hex_digit (byte_of b mod 16)]"

definition simple_escape :: "char \<Rightarrow> bytes option" where
  "simple_escape b =
     (if b = BACKSLASH then Some [BACKSLASH, BACKSLASH]
      else if b = QUOTE then Some [BACKSLASH, QUOTE]
      else if b = TAB then Some [BACKSLASH, CHR ''t'']
      else if b = LF then Some [BACKSLASH, CHR ''n'']
      else if b = CR then Some [BACKSLASH, CHR ''r'']
      else None)"

function EscapeDisplay :: "unicode \<Rightarrow> bytes \<Rightarrow> string" where
  "EscapeDisplay u path =
     (case path of
        [] \<Rightarrow> []
      | b # rest \<Rightarrow>
          (case simple_escape b of
             Some e \<Rightarrow> e @ EscapeDisplay u rest
           | None \<Rightarrow>
               if invalid_head path then hex_escape b @ EscapeDisplay u rest
               else let size = snd (decode_rune path) in
                    (if is_graphic u (fst (decode_rune path)) then take size path
                     else concat (map hex_escape (take size path)))
                    @ EscapeDisplay u (drop size path)))"
  by pat_completeness auto
termination
  by (relation "measure (\<lambda>(u, p). length p)") (auto simp: decode_rune_drop_less)

declare EscapeDisplay.simps [simp del]

lemma EscapeDisplay_Nil [simp]: "EscapeDisplay u [] = []"
  by (simp add: EscapeDisplay.simps)

lemma EscapeDisplay_ascii:
  "simple_escape b = None \<Longrightarrow> byte_of b < 128 \<Longrightarrow>
     EscapeDisplay u (b # r) = (if is_graphic u (byte_of b) then [b] else hex_escape b) @ EscapeDisplay u r"
  by (simp add: EscapeDisplay.simps [of u "b # r"] invalid_head_def RuneError_def)

section \<open>codec.go, outcome.go: writing\<close>

type_synonym 'w writer = "'w \<Rightarrow> bytes \<Rightarrow> int \<times> go_error option \<times> 'w"

definition writeAll :: "'w writer \<Rightarrow> 'w \<Rightarrow> bytes \<Rightarrow> go_error option \<times> 'w" where
  "writeAll w st data =
     (if data = [] then (None, st)
      else case w st data of
             (n, err, st') \<Rightarrow>
               if n < 0 \<or> n > int (length data) then (Some (ErrText ''invalid write count''), st')
               else case err of
                      Some e \<Rightarrow> (Some e, st')
                    | None \<Rightarrow> if n \<noteq> int (length data) then (Some ErrShortWrite, st') else (None, st'))"

text \<open>Write each chunk and then one NUL, stopping at the first error.\<close>

fun write_frames :: "'w writer \<Rightarrow> 'w \<Rightarrow> bytes list \<Rightarrow> go_error option \<times> 'w" where
  "write_frames w st [] = (None, st)"
| "write_frames w st (x # xs) =
     (case writeAll w st x of
        (Some e, st') \<Rightarrow> (Some e, st')
      | (None, st') \<Rightarrow>
          (case writeAll w st' [NUL] of
             (Some e, st'') \<Rightarrow> (Some e, st'')
           | (None, st'') \<Rightarrow> write_frames w st'' xs))"

definition WriteFramedRecords :: "'w writer \<Rightarrow> 'w \<Rightarrow> wire_record list \<Rightarrow> go_error option \<times> 'w" where
  "WriteFramedRecords w st rs = write_frames w st (map wire_bytes rs)"

definition encodeNULOutcome :: "'w writer \<Rightarrow> 'w \<Rightarrow> outcome \<Rightarrow> go_error option \<times> 'w" where
  "encodeNULOutcome w st oc =
     (if out_status oc = StatusAborted then (None, st) else write_frames w st (out_paths oc))"

text \<open>
  \<open>encoding/json\<close> without HTML escaping, for the one object the encoder emits: a string
  escapes the quote, the backslash, control bytes and U+2028/U+2029 (bytes E2 80 A8/A9).
\<close>

definition json_hex :: "nat \<Rightarrow> char" where
  "json_hex n = ''0123456789abcdef'' ! n"

definition json_escape :: "char \<Rightarrow> bytes option" where
  "json_escape c =
     (if c = CHR 0x22 then Some [BACKSLASH, CHR 0x22]
      else if c = BACKSLASH then Some [BACKSLASH, BACKSLASH]
      else if c = CHR 0x08 then Some [BACKSLASH, CHR ''b'']
      else if c = CHR 0x0C then Some [BACKSLASH, CHR ''f'']
      else if c = LF then Some [BACKSLASH, CHR ''n'']
      else if c = CR then Some [BACKSLASH, CHR ''r'']
      else if c = TAB then Some [BACKSLASH, CHR ''t'']
      else if byte_of c < 32
        then Some ([BACKSLASH] @ ''u00'' @ [json_hex (byte_of c div 16), json_hex (byte_of c mod 16)])
      else None)"

fun json_chars :: "bytes \<Rightarrow> bytes" where
  "json_chars [] = []"
| "json_chars (c # s) =
     (case json_escape c of
        Some e \<Rightarrow> e @ json_chars s
      | None \<Rightarrow>
          if c = CHR 0xE2 \<and> take 2 s = [CHR 0x80, CHR 0xA8] then BACKSLASH # ''u2028'' @ json_chars (drop 2 s)
          else if c = CHR 0xE2 \<and> take 2 s = [CHR 0x80, CHR 0xA9] then BACKSLASH # ''u2029'' @ json_chars (drop 2 s)
          else c # json_chars s)"

definition json_string :: "bytes \<Rightarrow> bytes" where
  "json_string s = [CHR 0x22] @ json_chars s @ [CHR 0x22]"

definition status_text :: "status \<Rightarrow> string" where
  "status_text x = (case x of StatusAccepted \<Rightarrow> ''accepted'' | StatusAborted \<Rightarrow> ''aborted'' | StatusOther s \<Rightarrow> s)"

definition json_outcome :: "status \<Rightarrow> bytes list \<Rightarrow> bytes" where
  "json_outcome x paths =
     ''{'' @ json_string ''status'' @ '':'' @ json_string (status_text x) @ '','' @ json_string ''paths''
     @ '':['' @ join_with '','' (map json_string paths) @ '']}'' @ [LF]"

definition encodeNUONOutcome :: "'w writer \<Rightarrow> 'w \<Rightarrow> outcome \<Rightarrow> go_error option \<times> 'w" where
  "encodeNUONOutcome w st oc =
     (let accepted = (out_status oc = StatusAccepted);
          paths = (if accepted then out_paths oc else [])
      in if \<not> list_all valid_utf8 paths then (Some (ErrText ''NUON output path is not valid UTF-8''), st)
         else case w st (json_outcome (out_status oc) paths) of
                (n, Some e, st') \<Rightarrow> (Some (ErrWrap ''encode NUON outcome'' e), st')
              | (n, None, st') \<Rightarrow> (None, st'))"

definition EncodeOutcome :: "'w writer \<Rightarrow> 'w \<Rightarrow> output_format \<Rightarrow> outcome \<Rightarrow> go_error option \<times> 'w" where
  "EncodeOutcome w st fmt oc =
     (if out_status oc \<noteq> StatusAccepted \<and> out_status oc \<noteq> StatusAborted
      then (Some (ErrText ''invalid outcome status''), st)
      else case fmt of
             OutputNUL \<Rightarrow> encodeNULOutcome w st oc
           | OutputNUON \<Rightarrow> encodeNUONOutcome w st oc
           | OutputOther _ \<Rightarrow> (Some (ErrText ''invalid output format''), st))"

section \<open>Wire records: facts\<close>

lemma kind_of_kind_text [simp]: "validKind k \<Longrightarrow> kind_of_text (kind_text k) = k"
  by (cases k) (auto simp: kind_text_def kind_of_text_def validKind_def)

lemma kind_text_of_text [simp]: "kind_text (kind_of_text s) = s"
  by (simp add: kind_text_def kind_of_text_def)

lemma validKind_clean: "validKind k \<Longrightarrow> TAB \<notin> set (kind_text k) \<and> NUL \<notin> set (kind_text k)"
  by (cases k) (auto simp: validKind_def kind_text_def char_consts)

lemma EncodePath_clean: "TAB \<notin> set (EncodePath p)" "NUL \<notin> set (EncodePath p)"
  using b64_encode_clean [of StdEncoding] by (auto simp: EncodePath_def)

lemma EncodePath_eq_Nil [simp]: "EncodePath p = [] \<longleftrightarrow> p = []"
  by (simp add: EncodePath_def)

lemma EncodePath_inject [simp]: "EncodePath p = EncodePath q \<longleftrightarrow> p = q"
  by (simp add: EncodePath_def std64.enc_inject)

lemma DecodePath_EncodePath [wire_simps]: "p \<noteq> [] \<Longrightarrow> DecodePath (EncodePath p) = Inr p"
  by (simp add: DecodePath_def EncodePath_def b64_decode_encode)

lemma wire_bytes_alt: "wire_bytes r = kind_text (wr_kind r) @ TAB # wr_display r @ TAB # wr_payload r"
  by (simp add: wire_bytes_def append_record_def)

lemma append_record_eq: "append_record dst r = dst @ wire_bytes r"
  by (simp add: wire_bytes_def append_record_def)

lemma split_tabs_Some:
  "split_tabs r = Some (k, d, p) \<Longrightarrow> r = k @ TAB # d @ TAB # p \<and> TAB \<notin> set k \<and> TAB \<notin> set d"
  by (auto simp: split_tabs_def split: option.splits dest!: index_byte_Some)

lemma split_tabs_eq:
  "TAB \<notin> set k \<Longrightarrow> TAB \<notin> set d \<Longrightarrow> split_tabs (k @ TAB # d @ TAB # p) = Some (k, d, p)"
  by (simp add: split_tabs_def index_byte_append)

text \<open>
  What a wire record must look like to be acceptable: a known kind, a display without
  separators, and the canonical text of a nonempty payload (the fixed token for the virtual kind).
\<close>

definition wire_ok :: "wire_record \<Rightarrow> bool" where
  "wire_ok r \<longleftrightarrow> validKind (wr_kind r) \<and> TAB \<notin> set (wr_display r) \<and> NUL \<notin> set (wr_display r)
     \<and> (\<exists>p. p \<noteq> [] \<and> wr_payload r = EncodePath p \<and> (wr_kind r = KindVirtual \<longrightarrow> p = VirtualDrivesTarget))"

lemma wire_ok_clean: "wire_ok r \<Longrightarrow> NUL \<notin> set (wire_bytes r)"
proof -
  have "NUL \<noteq> TAB" by (simp add: char_consts)
  then show "wire_ok r \<Longrightarrow> NUL \<notin> set (wire_bytes r)"
    by (auto simp: wire_ok_def wire_bytes_alt EncodePath_clean dest: validKind_clean)
qed

lemma ParseRecord_wire_bytes:
  assumes "wire_ok r"
  shows "ParseRecord (wire_bytes r) = Inr r"
proof -
  from assms obtain p where p: "p \<noteq> []" "wr_payload r = EncodePath p"
    "wr_kind r = KindVirtual \<longrightarrow> p = VirtualDrivesTarget" by (auto simp: wire_ok_def)
  have k: "validKind (wr_kind r)" "TAB \<notin> set (kind_text (wr_kind r))" "TAB \<notin> set (wr_display r)"
    using assms validKind_clean by (auto simp: wire_ok_def)
  have pl: "TAB \<notin> set (wr_payload r)" using p(2) EncodePath_clean by simp
  have "count_byte TAB (kind_text (wr_kind r)) = 0" "count_byte TAB (wr_display r) = 0"
    "count_byte TAB (wr_payload r) = 0"
    using k pl by simp_all
  then have "count_byte TAB (wire_bytes r) = 2"
    by (simp only: wire_bytes_alt count_byte_append count_byte_Cons) simp
  moreover have "split_tabs (wire_bytes r) = Some (kind_text (wr_kind r), wr_display r, wr_payload r)"
    using k by (simp add: wire_bytes_alt split_tabs_eq)
  ultimately show ?thesis
    using wire_ok_clean [OF assms] k p by (auto simp: ParseRecord_def DecodePath_EncodePath Let_def)
qed

lemma ParseRecord_Inr:
  assumes "ParseRecord b = Inr r"
  shows "wire_ok r \<and> b = wire_bytes r"
proof -
  from assms obtain k d p where st: "split_tabs b = Some (k, d, p)" and n: "NUL \<notin> set b"
    by (auto simp: ParseRecord_def split: if_splits option.splits)
  note b = split_tabs_Some [OF st]
  from assms st n obtain path where
    r: "r = \<lparr>wr_kind = kind_of_text k, wr_display = d, wr_payload = p\<rparr>"
      "validKind (kind_of_text k)" "DecodePath p = Inr path" "EncodePath path = p"
      "kind_of_text k = KindVirtual \<longrightarrow> path = VirtualDrivesTarget"
    by (auto simp: ParseRecord_def Let_def split: if_splits sum.splits)
  then have "p \<noteq> []" by (auto simp: DecodePath_def)
  with r(4) have "path \<noteq> []" by auto
  with r b n show ?thesis by (auto simp: wire_ok_def wire_bytes_alt)
qed

text \<open>
  C31: \<open>ParseRecord\<close> accepts exactly the byte strings that \<open>WireRecord.Bytes\<close> produces from
  acceptable records, and returns that record: encoding and parsing are inverse, and no
  second spelling of a record (another base64 text, an unknown kind, a stray tab or NUL, a
  virtual record with another target) gets through.
\<close>

theorem ParseRecord_iff: "ParseRecord b = Inr r \<longleftrightarrow> wire_ok r \<and> b = wire_bytes r"
  using ParseRecord_Inr ParseRecord_wire_bytes by blast

text \<open>
  What strict base64 decoding of a payload admits beyond the canonical text is only carriage
  returns and line feeds: whenever \<open>DecodePath\<close> succeeds, re-encoding gives the payload
  without them.  This is the slack that the comparison in \<open>ParseRecord\<close> removes.
\<close>

theorem DecodePath_canonical:
  assumes "DecodePath s = Inr p"
  shows "EncodePath p = filter not_newline s"
  using assms
  by (auto simp: DecodePath_def EncodePath_def split: if_splits option.splits dest: b64_decode_Some)

theorem DecodePath_canonical_witness:
  "DecodePath (''YQ'' @ [LF] @ ''=='') = Inr ''a'' \<and> EncodePath ''a'' = filter not_newline (''YQ'' @ [LF] @ ''=='')"
proof -
  have d: "DecodePath (''YQ'' @ [LF] @ ''=='') = Inr ''a''" by code_simp
  show ?thesis using d DecodePath_canonical [OF d] by blast
qed

section \<open>Framing: facts\<close>

lemma FrameRecords_eq: "FrameRecords rs = concat (map (\<lambda>r. wire_bytes r @ [NUL]) rs)"
proof -
  have "foldl (\<lambda>framed r. append_record framed r @ [NUL]) acc rs
      = acc @ concat (map (\<lambda>r. wire_bytes r @ [NUL]) rs)" for acc
    by (induction rs arbitrary: acc) (auto simp: append_record_eq)
  then show ?thesis by (simp add: FrameRecords_def)
qed

lemma FrameRecordValues_eq: "FrameRecordValues wire vs = FrameRecords (map wire vs)"
  by (simp add: FrameRecordValues_def FrameRecords_def foldl_map)

text \<open>
  The contract of a writer on which the encoders are used: what it reports as written is
  what its sink received.
\<close>

locale honest_writer =
  fixes w :: "'w writer" and written :: "'w \<Rightarrow> bytes"
  assumes honest: "w st data = (n, err, st') \<Longrightarrow> 0 \<le> n \<Longrightarrow> n \<le> int (length data)
      \<Longrightarrow> written st' = written st @ take (nat n) data"
begin

lemma writeAll_ok: "writeAll w st data = (None, st') \<Longrightarrow> written st' = written st @ data"
proof (cases "data = []")
  case False
  assume ok: "writeAll w st data = (None, st')"
  obtain n err s1 where w: "w st data = (n, err, s1)" by (cases "w st data") auto
  with ok False have "n = int (length data)" "s1 = st'"
    by (auto simp: writeAll_def split: if_splits option.splits)
  with honest [OF w] show ?thesis by simp
qed (simp add: writeAll_def)

lemma write_frames_ok:
  "write_frames w st xs = (None, st') \<Longrightarrow> written st' = written st @ concat (map (\<lambda>x. x @ [NUL]) xs)"
proof (induction xs arbitrary: st)
  case (Cons x xs)
  obtain s1 where s1: "writeAll w st x = (None, s1)"
    using Cons.prems by (auto split: prod.splits option.splits)
  then obtain s2 where s2: "writeAll w s1 [NUL] = (None, s2)"
    using Cons.prems by (auto split: prod.splits option.splits)
  have "write_frames w s2 xs = (None, st')" using Cons.prems s1 s2 by simp
  from Cons.IH [OF this] writeAll_ok [OF s1] writeAll_ok [OF s2] show ?case by simp
qed simp

end

text \<open>\<open>bytes.Buffer\<close>, the sink the picker collects output in.\<close>

definition buffer_writer :: "bytes writer" where
  "buffer_writer buf data = (int (length data), None, buf @ data)"

interpretation buffer: honest_writer buffer_writer "\<lambda>buf. buf"
  by unfold_locales (auto simp: buffer_writer_def)

lemma writeAll_buffer [simp]: "writeAll buffer_writer buf data = (None, buf @ data)"
  by (simp add: writeAll_def buffer_writer_def)

lemma write_frames_buffer [simp]:
  "write_frames buffer_writer buf xs = (None, buf @ concat (map (\<lambda>x. x @ [NUL]) xs))"
  by (induction xs arbitrary: buf) auto

text \<open>
  Writing records frame by frame to a buffer never fails and appends exactly the bytes that
  \<open>FrameRecords\<close> builds at once.
\<close>

theorem WriteFramedRecords_buffer:
  "WriteFramedRecords buffer_writer buf rs = (None, buf @ FrameRecords rs)"
  by (simp add: WriteFramedRecords_def FrameRecords_eq comp_def)

section \<open>Display escaping: facts\<close>

definition hex_value :: "char \<Rightarrow> nat" where
  "hex_value c = (let b = byte_of c in if b < 58 then b - 48 else b - 55)"

text \<open>The reading a user gives to an escaped display.\<close>

fun unescape :: "string \<Rightarrow> bytes" where
  "unescape [] = []"
| "unescape [a] = [a]"
| "unescape (a # c # s) =
     (if a \<noteq> BACKSLASH then a # unescape (c # s)
      else if c = CHR ''x'' then
        (case s of h # l # t \<Rightarrow> char_of (hex_value h * 16 + hex_value l) # unescape t | _ \<Rightarrow> [])
      else if c = CHR ''t'' then TAB # unescape s
      else if c = CHR ''n'' then LF # unescape s
      else if c = CHR ''r'' then CR # unescape s
      else c # unescape s)"

lemma unescape_Cons: "a \<noteq> BACKSLASH \<Longrightarrow> unescape (a # s) = a # unescape s"
  by (cases s) auto

lemma unescape_raw: "BACKSLASH \<notin> set cs \<Longrightarrow> unescape (cs @ s) = cs @ unescape s"
  by (induction cs) (auto simp: unescape_Cons)

lemma less_16_cases: "n < 16 \<longleftrightarrow> n \<in> set [0..<16]" for n :: nat
  by simp

lemma hex_value_digit: "n < 16 \<Longrightarrow> hex_value (hex_digit n) = n"
  unfolding less_16_cases by (auto simp: upt_rec hex_digit_def hex_value_def byte_of_def)

lemma unescape_hex: "unescape (hex_escape b @ s) = b # unescape s"
proof -
  have "byte_of b div 16 < 16" "byte_of b mod 16 < 16" using byte_of_less [of b] by linarith+
  then show ?thesis
    by (simp add: hex_escape_def hex_value_digit)
qed

lemma unescape_hexes: "unescape (concat (map hex_escape cs) @ s) = cs @ unescape s"
  by (induction cs) (auto simp: unescape_hex)

lemma simple_escape_Some: "simple_escape b = Some e \<Longrightarrow> unescape (e @ s) = b # unescape s"
  by (auto simp: simple_escape_def char_consts split: if_splits)

lemma byte_BACKSLASH: "byte_of BACKSLASH = 92"
  by (simp add: BACKSLASH_def byte_of_def)

lemma graphic_chunk_raw:
  assumes "\<not> invalid_head (b # rest)" and "simple_escape b = None"
  shows "BACKSLASH \<notin> set (take (snd (decode_rune (b # rest))) (b # rest))"
proof (cases rule: decode_rune_cases [where a = b and q = rest])
  case ascii
  with assms show ?thesis by (auto simp: simple_escape_def)
next
  case bad
  with assms show ?thesis by (simp add: invalid_head_def)
next
  case (multi r cs q')
  have "BACKSLASH \<notin> set cs"
    using multi(2) byte_BACKSLASH by (auto simp: multi_head_def list_all_iff cont_def)
  moreover have "b \<noteq> BACKSLASH" using multi_head_facts [OF multi(2)] byte_BACKSLASH by auto
  ultimately show ?thesis using multi by simp
qed

text \<open>
  The escaped display determines the path: reading the escapes back gives the original bytes,
  whatever they are (control bytes, invalid UTF-8, quotes and backslashes included), so two
  different paths never look the same on screen.
\<close>

theorem unescape_EscapeDisplay: "unescape (EscapeDisplay u path) = path"
proof (induction u path rule: EscapeDisplay.induct)
  case (1 u path)
  show ?case
  proof (cases path)
    case Nil
    then show ?thesis by (simp add: EscapeDisplay.simps)
  next
    case (Cons b rest)
    show ?thesis
    proof (cases "simple_escape b")
      case (Some e)
      with 1(3) [OF Cons Some] Cons show ?thesis
        by (simp add: EscapeDisplay.simps [of u "b # rest"] simple_escape_Some)
    next
      case None
      note IH = 1(1) [OF Cons None] 1(2) [OF Cons None]
      show ?thesis
      proof (cases "invalid_head path")
        case True
        with IH(1) Cons None show ?thesis
          by (simp add: EscapeDisplay.simps [of u "b # rest"] unescape_hex)
      next
        case False
        let ?n = "snd (decode_rune path)"
        have "BACKSLASH \<notin> set (take ?n path)"
          using graphic_chunk_raw False None Cons by blast
        then have "unescape (EscapeDisplay u path) = take ?n path @ unescape (EscapeDisplay u (drop ?n path))"
          using False Cons None
          by (simp add: EscapeDisplay.simps [of u "b # rest"] Let_def unescape_raw unescape_hexes)
        with IH(2) [OF False refl] show ?thesis by simp
      qed
    qed
  qed
qed

lemma hex_escape_safe: "c \<in> set (hex_escape b) \<Longrightarrow> 32 \<le> byte_of c"
proof -
  have "32 \<le> byte_of (hex_digit n)" if "n < 16" for n
    using that unfolding less_16_cases by (auto simp: upt_rec hex_digit_def byte_of_def)
  moreover have "byte_of b div 16 < 16" "byte_of b mod 16 < 16" using byte_of_less [of b] by linarith+
  moreover assume "c \<in> set (hex_escape b)"
  ultimately show ?thesis by (auto simp: hex_escape_def byte_BACKSLASH byte_of_def [of "CHR ''x''"])
qed

lemma simple_escape_safe: "simple_escape b = Some e \<Longrightarrow> c \<in> set e \<Longrightarrow> 32 \<le> byte_of c"
  by (auto simp: simple_escape_def char_consts byte_of_def split: if_splits)

text \<open>
  What the escaping relies on from the Unicode tables: control characters (category Cc)
  below the space are not graphic.
\<close>

definition controls_hidden :: "unicode \<Rightarrow> bool" where
  "controls_hidden u \<longleftrightarrow> (\<forall>r < 32. \<not> is_graphic u r)"

lemma controls_hidden_latin1 [simp]: "controls_hidden latin1"
  by (simp add: controls_hidden_def latin1_def)

lemma graphic_chunk_safe:
  assumes "controls_hidden u"
    and "\<not> invalid_head (b # rest)" and "is_graphic u (fst (decode_rune (b # rest)))"
    and "c \<in> set (take (snd (decode_rune (b # rest))) (b # rest))"
  shows "32 \<le> byte_of c"
proof (cases rule: decode_rune_cases [where a = b and q = rest])
  case ascii
  with assms(1,3,4) show ?thesis by (auto simp: controls_hidden_def not_less [symmetric])
next
  case bad
  with assms show ?thesis by (simp add: invalid_head_def)
next
  case (multi r cs q')
  then show ?thesis
    using assms(4) multi_head_facts [OF multi(2)]
    by (auto simp: multi_head_def list_all_iff cont_def)
qed

lemma EscapeDisplay_printable:
  "controls_hidden u \<Longrightarrow> c \<in> set (EscapeDisplay u path) \<Longrightarrow> 32 \<le> byte_of c"
proof (induction u path rule: EscapeDisplay.induct)
  case (1 u path)
  show ?case
  proof (cases path)
    case Nil
    with 1 show ?thesis by (simp add: EscapeDisplay.simps)
  next
    case (Cons b rest)
    show ?thesis
    proof (cases "simple_escape b")
      case (Some e)
      with 1(3) [OF Cons Some] 1(4,5) Cons show ?thesis
        by (auto simp: EscapeDisplay.simps [of u "b # rest"] dest: simple_escape_safe)
    next
      case None
      note IH = 1(1) [OF Cons None] 1(2) [OF Cons None]
      show ?thesis
      proof (cases "invalid_head path")
        case True
        with IH(1) 1(4,5) Cons None show ?thesis
          by (auto simp: EscapeDisplay.simps [of u "b # rest"] dest: hex_escape_safe)
      next
        case False
        with 1(5) Cons None consider
            "is_graphic u (fst (decode_rune path))" "c \<in> set (take (snd (decode_rune path)) path)"
          | b' where "c \<in> set (hex_escape b')"
          | "c \<in> set (EscapeDisplay u (drop (snd (decode_rune path)) path))"
          by (auto simp: EscapeDisplay.simps [of u "b # rest"] Let_def split: if_splits)
        then show ?thesis
          using IH(2) [OF False refl 1(4)] graphic_chunk_safe [OF 1(4)] False Cons hex_escape_safe
          by cases blast+
      qed
    qed
  qed
qed

text \<open>
  An escaped display never contains a byte below the space: no tab or NUL that would break the
  wire record or its frame, and no newline, carriage return or escape byte that would break
  the terminal line.
\<close>

theorem EscapeDisplay_safe:
  assumes "controls_hidden u" and "c \<in> set (EscapeDisplay u path)"
  shows "c \<noteq> TAB \<and> c \<noteq> NUL \<and> c \<noteq> LF \<and> c \<noteq> CR \<and> 32 \<le> byte_of c"
  using EscapeDisplay_printable [OF assms] by (auto simp: char_consts byte_of_def)

theorem EscapeDisplay_safe_witness:
  "controls_hidden latin1 \<and> BACKSLASH \<in> set (EscapeDisplay latin1 [TAB]) \<and>
   BACKSLASH \<noteq> TAB \<and> BACKSLASH \<noteq> NUL \<and> BACKSLASH \<noteq> LF \<and> BACKSLASH \<noteq> CR \<and> 32 \<le> byte_of BACKSLASH"
proof -
  have "simple_escape TAB = Some [BACKSLASH, CHR ''t'']" by code_simp
  then have m: "BACKSLASH \<in> set (EscapeDisplay latin1 [TAB])"
    by (simp add: EscapeDisplay.simps [of _ "[TAB]"])
  show ?thesis using m EscapeDisplay_safe [OF controls_hidden_latin1 m] by simp
qed

text \<open>Hence every record that the candidate sources build is acceptable on the wire.\<close>

lemma wire_ok_escaped:
  assumes "controls_hidden u" and "validKind k" and "k \<noteq> KindVirtual" and "p \<noteq> []"
    and "\<And>c. c \<in> set d \<Longrightarrow> 32 \<le> byte_of c"
  shows "wire_ok \<lparr>wr_kind = k, wr_display = d, wr_payload = EncodePath p\<rparr>"
  using assms by (force simp: wire_ok_def char_consts byte_of_def)

section \<open>Outcomes: facts\<close>

text \<open>
  In NUL format an accepted outcome is written as each path followed by one NUL, an aborted one
  writes nothing, and any other status is refused before a byte is written.
\<close>

theorem EncodeOutcome_NUL:
  "EncodeOutcome buffer_writer buf OutputNUL oc =
     (case out_status oc of
        StatusAccepted \<Rightarrow> (None, buf @ concat (map (\<lambda>p. p @ [NUL]) (out_paths oc)))
      | StatusAborted \<Rightarrow> (None, buf)
      | StatusOther _ \<Rightarrow> (Some (ErrText ''invalid outcome status''), buf))"
  by (cases "out_status oc") (simp_all add: EncodeOutcome_def encodeNULOutcome_def)

lemma LF_neq:
  "LF \<noteq> BACKSLASH" "LF \<noteq> CHR 0x22" "LF \<noteq> CHR ''b''" "LF \<noteq> CHR ''f''" "LF \<noteq> CHR ''n''" "LF \<noteq> CHR ''r''"
  "LF \<noteq> CHR ''t''" "LF \<noteq> CHR ''u''" "LF \<noteq> CHR ''0''" "LF \<noteq> CHR ''2''" "LF \<noteq> CHR ''8''" "LF \<noteq> CHR ''9''"
  by (simp_all add: char_consts)

lemma json_hex_neq: "json_hex (byte_of c div 16) \<noteq> LF" "json_hex (byte_of c mod 16) \<noteq> LF"
proof -
  have "json_hex n \<noteq> LF" if "n < 16" for n
    using that unfolding less_16_cases by (auto simp: upt_rec json_hex_def LF_def)
  moreover have "byte_of c div 16 < 16" using byte_of_less [of c] by (simp add: less_mult_imp_div_less)
  ultimately show "json_hex (byte_of c div 16) \<noteq> LF" "json_hex (byte_of c mod 16) \<noteq> LF" by simp_all
qed

lemma json_escape_safe: "json_escape c = Some e \<Longrightarrow> LF \<notin> set e"
  using json_hex_neq [of c] by (auto simp: json_escape_def LF_neq split: if_splits)

lemma json_escape_LF [simp]: "json_escape LF \<noteq> None"
  by (simp add: json_escape_def)

lemma json_chars_safe: "LF \<notin> set (json_chars s)"
  by (induction s rule: json_chars.induct)
     (auto simp: LF_neq split: option.splits dest: json_escape_safe)

lemma json_string_safe: "LF \<notin> set (json_string s)"
  using json_chars_safe [of s] by (simp add: json_string_def char_consts)

text \<open>
  In NUON format the output is one line: a path may contain newlines or quotes, but the only line
  feed the encoder writes is the final one; a path that is not valid UTF-8 is refused and
  nothing is written.
\<close>

theorem EncodeOutcome_NUON:
  assumes "out_status oc = StatusAccepted"
  shows "if list_all valid_utf8 (out_paths oc)
     then \<exists>line. EncodeOutcome buffer_writer buf OutputNUON oc = (None, buf @ line @ [LF]) \<and> LF \<notin> set line
     else EncodeOutcome buffer_writer buf OutputNUON oc
          = (Some (ErrText ''NUON output path is not valid UTF-8''), buf)"
proof (cases "list_all valid_utf8 (out_paths oc)")
  case True
  let ?line = "butlast (json_outcome StatusAccepted (out_paths oc))"
  have "json_outcome StatusAccepted (out_paths oc) = ?line @ [LF]"
    by (simp add: json_outcome_def butlast_append)
  moreover have "LF \<notin> set ?line"
    by (auto simp: json_outcome_def butlast_append json_string_safe dest!: set_join_with) (simp_all add: LF_def)
  ultimately show ?thesis using True assms
    by (auto simp: EncodeOutcome_def encodeNUONOutcome_def Let_def buffer_writer_def)
next
  case False
  then show ?thesis using assms by (simp add: EncodeOutcome_def encodeNUONOutcome_def Let_def)
qed

theorem EncodeOutcome_NUON_witness:
  "\<exists>line. EncodeOutcome buffer_writer [] OutputNUON \<lparr>out_status = StatusAccepted, out_paths = [[LF]]\<rparr>
     = (None, [] @ line @ [LF]) \<and> LF \<notin> set line"
proof -
  let ?oc = "\<lparr>out_status = StatusAccepted, out_paths = [[LF]]\<rparr>"
  have "list_all valid_utf8 (out_paths ?oc)" by (simp add: LF_def byte_of_def)
  with EncodeOutcome_NUON [of ?oc "[]"] show ?thesis by simp
qed

end
