(* ===== verification/Pathutil.thy ===== *)
theory Pathutil
  imports Protocol Go_Filepath
begin

text \<open>
  \<open>internal/pathutil\<close> on Unix: locations and their lexical operations (location.go,
  location_unix.go) and the creation of a directory chain with rollback (add_unix.go).

  The file system is the operating system's, so its calls are a record of functions over an
  arbitrary state.  What the code relies on is the locale \<open>posix_fs\<close>, stated for
  \<^emph>\<open>real\<close> paths: \<open>view s p\<close> is the node at \<open>p\<close> when every proper ancestor of \<open>p\<close> is a
  directory and not a symbolic link.  Under a link, creating a directory also changes what
  other paths denote, so none of the laws speaks about such a path; the ancestry check of
  the code is what makes them applicable.  Concurrent changes by other programs are outside
  the model, as the comment in \<open>CreateDirectoryTree\<close> puts them outside the code's promise.
\<close>

section \<open>location.go\<close>

datatype location_kind = LocFilesystem | LocDrives | LocOther nat

record location =
  loc_kind :: location_kind
  loc_path :: bytes

definition Filesystem :: "bytes \<Rightarrow> location" where
  "Filesystem p = \<lparr>loc_kind = LocFilesystem, loc_path = p\<rparr>"

definition Drives :: location where
  "Drives = \<lparr>loc_kind = LocDrives, loc_path = []\<rparr>"

lemma Filesystem_sel [simp]: "loc_kind (Filesystem p) = LocFilesystem" "loc_path (Filesystem p) = p"
  by (simp_all add: Filesystem_def)

lemma Drives_sel [simp]: "loc_kind Drives = LocDrives" "loc_path Drives = []"
  by (simp_all add: Drives_def)

lemma Filesystem_loc_path: "loc_kind l = LocFilesystem \<Longrightarrow> Filesystem (loc_path l) = l"
  by (cases l) (simp add: Filesystem_def)

record created_tree =
  ct_target :: location
  ct_created :: "bytes list"

text \<open>Go's zero value of \<open>CreatedTree\<close>.\<close>

definition no_tree :: created_tree where
  "no_tree = \<lparr>ct_target = \<lparr>loc_kind = LocOther 0, loc_path = []\<rparr>, ct_created = []\<rparr>"

definition ErrInvalidAdd :: go_error where
  "ErrInvalidAdd = ErrText ''invalid add query''"

definition ErrUnsafeTraversal :: go_error where
  "ErrUnsafeTraversal = ErrText ''unsafe filesystem traversal''"

section \<open>location_unix.go\<close>

definition Root :: location where
  "Root = Filesystem [SLASH]"

definition Parent :: "location \<Rightarrow> location" where
  "Parent l = (if loc_kind l \<noteq> LocFilesystem then Root else Filesystem (path_dir (loc_path l)))"

definition Relative :: "bytes \<Rightarrow> bytes \<Rightarrow> bytes" where
  "Relative base target =
     (case path_rel base target of
        None \<Rightarrow> target
      | Some r \<Rightarrow> if r \<noteq> [] \<and> hd r = CHR ''-'' then ''./'' @ r else r)"

definition CompactHome :: "bytes \<Rightarrow> bytes \<Rightarrow> bytes" where
  "CompactHome path home =
     (if \<not> is_abs path \<or> \<not> is_abs home then path
      else case path_rel home path of
             None \<Rightarrow> path
           | Some r \<Rightarrow>
               if r = ''..'' \<or> has_prefix r ''../'' then path
               else if r = ''.'' then ''~''
               else ''~/'' @ r)"

definition PromptDisplay :: "unicode \<Rightarrow> location \<Rightarrow> string" where
  "PromptDisplay u l =
     (if loc_kind l \<noteq> LocFilesystem then ''Drives/''
      else let p = trim_right SLASH (loc_path l) in
           if p = [] then ''/'' else EscapeDisplay u p @ ''/'')"

definition PromptDisplayHome :: "unicode \<Rightarrow> location \<Rightarrow> location \<Rightarrow> string" where
  "PromptDisplayHome u l home =
     (if loc_kind l \<noteq> LocFilesystem \<or> loc_kind home \<noteq> LocFilesystem then PromptDisplay u l
      else PromptDisplay u (Filesystem (CompactHome (loc_path l) (loc_path home))))"

definition splitSeparators :: "bytes \<Rightarrow> bytes list" where
  "splitSeparators p = fields_on SLASH p"

definition ValidateAddQuery :: "location \<Rightarrow> bytes \<Rightarrow> go_error option" where
  "ValidateAddQuery base query =
     (if loc_kind base \<noteq> LocFilesystem \<or> query = [] \<or> is_abs query then Some ErrInvalidAdd
      else if DOTDOT \<in> set (splitSeparators query) then Some ErrInvalidAdd
      else None)"

section \<open>The file system the code calls\<close>

datatype node = NDir | NSymlink | NOther

record 's os_fs =
  fs_lstat :: "'s \<Rightarrow> bytes \<Rightarrow> node result"
  fs_mkdir :: "'s \<Rightarrow> bytes \<Rightarrow> go_error option \<times> 's"
  fs_remove :: "'s \<Rightarrow> bytes \<Rightarrow> go_error option \<times> 's"

definition ErrNotExist :: go_error where "ErrNotExist = ErrText ''file does not exist''"
definition ENOTEMPTY :: go_error where "ENOTEMPTY = ErrText ''directory not empty''"
definition EEXIST :: go_error where "EEXIST = ErrText ''file exists''"

section \<open>Rollback (location.go) and add_unix.go\<close>

definition isDirectoryNotEmpty :: "go_error \<Rightarrow> bool" where
  "isDirectoryNotEmpty e \<longleftrightarrow> errors_is e ENOTEMPTY \<or> errors_is e EEXIST"

text \<open>The loop of \<open>Rollback\<close>, over the created paths in reverse.\<close>

fun rollback_loop :: "'s os_fs \<Rightarrow> bytes list \<Rightarrow> go_error option \<Rightarrow> 's \<Rightarrow> go_error option \<times> 's" where
  "rollback_loop fs [] acc s = (acc, s)"
| "rollback_loop fs (p # ps) acc s =
     (case fs_remove fs s p of
        (None, s') \<Rightarrow> rollback_loop fs ps acc s'
      | (Some e, s') \<Rightarrow>
          if \<not> errors_is e ErrNotExist \<and> \<not> isDirectoryNotEmpty e
          then rollback_loop fs ps (errors_join acc (Some (ErrWrap ''remove'' e))) s'
          else rollback_loop fs ps acc s')"

definition Rollback :: "'s os_fs \<Rightarrow> created_tree \<Rightarrow> 's \<Rightarrow> go_error option \<times> 's" where
  "Rollback fs t s = rollback_loop fs (rev (ct_created t)) None s"

definition rollbackAfterError :: "'s os_fs \<Rightarrow> created_tree \<Rightarrow> go_error \<Rightarrow> 's \<Rightarrow> created_tree result \<times> 's" where
  "rollbackAfterError fs t err s =
     (case Rollback fs t s of
        (None, s') \<Rightarrow> (Inl err, s')
      | (Some r, s') \<Rightarrow> (Inl (ErrJoin err r), s'))"

definition ancestry_step :: "bytes list \<times> bytes \<Rightarrow> bytes \<Rightarrow> bytes list \<times> bytes" where
  "ancestry_step = (\<lambda>(anc, current) c. let next = path_join current c in (anc @ [next], next))"

definition absoluteAncestryUnix :: "bytes \<Rightarrow> bytes list result" where
  "absoluteAncestryUnix base =
     (if \<not> is_abs base then Inl (ErrText ''base path is not absolute'')
      else Inr (fst (foldl ancestry_step ([[SLASH]], [SLASH]) (splitSeparators base))))"

definition checkDirectoryUnix :: "'s os_fs \<Rightarrow> 's \<Rightarrow> bytes \<Rightarrow> go_error option" where
  "checkDirectoryUnix fs s p =
     (case fs_lstat fs s p of
        Inl e \<Rightarrow> Some (ErrWrap ''inspect base ancestry'' e)
      | Inr NSymlink \<Rightarrow> Some (ErrWrap ''base ancestor is a symlink'' ErrUnsafeTraversal)
      | Inr NOther \<Rightarrow> Some (ErrText ''base ancestor is not a directory'')
      | Inr NDir \<Rightarrow> None)"

fun check_all :: "'s os_fs \<Rightarrow> 's \<Rightarrow> bytes list \<Rightarrow> go_error option" where
  "check_all fs s [] = None"
| "check_all fs s (p # ps) = (case checkDirectoryUnix fs s p of Some e \<Rightarrow> Some e | None \<Rightarrow> check_all fs s ps)"

text \<open>The component loop of \<open>CreateDirectoryTree\<close>; \<open>current\<close> is the path built so far.\<close>

fun create_loop :: "'s os_fs \<Rightarrow> bytes list \<Rightarrow> created_tree \<Rightarrow> bytes \<Rightarrow> 's \<Rightarrow> created_tree result \<times> 's" where
  "create_loop fs [] t current s = (Inr (t\<lparr>ct_target := Filesystem current\<rparr>), s)"
| "create_loop fs (c # cs) t current s =
     (if c = DOT then create_loop fs cs t current s
      else let current = path_join current c in
           case fs_lstat fs s current of
             Inr NSymlink \<Rightarrow> rollbackAfterError fs t (ErrWrap ''path component is a symlink'' ErrUnsafeTraversal) s
           | Inr NOther \<Rightarrow> rollbackAfterError fs t (ErrText ''path component is not a directory'') s
           | Inr NDir \<Rightarrow> create_loop fs cs t current s
           | Inl e \<Rightarrow>
               if errors_is e ErrNotExist then
                 (case fs_mkdir fs s current of
                    (Some m, s') \<Rightarrow> rollbackAfterError fs t (ErrWrap ''create directory'' m) s'
                  | (None, s') \<Rightarrow> create_loop fs cs (t\<lparr>ct_created := ct_created t @ [current]\<rparr>) current s')
               else rollbackAfterError fs t (ErrWrap ''inspect path component'' e) s)"

definition CreateDirectoryTree :: "'s os_fs \<Rightarrow> location \<Rightarrow> bytes \<Rightarrow> 's \<Rightarrow> created_tree result \<times> 's" where
  "CreateDirectoryTree fs base query s =
     (case ValidateAddQuery base query of
        Some e \<Rightarrow> (Inl e, s)
      | None \<Rightarrow>
          (case absoluteAncestryUnix (loc_path base) of
             Inl e \<Rightarrow> (Inl e, s)
           | Inr ancestry \<Rightarrow>
               (case check_all fs s ancestry of
                  Some e \<Rightarrow> (Inl e, s)
                | None \<Rightarrow>
                    let basePath = path_clean (loc_path base) in
                    create_loop fs (splitSeparators query)
                      \<lparr>ct_target = Filesystem basePath, ct_created = []\<rparr> basePath s)))"

section \<open>Lexical facts\<close>

lemma split_dot_slash: "split_on SLASH (''./'' @ r) = DOT # split_on SLASH r"
proof -
  have "''./'' @ r = DOT @ SLASH # r" by (simp add: DOT_def SLASH_def)
  then show ?thesis by (simp only: split_on_snoc_sep) (simp add: DOT_def SLASH_def)
qed

lemma path_join_dot_slash: "is_abs p \<Longrightarrow> path_join p (''./'' @ r) = path_join p r"
  by (simp add: path_join_abs split_dot_slash clean_step_def del: append.simps)

lemma join_with_Nil_iff: "join_with sep (x # xs) = [] \<Longrightarrow> x = []"
  by (cases xs) auto

lemma path_rel_nonempty:
  assumes "is_abs base" and "is_abs target" and "path_rel base target = Some r"
  shows "r \<noteq> []"
proof -
  from path_rel_abs [OF assms(1,2)] obtain ps bs ts where
    st: "clean_stack base = ps @ bs" "clean_stack target = ps @ ts"
    and pr: "path_rel base target = Some (if bs = [] \<and> ts = [] then DOT
        else join_with [SLASH] (map (\<lambda>_. DOTDOT) bs @ ts))"
    by blast
  have r: "r = (if bs = [] \<and> ts = [] then DOT else join_with [SLASH] (map (\<lambda>_. DOTDOT) bs @ ts))"
    using pr assms(3) by (simp only: option.inject)
  have "list_all norm_comp ts" using clean_stack_abs [OF assms(2)] st(2) by simp
  then show ?thesis unfolding r
    by (cases bs; cases ts) (auto dest: join_with_Nil_iff simp: norm_comp_def simp del: map_replicate_const)
qed

text \<open>
  The relative path that a cp picker prints leads back to the selected file: resolved against
  the base directory it is the cleaned target, it is never empty, and it never starts with a
  dash that a command would take for an option.
\<close>

theorem Relative_resolves:
  assumes "is_abs base" and "is_abs target"
  shows "path_join base (Relative base target) = path_clean target
    \<and> Relative base target \<noteq> [] \<and> hd (Relative base target) \<noteq> CHR ''-''"
proof -
  obtain r where r: "path_rel base target = Some r" using path_rel_abs [OF assms] by auto
  with path_rel_nonempty [OF assms r] path_join_rel [OF assms r] path_join_dot_slash [OF assms(1), of r]
  show ?thesis by (auto simp: Relative_def)
qed

theorem Relative_resolves_witness:
  "is_abs ''/a/b'' \<and> is_abs ''/a/-x'' \<and> Relative ''/a/b'' ''/a/-x'' = ''../-x''
   \<and> path_join ''/a/b'' (Relative ''/a/b'' ''/a/-x'') = path_clean ''/a/-x''"
proof -
  have a: "is_abs ''/a/b''" "is_abs ''/a/-x''" by (simp_all add: is_abs_def SLASH_def)
  have "Relative ''/a/b'' ''/a/-x'' = ''../-x''" by code_simp
  with a Relative_resolves [OF a] show ?thesis by blast
qed

text \<open>What a shell reads in a compacted path.\<close>

definition expand_home :: "bytes \<Rightarrow> bytes \<Rightarrow> bytes" where
  "expand_home home p =
     (if p = ''~'' then path_clean home
      else if has_prefix p ''~/'' then path_join home (drop 2 p)
      else path_clean p)"

lemma abs_not_tilde: "is_abs p \<Longrightarrow> p \<noteq> ''~'' \<and> \<not> has_prefix p ''~/''"
  by (cases p) (auto simp: is_abs_def has_prefix_def SLASH_def)

lemma path_join_DOT: "is_abs p \<Longrightarrow> path_join p DOT = path_clean p"
  by (simp add: path_join_abs path_clean_abs split_on_no_sep clean_step_def)

text \<open>
  Compacting the home directory to a tilde loses nothing: for absolute paths, expanding the tilde
  in the result gives the cleaned original path, inside the home directory and outside it.
\<close>

theorem CompactHome_expand:
  assumes "is_abs path" and "is_abs home"
  shows "expand_home home (CompactHome path home) = path_clean path"
proof -
  obtain r where r: "path_rel home path = Some r" using path_rel_abs [OF assms(2,1)] by auto
  have "expand_home home (''~/'' @ r) = path_join home r" by (simp add: expand_home_def has_prefix_def)
  moreover have "r = ''.'' \<Longrightarrow> path_clean home = path_clean path"
    using path_join_rel [OF assms(2,1) r] path_join_DOT [OF assms(2)] by (simp add: DOT_def)
  ultimately show ?thesis
    using assms r path_join_rel [OF assms(2,1) r] abs_not_tilde [OF assms(1)]
    by (auto simp: CompactHome_def expand_home_def)
qed

theorem CompactHome_expand_witness:
  "is_abs ''/h/u/x'' \<and> is_abs ''/h/u'' \<and> CompactHome ''/h/u/x'' ''/h/u'' = ''~/x''
   \<and> expand_home ''/h/u'' (CompactHome ''/h/u/x'' ''/h/u'') = path_clean ''/h/u/x''"
proof -
  have a: "is_abs ''/h/u/x''" "is_abs ''/h/u''" by (simp_all add: is_abs_def SLASH_def)
  have "CompactHome ''/h/u/x'' ''/h/u'' = ''~/x''" by code_simp
  with a CompactHome_expand [OF a] show ?thesis by blast
qed

lemma Parent_child:
  "list_all norm_comp cs \<Longrightarrow> norm_comp c \<Longrightarrow>
     Parent (Filesystem (abs_path (cs @ [c]))) = Filesystem (abs_path cs)"
  by (simp add: Parent_def path_dir_snoc)

lemma Parent_root: "Parent (Filesystem (abs_path [])) = Filesystem (abs_path [])"
  by (simp add: Parent_def path_dir_root)

lemma clean_fold_fields:
  "foldl (clean_step r) st (fields_on SLASH p) = foldl (clean_step r) st (split_on SLASH p)"
proof -
  have "foldl (clean_step r) st (filter (\<lambda>p. p \<noteq> []) ps) = foldl (clean_step r) st ps" for ps
    by (induction ps arbitrary: st) (auto simp: clean_step_def)
  then show ?thesis by (simp add: fields_on_def)
qed

lemma clean_stack_fields: "is_abs p \<Longrightarrow> clean_stack p = foldl (clean_step True) [] (splitSeparators p)"
  by (simp add: clean_stack_def splitSeparators_def clean_fold_fields)

lemma ValidateAddQuery_comps:
  assumes "ValidateAddQuery base query = None" and "c \<in> set (splitSeparators query)" and "c \<noteq> DOT"
  shows "norm_comp c"
  using assms fields_on_parts [of c SLASH query]
  by (auto simp: ValidateAddQuery_def splitSeparators_def norm_comp_def split: if_splits)

section \<open>What the code relies on from the file system\<close>

type_synonym fs_view = "bytes list \<Rightarrow> node option"

definition linked :: "fs_view \<Rightarrow> bytes list \<Rightarrow> bool" where
  "linked v cs \<longleftrightarrow> cs = [] \<or> v (butlast cs) = Some NDir"

definition closed_view :: "fs_view \<Rightarrow> bool" where
  "closed_view v \<longleftrightarrow> (\<forall>cs c. v (cs @ [c]) \<noteq> None \<longrightarrow> v cs = Some NDir)"

text \<open>\<open>grown v ds w\<close>: creating the directories \<open>ds\<close> one after the other turns \<open>v\<close> into \<open>w\<close>.\<close>

inductive grown :: "fs_view \<Rightarrow> bytes list list \<Rightarrow> fs_view \<Rightarrow> bool" for v :: fs_view where
  grown_none: "grown v [] v"
| grown_mkdir: "grown v ds w \<Longrightarrow> closed_view w \<Longrightarrow> w d = None \<Longrightarrow> grown v (ds @ [d]) (w(d \<mapsto> NDir))"

inductive_cases grown_NilE: "grown v [] w"
inductive_cases grown_snocE: "grown v (ds @ [d]) w"

lemma grown_view:
  "grown v ds w \<Longrightarrow> distinct ds \<and> (\<forall>d \<in> set ds. v d = None) \<and>
     w = (\<lambda>x. if x \<in> set ds then Some NDir else v x)"
proof (induction rule: grown.induct)
  case (grown_mkdir ds w d)
  from grown_mkdir.IH grown_mkdir.hyps(3) have "d \<notin> set ds" "v d = None" by (auto split: if_splits)
  with grown_mkdir.IH show ?case by auto
qed auto

lemma closed_view_prefix:
  assumes "closed_view v" and "v cs = Some NDir"
  shows "v (take k cs) = Some NDir"
  using assms(2)
proof (induction cs arbitrary: k rule: rev_induct)
  case (snoc c cs)
  then have "v cs = Some NDir" using assms(1) by (auto simp: closed_view_def)
  with snoc show ?case by (cases "k \<le> length cs") auto
qed simp

lemma check_all_None: "check_all fs s ps = None \<longleftrightarrow> (\<forall>p \<in> set ps. checkDirectoryUnix fs s p = None)"
  by (induction ps) (auto split: option.splits)

lemma ancestry_mono: "set anc \<subseteq> set (fst (foldl ancestry_step (anc, p) cs))"
  by (induction cs arbitrary: anc p) (fastforce simp: ancestry_step_def Let_def)+

locale posix_fs =
  fixes fs :: "'s os_fs" and view :: "'s \<Rightarrow> fs_view"
  assumes view_closed: "closed_view (view s)"
    and lstat_found: "list_all norm_comp cs \<Longrightarrow> linked (view s) cs \<Longrightarrow>
          fs_lstat fs s (abs_path cs) = Inr n \<Longrightarrow> view s cs = Some n"
    and lstat_missing: "list_all norm_comp cs \<Longrightarrow> linked (view s) cs \<Longrightarrow>
          fs_lstat fs s (abs_path cs) = Inl e \<Longrightarrow> errors_is e ErrNotExist \<Longrightarrow> view s cs = None"
    and mkdir_done: "list_all norm_comp cs \<Longrightarrow> linked (view s) cs \<Longrightarrow>
          fs_mkdir fs s (abs_path cs) = (None, s') \<Longrightarrow> view s cs = None \<and> view s' = (view s)(cs \<mapsto> NDir)"
    and mkdir_failed: "fs_mkdir fs s p = (Some e, s') \<Longrightarrow> view s' = view s"
    and remove_done: "list_all norm_comp cs \<Longrightarrow> view s cs = Some NDir \<Longrightarrow>
          fs_remove fs s (abs_path cs) = (None, s') \<Longrightarrow> view s' = (view s)(cs := None)"
    and remove_failed: "fs_remove fs s p = (Some e, s') \<Longrightarrow> view s' = view s"
    and remove_missing: "list_all norm_comp cs \<Longrightarrow> view s cs = Some NDir \<Longrightarrow>
          fs_remove fs s (abs_path cs) = (Some e, s') \<Longrightarrow> \<not> errors_is e ErrNotExist"
    and remove_nonempty: "list_all norm_comp cs \<Longrightarrow> view s cs = Some NDir \<Longrightarrow>
          fs_remove fs s (abs_path cs) = (Some e, s') \<Longrightarrow> isDirectoryNotEmpty e \<Longrightarrow>
          \<exists>c. view s (cs @ [c]) \<noteq> None"
begin

lemma view_parent: "view s (cs @ [c]) = Some n \<Longrightarrow> view s cs = Some NDir"
  using view_closed [of s] by (auto simp: closed_view_def)

lemma rollback_acc: "rollback_loop fs ps (Some e) s = (r, s') \<Longrightarrow> r \<noteq> None"
proof (induction fs ps "Some e" s arbitrary: e rule: rollback_loop.induct)
  case (2 fs p ps s)
  obtain r1 s1 where "fs_remove fs s p = (r1, s1)" by fastforce
  with 2 show ?case
    by (cases "errors_join (Some e) (Some (ErrWrap ''remove'' (the r1)))")
       (auto split: option.splits if_splits)
qed auto

text \<open>Whatever fails, rollback changes nothing but the recorded directories.\<close>

lemma rollback_keeps:
  assumes "rollback_loop fs (map abs_path ds) acc s = (r, s')"
    and "distinct ds" and "list_all (list_all norm_comp) ds" and "\<forall>d \<in> set ds. view s d = Some NDir"
  shows "\<forall>x. x \<notin> set ds \<longrightarrow> view s' x = view s x"
  using assms
proof (induction ds arbitrary: acc s)
  case (Cons d ds)
  obtain r1 s1 where rm: "fs_remove fs s (abs_path d) = (r1, s1)" by fastforce
  have v: "view s1 = (view s)(d := None) \<or> view s1 = view s"
    using rm remove_done [of d s s1] remove_failed [of s _ _ s1] Cons.prems by (cases r1) auto
  have "\<exists>acc'. rollback_loop fs (map abs_path ds) acc' s1 = (r, s')"
    using Cons.prems(1) rm by (auto split: option.splits if_splits)
  moreover have "\<forall>x \<in> set ds. view s1 x = Some NDir" using v Cons.prems by auto
  ultimately have "\<forall>x. x \<notin> set ds \<longrightarrow> view s' x = view s1 x" using Cons by auto
  with v show ?case by auto
qed simp

text \<open>When it reports no error, all of them are gone again.\<close>

lemma rollback_clean:
  assumes "grown v ds (view s)" and "list_all (list_all norm_comp) ds"
    and "rollback_loop fs (map abs_path (rev ds)) None s = (None, s')"
  shows "view s' = v"
  using assms
proof (induction ds arbitrary: s rule: rev_induct)
  case Nil
  then show ?case by (auto elim: grown_NilE)
next
  case (snoc d ds)
  from snoc.prems(1) obtain w where w: "grown v ds w" "closed_view w" "w d = None" "view s = w(d \<mapsto> NDir)"
    by (auto elim: grown_snocE)
  obtain r1 s1 where rm: "fs_remove fs s (abs_path d) = (r1, s1)" by fastforce
  have d: "list_all norm_comp d" "view s d = Some NDir" using snoc.prems(2) w(4) by auto
  have "w (d @ [c]) = None" for c using w(2,3) unfolding closed_view_def by (metis option.distinct(1))
  then have childless: "view s (d @ [c]) = None" for c using w(4) by simp
  show ?case
  proof (cases r1)
    case None
    then have "view s1 = w" using remove_done [OF d] rm w(3,4) by fastforce
    then show ?thesis using snoc.IH [of s1] snoc.prems(2,3) rm None w(1) by auto
  next
    case (Some e)
    then have "\<not> errors_is e ErrNotExist" "\<not> isDirectoryNotEmpty e"
      using remove_missing [OF d] remove_nonempty [OF d, of e s1] rm childless by auto
    then show ?thesis using snoc.prems(3) rm Some by (auto dest: rollback_acc)
  qed
qed

lemma rollback_error:
  assumes "grown v ds (view s)" and "list_all (list_all norm_comp) ds" and "ct_created t = map abs_path ds"
    and "rollbackAfterError fs t err s = (res, s')"
  shows "\<exists>e. res = Inl e \<and> (\<forall>x. v x \<noteq> None \<longrightarrow> view s' x = v x) \<and>
    (view s' = v \<or> (\<exists>r. e = ErrJoin err r))"
proof -
  obtain r s1 where rb: "rollback_loop fs (map abs_path (rev ds)) None s = (r, s1)" by fastforce
  then have "s1 = s'" using assms(3,4)
    by (auto simp: rollbackAfterError_def Rollback_def rev_map split: option.splits)
  note gv = grown_view [OF assms(1)]
  have "\<forall>x. x \<notin> set (rev ds) \<longrightarrow> view s' x = view s x"
    using rollback_keeps [OF rb] gv assms(2) \<open>s1 = s'\<close> by (auto simp: list_all_iff)
  then have "\<forall>x. v x \<noteq> None \<longrightarrow> view s' x = v x" using gv by (auto, metis option.distinct(1))
  moreover have "r = None \<Longrightarrow> view s' = v" using rollback_clean [OF assms(1,2)] rb \<open>s1 = s'\<close> by simp
  ultimately show ?thesis using assms(3,4) rb
    by (auto simp: rollbackAfterError_def Rollback_def rev_map split: option.splits)
qed

lemma create_loop_error:
  assumes "create_loop fs cs t (abs_path cur) s = (Inl e, s')"
    and "\<forall>c \<in> set cs. c = DOT \<or> norm_comp c" and "list_all norm_comp cur" and "view s cur = Some NDir"
    and "ct_created t = map abs_path ds" and "list_all (list_all norm_comp) ds" and "grown v ds (view s)"
  shows "(\<forall>x. v x \<noteq> None \<longrightarrow> view s' x = v x) \<and> (view s' = v \<or> (\<exists>err r. e = ErrJoin err r))"
  using assms
proof (induction cs arbitrary: t cur s ds)
  case (Cons c cs)
  show ?case
  proof (cases "c = DOT")
    case True
    with Cons show ?thesis by auto
  next
    case False
    let ?cur = "cur @ [c]"
    have n: "list_all norm_comp ?cur" "path_join (abs_path cur) c = abs_path ?cur" "linked (view s) ?cur"
      using Cons.prems False by (auto simp: path_join_comp linked_def)
    note err = rollback_error [OF Cons.prems(7,6,5)]
    consider (rb) err s1 where "rollbackAfterError fs t err s1 = (Inl e, s')" "view s1 = view s"
      | (dir) "view s ?cur = Some NDir" "create_loop fs cs t (abs_path ?cur) s = (Inl e, s')"
      | (new) s1 where "view s ?cur = None" "view s1 = (view s)(?cur \<mapsto> NDir)"
          "create_loop fs cs (t\<lparr>ct_created := ct_created t @ [abs_path ?cur]\<rparr>) (abs_path ?cur) s1 = (Inl e, s')"
      using Cons.prems(1) False n lstat_found [OF n(1,3)] mkdir_done [OF n(1,3)] mkdir_failed
      by (auto simp: Let_def split: sum.splits node.splits if_splits prod.splits option.splits)
    then show ?thesis
    proof cases
      case rb
      with rollback_error [of v ds s1 t err] Cons.prems(5,6,7) show ?thesis by force
    next
      case dir
      with Cons n(1) show ?thesis by (intro Cons.IH [of t ?cur s ds]) auto
    next
      case new
      have g: "grown v (ds @ [?cur]) (view s1)"
        using grown_mkdir [OF Cons.prems(7) view_closed new(1)] new(2) by simp
      show ?thesis using Cons.IH [OF new(3) _ n(1) _ _ _ g] Cons.prems(2,5,6) n(1) new(2) by simp
    qed
  qed
qed simp

lemma create_loop_ok:
  assumes "create_loop fs cs t (abs_path cur) s = (Inr t', s')"
    and "\<forall>c \<in> set cs. c = DOT \<or> norm_comp c" and "list_all norm_comp cur" and "view s cur = Some NDir"
    and "ct_created t = map abs_path ds" and "list_all (list_all norm_comp) ds" and "grown v ds (view s)"
  shows "ct_target t' = Filesystem (abs_path (cur @ filter (\<lambda>c. c \<noteq> DOT) cs)) \<and>
    view s' (cur @ filter (\<lambda>c. c \<noteq> DOT) cs) = Some NDir \<and>
    (\<exists>ds'. ct_created t' = map abs_path ds' \<and> grown v ds' (view s'))"
  using assms
proof (induction cs arbitrary: t cur s ds)
  case (Cons c cs)
  show ?case
  proof (cases "c = DOT")
    case True
    with Cons show ?thesis by auto
  next
    case False
    let ?cur = "cur @ [c]"
    have n: "list_all norm_comp ?cur" "path_join (abs_path cur) c = abs_path ?cur" "linked (view s) ?cur"
      using Cons.prems False by (auto simp: path_join_comp linked_def)
    have rb: "rollbackAfterError fs t err s1 \<noteq> (Inr t', s')" for err s1
      by (auto simp: rollbackAfterError_def split: prod.splits option.splits)
    consider (dir) "view s ?cur = Some NDir" "create_loop fs cs t (abs_path ?cur) s = (Inr t', s')"
      | (new) s1 where "view s ?cur = None" "view s1 = (view s)(?cur \<mapsto> NDir)"
          "create_loop fs cs (t\<lparr>ct_created := ct_created t @ [abs_path ?cur]\<rparr>) (abs_path ?cur) s1 = (Inr t', s')"
      using Cons.prems(1) False n lstat_found [OF n(1,3)] mkdir_done [OF n(1,3)] rb
      by (auto simp: Let_def split: sum.splits node.splits if_splits prod.splits option.splits)
    then show ?thesis
    proof cases
      case dir
      with Cons.IH [of t ?cur s ds] Cons.prems n(1) False show ?thesis by auto
    next
      case new
      have g: "grown v (ds @ [?cur]) (view s1)"
        using grown_mkdir [OF Cons.prems(7) view_closed new(1)] new(2) by simp
      show ?thesis using Cons.IH [OF new(3) _ n(1) _ _ _ g] Cons.prems(2,5,6) n(1) False new(2) by simp
    qed
  qed
qed auto

text \<open>
  The ancestry check walks the base path component by component, so every directory it
  steps through, and in particular the cleaned base, is a real directory.
\<close>

lemma check_dir: "list_all norm_comp cs \<Longrightarrow> linked (view s) cs \<Longrightarrow>
    checkDirectoryUnix fs s (abs_path cs) = None \<Longrightarrow> view s cs = Some NDir"
  using lstat_found [of cs s] by (auto simp: checkDirectoryUnix_def split: sum.splits node.splits)

lemma ancestry_real:
  assumes "list_all norm_comp st" and "view s st = Some NDir" and "\<forall>c \<in> set cs. c \<noteq> [] \<and> SLASH \<notin> set c"
    and "check_all fs s (fst (foldl ancestry_step (anc, abs_path st) cs)) = None"
  shows "view s (foldl (clean_step True) st cs) = Some NDir"
  using assms
proof (induction cs arbitrary: anc st)
  case (Cons c cs)
  let ?st = "clean_step True st c"
  have c: "c \<noteq> []" "SLASH \<notin> set c" using Cons.prems by auto
  have j: "path_join (abs_path st) c = abs_path ?st"
    using Cons.prems(1) c by (simp add: path_join_abs clean_stack_abs_path split_on_no_sep)
  then have run: "check_all fs s (fst (foldl ancestry_step (anc @ [abs_path ?st], abs_path ?st) cs)) = None"
    using Cons.prems(4) by (simp add: ancestry_step_def Let_def)
  then have chk: "checkDirectoryUnix fs s (abs_path ?st) = None"
    using ancestry_mono [of "anc @ [abs_path ?st]"] by (auto simp: check_all_None)
  have norm: "list_all norm_comp ?st" using clean_step_rooted Cons.prems(1) c by blast
  have "view s ?st = Some NDir"
  proof (cases "c = DOT \<or> c = DOTDOT")
    case True
    have "view s (butlast st) = Some NDir" if "st \<noteq> []"
      using that Cons.prems(2) view_parent [of s "butlast st" "last st"] by simp
    with True Cons.prems(2) show ?thesis by (auto simp: clean_step_def)
  next
    case False
    then have "linked (view s) ?st" using c Cons.prems(2) by (simp add: clean_step_def linked_def)
    then show ?thesis using check_dir [OF norm] chk by blast
  qed
  with Cons.IH [OF norm _ _ run] Cons.prems(3) show ?case by simp
qed simp

lemma base_real:
  assumes "absoluteAncestryUnix base = Inr anc" and "check_all fs s anc = None"
  shows "is_abs base \<and> view s (clean_stack base) = Some NDir"
proof -
  have abs: "is_abs base" and anc: "anc = fst (foldl ancestry_step ([[SLASH]], abs_path []) (splitSeparators base))"
    using assms(1) by (auto simp: absoluteAncestryUnix_def abs_path_def split: if_splits)
  have "abs_path [] \<in> set anc" using ancestry_mono [of "[[SLASH]]"] anc by (auto simp: abs_path_def)
  then have "view s [] = Some NDir"
    using assms(2) by (intro check_dir) (auto simp: check_all_None linked_def)
  then have "view s (foldl (clean_step True) [] (splitSeparators base)) = Some NDir"
    using assms(2) anc by (intro ancestry_real) (auto simp: splitSeparators_def dest: fields_on_parts)
  then show ?thesis using abs by (simp add: clean_stack_fields)
qed

lemma CreateDirectoryTree_cases:
  assumes "CreateDirectoryTree fs base query s = (res, s')"
  obtains (refused) e where "res = Inl e" "s' = s"
    | (run) "ValidateAddQuery base query = None" "is_abs (loc_path base)"
      "view s (clean_stack (loc_path base)) = Some NDir"
      "create_loop fs (splitSeparators query)
         \<lparr>ct_target = Filesystem (path_clean (loc_path base)), ct_created = []\<rparr>
         (abs_path (clean_stack (loc_path base))) s = (res, s')"
  using assms base_real [of "loc_path base" _ s]
  by (auto simp: CreateDirectoryTree_def Let_def path_clean_abs split: option.splits sum.splits)

lemma create_failed:
  assumes "CreateDirectoryTree fs base query s = (Inl e, s')"
  shows "(\<forall>x. view s x \<noteq> None \<longrightarrow> view s' x = view s x) \<and> (view s' = view s \<or> (\<exists>err r. e = ErrJoin err r))"
  using assms
proof (cases rule: CreateDirectoryTree_cases)
  case run
  show ?thesis
    using run clean_stack_abs ValidateAddQuery_comps [OF run(1)]
    by (intro create_loop_error [OF run(4), of "[]"]) (auto intro: grown_none)
qed simp

lemma create_done:
  assumes "CreateDirectoryTree fs base query s = (Inr t, s')"
  shows "\<exists>cs ds. cs = clean_stack (loc_path base) @ filter (\<lambda>c. c \<noteq> DOT) (splitSeparators query) \<and>
    ct_target t = Filesystem (abs_path cs) \<and> view s' cs = Some NDir \<and>
    ct_created t = map abs_path ds \<and> grown (view s) ds (view s')"
  using assms
proof (cases rule: CreateDirectoryTree_cases)
  case run
  have "list_all norm_comp (clean_stack (loc_path base))" using run(2) by (rule clean_stack_abs)
  from create_loop_ok [OF run(4) _ this run(3), of "[]" "view s"] ValidateAddQuery_comps [OF run(1)] grown_none
  show ?thesis by auto
qed simp

end

section \<open>A namespace that satisfies the contract\<close>

text \<open>
  A table of nodes keyed by their components, with three lists of paths on which a call is
  denied.  A node counts only when all its proper ancestors are directories of the table.
\<close>

type_synonym namespace = "(bytes list \<times> node) list"

definition real_node :: "namespace \<Rightarrow> fs_view" where
  "real_node ns cs =
     (if list_all (\<lambda>k. map_of ns (take k cs) = Some NDir) [0..<length cs] then map_of ns cs else None)"

definition EACCES :: go_error where "EACCES = ErrText ''permission denied''"

definition mem_lstat :: "bytes list \<Rightarrow> namespace \<Rightarrow> bytes \<Rightarrow> node result" where
  "mem_lstat denied ns p =
     (if p \<in> set denied then Inl EACCES
      else case real_node ns (clean_stack p) of None \<Rightarrow> Inl ErrNotExist | Some n \<Rightarrow> Inr n)"

definition mem_mkdir :: "bytes list \<Rightarrow> namespace \<Rightarrow> bytes \<Rightarrow> go_error option \<times> namespace" where
  "mem_mkdir denied ns p =
     (let cs = clean_stack p in
      if p \<in> set denied then (Some EACCES, ns)
      else if real_node ns cs \<noteq> None then (Some EEXIST, ns)
      else if cs \<noteq> [] \<and> real_node ns (butlast cs) \<noteq> Some NDir then (Some ErrNotExist, ns)
      else (None, (cs, NDir) # filter (\<lambda>(k, _). take (length cs) k \<noteq> cs) ns))"

definition mem_remove :: "bytes list \<Rightarrow> namespace \<Rightarrow> bytes \<Rightarrow> go_error option \<times> namespace" where
  "mem_remove denied ns p =
     (let cs = clean_stack p in
      if p \<in> set denied then (Some EACCES, ns)
      else if real_node ns cs = None then (Some ErrNotExist, ns)
      else if list_ex (\<lambda>(k, _). k \<noteq> [] \<and> butlast k = cs \<and> real_node ns k \<noteq> None) ns then (Some ENOTEMPTY, ns)
      else (None, filter (\<lambda>(k, _). k \<noteq> cs) ns))"

definition mem_fs :: "bytes list \<Rightarrow> bytes list \<Rightarrow> bytes list \<Rightarrow> namespace os_fs" where
  "mem_fs dl dm dr = \<lparr>fs_lstat = mem_lstat dl, fs_mkdir = mem_mkdir dm, fs_remove = mem_remove dr\<rparr>"

lemma real_node_alt:
  "real_node ns cs = (if \<forall>k < length cs. map_of ns (take k cs) = Some NDir then map_of ns cs else None)"
  by (auto simp: real_node_def list_all_iff)

lemma real_node_snoc:
  "real_node ns (cs @ [c]) = (if real_node ns cs = Some NDir then map_of ns (cs @ [c]) else None)"
proof -
  have "(\<forall>k < length (cs @ [c]). map_of ns (take k (cs @ [c])) = Some NDir)
      \<longleftrightarrow> (\<forall>k < length cs. map_of ns (take k cs) = Some NDir) \<and> map_of ns cs = Some NDir"
    by (auto simp: less_Suc_eq)
  then show ?thesis unfolding real_node_alt by auto
qed

lemma real_node_Nil: "real_node ns [] = map_of ns []"
  by (simp add: real_node_def)

lemma real_node_closed: "closed_view (real_node ns)"
  by (auto simp: closed_view_def real_node_snoc split: if_splits)

lemma map_of_filter: "map_of (filter (\<lambda>(k, _). P k) ns) x = (if P x then map_of ns x else None)"
  by (induction ns) auto

lemma below_missing:
  assumes "real_node ns cs = None" and "take (length cs) (xs @ [c]) = cs" and "xs @ [c] \<noteq> cs"
  shows "real_node ns xs = None"
proof -
  from assms(2,3) have "length cs \<le> length xs" by (metis append_take_drop_id le_SucE length_append_singleton nat_le_linear take_all)
  then obtain ys where "xs = cs @ ys" using assms(2) by (metis append_take_drop_id diff_is_0_eq take0 take_append append_Nil2)
  then show ?thesis
  proof (induction ys arbitrary: xs rule: rev_induct)
    case (snoc y ys)
    then show ?case by (simp add: real_node_snoc flip: append_assoc)
  qed (use assms(1) in simp)
qed

lemma real_node_mkdir:
  assumes "real_node ns cs = None" and "linked (real_node ns) cs"
  shows "real_node ((cs, NDir) # filter (\<lambda>(k, _). take (length cs) k \<noteq> cs) ns) x = ((real_node ns)(cs \<mapsto> NDir)) x"
    (is "real_node ?ns x = _")
proof (induction x rule: rev_induct)
  case Nil
  then show ?case by (auto simp: real_node_Nil map_of_filter)
next
  case (snoc c xs)
  have "map_of ?ns (xs @ [c]) = (if xs @ [c] = cs then Some NDir
      else if take (length cs) (xs @ [c]) = cs then None else map_of ns (xs @ [c]))"
    by (simp add: map_of_filter)
  moreover have "take (length cs) (xs @ [c]) = cs \<Longrightarrow> xs @ [c] \<noteq> cs \<Longrightarrow> real_node ns xs = None"
    using assms(1) below_missing [of ns cs xs c] by blast
  moreover have "xs @ [c] = cs \<Longrightarrow> real_node ns xs = Some NDir \<and> xs \<noteq> cs" using assms(2) by (auto simp: linked_def)
  moreover have "xs = cs \<Longrightarrow> map_of ?ns (xs @ [c]) = None" by (simp add: map_of_filter)
  ultimately show ?case using assms(1) snoc by (auto simp: real_node_snoc)
qed

lemma real_node_remove:
  assumes "real_node ns cs \<noteq> None" and "\<And>c. real_node ns (cs @ [c]) = None"
  shows "real_node (filter (\<lambda>(k, _). k \<noteq> cs) ns) x = ((real_node ns)(cs := None)) x"
proof (induction x rule: rev_induct)
  case Nil
  then show ?case by (auto simp: real_node_Nil map_of_filter)
next
  case (snoc c xs)
  show ?case
  proof (cases "xs = cs")
    case True
    then show ?thesis using snoc assms(2) by (simp add: real_node_snoc)
  next
    case False
    then show ?thesis using snoc by (simp add: real_node_snoc map_of_filter)
  qed
qed

lemma mem_childless:
  assumes "\<not> list_ex (\<lambda>(k, _). k \<noteq> [] \<and> butlast k = cs \<and> real_node ns k \<noteq> None) ns"
  shows "real_node ns (cs @ [c]) = None"
proof (rule ccontr)
  assume a: "real_node ns (cs @ [c]) \<noteq> None"
  then obtain n where "(cs @ [c], n) \<in> set ns" by (auto simp: real_node_snoc split: if_splits dest: map_of_SomeD)
  with assms a show False by (force simp: list_ex_iff)
qed

lemma fs_error_neq:
  "EACCES \<noteq> ErrNotExist" "EACCES \<noteq> ENOTEMPTY" "EACCES \<noteq> EEXIST" "ENOTEMPTY \<noteq> ErrNotExist" "EEXIST \<noteq> ErrNotExist"
  "ErrNotExist \<noteq> ENOTEMPTY" "ErrNotExist \<noteq> EEXIST"
  by (simp_all add: EACCES_def ErrNotExist_def ENOTEMPTY_def EEXIST_def)

lemma errors_is_fs [simp]:
  "errors_is EACCES e = (EACCES = e)" "errors_is ErrNotExist e = (ErrNotExist = e)"
  "errors_is ENOTEMPTY e = (ENOTEMPTY = e)" "errors_is EEXIST e = (EEXIST = e)"
  by (simp_all add: EACCES_def ErrNotExist_def ENOTEMPTY_def EEXIST_def)

interpretation mem: posix_fs "mem_fs dl dm dr" real_node
proof
  show "closed_view (real_node s)" for s by (rule real_node_closed)
next
  fix cs s n
  assume "list_all norm_comp cs" "fs_lstat (mem_fs dl dm dr) s (abs_path cs) = Inr n"
  then show "real_node s cs = Some n"
    by (auto simp: mem_fs_def mem_lstat_def clean_stack_abs_path split: if_splits option.splits)
next
  fix cs s e
  assume "list_all norm_comp cs" "fs_lstat (mem_fs dl dm dr) s (abs_path cs) = Inl e" "errors_is e ErrNotExist"
  then show "real_node s cs = None"
    by (auto simp: mem_fs_def mem_lstat_def clean_stack_abs_path fs_error_neq split: if_splits option.splits)
next
  fix cs s s'
  assume a: "list_all norm_comp cs" "linked (real_node s) cs" "fs_mkdir (mem_fs dl dm dr) s (abs_path cs) = (None, s')"
  then have "real_node s cs = None" "s' = (cs, NDir) # filter (\<lambda>(k, _). take (length cs) k \<noteq> cs) s"
    by (auto simp: mem_fs_def mem_mkdir_def clean_stack_abs_path Let_def split: if_splits)
  with real_node_mkdir [OF _ a(2)] show "real_node s cs = None \<and> real_node s' = (real_node s)(cs \<mapsto> NDir)" by blast
next
  fix s p e s'
  assume "fs_mkdir (mem_fs dl dm dr) s p = (Some e, s')"
  then show "real_node s' = real_node s" by (auto simp: mem_fs_def mem_mkdir_def Let_def split: if_splits)
next
  fix cs s s'
  assume "list_all norm_comp cs" "real_node s cs = Some NDir" "fs_remove (mem_fs dl dm dr) s (abs_path cs) = (None, s')"
  then have "s' = filter (\<lambda>(k, _). k \<noteq> cs) s" "real_node s (cs @ [c]) = None" "real_node s cs \<noteq> None" for c
    using mem_childless [of cs s] by (auto simp: mem_fs_def mem_remove_def clean_stack_abs_path Let_def split: if_splits)
  then show "real_node s' = (real_node s)(cs := None)" using real_node_remove by blast
next
  fix s p e s'
  assume "fs_remove (mem_fs dl dm dr) s p = (Some e, s')"
  then show "real_node s' = real_node s" by (auto simp: mem_fs_def mem_remove_def Let_def split: if_splits)
next
  fix cs s e s'
  assume "list_all norm_comp cs" "real_node s cs = Some NDir" "fs_remove (mem_fs dl dm dr) s (abs_path cs) = (Some e, s')"
  then show "\<not> errors_is e ErrNotExist"
    by (auto simp: mem_fs_def mem_remove_def clean_stack_abs_path Let_def fs_error_neq split: if_splits)
next
  fix cs s e s'
  assume "list_all norm_comp cs" "real_node s cs = Some NDir"
    "fs_remove (mem_fs dl dm dr) s (abs_path cs) = (Some e, s')" "isDirectoryNotEmpty e"
  then have "list_ex (\<lambda>(k, _). k \<noteq> [] \<and> butlast k = cs \<and> real_node s k \<noteq> None) s"
    by (auto simp: mem_fs_def mem_remove_def clean_stack_abs_path Let_def isDirectoryNotEmpty_def fs_error_neq
        split: if_splits)
  then obtain k where "k \<noteq> []" "butlast k = cs" "real_node s k \<noteq> None" by (auto simp: list_ex_iff)
  then show "\<exists>c. real_node s (cs @ [c]) \<noteq> None" by (metis append_butlast_last_id)
qed

section \<open>Creating a directory chain\<close>

text \<open>
  On success \<open>CreateDirectoryTree\<close> ends at the base followed by the components of the query (dots
  dropped): the target lies under the base, it and all its ancestors are real directories (no
  symbolic link was traversed), every directory recorded as created did not exist before, and
  the recorded directories are the whole difference between the two namespaces.
\<close>

theorem CreateDirectoryTree_success:
  assumes "posix_fs fs view" and "CreateDirectoryTree fs base query s = (Inr t, s')"
  shows "\<exists>cs ds. cs = clean_stack (loc_path base) @ filter (\<lambda>c. c \<noteq> DOT) (splitSeparators query) \<and>
    ct_target t = Filesystem (abs_path cs) \<and> ct_created t = map abs_path ds \<and>
    (\<forall>k \<le> length cs. view s' (take k cs) = Some NDir) \<and>
    distinct ds \<and> (\<forall>d \<in> set ds. view s d = None) \<and>
    view s' = (\<lambda>x. if x \<in> set ds then Some NDir else view s x)"
proof -
  from posix_fs.create_done [OF assms] obtain cs ds where
    cs: "cs = clean_stack (loc_path base) @ filter (\<lambda>c. c \<noteq> DOT) (splitSeparators query)"
      "ct_target t = Filesystem (abs_path cs)" "view s' cs = Some NDir"
      "ct_created t = map abs_path ds" "grown (view s) ds (view s')" by blast
  have "view s' (take k cs) = Some NDir" for k
    using closed_view_prefix [OF posix_fs.view_closed [OF assms(1)] cs(3), of k] .
  with cs grown_view [OF cs(5)] show ?thesis by blast
qed

text \<open>
  C4: When \<open>CreateDirectoryTree\<close> fails, nothing that existed before is removed or changed, and the
  namespace is the one it started from, unless a removal during rollback failed, in which
  case the returned error is the join that reports it.
\<close>

theorem CreateDirectoryTree_failure:
  assumes "posix_fs fs view" and "CreateDirectoryTree fs base query s = (Inl e, s')"
  shows "(\<forall>x. view s x \<noteq> None \<longrightarrow> view s' x = view s x) \<and>
    (view s' = view s \<or> (\<exists>err r. e = ErrJoin err r))"
  using posix_fs.create_failed [OF assms] .

theorem CreateDirectoryTree_success_witness:
  "CreateDirectoryTree (mem_fs [] [] []) (Filesystem ''/a'') ''./b/c'' [([], NDir), ([''a''], NDir)]
     = (Inr \<lparr>ct_target = Filesystem ''/a/b/c'', ct_created = [''/a/b'', ''/a/b/c'']\<rparr>,
        [([''a'', ''b'', ''c''], NDir), ([''a'', ''b''], NDir), ([], NDir), ([''a''], NDir)])
   \<and> real_node [([''a'', ''b'', ''c''], NDir), ([''a'', ''b''], NDir), ([], NDir), ([''a''], NDir)]
       (take 2 [''a'', ''b'', ''c'']) = Some NDir"
proof -
  have run: "CreateDirectoryTree (mem_fs [] [] []) (Filesystem ''/a'') ''./b/c'' [([], NDir), ([''a''], NDir)]
     = (Inr \<lparr>ct_target = Filesystem ''/a/b/c'', ct_created = [''/a/b'', ''/a/b/c'']\<rparr>,
        [([''a'', ''b'', ''c''], NDir), ([''a'', ''b''], NDir), ([], NDir), ([''a''], NDir)])"
    by code_simp
  have cs: "clean_stack (loc_path (Filesystem ''/a'')) @ filter (\<lambda>c. c \<noteq> DOT) (splitSeparators ''./b/c'')
      = [''a'', ''b'', ''c'']" by code_simp
  from CreateDirectoryTree_success [OF mem.posix_fs_axioms run] obtain xs where
    xs: "xs = [''a'', ''b'', ''c'']" and real: "\<forall>k \<le> length xs.
      real_node [([''a'', ''b'', ''c''], NDir), ([''a'', ''b''], NDir), ([], NDir), ([''a''], NDir)] (take k xs) = Some NDir"
    unfolding cs by blast
  show ?thesis using run real [rule_format, of 2] unfolding xs by simp
qed

theorem CreateDirectoryTree_failure_witness:
  "\<exists>e. CreateDirectoryTree (mem_fs [] [''/a/b/c''] []) (Filesystem ''/a'') ''b/c'' [([], NDir), ([''a''], NDir)]
     = (Inl e, [([], NDir), ([''a''], NDir)])
   \<and> real_node [([], NDir), ([''a''], NDir)] [''a''] = Some NDir"
proof -
  have run: "CreateDirectoryTree (mem_fs [] [''/a/b/c''] []) (Filesystem ''/a'') ''b/c'' [([], NDir), ([''a''], NDir)]
     = (Inl (ErrWrap ''create directory'' EACCES), [([], NDir), ([''a''], NDir)])" by code_simp
  have "real_node [([], NDir), ([''a''], NDir)] [''a''] = Some NDir" by code_simp
  with CreateDirectoryTree_failure [OF mem.posix_fs_axioms run] run show ?thesis by blast
qed

end
