(* ===== verification/Candidate.thy ===== *)
theory Candidate
  imports Pathutil
begin

text \<open>
  \<open>internal/candidate\<close>, the local source: candidate records (record.go), enumeration of a
  directory (local.go, local_unix.go), and the merge of two record lists with deduplication by
  target (builder.go, merge_key.go, merge_key_unix.go).

  What the operating system answers is data: the batches \<open>ReadDir\<close> returns, the result of
  \<open>Stat\<close> for a path, whether the context is cancelled at each point where the code asks.  The
  worker pool of \<open>classifySymlinks\<close> is the order in which its jobs finish, an argument.
\<close>

section \<open>record.go\<close>

record candidate =
  rec_kind :: kind
  rec_display :: string
  rec_path :: bytes
  rec_payload :: string
  rec_target :: location

definition Wire :: "candidate \<Rightarrow> wire_record" where
  "Wire r = \<lparr>wr_kind = rec_kind r, wr_display = rec_display r, wr_payload = rec_payload r\<rparr>"

definition FullKey :: "candidate \<Rightarrow> bytes" where
  "FullKey r = wire_bytes (Wire r)"

text \<open>On Unix; the Windows build also halves doubled backslashes.\<close>

definition zoxideDisplay :: "unicode \<Rightarrow> bytes \<Rightarrow> string" where
  "zoxideDisplay u path = EscapeDisplay u path"

definition CompactHomeDisplays :: "unicode \<Rightarrow> candidate list \<Rightarrow> bytes \<Rightarrow> candidate list" where
  "CompactHomeDisplays u rs home =
     map (\<lambda>r. if rec_kind r = KindZoxide
              then r\<lparr>rec_display := zoxideDisplay u (CompactHome (rec_path r) home)\<rparr> else r) rs"

definition newRecord :: "kind \<Rightarrow> string \<Rightarrow> bytes \<Rightarrow> candidate" where
  "newRecord k display path =
     \<lparr>rec_kind = k, rec_display = display, rec_path = path, rec_payload = EncodePath path,
      rec_target = Filesystem path\<rparr>"

definition newRecordFromString :: "kind \<Rightarrow> string \<Rightarrow> string \<Rightarrow> candidate" where
  "newRecordFromString k display path =
     \<lparr>rec_kind = k, rec_display = display, rec_path = path, rec_payload = EncodePath path,
      rec_target = Filesystem path\<rparr>"

definition newVirtualDrivesRecord :: "string \<Rightarrow> candidate" where
  "newVirtualDrivesRecord display =
     \<lparr>rec_kind = KindVirtual, rec_display = display, rec_path = [],
      rec_payload = EncodePath VirtualDrivesTarget, rec_target = Drives\<rparr>"

section \<open>local.go\<close>

record local_entry =
  le_name :: bytes
  le_folded :: bytes
  le_path :: bytes
  le_hidden :: bool
  le_directory :: bool
  le_symlink :: bool

text \<open>What a \<open>DirEntry\<close> tells: its name, whether it is a directory, whether it is a symbolic link.\<close>

record dir_entry =
  de_name :: bytes
  de_is_dir :: bool
  de_symlink :: bool

text \<open>
  A directory reader hands out batches and in the end an error, \<open>io.EOF\<close> after a complete
  listing (a batch may come with it).
\<close>

record dir_reader =
  dr_batches :: "dir_entry list list"
  dr_last :: "dir_entry list \<times> go_error"
  dr_close :: "go_error option"

definition EOF :: go_error where "EOF = ErrText ''EOF''"

function foldString :: "unicode \<Rightarrow> bytes \<Rightarrow> bytes" where
  "foldString u value =
     (case value of
        [] \<Rightarrow> []
      | b # rest \<Rightarrow>
          if invalid_head value then b # foldString u rest
          else encode_rune (to_lower u (fst (decode_rune value)))
               @ foldString u (drop (snd (decode_rune value)) value))"
  by pat_completeness auto
termination
  by (relation "measure (\<lambda>(u, p). length p)") (auto simp: decode_rune_drop_less)

declare foldString.simps [simp del]

lemma foldString_ascii:
  "byte_of b < 128 \<Longrightarrow> foldString u (b # r) = encode_rune (to_lower u (byte_of b)) @ foldString u r"
  by (simp add: foldString.simps [of u "b # r"] invalid_head_def RuneError_def)

definition local_entry_of :: "unicode \<Rightarrow> bytes \<Rightarrow> dir_entry \<Rightarrow> local_entry" where
  "local_entry_of u base d =
     \<lparr>le_name = de_name d, le_folded = foldString u (de_name d), le_path = path_join base (de_name d),
      le_hidden = (de_name d \<noteq> [] \<and> hd (de_name d) = CHR ''.''), le_directory = de_is_dir d,
      le_symlink = de_symlink d\<rparr>"

fun add_batch :: "unicode \<Rightarrow> bytes \<Rightarrow> local_entry list \<Rightarrow> dir_entry list \<Rightarrow> local_entry list result" where
  "add_batch u base es [] = Inr es"
| "add_batch u base es (d # ds) =
     (if NUL \<in> set (de_name d) then Inl (ErrText ''local entry name contains NUL'')
      else add_batch u base (es @ [local_entry_of u base d]) ds)"

text \<open>\<open>ctx i\<close> is what \<open>ctx.Err()\<close> reports at iteration \<open>i\<close> of the read loop.\<close>

fun read_loop :: "unicode \<Rightarrow> (nat \<Rightarrow> go_error option) \<Rightarrow> nat \<Rightarrow> bytes \<Rightarrow> dir_entry list list \<Rightarrow>
    dir_entry list \<times> go_error \<Rightarrow> local_entry list \<Rightarrow> local_entry list result" where
  "read_loop u ctx i base [] (batch, err) es =
     (case ctx i of
        Some e \<Rightarrow> Inl e
      | None \<Rightarrow> if \<not> errors_is err EOF then Inl (ErrWrap ''read local directory'' err)
                else add_batch u base es batch)"
| "read_loop u ctx i base (b # bs) fin es =
     (case ctx i of
        Some e \<Rightarrow> Inl e
      | None \<Rightarrow> (case add_batch u base es b of
                   Inl e \<Rightarrow> Inl e
                 | Inr es' \<Rightarrow> read_loop u ctx (Suc i) base bs fin es'))"

definition readLocalEntries :: "unicode \<Rightarrow> (nat \<Rightarrow> go_error option) \<Rightarrow> dir_reader \<Rightarrow> bytes \<Rightarrow> local_entry list result" where
  "readLocalEntries u ctx d base = read_loop u ctx 0 base (dr_batches d) (dr_last d) []"

text \<open>\<open>stat\<close> answers with \<open>IsDir\<close> or an error; \<open>ctx\<close> is the context's state at that job.\<close>

definition classifySymlink :: "go_error option \<Rightarrow> (bytes \<Rightarrow> bool result) \<Rightarrow> local_entry list \<Rightarrow> nat \<Rightarrow> local_entry list result" where
  "classifySymlink ctx stat es i =
     (case ctx of
        Some e \<Rightarrow> Inl e
      | None \<Rightarrow>
          (case stat (le_path (es ! i)) of
             Inl e \<Rightarrow> if errors_is e ErrNotExist then Inr es else Inl (ErrWrap ''stat local entry'' e)
           | Inr isdir \<Rightarrow> Inr (es[i := (es ! i)\<lparr>le_directory := isdir\<rparr>])))"

text \<open>
  Jobs in the order in which they finish; the first failure is the one that reaches the
  one-place error channel and cancels the rest.
\<close>

fun classify_jobs :: "(nat \<Rightarrow> go_error option) \<Rightarrow> (bytes \<Rightarrow> bool result) \<Rightarrow> local_entry list \<Rightarrow> nat list \<Rightarrow> local_entry list result" where
  "classify_jobs ctx stat es [] = Inr es"
| "classify_jobs ctx stat es (i # is) =
     (case classifySymlink (ctx i) stat es i of
        Inl e \<Rightarrow> Inl e
      | Inr es' \<Rightarrow> classify_jobs ctx stat es' is)"

definition symlink_indices :: "local_entry list \<Rightarrow> nat list" where
  "symlink_indices es = filter (\<lambda>i. le_symlink (es ! i)) [0..<length es]"

text \<open>
  \<open>sched\<close> reorders the job list into the completion order; \<open>done\<close> is the context's state
  after the workers stopped.
\<close>

definition classifySymlinks :: "(nat list \<Rightarrow> nat list) \<Rightarrow> (nat \<Rightarrow> go_error option) \<Rightarrow> go_error option \<Rightarrow>
    (bytes \<Rightarrow> bool result) \<Rightarrow> local_entry list \<Rightarrow> local_entry list result" where
  "classifySymlinks sched ctx done stat es =
     (let jobs = symlink_indices es in
      if jobs = [] then (case done of Some e \<Rightarrow> Inl e | None \<Rightarrow> Inr es)
      else if length jobs = 1 then classifySymlink (ctx (hd jobs)) stat es (hd jobs)
      else case classify_jobs ctx stat es (sched jobs) of
             Inl e \<Rightarrow> Inl e
           | Inr es' \<Rightarrow> (case done of Some e \<Rightarrow> Inl e | None \<Rightarrow> Inr es'))"

text \<open>\<open>gomaxprocs\<close> is the runtime's processor count.\<close>

definition localWorkerCount :: "int \<Rightarrow> int \<Rightarrow> int" where
  "localWorkerCount gomaxprocs requested =
     (let requested = (if requested \<le> 0 then gomaxprocs else requested) in
      if requested < 2 then 2 else if requested > 8 then 8 else requested)"

text \<open>
  The comparison of \<open>sortLocalEntries\<close>, literally and as a key: hidden first, then folded name,
  then name.  Two entries with equal keys have the same name, which one directory cannot hold.
\<close>

definition entry_less :: "local_entry \<Rightarrow> local_entry \<Rightarrow> bool" where
  "entry_less a b =
     (if le_hidden a \<noteq> le_hidden b then le_hidden a
      else if le_folded a \<noteq> le_folded b then le_folded a < le_folded b
      else le_name a < le_name b)"

definition entry_key :: "local_entry \<Rightarrow> bool \<times> bytes \<times> bytes" where
  "entry_key e = (\<not> le_hidden e, le_folded e, le_name e)"

definition sortLocalEntries :: "local_entry list \<Rightarrow> local_entry list" where
  "sortLocalEntries es = sort_key entry_key es"

definition localDirectoryKind :: "picker \<Rightarrow> kind" where
  "localDirectoryKind p = (if p = PickerCP then KindDirectory else KindLocal)"

definition ordinaryRootRecords :: "picker \<Rightarrow> location \<Rightarrow> candidate list" where
  "ordinaryRootRecords p l =
     (let k = localDirectoryKind p in
      [newRecord k ''.'' (loc_path l), newRecord k ''..'' (loc_path (Parent l))])"

definition rootRecords :: "picker \<Rightarrow> location \<Rightarrow> candidate list" where
  "rootRecords p l = ordinaryRootRecords p l"

definition enumerateDrives :: "candidate list result" where
  "enumerateDrives = Inl (ErrText ''drive enumeration is unavailable on this platform'')"

definition buildLocalRecords :: "unicode \<Rightarrow> picker \<Rightarrow> location \<Rightarrow> local_entry list \<Rightarrow> candidate list" where
  "buildLocalRecords u p l entries =
     (let directories = sortLocalEntries (filter le_directory entries);
          files = sortLocalEntries (if p = PickerCP then filter (\<lambda>e. \<not> le_directory e) entries else [])
      in rootRecords p l
         @ map (\<lambda>e. newRecordFromString (localDirectoryKind p)
                  (EscapeDisplay u (le_name e) @ (if p = PickerCP then ''/'' else [])) (le_path e)) directories
         @ map (\<lambda>e. newRecordFromString KindFile (EscapeDisplay u (le_name e)) (le_path e)) files)"

text \<open>Everything an enumeration learns from outside.\<close>

record local_world =
  lw_start :: "go_error option"
  lw_open :: "dir_reader result"
  lw_read :: "nat \<Rightarrow> go_error option"
  lw_sched :: "nat list \<Rightarrow> nat list"
  lw_job :: "nat \<Rightarrow> go_error option"
  lw_stat :: "bytes \<Rightarrow> bool result"
  lw_done :: "go_error option"
  lw_final :: "go_error option"

definition enumerate_open :: "unicode \<Rightarrow> local_world \<Rightarrow> picker \<Rightarrow> location \<Rightarrow> dir_reader \<Rightarrow> candidate list result" where
  "enumerate_open u w p l d =
     (case readLocalEntries u (lw_read w) d (loc_path l) of
        Inl e \<Rightarrow> Inl e
      | Inr es \<Rightarrow>
          (case classifySymlinks (lw_sched w) (lw_job w) (lw_done w) (lw_stat w) es of
             Inl e \<Rightarrow> Inl e
           | Inr es' \<Rightarrow>
               (case lw_final w of
                  Some e \<Rightarrow> Inl e
                | None \<Rightarrow> Inr (buildLocalRecords u p l es'))))"

text \<open>The deferred \<open>Close\<close> replaces the result when it fails.\<close>

definition enumerateFilesystem :: "unicode \<Rightarrow> local_world \<Rightarrow> picker \<Rightarrow> location \<Rightarrow> candidate list result" where
  "enumerateFilesystem u w p l =
     (if \<not> is_abs (loc_path l) then Inl (ErrText ''local path is not absolute'')
      else case lw_open w of
             Inl e \<Rightarrow> Inl (ErrWrap ''open local directory'' e)
           | Inr d \<Rightarrow>
               (let res = enumerate_open u w p l d in
                case dr_close d of
                  None \<Rightarrow> res
                | Some ce \<Rightarrow>
                    Inl (the (errors_join (case res of Inl e \<Rightarrow> Some e | Inr _ \<Rightarrow> None)
                                (Some (ErrWrap ''close local directory'' ce))))))"

definition EnumerateLocal :: "unicode \<Rightarrow> local_world \<Rightarrow> picker \<Rightarrow> location \<Rightarrow> candidate list result" where
  "EnumerateLocal u w p l =
     (case lw_start w of
        Some e \<Rightarrow> Inl e
      | None \<Rightarrow>
          if p \<noteq> PickerCD \<and> p \<noteq> PickerCP then Inl (ErrText ''unsupported picker'')
          else case loc_kind l of
                 LocFilesystem \<Rightarrow> enumerateFilesystem u w p l
               | LocDrives \<Rightarrow> enumerateDrives
               | LocOther _ \<Rightarrow> Inl (ErrText ''unsupported location kind''))"

section \<open>builder.go: merging\<close>

datatype merge_key = FilesystemKey bytes | VirtualKey location_kind bytes bytes

definition filesystemRecordKey :: "bytes \<Rightarrow> bytes" where
  "filesystemRecordKey p = path_clean p"

record merge_state =
  ms_merged :: "candidate list"
  ms_admitted :: "candidate list"
  ms_filesystem :: "bytes list"
  ms_virtual :: "(location_kind \<times> bytes \<times> bytes) list"

definition merge_append :: "bool \<Rightarrow> bool \<Rightarrow> candidate \<Rightarrow> merge_state \<Rightarrow> merge_state" where
  "merge_append collect is_addition r m =
     (let m' = m\<lparr>ms_merged := ms_merged m @ [r],
                 ms_admitted := (if is_addition \<and> collect then ms_admitted m @ [r] else ms_admitted m)\<rparr> in
      if rec_kind r = KindVirtual \<or> loc_kind (rec_target r) \<noteq> LocFilesystem then
        let key = (loc_kind (rec_target r), loc_path (rec_target r), FullKey r) in
        if key \<in> set (ms_virtual m) then m
        else m'\<lparr>ms_virtual := key # ms_virtual m\<rparr>
      else
        let key = filesystemRecordKey (loc_path (rec_target r)) in
        if key \<in> set (ms_filesystem m) then m
        else m'\<lparr>ms_filesystem := key # ms_filesystem m\<rparr>)"

definition mergeRecords :: "candidate list \<Rightarrow> candidate list \<Rightarrow> bool \<Rightarrow> candidate list \<times> candidate list" where
  "mergeRecords base additions collect =
     (let m0 = \<lparr>ms_merged = [], ms_admitted = [], ms_filesystem = [], ms_virtual = []\<rparr>;
          m1 = fold (merge_append collect False) base m0;
          m2 = fold (merge_append collect True) additions m1
      in (ms_merged m2, ms_admitted m2))"

definition MergeRecords :: "candidate list \<Rightarrow> candidate list \<Rightarrow> candidate list" where
  "MergeRecords local zoxide = fst (mergeRecords local zoxide False)"

definition MergeNewRecords :: "candidate list \<Rightarrow> candidate list \<Rightarrow> candidate list \<times> candidate list" where
  "MergeNewRecords base additions = mergeRecords base additions True"

section \<open>Records on the wire\<close>

lemma Wire_sel [simp]:
  "wr_kind (Wire r) = rec_kind r" "wr_display (Wire r) = rec_display r" "wr_payload (Wire r) = rec_payload r"
  by (simp_all add: Wire_def)

lemma newRecord_sel [simp]:
  "rec_kind (newRecord k d p) = k" "rec_display (newRecord k d p) = d" "rec_path (newRecord k d p) = p"
  "rec_payload (newRecord k d p) = EncodePath p" "rec_target (newRecord k d p) = Filesystem p"
  by (simp_all add: newRecord_def)

lemma newRecordFromString_eq [simp]: "newRecordFromString k d p = newRecord k d p"
  by (simp add: newRecordFromString_def newRecord_def)

text \<open>
  A well-formed record: the payload is the path, the target is the path (or the virtual drive
  list), and it passes the wire parser.
\<close>

definition record_ok :: "candidate \<Rightarrow> bool" where
  "record_ok r \<longleftrightarrow> wire_ok (Wire r) \<and>
     (rec_kind r \<noteq> KindVirtual \<longrightarrow> rec_payload r = EncodePath (rec_path r) \<and> rec_path r \<noteq> []
        \<and> rec_target r = Filesystem (rec_path r)) \<and>
     (rec_kind r = KindVirtual \<longrightarrow> rec_target r = Drives)"

lemma record_ok_new:
  assumes "validKind k" and "k \<noteq> KindVirtual" and "p \<noteq> []" and "\<And>c. c \<in> set d \<Longrightarrow> 32 \<le> byte_of c"
  shows "record_ok (newRecord k d p)"
  using assms wire_ok_escaped [OF controls_hidden_latin1 assms] by (simp add: record_ok_def Wire_def)

lemma record_ok_parse: "record_ok r \<Longrightarrow> ParseRecord (FullKey r) = Inr (Wire r)"
  by (simp add: record_ok_def FullKey_def ParseRecord_wire_bytes)

lemma FullKey_inject: "record_ok r \<Longrightarrow> record_ok s \<Longrightarrow> FullKey r = FullKey s \<Longrightarrow> Wire r = Wire s"
  using record_ok_parse by (metis sum.inject(2))

lemma record_ok_target:
  assumes "record_ok r" and "record_ok s" and "FullKey r = FullKey s"
  shows "rec_target r = rec_target s"
proof -
  have w: "Wire r = Wire s" using FullKey_inject assms by blast
  then have "rec_kind r = rec_kind s" "rec_payload r = rec_payload s"
    by (metis Wire_sel(1), metis Wire_sel(3))
  then show ?thesis using assms(1,2) by (cases "rec_kind r = KindVirtual") (auto simp: record_ok_def)
qed

lemma is_abs_path_join: "is_abs p \<Longrightarrow> is_abs (path_join p q)"
  by (simp add: path_join_abs)

lemma is_abs_nonempty: "is_abs p \<Longrightarrow> p \<noteq> []"
  by (auto simp: is_abs_def)

lemma path_dir_abs: "is_abs p \<Longrightarrow> is_abs (path_dir p)"
proof -
  assume "is_abs p"
  then obtain q where p: "p = SLASH # q" by (cases p) (auto simp: is_abs_def)
  have "is_abs (rev (dropWhile (\<lambda>c. c \<noteq> SLASH) (rev q @ [SLASH])))"
    by (induction q rule: rev_induct) (auto simp: is_abs_def)
  with p show ?thesis by (simp add: path_dir_def is_abs_path_clean)
qed

lemma buildLocalRecords_ok:
  assumes "controls_hidden u" and "p = PickerCD \<or> p = PickerCP"
    and "loc_kind l = LocFilesystem" and "is_abs (loc_path l)" and "\<forall>e \<in> set es. is_abs (le_path e)"
    and "r \<in> set (buildLocalRecords u p l es)"
  shows "record_ok r \<and> is_abs (rec_path r)"
proof -
  have k: "validKind (localDirectoryKind p)" "localDirectoryKind p \<noteq> KindVirtual"
    "validKind KindFile" by (auto simp: localDirectoryKind_def validKind_def)
  have mk: "record_ok (newRecord kk d q) \<and> is_abs q" if "validKind kk" "kk \<noteq> KindVirtual" "is_abs q"
      "\<And>c. c \<in> set d \<Longrightarrow> 32 \<le> byte_of c" for kk d q
    using record_ok_new that is_abs_nonempty by blast
  have esc: "32 \<le> byte_of c" if "c \<in> set (EscapeDisplay u q @ (if p = PickerCP then ''/'' else []))" for c q
    using that EscapeDisplay_printable [OF assms(1)] by (auto simp: byte_of_def split: if_splits)
  have esc0: "32 \<le> byte_of c" if "c \<in> set (EscapeDisplay u q)" for c q
    using that EscapeDisplay_printable [OF assms(1)] by blast
  from assms(6) consider (dot) "r = newRecord (localDirectoryKind p) ''.'' (loc_path l)"
    | (dotdot) "r = newRecord (localDirectoryKind p) ''..'' (loc_path (Parent l))"
    | (dir) e where "e \<in> set es" "r = newRecord (localDirectoryKind p)
        (EscapeDisplay u (le_name e) @ (if p = PickerCP then ''/'' else [])) (le_path e)"
    | (plain) e where "e \<in> set es" "r = newRecord KindFile (EscapeDisplay u (le_name e)) (le_path e)"
    by (auto simp: buildLocalRecords_def rootRecords_def ordinaryRootRecords_def sortLocalEntries_def Let_def
        split: if_splits)
  then show ?thesis
  proof cases
    case dot
    then show ?thesis using mk [OF k(1,2) assms(4), of "''.''"] by (simp add: byte_of_def)
  next
    case dotdot
    have "is_abs (loc_path (Parent l))" using assms(3,4) by (simp add: Parent_def path_dir_abs)
    then show ?thesis using dotdot mk [OF k(1,2), of _ "''..''"] by (simp add: byte_of_def)
  next
    case dir
    then have a: "is_abs (le_path e)" using assms(5) by blast
    show ?thesis unfolding dir(2) newRecord_sel by (rule mk [OF k(1,2) a]) (rule esc)
  next
    case plain
    then have a: "is_abs (le_path e)" using assms(5) by blast
    show ?thesis unfolding plain(2) newRecord_sel by (rule mk [OF k(3) _ a]) (simp, rule esc0)
  qed
qed

lemma add_batch_ok:
  "add_batch u base es ds = Inr es' \<Longrightarrow>
     es' = es @ map (local_entry_of u base) ds \<and> (\<forall>d \<in> set ds. NUL \<notin> set (de_name d))"
  by (induction u base es ds rule: add_batch.induct) (auto split: if_splits)

lemma read_loop_ok:
  "read_loop u ctx i base bs fin es = Inr es' \<Longrightarrow>
     es' = es @ map (local_entry_of u base) (concat bs @ fst fin) \<and> errors_is (snd fin) EOF"
  by (induction u ctx i base bs fin es rule: read_loop.induct)
     (auto split: option.splits if_splits sum.splits dest!: add_batch_ok)

lemma readLocalEntries_ok:
  "readLocalEntries u ctx d base = Inr es \<Longrightarrow>
     es = map (local_entry_of u base) (concat (dr_batches d) @ fst (dr_last d)) \<and> errors_is (snd (dr_last d)) EOF"
  unfolding readLocalEntries_def by (auto dest: read_loop_ok)

section \<open>Symbolic links, in any order\<close>

definition resolve_entry :: "(bytes \<Rightarrow> bool result) \<Rightarrow> local_entry \<Rightarrow> local_entry" where
  "resolve_entry stat e =
     (if le_symlink e then (case stat (le_path e) of Inr d \<Rightarrow> e\<lparr>le_directory := d\<rparr> | Inl _ \<Rightarrow> e) else e)"

definition stat_fine :: "(bytes \<Rightarrow> bool result) \<Rightarrow> local_entry \<Rightarrow> bool" where
  "stat_fine stat e \<longleftrightarrow> (\<forall>err. stat (le_path e) = Inl err \<longrightarrow> errors_is err ErrNotExist)"

lemma classifySymlink_None:
  assumes "le_symlink (es ! i)"
  shows "classifySymlink None stat es i = Inr es' \<longleftrightarrow>
     stat_fine stat (es ! i) \<and> es' = es[i := resolve_entry stat (es ! i)]"
  using assms by (auto simp: classifySymlink_def stat_fine_def resolve_entry_def split: sum.splits)

lemma resolve_entry_keeps [simp]:
  "le_symlink (resolve_entry stat e) = le_symlink e" "le_path (resolve_entry stat e) = le_path e"
  by (auto simp: resolve_entry_def split: sum.splits)

text \<open>Jobs touch different entries, so any completion order gives the same table.\<close>

lemma classify_jobs_any:
  assumes "distinct is" and "\<forall>i \<in> set is. i < length es \<and> le_symlink (es ! i)"
  shows "classify_jobs (\<lambda>_. None) stat es is = Inr es' \<longleftrightarrow>
    (\<forall>i \<in> set is. stat_fine stat (es ! i)) \<and>
    es' = map (\<lambda>i. if i \<in> set is then resolve_entry stat (es ! i) else es ! i) [0..<length es]"
  using assms
proof (induction "is" arbitrary: es)
  case Nil
  then show ?case by (auto simp: map_nth)
next
  case (Cons i "is")
  let ?es = "es[i := resolve_entry stat (es ! i)]"
  note link = classifySymlink_None [of es i stat]
  have IH: "classify_jobs (\<lambda>_. None) stat ?es is = Inr es' \<longleftrightarrow>
    (\<forall>j \<in> set is. stat_fine stat (?es ! j)) \<and>
    es' = map (\<lambda>j. if j \<in> set is then resolve_entry stat (?es ! j) else ?es ! j) [0..<length ?es]"
    using Cons.prems by (intro Cons.IH) (auto simp: nth_list_update)
  have same: "map (\<lambda>j. if j \<in> set is then resolve_entry stat (?es ! j) else ?es ! j) [0..<length ?es]
      = map (\<lambda>j. if j \<in> set (i # is) then resolve_entry stat (es ! j) else es ! j) [0..<length es]"
    using Cons.prems by (auto simp: nth_list_update)
  have fine: "(\<forall>j \<in> set is. stat_fine stat (?es ! j)) = (\<forall>j \<in> set is. stat_fine stat (es ! j))"
    using Cons.prems by (auto simp: nth_list_update)
  show ?case
  proof (cases "stat_fine stat (es ! i)")
    case True
    then have "classifySymlink None stat es i = Inr ?es" using link Cons.prems by simp
    then show ?thesis using IH True unfolding same fine by simp
  next
    case False
    then obtain e where "classifySymlink None stat es i = Inl e"
      using link Cons.prems by (cases "classifySymlink None stat es i") auto
    then show ?thesis using False by simp
  qed
qed

lemma symlink_indices_props:
  "distinct (symlink_indices es)" "set (symlink_indices es) = {i. i < length es \<and> le_symlink (es ! i)}"
  by (auto simp: symlink_indices_def)

lemma resolve_table:
  "map (\<lambda>i. if i < length es \<and> le_symlink (es ! i) then resolve_entry stat (es ! i) else es ! i) [0..<length es]
     = map (resolve_entry stat) es"
  by (intro nth_equalityI) (auto simp: resolve_entry_def)

lemma classify_jobs_symlinks:
  assumes "mset is = mset (symlink_indices es)"
  shows "classify_jobs (\<lambda>_. None) stat es is = Inr es' \<longleftrightarrow>
    (\<forall>e \<in> set es. le_symlink e \<longrightarrow> stat_fine stat e) \<and> es' = map (resolve_entry stat) es"
proof -
  have d: "distinct is" and st: "set is = {i. i < length es \<and> le_symlink (es ! i)}"
    using assms symlink_indices_props [of es] mset_eq_imp_distinct_iff [OF assms] mset_eq_setD [OF assms] by auto
  have "(\<forall>i \<in> set is. stat_fine stat (es ! i)) = (\<forall>e \<in> set es. le_symlink e \<longrightarrow> stat_fine stat e)"
    unfolding st by (metis (no_types, lifting) in_set_conv_nth mem_Collect_eq)
  moreover have "map (\<lambda>i. if i \<in> set is then resolve_entry stat (es ! i) else es ! i) [0..<length es]
      = map (resolve_entry stat) es"
    unfolding st using resolve_table [of es stat] by simp
  moreover note classify_jobs_any [OF d, of es stat es']
  ultimately show ?thesis unfolding st by simp
qed

lemma classifySymlinks_run:
  assumes "mset (sched (symlink_indices es)) = mset (symlink_indices es)"
  shows "classifySymlinks sched (\<lambda>_. None) None stat es = Inr es' \<longleftrightarrow>
    classify_jobs (\<lambda>_. None) stat es (sched (symlink_indices es)) = Inr es'"
proof (cases "length (symlink_indices es) = 1")
  case True
  then obtain i where i: "symlink_indices es = [i]" by (auto simp: length_Suc_conv)
  with assms have "sched [i] = [i]" by simp
  with i show ?thesis by (auto simp: classifySymlinks_def split: sum.splits)
next
  case False
  show ?thesis
  proof (cases "symlink_indices es = []")
    case True
    with assms have "sched [] = []" by simp
    with True show ?thesis by (simp add: classifySymlinks_def)
  next
    case nonempty: False
    with False show ?thesis by (auto simp: classifySymlinks_def Let_def split: sum.splits)
  qed
qed

text \<open>
  C32: The concurrent classification of symbolic links is deterministic: in whatever order the workers
  finish their jobs, it succeeds exactly when no \<open>Stat\<close> fails other than with
  \<open>ErrNotExist\<close>, and then every link is marked as its target says, a dangling link stays
  what it was, and every other entry is untouched.
\<close>

theorem classifySymlinks_any_order:
  assumes "mset (sched (symlink_indices es)) = mset (symlink_indices es)"
  shows "classifySymlinks sched (\<lambda>_. None) None stat es = Inr es' \<longleftrightarrow>
    (\<forall>e \<in> set es. le_symlink e \<longrightarrow> stat_fine stat e) \<and> es' = map (resolve_entry stat) es"
  using classifySymlinks_run [of sched es stat es', OF assms] classify_jobs_symlinks [OF assms] by simp

definition link_entry :: "bytes \<Rightarrow> local_entry" where
  "link_entry n = \<lparr>le_name = n, le_folded = n, le_path = n, le_hidden = False, le_directory = False, le_symlink = True\<rparr>"

theorem classifySymlinks_any_order_witness:
  "mset (rev (symlink_indices [link_entry ''a'', link_entry ''b''])) = mset (symlink_indices [link_entry ''a'', link_entry ''b''])
   \<and> classifySymlinks rev (\<lambda>_. None) None (\<lambda>p. Inr (p = ''a'')) [link_entry ''a'', link_entry ''b'']
     = Inr [(link_entry ''a'')\<lparr>le_directory := True\<rparr>, link_entry ''b'']"
proof -
  let ?es = "[link_entry ''a'', link_entry ''b'']"
  have m: "mset (rev (symlink_indices ?es)) = mset (symlink_indices ?es)" by simp
  have r: "(\<forall>e \<in> set ?es. le_symlink e \<longrightarrow> stat_fine (\<lambda>p. Inr (p = ''a'')) e) \<and>
      [(link_entry ''a'')\<lparr>le_directory := True\<rparr>, link_entry ''b''] = map (resolve_entry (\<lambda>p. Inr (p = ''a''))) ?es"
    by (simp add: stat_fine_def resolve_entry_def link_entry_def)
  show ?thesis using m classifySymlinks_any_order [of rev ?es, OF m, THEN iffD2, OF r] by (rule conjI)
qed

section \<open>Enumeration\<close>

lemma classify_jobs_paths:
  "classify_jobs ctx stat es is = Inr es' \<Longrightarrow> map le_path es' = map le_path es"
proof (induction ctx stat es "is" rule: classify_jobs.induct)
  case (2 ctx stat es i "is")
  then obtain es1 where 1: "classifySymlink (ctx i) stat es i = Inr es1" "classify_jobs ctx stat es1 is = Inr es'"
    by (auto split: sum.splits)
  from 1(1) have "map le_path es1 = map le_path es"
    by (cases "i < length es")
       (auto simp: classifySymlink_def map_update list_update_same_conv list_update_beyond split: option.splits sum.splits if_splits)
  with 2(1) [OF 1] show ?case by simp
qed simp

lemma classifySymlinks_paths:
  assumes "classifySymlinks sched ctx done stat es = Inr es'"
  shows "map le_path es' = map le_path es"
proof (cases "length (symlink_indices es) = 1")
  case True
  then obtain i where "symlink_indices es = [i]" by (auto simp: length_Suc_conv)
  with assms have "classify_jobs ctx stat es [i] = Inr es'" by (simp add: classifySymlinks_def)
  then show ?thesis by (rule classify_jobs_paths)
next
  case False
  with assms show ?thesis
    by (auto simp: classifySymlinks_def Let_def split: sum.splits if_splits option.splits
        dest: classify_jobs_paths)
qed

text \<open>
  Every record that a successful local enumeration returns survives the trip to the finder and
  back: its bytes parse to the same wire record, its payload decodes to its absolute path,
  and its target is that path.
\<close>

theorem EnumerateLocal_wire:
  assumes "controls_hidden u" and "EnumerateLocal u w p l = Inr rs" and "r \<in> set rs"
  shows "ParseRecord (FullKey r) = Inr (Wire r) \<and> DecodePath (rec_payload r) = Inr (rec_path r) \<and>
    is_abs (rec_path r) \<and> rec_target r = Filesystem (rec_path r)"
proof -
  from assms(2) have p: "p = PickerCD \<or> p = PickerCP" and l: "loc_kind l = LocFilesystem"
    by (auto simp: EnumerateLocal_def enumerateDrives_def split: option.splits if_splits location_kind.splits)
  with assms(2) have "enumerateFilesystem u w p l = Inr rs"
    by (auto simp: EnumerateLocal_def split: option.splits if_splits)
  then obtain d where l2: "is_abs (loc_path l)" and "enumerate_open u w p l d = Inr rs"
    by (auto simp: enumerateFilesystem_def Let_def split: if_splits sum.splits option.splits)
  then obtain es es' where es: "readLocalEntries u (lw_read w) d (loc_path l) = Inr es"
    "classifySymlinks (lw_sched w) (lw_job w) (lw_done w) (lw_stat w) es = Inr es'"
    "rs = buildLocalRecords u p l es'"
    by (auto simp: enumerate_open_def split: sum.splits option.splits)
  have "\<forall>q \<in> set (map le_path es). is_abs q"
    using readLocalEntries_ok [OF es(1)] l2 by (auto simp: local_entry_of_def is_abs_path_join)
  then have "\<forall>e \<in> set es'. is_abs (le_path e)"
    using classifySymlinks_paths [OF es(2)] by (metis (no_types, lifting) imageI list.set_map)
  then have ok: "record_ok r" "is_abs (rec_path r)"
    using buildLocalRecords_ok [OF assms(1) p l l2] assms(3) es(3) by blast+
  have "rec_kind r \<noteq> KindVirtual"
    using assms(3) es(3) by (auto simp: buildLocalRecords_def rootRecords_def ordinaryRootRecords_def
        localDirectoryKind_def Let_def split: if_splits)
  with ok record_ok_parse [OF ok(1)] show ?thesis by (auto simp: record_ok_def DecodePath_EncodePath)
qed

definition quiet_world :: "dir_entry list \<Rightarrow> local_world" where
  "quiet_world ds = \<lparr>lw_start = None, lw_open = Inr \<lparr>dr_batches = [ds], dr_last = ([], EOF), dr_close = None\<rparr>,
     lw_read = (\<lambda>_. None), lw_sched = (\<lambda>is. is), lw_job = (\<lambda>_. None), lw_stat = (\<lambda>_. Inr False),
     lw_done = None, lw_final = None\<rparr>"

theorem EnumerateLocal_wire_witness:
  "\<exists>rs r. EnumerateLocal latin1 (quiet_world [\<lparr>de_name = ''b'', de_is_dir = True, de_symlink = False\<rparr>])
       PickerCD (Filesystem ''/a'') = Inr rs \<and> r \<in> set rs \<and> rec_path r = ''/a/b''
     \<and> ParseRecord (FullKey r) = Inr (Wire r) \<and> rec_target r = Filesystem ''/a/b''"
proof -
  let ?w = "quiet_world [\<lparr>de_name = ''b'', de_is_dir = True, de_symlink = False\<rparr>]"
  let ?r = "newRecord KindLocal ''b'' ''/a/b''"
  have run: "EnumerateLocal latin1 ?w PickerCD (Filesystem ''/a'')
      = Inr [newRecord KindLocal ''.'' ''/a'', newRecord KindLocal ''..'' ''/'', ?r]"
  proof -
    have "path_join ''/a'' ''b'' = ''/a/b''" "path_dir ''/a'' = ''/''" "is_abs ''/a''" by code_simp+
    moreover have "EscapeDisplay latin1 ''b'' = ''b''"
      by (simp add: EscapeDisplay_ascii simple_escape_def char_consts byte_of_def latin1_def)
    ultimately show ?thesis
      by (simp add: EnumerateLocal_def enumerateFilesystem_def enumerate_open_def quiet_world_def readLocalEntries_def
          local_entry_of_def NUL_def classifySymlinks_def symlink_indices_def buildLocalRecords_def rootRecords_def
          ordinaryRootRecords_def localDirectoryKind_def sortLocalEntries_def Parent_def)
  qed
  have "?r \<in> set [newRecord KindLocal ''.'' ''/a'', newRecord KindLocal ''..'' ''/'', ?r]" by simp
  from EnumerateLocal_wire [OF controls_hidden_latin1 run this] run this show ?thesis by auto
qed

lemma entry_less_key: "entry_less a b \<longleftrightarrow> entry_key a < entry_key b"
  by (auto simp: entry_less_def entry_key_def less_prod_def)

text \<open>
  The list a directory yields is the two navigation records, then all directories, then, for the
  cp picker only, all other entries; nothing is lost or duplicated, and within each group no
  entry stands before one that the code's comparison puts first.
\<close>

theorem buildLocalRecords_groups:
  "\<exists>ds fs. buildLocalRecords u p l es = rootRecords p l
       @ map (\<lambda>e. newRecord (localDirectoryKind p)
              (EscapeDisplay u (le_name e) @ (if p = PickerCP then ''/'' else [])) (le_path e)) ds
       @ map (\<lambda>e. newRecord KindFile (EscapeDisplay u (le_name e)) (le_path e)) fs
     \<and> mset ds = filter_mset le_directory (mset es)
     \<and> mset fs = (if p = PickerCP then filter_mset (\<lambda>e. \<not> le_directory e) (mset es) else {#})
     \<and> sorted_wrt (\<lambda>a b. \<not> entry_less b a) ds \<and> sorted_wrt (\<lambda>a b. \<not> entry_less b a) fs"
proof -
  have srt: "sorted_wrt (\<lambda>a b. \<not> entry_less b a) (sortLocalEntries xs)" for xs
    using sorted_sort_key [of entry_key xs]
    by (simp add: sortLocalEntries_def entry_less_key not_less sorted_wrt_map)
  show ?thesis
    by (rule exI [of _ "sortLocalEntries (filter le_directory es)"],
        rule exI [of _ "sortLocalEntries (if p = PickerCP then filter (\<lambda>e. \<not> le_directory e) es else [])"])
       (simp add: srt buildLocalRecords_def Let_def, simp add: sortLocalEntries_def)
qed

section \<open>Merging by identity\<close>

text \<open>Keep the first element of each key, given the keys already seen.\<close>

fun dedup_by :: "('a \<Rightarrow> 'k) \<Rightarrow> 'k set \<Rightarrow> 'a list \<Rightarrow> 'a list" where
  "dedup_by key seen [] = []"
| "dedup_by key seen (x # xs) =
     (if key x \<in> seen then dedup_by key seen xs else x # dedup_by key (insert (key x) seen) xs)"

lemma dedup_by_keys: "key ` set (dedup_by key seen xs) = key ` set xs - seen"
  by (induction key seen xs rule: dedup_by.induct) auto

lemma dedup_by_distinct: "distinct (map key (dedup_by key seen xs))"
  by (induction key seen xs rule: dedup_by.induct) (auto simp: dedup_by_keys)

lemma dedup_by_subset: "set (dedup_by key seen xs) \<subseteq> set xs"
  by (induction key seen xs rule: dedup_by.induct) auto

lemma dedup_by_id: "distinct (map key xs) \<Longrightarrow> key ` set xs \<inter> seen = {} \<Longrightarrow> dedup_by key seen xs = xs"
  by (induction key seen xs rule: dedup_by.induct) auto

lemma dedup_by_none: "key ` set xs \<subseteq> seen \<Longrightarrow> dedup_by key seen xs = []"
  by (induction key seen xs rule: dedup_by.induct) auto

text \<open>
  The contract of a merge: base first, then the additions whose identity is new.  Its clients
  (the initial build and the late arrival of zoxide records) need only the laws below.
\<close>

locale identity_merge =
  fixes key :: "'a \<Rightarrow> 'k" and merge :: "'a list \<Rightarrow> 'a list \<Rightarrow> 'a list \<times> 'a list"
  assumes merge_eq: "merge base adds =
    (dedup_by key {} base @ dedup_by key (key ` set base) adds, dedup_by key (key ` set base) adds)"
begin

lemma merge_distinct: "distinct (map key (fst (merge base adds)))"
  by (simp add: merge_eq dedup_by_distinct dedup_by_keys)

lemma merge_keys: "key ` set (fst (merge base adds)) = key ` set base \<union> key ` set adds"
  by (auto simp: merge_eq image_Un dedup_by_keys)

lemma merge_base_first: "distinct (map key base) \<Longrightarrow> fst (merge base adds) = base @ snd (merge base adds)"
  by (simp add: merge_eq dedup_by_id)

lemma merge_admitted: "r \<in> set (snd (merge base adds)) \<Longrightarrow> r \<in> set adds \<and> key r \<notin> key ` set base"
  using dedup_by_subset [of key "key ` set base" adds] dedup_by_keys [of key "key ` set base" adds]
  by (auto simp: merge_eq)

lemma merge_again: "snd (merge (fst (merge base adds)) adds) = []"
  using merge_keys [of base adds] by (simp add: merge_eq [of "fst (merge base adds)"] dedup_by_none)

end

definition record_key :: "candidate \<Rightarrow> merge_key" where
  "record_key r =
     (if rec_kind r = KindVirtual \<or> loc_kind (rec_target r) \<noteq> LocFilesystem
      then VirtualKey (loc_kind (rec_target r)) (loc_path (rec_target r)) (FullKey r)
      else FilesystemKey (filesystemRecordKey (loc_path (rec_target r))))"

definition seen_keys :: "merge_state \<Rightarrow> merge_key set" where
  "seen_keys m = FilesystemKey ` set (ms_filesystem m) \<union> (\<lambda>(k, t, w). VirtualKey k t w) ` set (ms_virtual m)"

lemma seen_keys_iff [simp]:
  "FilesystemKey p \<in> seen_keys m \<longleftrightarrow> p \<in> set (ms_filesystem m)"
  "VirtualKey k t w \<in> seen_keys m \<longleftrightarrow> (k, t, w) \<in> set (ms_virtual m)"
  by (force simp: seen_keys_def)+

lemma merge_append_seen: "record_key r \<in> seen_keys m \<Longrightarrow> merge_append collect add r m = m"
  by (auto simp: merge_append_def record_key_def Let_def split: if_splits)

lemma merge_append_new:
  assumes "record_key r \<notin> seen_keys m"
  shows "ms_merged (merge_append collect add r m) = ms_merged m @ [r]"
    and "ms_admitted (merge_append collect add r m) = ms_admitted m @ (if add \<and> collect then [r] else [])"
    and "seen_keys (merge_append collect add r m) = insert (record_key r) (seen_keys m)"
proof -
  show "ms_merged (merge_append collect add r m) = ms_merged m @ [r]"
    and "ms_admitted (merge_append collect add r m) = ms_admitted m @ (if add \<and> collect then [r] else [])"
    using assms by (auto simp: merge_append_def record_key_def Let_def split: if_splits)
  have "seen_keys (merge_append collect add r m) = insert (record_key r) (seen_keys m)"
  proof (cases "rec_kind r = KindVirtual \<or> loc_kind (rec_target r) \<noteq> LocFilesystem")
    case True
    with assms have "(loc_kind (rec_target r), loc_path (rec_target r), FullKey r) \<notin> set (ms_virtual m)"
      by (simp add: record_key_def)
    with True show ?thesis by (simp add: merge_append_def record_key_def Let_def) (simp add: seen_keys_def)
  next
    case False
    with assms have "filesystemRecordKey (loc_path (rec_target r)) \<notin> set (ms_filesystem m)"
      by (simp add: record_key_def)
    with False show ?thesis by (simp add: merge_append_def record_key_def Let_def) (simp add: seen_keys_def)
  qed
  then show "seen_keys (merge_append collect add r m) = insert (record_key r) (seen_keys m)" .
qed

lemma merge_fold:
  "ms_merged (fold (merge_append collect add) rs m) = ms_merged m @ dedup_by record_key (seen_keys m) rs \<and>
   ms_admitted (fold (merge_append collect add) rs m)
     = ms_admitted m @ (if add \<and> collect then dedup_by record_key (seen_keys m) rs else []) \<and>
   seen_keys (fold (merge_append collect add) rs m) = seen_keys m \<union> record_key ` set rs"
proof (induction rs arbitrary: m)
  case (Cons r rs)
  show ?case
  proof (cases "record_key r \<in> seen_keys m")
    case True
    with merge_append_seen [OF True, of collect add] Cons [of m] show ?thesis by auto
  next
    case False
    with merge_append_new [OF False, of collect add] Cons [of "merge_append collect add r m"] show ?thesis by auto
  qed
qed simp

lemma mergeRecords_eq:
  "mergeRecords base adds collect =
    (dedup_by record_key {} base @ dedup_by record_key (record_key ` set base) adds,
     if collect then dedup_by record_key (record_key ` set base) adds else [])"
proof -
  let ?m0 = "\<lparr>ms_merged = [], ms_admitted = [], ms_filesystem = [], ms_virtual = []\<rparr>"
  have "seen_keys ?m0 = {}" by (simp add: seen_keys_def)
  then show ?thesis using merge_fold [of collect False base ?m0]
      merge_fold [of collect True adds "fold (merge_append collect False) base ?m0"]
    by (cases collect) (simp_all add: mergeRecords_def Let_def)
qed

interpretation records: identity_merge record_key MergeNewRecords
  by unfold_locales (simp add: MergeNewRecords_def mergeRecords_eq)

text \<open>
  Merging puts the base records first and in order, then the additions whose target is new: the
  identities in the result are those of the two inputs without repetition, an admitted
  addition never has the identity of a base record, a duplicate-free base is kept as it is,
  and merging the same additions again admits nothing.
\<close>

theorem MergeNewRecords_identity:
  assumes "MergeNewRecords base adds = (merged, admitted)"
  shows "distinct (map record_key merged)
    \<and> record_key ` set merged = record_key ` set base \<union> record_key ` set adds
    \<and> (\<forall>r \<in> set admitted. r \<in> set adds \<and> record_key r \<notin> record_key ` set base)
    \<and> (distinct (map record_key base) \<longrightarrow> merged = base @ admitted)
    \<and> snd (MergeNewRecords merged adds) = []"
  using records.merge_distinct [of base adds] records.merge_keys [of base adds]
    records.merge_admitted [of _ base adds] records.merge_base_first [of base adds]
    records.merge_again [of base adds] assms
  by simp

theorem MergeNewRecords_identity_witness:
  "\<exists>merged admitted. MergeNewRecords [newRecord KindLocal ''a'' ''/a''] [newRecord KindZoxide ''x'' ''/a/'', newRecord KindZoxide ''b'' ''/b'']
     = (merged, admitted) \<and> admitted = [newRecord KindZoxide ''b'' ''/b'']
     \<and> snd (MergeNewRecords merged [newRecord KindZoxide ''x'' ''/a/'', newRecord KindZoxide ''b'' ''/b'']) = []"
proof -
  let ?base = "[newRecord KindLocal ''a'' ''/a'']"
  let ?adds = "[newRecord KindZoxide ''x'' ''/a/'', newRecord KindZoxide ''b'' ''/b'']"
  have run: "MergeNewRecords ?base ?adds = (?base @ [newRecord KindZoxide ''b'' ''/b''], [newRecord KindZoxide ''b'' ''/b''])"
    by code_simp
  from MergeNewRecords_identity [OF run] run show ?thesis by blast
qed

end
