(* ===== verification/Zoxide.thy ===== *)
theory Zoxide
  imports Candidate
begin

text \<open>
  \<open>internal/candidate\<close>, the zoxide source: the output limiter (zoxide_limits.go), the parser, the
  tracker and the one-shot cache (zoxide.go), and the builder that combines both sources
  (builder.go).

  The child process is outside the source: a run is the list of chunks it wrote, the error of
  \<open>Runner.Run\<close>, the process events, and the state of the context afterwards.  Durations are
  not modelled.
\<close>

section \<open>zoxide\_limits.go\<close>

definition MaxZoxideOutputBytes :: nat where "MaxZoxideOutputBytes = 4 * 2 ^ 20"
definition MaxZoxideRows :: nat where "MaxZoxideRows = 1000000"
definition MaxZoxideRowBytes :: nat where "MaxZoxideRowBytes = 128 * 2 ^ 10"

definition errZoxideOutputLimit :: go_error where
  "errZoxideOutputLimit = ErrText ''zoxide output exceeds the configured limit''"

record 'w limit_writer =
  zw_sink :: 'w
  zw_cancel :: bool
  zw_cause :: "go_error option"
  zw_max_bytes :: nat
  zw_max_rows :: nat
  zw_max_row :: nat
  zw_total :: nat
  zw_rows :: nat
  zw_row_bytes :: nat
  zw_err :: "go_error option"

definition newZoxideLimitWriter :: "'w \<Rightarrow> nat \<Rightarrow> nat \<Rightarrow> nat \<Rightarrow> bool \<Rightarrow> 'w limit_writer" where
  "newZoxideLimitWriter sink mb mr ms cancel =
     \<lparr>zw_sink = sink, zw_cancel = cancel, zw_cause = None, zw_max_bytes = mb, zw_max_rows = mr, zw_max_row = ms,
      zw_total = 0, zw_rows = 0, zw_row_bytes = 0, zw_err = None\<rparr>"

definition writeSink :: "'w writer \<Rightarrow> bytes \<Rightarrow> 'w limit_writer \<Rightarrow> go_error option \<times> 'w limit_writer" where
  "writeSink w data z =
     (case w (zw_sink z) data of
        (n, err, s) \<Rightarrow>
          let z = z\<lparr>zw_sink := s\<rparr> in
          if n < 0 \<or> n > int (length data) then (Some (ErrText ''zoxide output writer returned invalid count''), z)
          else case err of
                 Some e \<Rightarrow> (Some e, z)
               | None \<Rightarrow> if n \<noteq> int (length data) then (Some ErrShortWrite, z) else (None, z))"

definition reject :: "'w writer \<Rightarrow> bytes \<Rightarrow> nat \<Rightarrow> 'w limit_writer \<Rightarrow> (int \<times> go_error option) \<times> 'w limit_writer" where
  "reject w data accepted z =
     (let refuse = (\<lambda>z. ((int accepted, Some errZoxideOutputLimit),
            z\<lparr>zw_err := Some errZoxideOutputLimit,
              zw_cause := (if zw_cancel z \<and> zw_cause z = None then Some errZoxideOutputLimit else zw_cause z)\<rparr>)) in
      if accepted > 0 then
        (case writeSink w (take accepted data) z of
           (Some e, z') \<Rightarrow> ((0, Some e), z'\<lparr>zw_err := Some e\<rparr>)
         | (None, z') \<Rightarrow> refuse (z'\<lparr>zw_total := zw_total z' + accepted\<rparr>))
      else refuse z)"

text \<open>The loop of \<open>Write\<close>; it stops with the index at which a byte is refused.\<close>

fun limit_scan :: "'w limit_writer \<Rightarrow> bytes \<Rightarrow> nat \<Rightarrow> 'w limit_writer \<times> nat option" where
  "limit_scan z [] i = (z, None)"
| "limit_scan z (v # vs) i =
     (if zw_total z + i \<ge> zw_max_bytes z then (z, Some i)
      else if v = LF then
        (if zw_rows z \<ge> zw_max_rows z then (z, Some i)
         else limit_scan (z\<lparr>zw_rows := Suc (zw_rows z), zw_row_bytes := 0\<rparr>) vs (Suc i))
      else if zw_rows z \<ge> zw_max_rows z \<or> zw_row_bytes z \<ge> zw_max_row z then (z, Some i)
      else limit_scan (z\<lparr>zw_row_bytes := Suc (zw_row_bytes z)\<rparr>) vs (Suc i))"

definition limit_Write :: "'w writer \<Rightarrow> bytes \<Rightarrow> 'w limit_writer \<Rightarrow> (int \<times> go_error option) \<times> 'w limit_writer" where
  "limit_Write w data z =
     (case zw_err z of
        Some e \<Rightarrow> ((0, Some e), z)
      | None \<Rightarrow>
          (case limit_scan z data 0 of
             (z', Some i) \<Rightarrow> reject w data i z'
           | (z', None) \<Rightarrow>
               if data = [] then ((0, None), z')
               else case writeSink w data z' of
                      (Some e, z'') \<Rightarrow> ((0, Some e), z''\<lparr>zw_err := Some e\<rparr>)
                    | (None, z'') \<Rightarrow> ((int (length data), None), z''\<lparr>zw_total := zw_total z'' + length data\<rparr>)))"

definition limit_finalize :: "'w writer \<Rightarrow> 'w limit_writer \<Rightarrow> go_error option \<times> 'w limit_writer" where
  "limit_finalize w z =
     (case zw_err z of
        Some e \<Rightarrow> (Some e, z)
      | None \<Rightarrow>
          if zw_row_bytes z \<noteq> 0 then
            (if zw_rows z \<ge> zw_max_rows z then (case reject w [] 0 z of ((_, err), z') \<Rightarrow> (err, z'))
             else (None, z\<lparr>zw_rows := Suc (zw_rows z)\<rparr>))
          else (None, z))"

section \<open>zoxide.go: parsing\<close>

text \<open>\<open>io.Discard\<close>.\<close>

definition discard_writer :: "unit writer" where
  "discard_writer st data = (int (length data), None, st)"

definition validateZoxideOutputBounds :: "bytes \<Rightarrow> go_error option" where
  "validateZoxideOutputBounds output =
     (let z = newZoxideLimitWriter () MaxZoxideOutputBytes MaxZoxideRows MaxZoxideRowBytes False in
      case limit_Write discard_writer output z of
        ((_, Some e), _) \<Rightarrow> Some e
      | ((_, None), z') \<Rightarrow> fst (limit_finalize discard_writer z'))"

definition zoxide_record :: "unicode \<Rightarrow> bytes \<Rightarrow> candidate" where
  "zoxide_record u row = newRecord KindZoxide (zoxideDisplay u row) row"

definition empty_row :: go_error where "empty_row = ErrText ''zoxide output contains an empty row''"

text \<open>The loop over the rows; the argument is the output from \<open>start\<close> on.\<close>

function parse_rows :: "unicode \<Rightarrow> bytes \<Rightarrow> candidate list result" where
  "parse_rows u out =
     (case out of
        [] \<Rightarrow> Inr []
      | _ # _ \<Rightarrow>
          let row = takeWhile (\<lambda>c. c \<noteq> LF) out; rest = dropWhile (\<lambda>c. c \<noteq> LF) out in
          if row = [] then Inl empty_row
          else if NUL \<in> set row then Inl (ErrText ''zoxide output contains NUL'')
          else if \<not> is_abs row then Inl (ErrText ''zoxide path is not absolute'')
          else case parse_rows u (tl rest) of
                 Inl e \<Rightarrow> Inl e
               | Inr rs \<Rightarrow> Inr (zoxide_record u row # rs))"
  by pat_completeness auto
termination
  by (relation "measure (\<lambda>(u, p). length p)") (auto intro: le_imp_less_Suc length_dropWhile_le le_trans diff_le_self)

declare parse_rows.simps [simp del]

definition parseZoxideRecords :: "unicode \<Rightarrow> bytes \<Rightarrow> candidate list result" where
  "parseZoxideRecords u output =
     (case validateZoxideOutputBounds output of
        Some e \<Rightarrow> Inl e
      | None \<Rightarrow>
          if output = [] then Inr []
          else let output = (if last output = LF then butlast output else output) in
               if output = [] then Inl empty_row else parse_rows u output)"

section \<open>zoxide.go: tracker and cache\<close>

datatype phase = PhaseAttempt | PhaseStart | PhaseExit | PhaseOther string

record tracker =
  tr_attempts :: int
  tr_starts :: int
  tr_exits :: int
  tr_processes :: int
  tr_live :: int
  tr_max_live :: int

definition newZoxideTracker :: tracker where
  "newZoxideTracker = \<lparr>tr_attempts = 0, tr_starts = 0, tr_exits = 0, tr_processes = 0, tr_live = 0, tr_max_live = 0\<rparr>"

definition observe :: "phase \<Rightarrow> tracker \<Rightarrow> tracker" where
  "observe p t =
     (case p of
        PhaseAttempt \<Rightarrow> t\<lparr>tr_attempts := tr_attempts t + 1\<rparr>
      | PhaseStart \<Rightarrow>
          let t = t\<lparr>tr_starts := tr_starts t + 1, tr_processes := tr_processes t + 1, tr_live := tr_live t + 1\<rparr> in
          if tr_live t > tr_max_live t then t\<lparr>tr_max_live := tr_live t\<rparr> else t
      | PhaseExit \<Rightarrow> t\<lparr>tr_exits := tr_exits t + 1, tr_live := tr_live t - 1\<rparr>
      | PhaseOther _ \<Rightarrow> t)"

datatype zoxide_outcome = OutcomeUnset | OutcomeOk | OutcomeMalformed | OutcomeTimeout | OutcomeCancelled
  | OutcomeMissing | OutcomeProcessError | OutcomeCached | OutcomeNotRun | OutcomePending

definition errZoxideNotReady :: go_error where "errZoxideNotReady = ErrText ''zoxide cache is not ready''"
definition errZoxideTimeout :: go_error where
  "errZoxideTimeout = ErrWrap ''zoxide private timeout'' ErrDeadlineExceeded"
definition ErrNotFound :: go_error where "ErrNotFound = ErrText ''executable file not found in $PATH''"

record zoxide_run =
  zr_nil_ctx :: bool
  zr_chunks :: "bytes list"
  zr_run_err :: "go_error option"
  zr_events :: "phase list"
  zr_ctx_cause :: "go_error option"

record zoxide_cache =
  zc_started :: bool
  zc_ready :: bool
  zc_records :: "candidate list"
  zc_outcome :: zoxide_outcome
  zc_tracker :: tracker
  zc_err :: "go_error option"

definition newZoxideCache :: zoxide_cache where
  "newZoxideCache = \<lparr>zc_started = False, zc_ready = False, zc_records = [], zc_outcome = OutcomeUnset,
     zc_tracker = newZoxideTracker, zc_err = None\<rparr>"

definition is_opt :: "go_error option \<Rightarrow> go_error \<Rightarrow> bool" where
  "is_opt e t \<longleftrightarrow> (\<exists>x. e = Some x \<and> errors_is x t)"

lemma is_opt_code [code, simp]: "is_opt None t = False" "is_opt (Some x) t = errors_is x t"
  by (auto simp: is_opt_def)

definition run_stdout :: "zoxide_run \<Rightarrow> bytes limit_writer" where
  "run_stdout r =
     fold (\<lambda>c z. snd (limit_Write buffer_writer c z)) (zr_chunks r)
       (newZoxideLimitWriter [] MaxZoxideOutputBytes MaxZoxideRows MaxZoxideRowBytes True)"

text \<open>The goroutine body \<open>cache.load\<close>; closing \<open>ready\<close> is its last act.\<close>

definition cache_load :: "unicode \<Rightarrow> zoxide_run \<Rightarrow> zoxide_cache \<Rightarrow> zoxide_cache" where
  "cache_load u r c =
     (if zr_nil_ctx r then
        c\<lparr>zc_ready := True, zc_outcome := OutcomeProcessError, zc_err := Some (ErrText ''zoxide: nil context'')\<rparr>
      else
        let c = c\<lparr>zc_ready := True, zc_tracker := fold observe (zr_events r) newZoxideTracker\<rparr>;
            stdout = run_stdout r;
            outputErr = fst (limit_finalize buffer_writer stdout);
            runErr = zr_run_err r
        in if is_opt outputErr errZoxideOutputLimit then
             c\<lparr>zc_outcome := OutcomeMalformed, zc_err := Some errZoxideOutputLimit\<rparr>
           else if is_opt runErr errZoxideTimeout then c\<lparr>zc_outcome := OutcomeTimeout, zc_err := runErr\<rparr>
           else if zr_ctx_cause r \<noteq> None then c\<lparr>zc_outcome := OutcomeCancelled, zc_err := zr_ctx_cause r\<rparr>
           else if is_opt runErr ErrNotFound then c\<lparr>zc_outcome := OutcomeMissing, zc_err := runErr\<rparr>
           else if runErr \<noteq> None then c\<lparr>zc_outcome := OutcomeProcessError, zc_err := runErr\<rparr>
           else case parseZoxideRecords u (zw_sink stdout) of
                  Inl e \<Rightarrow> c\<lparr>zc_outcome := OutcomeMalformed, zc_err := Some e\<rparr>
                | Inr rs \<Rightarrow> c\<lparr>zc_records := rs, zc_outcome := OutcomeOk\<rparr>)"

text \<open>
  \<open>Load\<close>: the first caller starts the run and waits for it; a later caller gets the shared
  result, or gives up when its own context ends first (\<open>gave_up\<close>).
\<close>

datatype load_outcome = LoadErr "go_error option" | WaiterCancelled go_error

definition Load :: "unicode \<Rightarrow> zoxide_run \<Rightarrow> go_error option \<Rightarrow> zoxide_cache \<Rightarrow> load_outcome \<times> zoxide_cache" where
  "Load u r gave_up c =
     (if \<not> zc_started c then
        let c' = cache_load u r (c\<lparr>zc_started := True\<rparr>) in (LoadErr (zc_err c'), c')
      else case gave_up of
             Some cause \<Rightarrow> (WaiterCancelled cause, c)
           | None \<Rightarrow> (LoadErr (zc_err c), c))"

definition Records :: "zoxide_cache \<Rightarrow> candidate list \<times> zoxide_outcome \<times> go_error option" where
  "Records c = (if zc_ready c then (zc_records c, zc_outcome c, zc_err c)
                else ([], OutcomeUnset, Some errZoxideNotReady))"

definition ParseZoxidePolicy :: "string \<Rightarrow> nat result" where
  "ParseZoxidePolicy v =
     (if v = ''cached'' then Inr 1 else if v = ''fresh'' then Inr 2 else Inl (ErrText ''invalid zoxide policy''))"

definition ZoxideCached :: nat where "ZoxideCached = 1"
definition ZoxideFresh :: nat where "ZoxideFresh = 2"

definition policy_String :: "nat \<Rightarrow> string" where
  "policy_String p = (if p = ZoxideCached then ''cached'' else if p = ZoxideFresh then ''fresh''
     else ''ZoxidePolicy('' @ itoa p @ '')'')"

section \<open>builder.go\<close>

record build_request =
  br_generation :: u64
  br_picker :: picker
  br_location :: location
  br_stat_workers :: int
  br_initial :: bool

record build_result =
  bl_records :: "candidate list"
  bl_discarded :: bool
  bl_outcome :: zoxide_outcome

definition no_build :: build_result where
  "no_build = \<lparr>bl_records = [], bl_discarded = False, bl_outcome = OutcomeUnset\<rparr>"

text \<open>
  The cache factory \<open>NewCache\<close> yields a cache, nil or an error; the permit is the one token of the
  channel \<open>freshPermit\<close>.
\<close>

record builder =
  bd_policy :: nat
  bd_cache :: "zoxide_cache option"
  bd_new_cache :: "zoxide_cache option result option"
  bd_permit :: "bool option"

definition ConfigureCached :: "zoxide_cache \<Rightarrow> builder \<Rightarrow> builder" where
  "ConfigureCached c b = b\<lparr>bd_cache := Some c, bd_policy := ZoxideCached, bd_new_cache := None, bd_permit := None\<rparr>"

definition ConfigureFresh :: "zoxide_cache option result \<Rightarrow> builder \<Rightarrow> builder" where
  "ConfigureFresh f b = b\<lparr>bd_cache := None, bd_policy := ZoxideFresh, bd_new_cache := Some f, bd_permit := Some True\<rparr>"

definition validate :: "builder \<Rightarrow> go_error option" where
  "validate b =
     (if bd_policy b = ZoxideCached then
        (if bd_cache b = None \<or> bd_new_cache b \<noteq> None
         then Some (ErrText ''cached zoxide policy requires Cache and forbids NewCache'') else None)
      else if bd_policy b = ZoxideFresh then
        (if bd_cache b \<noteq> None \<or> bd_new_cache b = None \<or> bd_permit b = None
         then Some (ErrText ''fresh zoxide policy requires explicit configuration'') else None)
      else Some (ErrText ''invalid zoxide policy''))"

text \<open>A context at one point in time: absent, or with its cause when it has ended.\<close>

type_synonym go_context = "go_error option option"

definition validateContext :: "go_context \<Rightarrow> go_error option" where
  "validateContext ctx = (case ctx of None \<Rightarrow> Some (ErrText ''candidate builder: nil context'') | Some cause \<Rightarrow> cause)"

definition validateBuildRequest :: "go_context \<Rightarrow> build_request \<Rightarrow> go_error option" where
  "validateBuildRequest ctx rq =
     (case validateContext ctx of
        Some e \<Rightarrow> Some e
      | None \<Rightarrow> if br_picker rq \<noteq> PickerCD \<and> br_picker rq \<noteq> PickerCP then Some (ErrText ''unsupported picker'') else None)"

text \<open>
  Waiting for the permit: \<open>picks_done\<close> resolves the select when both channels are ready, and
  with neither ready the call does not return.
\<close>

definition acquireFreshPermit :: "bool \<Rightarrow> go_error option \<Rightarrow> go_error option \<Rightarrow> bool \<Rightarrow> (go_error option \<times> bool) option" where
  "acquireFreshPermit picks_done cause cause_after permit =
     (if cause \<noteq> None \<and> (picks_done \<or> \<not> permit) then Some (cause, permit)
      else if permit then (case cause_after of Some e \<Rightarrow> Some (Some e, True) | None \<Rightarrow> Some (None, False))
      else None)"

definition loadInitialZoxide :: "go_error option \<Rightarrow> load_outcome \<Rightarrow> zoxide_cache \<Rightarrow> build_result result" where
  "loadInitialZoxide cause loaded c =
     (case loaded of
        WaiterCancelled e \<Rightarrow> Inl (ErrWrap ''zoxide cache waiter canceled'' e)
      | LoadErr loadErr \<Rightarrow>
          (case Records c of
             (records, outcome, recordsErr) \<Rightarrow>
               let result = \<lparr>bl_records = records,
                     bl_discarded = (outcome \<noteq> OutcomeOk \<and> outcome \<noteq> OutcomeCached), bl_outcome = outcome\<rparr> in
               if outcome = OutcomeCancelled then
                 (case loadErr of
                    Some e \<Rightarrow> Inl e
                  | None \<Rightarrow> (case recordsErr of Some e \<Rightarrow> Inl e | None \<Rightarrow> Inr result))
               else if outcome \<noteq> OutcomeTimeout \<and> cause \<noteq> None then Inl (the cause)
               else if recordsErr \<noteq> None \<and> outcome = OutcomeUnset then Inl (the recordsErr)
               else Inr result))"

text \<open>What happens around one call: contexts at the points the code reads them, and the run.\<close>

record zoxide_world =
  zx_ctx :: go_context
  zx_picks_done :: bool
  zx_acquired :: "go_error option"
  zx_gave_up :: "go_error option"
  zx_run :: zoxide_run
  zx_after :: "go_error option"

definition LoadInitialZoxide :: "unicode \<Rightarrow> zoxide_world \<Rightarrow> builder \<Rightarrow> (build_result result \<times> builder) option" where
  "LoadInitialZoxide u w b =
     (case validate b of
        Some e \<Rightarrow> Some (Inl e, b)
      | None \<Rightarrow>
          (case validateContext (zx_ctx w) of
             Some e \<Rightarrow> Some (Inl e, b)
           | None \<Rightarrow>
               if bd_policy b = ZoxideFresh then
                 (case acquireFreshPermit (zx_picks_done w) (the (zx_ctx w)) (zx_acquired w) (the (bd_permit b)) of
                    None \<Rightarrow> None
                  | Some (Some e, permit) \<Rightarrow> Some (Inl e, b\<lparr>bd_permit := Some permit\<rparr>)
                  | Some (None, _) \<Rightarrow>
                      (let b' = b\<lparr>bd_permit := Some True\<rparr> in
                       case the (bd_new_cache b) of
                         Inl e \<Rightarrow> Some (Inl (ErrWrap ''create fresh zoxide cache'' e), b')
                       | Inr None \<Rightarrow> Some (Inl (ErrText ''create fresh zoxide cache: nil cache''), b')
                       | Inr (Some c) \<Rightarrow>
                           (case Load u (zx_run w) (zx_gave_up w) c of
                              (loaded, c') \<Rightarrow> Some (loadInitialZoxide (zx_after w) loaded c', b'))))
               else
                 (case Load u (zx_run w) (zx_gave_up w) (the (bd_cache b)) of
                    (loaded, c') \<Rightarrow> Some (loadInitialZoxide (zx_after w) loaded c', b\<lparr>bd_cache := Some c'\<rparr>))))"

definition buildLocalOnly :: "go_error option \<Rightarrow> candidate list result \<Rightarrow> build_result result" where
  "buildLocalOnly cause enumerated =
     (case cause of
        Some e \<Rightarrow> Inl e
      | None \<Rightarrow>
          (case enumerated of
             Inl e \<Rightarrow> Inl e
           | Inr rs \<Rightarrow> Inr \<lparr>bl_records = rs, bl_discarded = False, bl_outcome = OutcomeNotRun\<rparr>))"

definition BuildLocal :: "go_context \<Rightarrow> go_error option \<Rightarrow> candidate list result \<Rightarrow> builder \<Rightarrow> build_request \<Rightarrow> build_result result" where
  "BuildLocal ctx cause enumerated b rq =
     (case validate b of
        Some e \<Rightarrow> Inl e
      | None \<Rightarrow> (case validateBuildRequest ctx rq of
                   Some e \<Rightarrow> Inl e
                 | None \<Rightarrow> buildLocalOnly cause enumerated))"

text \<open>
  The two goroutines of \<open>buildWithZoxide\<close>: \<open>local_first\<close> says whose result the select takes first.
  After a failure the other one is drained and its result dropped.
\<close>

definition first_error :: "bool \<Rightarrow> build_result result \<Rightarrow> build_result result \<Rightarrow> go_error option" where
  "first_error local_first local zoxide =
     (let le = (case local of Inl e \<Rightarrow> Some e | Inr _ \<Rightarrow> None);
          ze = (case zoxide of Inl e \<Rightarrow> Some e | Inr _ \<Rightarrow> None)
      in if local_first then (case le of Some e \<Rightarrow> Some e | None \<Rightarrow> ze)
         else (case ze of Some e \<Rightarrow> Some e | None \<Rightarrow> le))"

definition buildWithZoxide :: "bool \<Rightarrow> go_error option \<Rightarrow> build_result result \<Rightarrow> build_result result \<Rightarrow> build_result result" where
  "buildWithZoxide local_first cause local zoxide =
     (case first_error local_first local zoxide of
        Some e \<Rightarrow> (case cause of Some c \<Rightarrow> Inl c | None \<Rightarrow> Inl e)
      | None \<Rightarrow>
          (case (local, zoxide) of
             (Inr l, Inr z) \<Rightarrow>
               if bl_outcome z \<noteq> OutcomeTimeout \<and> cause \<noteq> None then Inl (the cause)
               else Inr \<lparr>bl_records = MergeRecords (bl_records l) (bl_records z),
                         bl_discarded = bl_discarded z, bl_outcome = bl_outcome z\<rparr>
           | _ \<Rightarrow> Inl (ErrText ''unreachable'')))"

definition Build :: "bool \<Rightarrow> go_context \<Rightarrow> go_error option \<Rightarrow> go_error option \<Rightarrow> candidate list result \<Rightarrow>
    build_result result \<Rightarrow> builder \<Rightarrow> build_request \<Rightarrow> build_result result" where
  "Build local_first ctx local_cause cause enumerated zoxide b rq =
     (case validate b of
        Some e \<Rightarrow> Inl e
      | None \<Rightarrow>
          (case validateBuildRequest ctx rq of
             Some e \<Rightarrow> Inl e
           | None \<Rightarrow>
               if br_picker rq = PickerCP \<or> \<not> br_initial rq then BuildLocal ctx local_cause enumerated b rq
               else buildWithZoxide local_first cause (BuildLocal ctx local_cause enumerated b rq) zoxide))"

section \<open>The limiter, byte by byte\<close>

text \<open>The reference machine: one byte at a time, into a buffer.\<close>

definition limit_refuse :: "'w limit_writer \<Rightarrow> 'w limit_writer" where
  "limit_refuse z = z\<lparr>zw_err := Some errZoxideOutputLimit,
     zw_cause := (if zw_cancel z \<and> zw_cause z = None then Some errZoxideOutputLimit else zw_cause z)\<rparr>"

definition limit_full :: "'w limit_writer \<Rightarrow> char \<Rightarrow> bool" where
  "limit_full z v \<longleftrightarrow> zw_total z \<ge> zw_max_bytes z \<or> zw_rows z \<ge> zw_max_rows z
     \<or> (v \<noteq> LF \<and> zw_row_bytes z \<ge> zw_max_row z)"

definition limit_byte :: "char \<Rightarrow> bytes limit_writer \<Rightarrow> bytes limit_writer" where
  "limit_byte v z =
     (if zw_err z \<noteq> None then z
      else if limit_full z v then limit_refuse z
      else z\<lparr>zw_sink := zw_sink z @ [v], zw_total := Suc (zw_total z),
             zw_rows := (if v = LF then Suc (zw_rows z) else zw_rows z),
             zw_row_bytes := (if v = LF then 0 else Suc (zw_row_bytes z))\<rparr>)"

definition advance :: "bytes \<Rightarrow> bytes limit_writer \<Rightarrow> bytes limit_writer" where
  "advance pre z = z\<lparr>zw_sink := zw_sink z @ pre, zw_total := zw_total z + length pre\<rparr>"

lemma limit_byte_stuck: "zw_err z \<noteq> None \<Longrightarrow> fold limit_byte vs z = z"
  by (induction vs) (auto simp: limit_byte_def)

lemma limit_refuse_err [simp]: "zw_err (limit_refuse z) = Some errZoxideOutputLimit"
  by (simp add: limit_refuse_def)

lemma limit_scan_fold:
  assumes "zw_err z = None"
  shows "case limit_scan z vs (length pre) of
      (z', None) \<Rightarrow> fold limit_byte vs (advance pre z) = advance (pre @ vs) z' \<and> zw_err z' = None
    | (z', Some k) \<Rightarrow> length pre \<le> k \<and> k < length pre + length vs \<and>
        fold limit_byte vs (advance pre z) = limit_refuse (advance (take k (pre @ vs)) z') \<and> zw_err z' = None"
  using assms
proof (induction vs arbitrary: z pre)
  case (Cons v vs)
  show ?case
  proof (cases "limit_full (advance pre z) v")
    case True
    then have "limit_scan z (v # vs) (length pre) = (z, Some (length pre))"
      by (auto simp: limit_full_def advance_def)
    moreover have "fold limit_byte (v # vs) (advance pre z) = limit_refuse (advance pre z)"
      using True Cons.prems by (simp add: limit_byte_def advance_def limit_byte_stuck)
    ultimately show ?thesis using Cons.prems by simp
  next
    case False
    let ?z = "if v = LF then z\<lparr>zw_rows := Suc (zw_rows z), zw_row_bytes := 0\<rparr>
              else z\<lparr>zw_row_bytes := Suc (zw_row_bytes z)\<rparr>"
    have scan: "limit_scan z (v # vs) (length pre) = limit_scan ?z vs (length (pre @ [v]))"
      using False by (auto simp: limit_full_def advance_def)
    have run: "fold limit_byte (v # vs) (advance pre z) = fold limit_byte vs (advance (pre @ [v]) ?z)"
      using False Cons.prems by (cases z) (simp add: limit_byte_def advance_def)
    have "zw_err ?z = None" using Cons.prems by simp
    from Cons.IH [OF this, of "pre @ [v]"] show ?thesis
      unfolding scan run by (auto split: prod.splits option.splits)
  qed
qed (simp add: advance_def)

lemma limit_scan_sink: "limit_scan z vs i = (z', r) \<Longrightarrow> zw_sink z' = zw_sink z \<and> zw_total z' = zw_total z"
  by (induction z vs i rule: limit_scan.induct) (auto split: if_splits)

lemma writeSink_buffer: "writeSink buffer_writer data z = (None, z\<lparr>zw_sink := zw_sink z @ data\<rparr>)"
  by (simp add: writeSink_def buffer_writer_def)

lemma reject_buffer: "k \<le> length data \<Longrightarrow> snd (reject buffer_writer data k z) = limit_refuse (advance (take k data) z)"
  by (auto simp: reject_def writeSink_buffer limit_refuse_def advance_def Let_def min_def)

lemma limit_Write_fold: "snd (limit_Write buffer_writer data z) = fold limit_byte data z"
proof (cases "zw_err z")
  case (Some e)
  then show ?thesis using limit_byte_stuck by (simp add: limit_Write_def)
next
  case None
  obtain z' r where scan: "limit_scan z data 0 = (z', r)" by fastforce
  have adv: "advance [] z = z" by (simp add: advance_def)
  note spec = limit_scan_fold [OF None, of data "[]", unfolded adv]
  show ?thesis
  proof (cases r)
    case (Some k)
    then show ?thesis using scan spec None by (simp add: limit_Write_def reject_buffer)
  next
    case none: None
    then have "fold limit_byte data z = advance data z'" using scan spec by simp
    then show ?thesis using scan none None
      by (auto simp: limit_Write_def writeSink_buffer advance_def)
  qed
qed

lemma limit_Write_err: "zw_err z = None \<Longrightarrow> zw_err (snd (limit_Write buffer_writer data z)) = snd (fst (limit_Write buffer_writer data z))"
  using limit_scan_fold [of z data "[]"]
  by (auto simp: limit_Write_def writeSink_buffer reject_def Let_def split: prod.splits option.splits)

section \<open>What the limiter admits\<close>

text \<open>Lines of an output, the last one possibly without its newline.\<close>

definition within_limits :: "nat \<Rightarrow> nat \<Rightarrow> nat \<Rightarrow> bytes \<Rightarrow> bool" where
  "within_limits mb mr ms data \<longleftrightarrow>
     length data \<le> mb \<and> list_all (\<lambda>row. length row \<le> ms) (split_on LF data) \<and>
     count_byte LF data + (if last (split_on LF data) = [] then 0 else 1) \<le> mr"

lemma split_on_snoc_LF: "split_on LF (data @ [LF]) = split_on LF data @ [[]]"
  using split_on_snoc_sep [of LF data "[]"] by simp

lemma split_on_snoc_other: "v \<noteq> c \<Longrightarrow> split_on c (data @ [v]) = butlast (split_on c data) @ [last (split_on c data) @ [v]]"
proof (induction c data rule: split_on.induct)
  case (2 c x xs)
  have "split_on c xs \<noteq> []" by (cases xs) (auto split: list.splits)
  with 2 show ?case by (cases "split_on c xs"; cases "tl (split_on c xs)") (auto simp: neq_Nil_conv)
qed auto

definition limit_inv :: "bytes \<Rightarrow> bytes limit_writer \<Rightarrow> bool" where
  "limit_inv data z \<longleftrightarrow> zw_err z = None \<and> zw_sink z = data \<and> zw_total z = length data
     \<and> zw_rows z = count_byte LF data \<and> zw_row_bytes z = length (last (split_on LF data))
     \<and> within_limits (zw_max_bytes z) (zw_max_rows z) (zw_max_row z) data"

lemma list_all_butlast_last: "xs \<noteq> [] \<Longrightarrow> list_all P xs \<longleftrightarrow> list_all P (butlast xs) \<and> P (last xs)"
  by (cases xs rule: rev_cases) auto

lemma within_limits_LF:
  "within_limits mb mr ms (data @ [LF]) \<longleftrightarrow>
     length data < mb \<and> list_all (\<lambda>row. length row \<le> ms) (split_on LF data) \<and> count_byte LF data < mr"
  by (auto simp: within_limits_def split_on_snoc_LF)

lemma within_limits_other:
  "v \<noteq> LF \<Longrightarrow> within_limits mb mr ms (data @ [v]) \<longleftrightarrow>
     length data < mb \<and> list_all (\<lambda>row. length row \<le> ms) (butlast (split_on LF data)) \<and>
     length (last (split_on LF data)) < ms \<and> count_byte LF data < mr"
  by (auto simp: within_limits_def split_on_snoc_other)

lemma within_limits_alt:
  "within_limits mb mr ms data \<longleftrightarrow> length data \<le> mb \<and>
     list_all (\<lambda>row. length row \<le> ms) (butlast (split_on LF data)) \<and> length (last (split_on LF data)) \<le> ms \<and>
     count_byte LF data + (if last (split_on LF data) = [] then 0 else 1) \<le> mr"
  by (simp add: within_limits_def list_all_butlast_last [OF split_on_nonempty])

lemma limit_inv_step:
  assumes "limit_inv data z"
  shows "limit_full z v \<longleftrightarrow> \<not> within_limits (zw_max_bytes z) (zw_max_rows z) (zw_max_row z) (data @ [v])"
    and "\<not> limit_full z v \<Longrightarrow> limit_inv (data @ [v]) (limit_byte v z)"
proof -
  have data: "within_limits (zw_max_bytes z) (zw_max_rows z) (zw_max_row z) data" using assms by (simp add: limit_inv_def)
  show full: "limit_full z v \<longleftrightarrow> \<not> within_limits (zw_max_bytes z) (zw_max_rows z) (zw_max_row z) (data @ [v])"
  proof (cases "v = LF")
    case True
    then show ?thesis using assms data
      by (auto simp: limit_inv_def limit_full_def within_limits_LF) (auto simp: within_limits_def)
  next
    case False
    then show ?thesis using assms data
      by (auto simp: limit_inv_def limit_full_def within_limits_other) (auto simp: within_limits_alt)
  qed
  show "\<not> limit_full z v \<Longrightarrow> limit_inv (data @ [v]) (limit_byte v z)"
    using full assms by (cases "v = LF")
      (auto simp: limit_inv_def limit_byte_def split_on_snoc_LF split_on_snoc_other)
qed

lemma within_limits_snocD: "within_limits mb mr ms (data @ [v]) \<Longrightarrow> within_limits mb mr ms data"
proof (cases "v = LF")
  case True
  then show "within_limits mb mr ms (data @ [v]) \<Longrightarrow> within_limits mb mr ms data"
    by (simp add: within_limits_LF, simp add: within_limits_def)
next
  case False
  then show "within_limits mb mr ms (data @ [v]) \<Longrightarrow> within_limits mb mr ms data"
    by (simp add: within_limits_other, simp add: within_limits_alt)
qed

lemma within_limits_prefix: "within_limits mb mr ms (data @ vs) \<Longrightarrow> within_limits mb mr ms data"
proof (induction vs rule: rev_induct)
  case (snoc v vs)
  then show ?case using within_limits_snocD [of mb mr ms "data @ vs" v] by simp
qed simp

lemma limit_fold:
  assumes "limit_inv data z"
  shows "if within_limits (zw_max_bytes z) (zw_max_rows z) (zw_max_row z) (data @ vs)
    then limit_inv (data @ vs) (fold limit_byte vs z)
    else zw_err (fold limit_byte vs z) = Some errZoxideOutputLimit \<and>
      (\<exists>k < length vs. zw_sink (fold limit_byte vs z) = data @ take k vs \<and>
         within_limits (zw_max_bytes z) (zw_max_rows z) (zw_max_row z) (data @ take k vs))"
  using assms
proof (induction vs arbitrary: data z)
  case Nil
  then show ?case by (simp add: limit_inv_def)
next
  case (Cons v vs)
  let ?ok = "within_limits (zw_max_bytes z) (zw_max_rows z) (zw_max_row z)"
  show ?case
  proof (cases "limit_full z v")
    case True
    then have "\<not> ?ok (data @ v # vs)"
      using limit_inv_step(1) [OF Cons.prems, of v] within_limits_prefix [of _ _ _ "data @ [v]" vs] by auto
    moreover have "fold limit_byte (v # vs) z = limit_refuse z"
      using True Cons.prems by (simp add: limit_byte_def limit_inv_def limit_byte_stuck)
    ultimately show ?thesis using Cons.prems
      by (auto simp: limit_inv_def limit_refuse_def intro!: exI [of _ 0])
  next
    case False
    have lim: "zw_max_bytes (limit_byte v z) = zw_max_bytes z" "zw_max_rows (limit_byte v z) = zw_max_rows z"
      "zw_max_row (limit_byte v z) = zw_max_row z"
      by (simp_all add: limit_byte_def limit_refuse_def)
    note IH = Cons.IH [OF limit_inv_step(2) [OF Cons.prems False], unfolded lim]
    show ?thesis
    proof (cases "?ok (data @ v # vs)")
      case False
      with IH obtain k where "k < length vs" "zw_sink (fold limit_byte (v # vs) z) = data @ take (Suc k) (v # vs)"
        "?ok (data @ take (Suc k) (v # vs))" "zw_err (fold limit_byte (v # vs) z) = Some errZoxideOutputLimit"
        by auto
      with False show ?thesis by (metis Suc_less_eq length_Cons)
    qed (use IH in simp)
  qed
qed

lemma limit_inv_new: "limit_inv [] (newZoxideLimitWriter [] mb mr ms cancel)"
  by (simp add: limit_inv_def newZoxideLimitWriter_def within_limits_def)

lemma limit_chunks: "fold (\<lambda>c z. snd (limit_Write buffer_writer c z)) chunks z = fold limit_byte (concat chunks) z"
  by (induction chunks arbitrary: z) (auto simp: limit_Write_fold)

lemma limit_finalize_inv: "limit_inv data z \<Longrightarrow> fst (limit_finalize w z) = None"
  by (auto simp: limit_inv_def limit_finalize_def within_limits_def)

text \<open>
  The output limiter decides on the whole output, however the child's writes cut it into chunks:
  it accepts exactly the outputs within the byte, row and row-length limits and then has
  stored all of it; otherwise it reports the limit error, and what it stored is a proper prefix
  that is itself within the limits.
\<close>

theorem limit_writer_chunks:
  "let z = fold (\<lambda>c z. snd (limit_Write buffer_writer c z)) chunks (newZoxideLimitWriter [] mb mr ms cancel) in
   if within_limits mb mr ms (concat chunks)
   then zw_sink z = concat chunks \<and> fst (limit_finalize buffer_writer z) = None
   else fst (limit_finalize buffer_writer z) = Some errZoxideOutputLimit \<and>
     (\<exists>k < length (concat chunks). zw_sink z = take k (concat chunks) \<and> within_limits mb mr ms (zw_sink z))"
proof -
  let ?z0 = "newZoxideLimitWriter [] mb mr ms cancel"
  have lim: "zw_max_bytes ?z0 = mb" "zw_max_rows ?z0 = mr" "zw_max_row ?z0 = ms"
    by (simp_all add: newZoxideLimitWriter_def)
  note run = limit_fold [OF limit_inv_new, of mb mr ms cancel "concat chunks", unfolded lim append_Nil]
  show ?thesis unfolding limit_chunks Let_def
  proof (cases "within_limits mb mr ms (concat chunks)")
    case True
    with run have inv: "limit_inv (concat chunks) (fold limit_byte (concat chunks) ?z0)" by simp
    show "if within_limits mb mr ms (concat chunks)
      then zw_sink (fold limit_byte (concat chunks) ?z0) = concat chunks \<and>
        fst (limit_finalize buffer_writer (fold limit_byte (concat chunks) ?z0)) = None
      else fst (limit_finalize buffer_writer (fold limit_byte (concat chunks) ?z0)) = Some errZoxideOutputLimit \<and>
        (\<exists>k < length (concat chunks). zw_sink (fold limit_byte (concat chunks) ?z0) = take k (concat chunks) \<and>
          within_limits mb mr ms (zw_sink (fold limit_byte (concat chunks) ?z0)))"
      using True inv limit_finalize_inv [OF inv] by (simp add: limit_inv_def)
  qed (use run in \<open>auto simp: limit_finalize_def\<close>)
qed

text \<open>The bounds check of the parser runs the same machine on a discarding sink.\<close>

definition with_sink :: "'b \<Rightarrow> 'a limit_writer \<Rightarrow> 'b limit_writer" where
  "with_sink s z = \<lparr>zw_sink = s, zw_cancel = zw_cancel z, zw_cause = zw_cause z, zw_max_bytes = zw_max_bytes z,
     zw_max_rows = zw_max_rows z, zw_max_row = zw_max_row z, zw_total = zw_total z, zw_rows = zw_rows z,
     zw_row_bytes = zw_row_bytes z, zw_err = zw_err z\<rparr>"

lemma with_sink_sel [simp]:
  "zw_total (with_sink s z) = zw_total z" "zw_rows (with_sink s z) = zw_rows z"
  "zw_row_bytes (with_sink s z) = zw_row_bytes z" "zw_err (with_sink s z) = zw_err z"
  "zw_max_bytes (with_sink s z) = zw_max_bytes z" "zw_max_rows (with_sink s z) = zw_max_rows z"
  "zw_max_row (with_sink s z) = zw_max_row z"
  by (simp_all add: with_sink_def)

lemma limit_scan_sink_free:
  "limit_scan (with_sink s z) vs i = (case limit_scan z vs i of (z', r) \<Rightarrow> (with_sink s z', r))"
proof (induction vs arbitrary: z i)
  case (Cons v vs)
  have "(with_sink s z)\<lparr>zw_rows := n, zw_row_bytes := m\<rparr> = with_sink s (z\<lparr>zw_rows := n, zw_row_bytes := m\<rparr>)"
    "(with_sink s z)\<lparr>zw_row_bytes := m\<rparr> = with_sink s (z\<lparr>zw_row_bytes := m\<rparr>)" for n m
    by (simp_all add: with_sink_def)
  then show ?case using Cons by simp
qed simp

lemma limit_Write_discard:
  "snd (fst (limit_Write discard_writer data (with_sink () z))) = snd (fst (limit_Write buffer_writer data z)) \<and>
   snd (limit_Write discard_writer data (with_sink () z)) = with_sink () (snd (limit_Write buffer_writer data z))"
proof -
  have sink: "writeSink discard_writer d (with_sink () y) = (None, with_sink () y)" for d y
    by (simp add: writeSink_def discard_writer_def with_sink_def)
  obtain z' r where "limit_scan z data 0 = (z', r)" by fastforce
  then show ?thesis
    by (cases "zw_err z"; cases r)
       (auto simp: limit_Write_def limit_scan_sink_free sink writeSink_buffer reject_def Let_def,
        auto simp: with_sink_def)
qed

lemma validateZoxideOutputBounds_iff:
  "validateZoxideOutputBounds out =
    (if within_limits MaxZoxideOutputBytes MaxZoxideRows MaxZoxideRowBytes out then None else Some errZoxideOutputLimit)"
proof -
  let ?z = "newZoxideLimitWriter ([] :: bytes) MaxZoxideOutputBytes MaxZoxideRows MaxZoxideRowBytes False"
  obtain e z' where w: "limit_Write buffer_writer out ?z = (e, z')" by fastforce
  have z': "z' = fold limit_byte out ?z" using limit_Write_fold [of out ?z] w by simp
  have new: "newZoxideLimitWriter () MaxZoxideOutputBytes MaxZoxideRows MaxZoxideRowBytes False = with_sink () ?z"
    by (simp add: newZoxideLimitWriter_def with_sink_def)
  obtain a e' y where lw0: "limit_Write discard_writer out (with_sink () ?z) = ((a, e'), y)" by (metis prod.exhaust)
  then have lw: "limit_Write discard_writer out (with_sink () ?z) = ((a, snd e), with_sink () z')"
    using limit_Write_discard [of out ?z] w by simp
  have v: "validateZoxideOutputBounds out =
      (case snd e of Some x \<Rightarrow> Some x | None \<Rightarrow> fst (limit_finalize discard_writer (with_sink () z')))"
    using lw by (cases "snd e") (simp_all add: validateZoxideOutputBounds_def new)
  have err: "zw_err z' = snd e" using limit_Write_err [of ?z out] w by (simp add: newZoxideLimitWriter_def)
  have fin: "fst (limit_finalize discard_writer (with_sink () z')) = None" if "limit_inv out z'"
    using that by (auto simp: limit_inv_def limit_finalize_def with_sink_def within_limits_def)
  from limit_fold [OF limit_inv_new, of MaxZoxideOutputBytes MaxZoxideRows MaxZoxideRowBytes False out]
  show ?thesis unfolding v z' [symmetric] using err fin
    by (auto simp: newZoxideLimitWriter_def limit_inv_def split: if_splits option.splits)
qed

section \<open>What the parser accepts\<close>

definition valid_row :: "bytes \<Rightarrow> bool" where
  "valid_row r \<longleftrightarrow> r \<noteq> [] \<and> LF \<notin> set r \<and> NUL \<notin> set r \<and> is_abs r"

definition rows_text :: "bytes list \<Rightarrow> bytes" where
  "rows_text rows = concat (map (\<lambda>r. r @ [LF]) rows)"

lemma rows_text_simps [simp]: "rows_text [] = []" "rows_text (r # rows) = r @ LF # rows_text rows"
  by (simp_all add: rows_text_def)

lemma rows_text_eq_Nil [simp]: "rows_text rows = [] \<longleftrightarrow> rows = []"
  by (cases rows) simp_all

lemma rows_text_last: "rows \<noteq> [] \<Longrightarrow> last (rows_text rows) = LF"
  by (induction rows) (auto simp: rows_text_def)

lemma parse_rows_Nil [simp]: "parse_rows u [] = Inr []"
  by (simp add: parse_rows.simps)

lemma parse_rows_unfold:
  "t \<noteq> [] \<Longrightarrow> parse_rows u t =
     (let row = takeWhile (\<lambda>c. c \<noteq> LF) t; rest = dropWhile (\<lambda>c. c \<noteq> LF) t in
      if row = [] then Inl empty_row
      else if NUL \<in> set row then Inl (ErrText ''zoxide output contains NUL'')
      else if \<not> is_abs row then Inl (ErrText ''zoxide path is not absolute'')
      else case parse_rows u (tl rest) of Inl e \<Rightarrow> Inl e | Inr rs \<Rightarrow> Inr (zoxide_record u row # rs))"
  by (subst parse_rows.simps) (cases t, simp_all only: list.case)

lemma takeWhile_row:
  assumes "LF \<notin> set r"
  shows "takeWhile (\<lambda>c. c \<noteq> LF) (r @ LF # t) = r" and "dropWhile (\<lambda>c. c \<noteq> LF) (r @ LF # t) = LF # t"
    and "takeWhile (\<lambda>c. c \<noteq> LF) r = r" and "dropWhile (\<lambda>c. c \<noteq> LF) r = []"
  using assms by (induction r) auto

lemma parse_rows_step:
  assumes "valid_row r"
  shows "parse_rows u (r @ LF # t) = (case parse_rows u t of Inl e \<Rightarrow> Inl e | Inr rs \<Rightarrow> Inr (zoxide_record u r # rs))"
    and "parse_rows u r = Inr [zoxide_record u r]"
  using assms by (simp_all add: parse_rows_unfold [of "r @ LF # t"] parse_rows_unfold [of r] valid_row_def takeWhile_row Let_def)

lemma parse_rows_terminated: "list_all valid_row rows \<Longrightarrow> parse_rows u (rows_text rows) = Inr (map (zoxide_record u) rows)"
  by (induction rows) (auto simp: parse_rows_step(1))

lemma parse_rows_open:
  "list_all valid_row rows \<Longrightarrow> t @ [LF] = rows_text rows \<Longrightarrow> parse_rows u t = Inr (map (zoxide_record u) rows)"
proof (induction rows arbitrary: t)
  case (Cons r rows)
  show ?case
  proof (cases "rows = []")
    case True
    with Cons.prems show ?thesis by (simp add: parse_rows_step(2))
  next
    case False
    then obtain y where y: "rows_text rows = y @ [LF]" using rows_text_last [OF False] by (metis append_butlast_last_id rows_text_eq_Nil)
    with Cons.prems have "t = r @ LF # y" by simp
    with Cons y show ?thesis by (simp add: parse_rows_step(1))
  qed
qed simp

lemma parse_rows_sound:
  "parse_rows u t = Inr rs \<Longrightarrow> \<exists>rows. rs = map (zoxide_record u) rows \<and> list_all valid_row rows \<and>
     (t = rows_text rows \<or> t @ [LF] = rows_text rows)"
proof (induction u t arbitrary: rs rule: parse_rows.induct)
  case (1 u t)
  show ?case
  proof (cases t)
    case Nil
    with 1 show ?thesis by (auto intro: exI [of _ "[]"])
  next
    case (Cons x xs)
    let ?row = "takeWhile (\<lambda>c. c \<noteq> LF) t" and ?rest = "dropWhile (\<lambda>c. c \<noteq> LF) t"
    have "LF \<notin> set ?row" by (auto dest: set_takeWhileD)
    then have v: "valid_row ?row" and "\<exists>rs'. parse_rows u (tl ?rest) = Inr rs' \<and> rs = zoxide_record u ?row # rs'"
      using "1.prems" Cons parse_rows_unfold [of t u] unfolding Let_def valid_row_def
      by (simp_all split: if_splits sum.splits)
    then obtain rs' where rs': "parse_rows u (tl ?rest) = Inr rs'" "rs = zoxide_record u ?row # rs'" by blast
    have "?row \<noteq> []" "\<not> NUL \<in> set ?row" "is_abs ?row" using v by (auto simp: valid_row_def)
    then obtain rows where rows: "rs' = map (zoxide_record u) rows" "list_all valid_row rows"
      "tl ?rest = rows_text rows \<or> tl ?rest @ [LF] = rows_text rows"
      using "1.IH" [OF Cons refl refl _ _ _ rs'(1)] by blast
    have t: "t = ?row @ ?rest" by simp
    show ?thesis
    proof (cases ?rest)
      case Nil
      with rows(2,3) have "rows = []" by (cases rows) (auto simp: valid_row_def Cons_eq_append_conv)
      with t Nil v rows(1) rs'(2) show ?thesis by (intro exI [of _ "[?row]"]) auto
    next
      case (Cons c rest)
      then have "c = LF" using hd_dropWhile [of "\<lambda>c. c \<noteq> LF" t] by auto
      then have tt: "t = ?row @ LF # tl ?rest" using t Cons by simp
      then have "t @ [LF] = ?row @ LF # (tl ?rest @ [LF])" by (metis append_Cons append_assoc)
      with rows(3) tt have "t = rows_text (?row # rows) \<or> t @ [LF] = rows_text (?row # rows)"
        by (metis rows_text_simps(2))
      with rows(1,2) rs'(2) v show ?thesis by (metis list.pred_inject(2) list.simps(9))
    qed
  qed
qed

lemma rows_text_no_double: "list_all valid_row rows \<Longrightarrow> rows_text rows \<noteq> z @ [LF, LF]"
proof (induction rows arbitrary: z)
  case (Cons r rows)
  have r: "r \<noteq> []" "LF \<notin> set r" using Cons.prems by (auto simp: valid_row_def)
  show ?case
  proof
    assume a: "rows_text (r # rows) = z @ [LF, LF]"
    show False
    proof (cases "rows = []")
      case True
      with a r show False by (cases r rule: rev_cases) auto
    next
      case False
      then obtain y where "rows_text rows = y @ [LF]" using rows_text_last by (metis append_butlast_last_id rows_text_eq_Nil)
      with a have "(r @ [LF]) @ y = z @ [LF]" by simp
      moreover have "y \<noteq> []" using Cons.prems False \<open>rows_text rows = y @ [LF]\<close>
        by (cases rows) (auto simp: valid_row_def append_eq_Cons_conv)
      ultimately obtain y' where "y = y' @ [LF]" by (metis append_butlast_last_id last_append last_snoc)
      with \<open>rows_text rows = y @ [LF]\<close> Cons.IH [of y'] Cons.prems show False by simp
    qed
  qed
qed simp

lemma parse_rows_cases:
  assumes "list_all valid_row rows"
    and "out = rows_text rows \<or> out @ [LF] = rows_text rows \<or> (rows \<noteq> [] \<and> out = rows_text rows @ [LF])"
    and "out \<noteq> []"
  shows "(if last out = LF then butlast out else out) \<noteq> [] \<and>
    parse_rows u (if last out = LF then butlast out else out) = Inr (map (zoxide_record u) rows)"
proof -
  have ne: "rows \<noteq> []" using assms(2,3) by auto
  then obtain y where y: "rows_text rows = y @ [LF]"
    using rows_text_last by (metis append_butlast_last_id rows_text_eq_Nil)
  have "y \<noteq> []" using assms(1) ne y by (cases rows) (auto simp: valid_row_def append_eq_Cons_conv)
  have "last y \<noteq> LF"
  proof
    assume "last y = LF"
    then obtain z where "y = z @ [LF]" using \<open>y \<noteq> []\<close> by (metis append_butlast_last_id)
    with y have "rows_text rows = z @ [LF, LF]" by simp
    then show False using rows_text_no_double [OF assms(1)] by blast
  qed
  from assms(2) consider "out = y @ [LF]" | "out = y" | "out = rows_text rows @ [LF]" using y by auto
  then show ?thesis
    using y \<open>y \<noteq> []\<close> \<open>last y \<noteq> LF\<close> ne parse_rows_terminated [OF assms(1), of u] parse_rows_open [OF assms(1), of y u]
    by cases (auto simp: butlast_append)
qed

text \<open>
  \<open>parseZoxideRecords\<close> succeeds exactly on an output within the limits that consists of absolute
  paths without NUL, one per line (the last newline may be missing, and one superfluous newline
  at the very end is tolerated), and yields one record per line in order.
\<close>

theorem parseZoxideRecords_iff:
  "parseZoxideRecords u out = Inr rs \<longleftrightarrow>
     within_limits MaxZoxideOutputBytes MaxZoxideRows MaxZoxideRowBytes out \<and>
     (\<exists>rows. rs = map (zoxide_record u) rows \<and> list_all valid_row rows \<and>
        (out = rows_text rows \<or> out @ [LF] = rows_text rows \<or> (rows \<noteq> [] \<and> out = rows_text rows @ [LF])))"
proof (cases "within_limits MaxZoxideOutputBytes MaxZoxideRows MaxZoxideRowBytes out \<and> out \<noteq> []")
  case False
  have "[LF] \<noteq> rows_text rows" if "list_all valid_row rows" for rows
    using that by (cases rows) (auto simp: valid_row_def Cons_eq_append_conv)
  moreover have "[] = rows_text rows \<longleftrightarrow> rows = []" for rows by (cases rows) simp_all
  ultimately show ?thesis using False by (auto simp: parseZoxideRecords_def validateZoxideOutputBounds_iff)
next
  case True
  let ?t = "if last out = LF then butlast out else out"
  have eq: "parseZoxideRecords u out = (if ?t = [] then Inl empty_row else parse_rows u ?t)"
    using True by (simp add: parseZoxideRecords_def validateZoxideOutputBounds_iff)
  have out: "out = (if last out = LF then ?t @ [LF] else ?t)" using True append_butlast_last_id [of out] by metis
  show ?thesis
  proof
    assume "parseZoxideRecords u out = Inr rs"
    then have "?t \<noteq> []" "parse_rows u ?t = Inr rs" unfolding eq by (auto split: if_splits)
    then obtain rows where r: "rs = map (zoxide_record u) rows" "list_all valid_row rows"
      "?t = rows_text rows \<or> ?t @ [LF] = rows_text rows" using parse_rows_sound by blast
    moreover have "rows \<noteq> []" using r(3) \<open>?t \<noteq> []\<close> by auto
    ultimately show "within_limits MaxZoxideOutputBytes MaxZoxideRows MaxZoxideRowBytes out \<and>
     (\<exists>rows. rs = map (zoxide_record u) rows \<and> list_all valid_row rows \<and>
        (out = rows_text rows \<or> out @ [LF] = rows_text rows \<or> (rows \<noteq> [] \<and> out = rows_text rows @ [LF])))"
      using True out by (metis rows_text_last)
  next
    assume "within_limits MaxZoxideOutputBytes MaxZoxideRows MaxZoxideRowBytes out \<and>
     (\<exists>rows. rs = map (zoxide_record u) rows \<and> list_all valid_row rows \<and>
        (out = rows_text rows \<or> out @ [LF] = rows_text rows \<or> (rows \<noteq> [] \<and> out = rows_text rows @ [LF])))"
    then obtain rows where r: "rs = map (zoxide_record u) rows" "list_all valid_row rows"
      "out = rows_text rows \<or> out @ [LF] = rows_text rows \<or> (rows \<noteq> [] \<and> out = rows_text rows @ [LF])" by blast
    show "parseZoxideRecords u out = Inr rs"
      unfolding eq r(1) using parse_rows_cases [OF r(2,3)] True by auto
  qed
qed

lemma zoxide_record_ok: "controls_hidden u \<Longrightarrow> valid_row r \<Longrightarrow> record_ok (zoxide_record u r)"
  unfolding zoxide_record_def zoxideDisplay_def valid_row_def
  by (rule record_ok_new) (auto simp: validKind_def dest: EscapeDisplay_printable)

lemma parse_rows_empty: "list_all valid_row rows \<Longrightarrow> parse_rows u (rows_text rows @ LF # rest) = Inl empty_row"
proof (induction rows)
  case Nil
  then show ?case by (simp add: parse_rows_unfold)
next
  case (Cons r rows)
  then show ?case by (simp add: parse_rows_step(1))
qed

text \<open>
  A superfluous empty row in zoxide's output: after any rows that are accepted, in an output within the limits, it is
  refused as an empty row when it is the first row or when anything follows it, but when it is the very last thing
  of an output with rows it is silently dropped: the final newline is cut off before the rows are read, and the loop
  steps over the one before.
\<close>

theorem parseZoxideRecords_trailing_row:
  assumes "list_all valid_row rows" and "validateZoxideOutputBounds (rows_text rows @ LF # rest) = None"
  shows "parseZoxideRecords u (rows_text rows @ LF # rest)
    = (if rows \<noteq> [] \<and> rest = [] then Inr (map (zoxide_record u) rows) else Inl empty_row)"
proof -
  let ?out = "rows_text rows @ LF # rest"
  have run: "parseZoxideRecords u ?out
      = (let out = (if last ?out = LF then butlast ?out else ?out) in if out = [] then Inl empty_row else parse_rows u out)"
    using assms(2) by (simp add: parseZoxideRecords_def Let_def)
  show ?thesis
  proof (cases "rest = []")
    case True
    then show ?thesis using run parse_rows_terminated [OF assms(1), of u] by (simp add: butlast_append)
  next
    case False
    have "(if last ?out = LF then butlast ?out else ?out) = rows_text rows @ LF # (if last rest = LF then butlast rest else rest)"
      using False by (simp add: butlast_append)
    then show ?thesis using run parse_rows_empty [OF assms(1)] False by (simp add: Let_def)
  qed
qed

theorem parseZoxideRecords_trailing_row_witness:
  "parseZoxideRecords latin1 (''/a'' @ [LF, LF]) = Inr [zoxide_record latin1 ''/a'']
   \<and> parseZoxideRecords latin1 (''/a'' @ [LF, LF] @ ''/b'') = Inl empty_row"
proof -
  have fits: "validateZoxideOutputBounds out = None" if "length out \<le> 8" for out
  proof -
    have "\<forall>row \<in> set (split_on LF out). length row \<le> length out"
      by (induction LF out rule: split_on.induct) (auto split: list.splits intro: le_SucI)
    moreover have "count_byte LF out \<le> length out" by (induction out) auto
    ultimately have "within_limits MaxZoxideOutputBytes MaxZoxideRows MaxZoxideRowBytes out"
      using \<open>length out \<le> 8\<close> unfolding within_limits_def list_all_iff
      by (auto simp: MaxZoxideOutputBytes_def MaxZoxideRows_def MaxZoxideRowBytes_def)
    then show ?thesis by (simp add: validateZoxideOutputBounds_iff)
  qed
  have "list_all valid_row [''/a'']" by (simp add: valid_row_def is_abs_def char_consts)
  then show ?thesis
    using parseZoxideRecords_trailing_row [of "[''/a'']" "[]" latin1] parseZoxideRecords_trailing_row [of "[''/a'']" "''/b''" latin1]
    by (simp add: fits)
qed

section \<open>Tracker, cache and builder\<close>

definition count_phase :: "phase \<Rightarrow> phase list \<Rightarrow> int" where
  "count_phase p es = int (length (filter (\<lambda>x. x = p) es))"

lemma tracker_fold:
  assumes "tr_max_live t \<ge> tr_live t"
  shows "tr_attempts (fold observe es t) = tr_attempts t + count_phase PhaseAttempt es"
    and "tr_starts (fold observe es t) = tr_starts t + count_phase PhaseStart es"
    and "tr_exits (fold observe es t) = tr_exits t + count_phase PhaseExit es"
    and "tr_live (fold observe es t) = tr_live t + count_phase PhaseStart es - count_phase PhaseExit es"
    and "tr_max_live (fold observe es t) \<ge> tr_live (fold observe es t)"
    and "tr_max_live (fold observe es t) \<le> tr_max_live t + count_phase PhaseStart es"
proof -
  have "tr_attempts (fold observe es t) = tr_attempts t + count_phase PhaseAttempt es \<and>
    tr_starts (fold observe es t) = tr_starts t + count_phase PhaseStart es \<and>
    tr_exits (fold observe es t) = tr_exits t + count_phase PhaseExit es \<and>
    tr_live (fold observe es t) = tr_live t + count_phase PhaseStart es - count_phase PhaseExit es \<and>
    tr_max_live (fold observe es t) \<ge> tr_live (fold observe es t) \<and>
    tr_max_live (fold observe es t) \<le> tr_max_live t + count_phase PhaseStart es"
    using assms
  proof (induction es arbitrary: t)
    case (Cons e es)
    have "tr_max_live (observe e t) \<ge> tr_live (observe e t)"
      using Cons.prems by (cases e) (auto simp: observe_def Let_def)
    from Cons.IH [OF this] Cons.prems show ?case
      by (cases e) (auto simp: observe_def Let_def count_phase_def split: if_splits)
  qed (simp add: count_phase_def)
  then show "tr_attempts (fold observe es t) = tr_attempts t + count_phase PhaseAttempt es"
    and "tr_starts (fold observe es t) = tr_starts t + count_phase PhaseStart es"
    and "tr_exits (fold observe es t) = tr_exits t + count_phase PhaseExit es"
    and "tr_live (fold observe es t) = tr_live t + count_phase PhaseStart es - count_phase PhaseExit es"
    and "tr_max_live (fold observe es t) \<ge> tr_live (fold observe es t)"
    and "tr_max_live (fold observe es t) \<le> tr_max_live t + count_phase PhaseStart es"
    by blast+
qed

lemma run_stdout_eq: "run_stdout r = fold limit_byte (concat (zr_chunks r))
    (newZoxideLimitWriter [] MaxZoxideOutputBytes MaxZoxideRows MaxZoxideRowBytes True)"
  by (simp add: run_stdout_def limit_chunks)

text \<open>A cache as its constructor leaves it or as one load leaves it.\<close>

definition cache_inv :: "zoxide_cache \<Rightarrow> bool" where
  "cache_inv c \<longleftrightarrow> (zc_ready c \<longleftrightarrow> zc_started c) \<and>
     (zc_records c \<noteq> [] \<longrightarrow> zc_outcome c = OutcomeOk) \<and>
     (zc_started c \<longrightarrow> (zc_outcome c = OutcomeOk \<longleftrightarrow> zc_err c = None) \<and> zc_outcome c \<noteq> OutcomeUnset) \<and>
     (\<not> zc_started c \<longrightarrow> c = newZoxideCache)"

lemma cache_load_inv: "cache_inv (cache_load u r (newZoxideCache\<lparr>zc_started := True\<rparr>))"
  by (auto simp: cache_inv_def cache_load_def newZoxideCache_def Let_def split: sum.splits)

lemma Load_inv: "cache_inv c \<Longrightarrow> Load u r g c = (l, c') \<Longrightarrow> cache_inv c'"
  using cache_load_inv [of u r] by (auto simp: Load_def Let_def cache_inv_def split: if_splits option.splits)

text \<open>
  The cache runs zoxide once: after the first \<open>Load\<close> every later one leaves it unchanged and
  reports the stored error (or the waiter's own cancellation).  It exposes records only for
  the outcome ok, which means that the child's complete output was within the limits and
  parsed; every other outcome carries an error.
\<close>

theorem Load_once:
  assumes "Load u r g newZoxideCache = (l, c)"
  shows "zc_ready c \<and> l = LoadErr (zc_err c) \<and>
    (\<forall>u' r' g'. \<exists>l'. Load u' r' g' c = (l', c) \<and> (g' = None \<longrightarrow> l' = l)) \<and>
    (zc_err c = None \<longleftrightarrow> zc_outcome c = OutcomeOk) \<and> (zc_outcome c \<noteq> OutcomeOk \<longrightarrow> zc_records c = []) \<and>
    (zc_outcome c = OutcomeOk \<longrightarrow> parseZoxideRecords u (concat (zr_chunks r)) = Inr (zc_records c))"
proof -
  have c: "c = cache_load u r (newZoxideCache\<lparr>zc_started := True\<rparr>)" and l: "l = LoadErr (zc_err c)"
    using assms by (auto simp: Load_def newZoxideCache_def Let_def)
  have started: "zc_started c" unfolding c by (auto simp: cache_load_def newZoxideCache_def Let_def split: sum.splits)
  have inv: "cache_inv c" unfolding c by (rule cache_load_inv)
  have "parseZoxideRecords u (concat (zr_chunks r)) = Inr (zc_records c)" if ok: "zc_outcome c = OutcomeOk"
  proof -
    have "\<not> is_opt (fst (limit_finalize buffer_writer (run_stdout r))) errZoxideOutputLimit"
      and p: "parseZoxideRecords u (zw_sink (run_stdout r)) = Inr (zc_records c)"
      using ok unfolding c by (auto simp: cache_load_def newZoxideCache_def Let_def split: if_splits sum.splits)
    then have "zw_sink (run_stdout r) = concat (zr_chunks r)"
      using limit_fold [OF limit_inv_new, of MaxZoxideOutputBytes MaxZoxideRows MaxZoxideRowBytes True "concat (zr_chunks r)"]
      by (auto simp: run_stdout_eq limit_finalize_def limit_inv_def newZoxideLimitWriter_def split: if_splits)
    with p show ?thesis by simp
  qed
  with inv started l show ?thesis by (auto simp: cache_inv_def Load_def split: option.splits)
qed

theorem Load_once_witness:
  "\<exists>c. Load latin1 \<lparr>zr_nil_ctx = True, zr_chunks = [], zr_run_err = None, zr_events = [], zr_ctx_cause = None\<rparr> None newZoxideCache
     = (LoadErr (Some (ErrText ''zoxide: nil context'')), c) \<and> zc_ready c \<and> zc_records c = []"
proof -
  let ?r = "\<lparr>zr_nil_ctx = True, zr_chunks = [], zr_run_err = None, zr_events = [], zr_ctx_cause = None\<rparr>"
  let ?c = "newZoxideCache\<lparr>zc_started := True, zc_ready := True, zc_outcome := OutcomeProcessError,
    zc_err := Some (ErrText ''zoxide: nil context'')\<rparr>"
  have run: "Load latin1 ?r None newZoxideCache = (LoadErr (Some (ErrText ''zoxide: nil context'')), ?c)"
    by (simp add: Load_def newZoxideCache_def cache_load_def)
  with Load_once [OF run] show ?thesis by (intro exI [of _ ?c]) (simp add: newZoxideCache_def)
qed

text \<open>
  With the fresh policy the one permit of the session is back whenever \<open>LoadInitialZoxide\<close>
  returns, on success and on every error path, and the call does not return only while the
  permit is taken and the context is still open.
\<close>

theorem LoadInitialZoxide_permit:
  assumes "bd_policy b = ZoxideFresh"
  shows "(\<forall>res b'. LoadInitialZoxide u w b = Some (res, b') \<longrightarrow> bd_permit b' = bd_permit b) \<and>
    (LoadInitialZoxide u w b = None \<longrightarrow> bd_permit b = Some False \<and> validate b = None \<and> zx_ctx w = Some None)"
proof -
  have "validateContext (zx_ctx w) = None \<longleftrightarrow> zx_ctx w = Some None"
    by (auto simp: validateContext_def split: option.splits)
  moreover have "validate b = None \<Longrightarrow> \<exists>p. bd_permit b = Some p" using assms
    by (auto simp: validate_def ZoxideFresh_def ZoxideCached_def split: if_splits)
  ultimately show ?thesis using assms
    by (auto simp: LoadInitialZoxide_def acquireFreshPermit_def Let_def
        split: option.splits sum.splits prod.splits if_splits)
qed

theorem LoadInitialZoxide_permit_witness:
  "\<exists>w b. bd_policy b = ZoxideFresh \<and> bd_permit b = Some False \<and> LoadInitialZoxide latin1 w b = None"
proof -
  let ?b = "\<lparr>bd_policy = ZoxideFresh, bd_cache = None, bd_new_cache = Some (Inr None), bd_permit = Some False\<rparr>"
  let ?r = "\<lparr>zr_nil_ctx = True, zr_chunks = [], zr_run_err = None, zr_events = [], zr_ctx_cause = None\<rparr>"
  let ?w = "\<lparr>zx_ctx = Some None, zx_picks_done = False, zx_acquired = None, zx_gave_up = None, zx_run = ?r, zx_after = None\<rparr>"
  have "LoadInitialZoxide latin1 ?w ?b = None"
    by (simp add: LoadInitialZoxide_def validate_def validateContext_def acquireFreshPermit_def ZoxideFresh_def ZoxideCached_def)
  with LoadInitialZoxide_permit [of ?b latin1 ?w] show ?thesis
    by (intro exI [of _ ?w] exI [of _ ?b]) simp
qed

text \<open>
  Joining the two sources does not depend on which finishes first unless both fail: a success
  lists the local records, deduplicated and in order, before those zoxide adds, and when the
  caller's context has ended the reported error is its cause in every case but the zoxide timeout.
\<close>

theorem buildWithZoxide_order:
  "buildWithZoxide first cause local zoxide =
     (case (local, zoxide) of
        (Inr l, Inr z) \<Rightarrow>
          if bl_outcome z \<noteq> OutcomeTimeout \<and> cause \<noteq> None then Inl (the cause)
          else Inr \<lparr>bl_records = MergeRecords (bl_records l) (bl_records z), bl_discarded = bl_discarded z,
                    bl_outcome = bl_outcome z\<rparr>
      | (Inl e, Inr _) \<Rightarrow> Inl (case cause of Some c \<Rightarrow> c | None \<Rightarrow> e)
      | (Inr _, Inl e) \<Rightarrow> Inl (case cause of Some c \<Rightarrow> c | None \<Rightarrow> e)
      | (Inl e, Inl e') \<Rightarrow> Inl (case cause of Some c \<Rightarrow> c | None \<Rightarrow> if first then e else e'))"
  by (cases local; cases zoxide; cases cause; cases first) (simp_all add: buildWithZoxide_def first_error_def Let_def)

end
