(* ===== verification/Session.thy ===== *)
theory Session
  imports Zoxide "HOL-Library.Sublist"
begin

text \<open>
  \<open>internal/session\<close> without the actor loop: snapshots and proposals (types.go), the record
  index (record_set.go), the reduction of finder events to proposed transitions (events.go,
  events_header_unix.go) and the validation of accepted selections (selection.go).

  Values are immutable here, so the cloning helpers of the code are the identity.
\<close>

section \<open>types.go, record\_set.go\<close>

record sstate =
  st_picker :: picker
  st_mode :: mode
  st_location :: location
  st_home :: location
  st_prompt :: string
  st_add_error :: bool

record record_set =
  rs_values :: "candidate list"
  rs_index :: "bytes \<Rightarrow> nat option"

definition fullRecordKey :: "candidate \<Rightarrow> bytes" where
  "fullRecordKey r = kind_text (wr_kind (Wire r)) @ [TAB] @ wr_display (Wire r) @ [TAB] @ wr_payload (Wire r)"

definition index_step :: "nat \<times> candidate \<Rightarrow> (bytes \<Rightarrow> nat option) \<Rightarrow> bytes \<Rightarrow> nat option" where
  "index_step = (\<lambda>(position, r) index.
     let key = fullRecordKey r in if index key = None then index(key \<mapsto> position) else index)"

definition buildIndex :: "candidate list \<Rightarrow> bytes \<Rightarrow> nat option" where
  "buildIndex rs = fold index_step (enumerate 0 rs) (\<lambda>_. None)"

definition ownRecordSet :: "candidate list \<Rightarrow> record_set" where
  "ownRecordSet rs = \<lparr>rs_values = rs, rs_index = buildIndex rs\<rparr>"

text \<open>The records of a snapshot are a pointer that may be nil.\<close>

record snapshot =
  sn_generation :: u64
  sn_state :: sstate
  sn_records :: "record_set option"

definition recordValues :: "snapshot \<Rightarrow> candidate list" where
  "recordValues s = (case sn_records s of None \<Rightarrow> [] | Some rs \<Rightarrow> rs_values rs)"

definition RecordCount :: "snapshot \<Rightarrow> nat" where
  "RecordCount s = (case sn_records s of None \<Rightarrow> 0 | Some rs \<Rightarrow> length (rs_values rs))"

definition FramedRecords :: "snapshot \<Rightarrow> bytes" where
  "FramedRecords s = (case sn_records s of None \<Rightarrow> [] | Some rs \<Rightarrow> FrameRecordValues Wire (rs_values rs))"

definition lookupRecord :: "snapshot \<Rightarrow> bytes \<Rightarrow> candidate option" where
  "lookupRecord s key =
     (case sn_records s of
        None \<Rightarrow> None
      | Some rs \<Rightarrow> (case rs_index rs key of None \<Rightarrow> None | Some position \<Rightarrow> Some (rs_values rs ! position)))"

record proposed =
  pt_base :: u64
  pt_state :: sstate
  pt_build :: "build_request option"
  pt_effect :: effect
  pt_created :: "created_tree option"

record add_intent =
  ai_base_generation :: u64
  ai_base :: location
  ai_query :: bytes

text \<open>A \<open>Reduction\<close> has exactly one of its two pointers set.\<close>

datatype reduction = ProposalReduction proposed | AddReduction add_intent

definition proposalValue :: "reduction \<Rightarrow> proposed option" where
  "proposalValue r = (case r of ProposalReduction p \<Rightarrow> Some p | AddReduction _ \<Rightarrow> None)"

definition addIntentValue :: "reduction \<Rightarrow> add_intent option" where
  "addIntentValue r = (case r of ProposalReduction _ \<Rightarrow> None | AddReduction i \<Rightarrow> Some i)"

section \<open>events.go\<close>

definition ErrInvalidEvent :: go_error where "ErrInvalidEvent = ErrText ''invalid session event''"
definition ErrInvalidNavigation :: go_error where "ErrInvalidNavigation = ErrText ''invalid navigation target''"
definition ErrUnknownRecord :: go_error where "ErrUnknownRecord = ErrText ''record is not in the current snapshot''"

definition modePrompt :: "mode \<Rightarrow> bool \<Rightarrow> string" where
  "modePrompt m addError =
     (case m of
        ModeNormal \<Rightarrow> ''[N] ''
      | ModeAdd \<Rightarrow> if addError then ''[A!] '' else ''[A] ''
      | _ \<Rightarrow> ''[I] '')"

definition modeEffect :: "sstate \<Rightarrow> bool \<Rightarrow> u64 \<Rightarrow> effect" where
  "modeEffect s clearQuery restore =
     (let e = no_effect\<lparr>ef_mode := st_mode s, ef_prompt := st_prompt s, ef_search := ''on'', ef_rebind := st_mode s,
            ef_clear_query := clearQuery, ef_cursor := CursorLine, ef_restore_generation := restore\<rparr>
      in if st_mode s = ModeNormal then e\<lparr>ef_search := ''off'', ef_cursor := CursorBlock\<rparr> else e)"

definition setMode :: "proposed \<Rightarrow> mode \<Rightarrow> bool \<Rightarrow> proposed" where
  "setMode p m clearQuery =
     (let st = (pt_state p)\<lparr>st_mode := m, st_add_error := False, st_prompt := modePrompt m False\<rparr>
      in p\<lparr>pt_state := st, pt_effect := modeEffect st clearQuery (pt_base p)\<rparr>)"

definition addErrorHeader :: "sstate \<Rightarrow> string" where
  "addErrorHeader s = []"

definition addErrorProposal :: "snapshot \<Rightarrow> proposed" where
  "addErrorProposal s =
     (let st = (sn_state s)\<lparr>st_add_error := True, st_prompt := modePrompt ModeAdd True\<rparr>
      in \<lparr>pt_base = sn_generation s, pt_state = st, pt_build = None,
          pt_effect = no_effect\<lparr>ef_prompt := st_prompt st, ef_header := addErrorHeader st, ef_error_prompt := True\<rparr>,
          pt_created = None\<rparr>)"

definition setNavigationUnchecked :: "unicode \<Rightarrow> proposed \<Rightarrow> location \<Rightarrow> proposed" where
  "setNavigationUnchecked u p target =
     (let st = (pt_state p)\<lparr>st_location := target\<rparr>;
          m = (if st_mode st = ModeAdd then ModeNormal else st_mode st);
          st = st\<lparr>st_mode := m, st_add_error := False, st_prompt := modePrompt m False\<rparr>
      in p\<lparr>pt_state := st,
           pt_build := Some \<lparr>br_generation = 0, br_picker = st_picker st, br_location = target,
                             br_stat_workers = 0, br_initial = False\<rparr>,
           pt_effect := (modeEffect st True 0)\<lparr>ef_header := PromptDisplayHome u target (st_home st),
                                               ef_clear_multi := True\<rparr>\<rparr>)"

definition reduceEscape :: "proposed \<Rightarrow> proposed" where
  "reduceEscape p =
     (case st_mode (pt_state p) of
        ModeInsert \<Rightarrow> setMode p ModeNormal False
      | ModeNormal \<Rightarrow> p\<lparr>pt_effect := no_effect\<lparr>ef_abort := True\<rparr>\<rparr>
      | ModeAdd \<Rightarrow> setMode p ModeNormal True
      | ModeOther _ \<Rightarrow> p)"

text \<open>\<open>bytes.EqualFold\<close>: rune by rune under simple case folding.\<close>

definition EqualFold :: "unicode \<Rightarrow> bytes \<Rightarrow> bytes \<Rightarrow> bool" where
  "EqualFold u a b = list_all2 (simple_fold_eq u) (runes a) (runes b)"

definition immediate_child :: "unicode \<Rightarrow> location \<Rightarrow> bytes \<Rightarrow> candidate \<Rightarrow> bool" where
  "immediate_child u l query r \<longleftrightarrow>
     (rec_kind r = KindLocal \<or> rec_kind r = KindDirectory) \<and> loc_kind (rec_target r) = LocFilesystem \<and>
     path_dir (loc_path (rec_target r)) = loc_path l \<and> EqualFold u (path_base (loc_path (rec_target r))) query"

definition exactImmediateChild :: "unicode \<Rightarrow> snapshot \<Rightarrow> bytes \<Rightarrow> candidate option" where
  "exactImmediateChild u s query =
     (if loc_kind (st_location (sn_state s)) \<noteq> LocFilesystem then None
      else find (immediate_child u (st_location (sn_state s)) query) (recordValues s))"

definition navigationTarget :: "candidate \<Rightarrow> location result" where
  "navigationTarget r =
     (if rec_kind r = KindVirtual then
        (if loc_kind (rec_target r) \<noteq> LocDrives \<or> loc_path (rec_target r) \<noteq> []
         then Inl (ErrWrap ''virtual record does not target Drives'' ErrInvalidNavigation)
         else Inr (rec_target r))
      else if loc_kind (rec_target r) \<noteq> LocFilesystem
      then Inl (ErrWrap ''filesystem record has non-filesystem target'' ErrInvalidNavigation)
      else Inr (rec_target r))"

definition resolveRecord :: "snapshot \<Rightarrow> bytes \<Rightarrow> candidate result" where
  "resolveRecord s raw =
     (case ParseRecord raw of
        Inl _ \<Rightarrow> Inl (ErrWrap ''malformed record'' ErrUnknownRecord)
      | Inr _ \<Rightarrow> (case lookupRecord s raw of None \<Rightarrow> Inl ErrUnknownRecord | Some r \<Rightarrow> Inr r))"

definition resolveNavigationRecord :: "snapshot \<Rightarrow> bytes \<Rightarrow> candidate result" where
  "resolveNavigationRecord s raw =
     (if raw = [] then Inl (ErrWrap ''empty current item'' ErrInvalidNavigation)
      else case resolveRecord s raw of
             Inl _ \<Rightarrow> Inl (ErrWrap ''unresolved'' ErrInvalidNavigation)
           | Inr r \<Rightarrow> Inr r)"

definition canNavigate :: "picker \<Rightarrow> kind \<Rightarrow> bool" where
  "canNavigate p k =
     (if p = PickerCD then k \<in> {KindLocal, KindDirectory, KindZoxide, KindDrive, KindVirtual}
      else p = PickerCP \<and> k \<in> {KindDirectory, KindDrive, KindVirtual})"

text \<open>Navigate to the target of a record, or fail.\<close>

definition navigate_record :: "unicode \<Rightarrow> proposed \<Rightarrow> candidate \<Rightarrow> reduction result" where
  "navigate_record u p r =
     (case navigationTarget r of
        Inl e \<Rightarrow> Inl e
      | Inr target \<Rightarrow> Inr (ProposalReduction (setNavigationUnchecked u p target)))"

definition reduceEnter :: "unicode \<Rightarrow> snapshot \<Rightarrow> proposed \<Rightarrow> event \<Rightarrow> reduction result" where
  "reduceEnter u s p ev =
     (if st_mode (sn_state s) = ModeAdd then
        (case ValidateAddQuery (st_location (sn_state s)) (ev_query ev) of
           Some _ \<Rightarrow> Inr (ProposalReduction (addErrorProposal s))
         | None \<Rightarrow> Inr (AddReduction \<lparr>ai_base_generation = sn_generation s, ai_base = st_location (sn_state s),
                                      ai_query = ev_query ev\<rparr>))
      else
        let accept = Inr (ProposalReduction (p\<lparr>pt_effect := (pt_effect p)\<lparr>ef_accept := True\<rparr>\<rparr>)) in
        if ev_current_item ev \<noteq> [] then
          (case resolveRecord s (ev_current_item ev) of
             Inl e \<Rightarrow> Inl e
           | Inr r \<Rightarrow> if rec_kind r = KindVirtual then navigate_record u p r else accept)
        else accept)"

definition reduce_slash :: "unicode \<Rightarrow> snapshot \<Rightarrow> proposed \<Rightarrow> event \<Rightarrow> reduction result" where
  "reduce_slash u s p ev =
     (let st = sn_state s; prop = (\<lambda>p. Inr (ProposalReduction p)) in
      if st_mode st = ModeAdd then prop (p\<lparr>pt_effect := (pt_effect p)\<lparr>ef_put := ''/''\<rparr>\<rparr>)
      else if ev_query ev = [] then prop (setNavigationUnchecked u p Root)
      else if st_mode st = ModeInsert \<and> ev_query ev = DOTDOT then prop (setNavigationUnchecked u p (Parent (st_location st)))
      else if st_mode st = ModeInsert then
        (case exactImmediateChild u s (ev_query ev) of
           None \<Rightarrow> prop (p\<lparr>pt_effect := no_effect\<lparr>ef_put := ''/'', ef_invalid_path := True\<rparr>\<rparr>)
         | Some r \<Rightarrow> navigate_record u p r)
      else prop (p\<lparr>pt_effect := (pt_effect p)\<lparr>ef_ignore := True\<rparr>\<rparr>))"

definition Reduce :: "unicode \<Rightarrow> snapshot \<Rightarrow> event \<Rightarrow> reduction result" where
  "Reduce u s ev =
     (let st = sn_state s;
          p = \<lparr>pt_base = sn_generation s, pt_state = st, pt_build = None, pt_effect = no_effect, pt_created = None\<rparr>;
          prop = (\<lambda>p. Inr (ProposalReduction p));
          ignored = prop (p\<lparr>pt_effect := (pt_effect p)\<lparr>ef_ignore := True\<rparr>\<rparr>)
      in case ev_opcode ev of
           OpModeInsert \<Rightarrow>
             if st_mode st \<noteq> ModeNormal then Inl (ErrWrap ''insert mode is unbound'' ErrInvalidEvent)
             else prop (setMode p ModeInsert False)
         | OpModeAdd \<Rightarrow>
             if st_mode st \<noteq> ModeNormal then Inl (ErrWrap ''add mode is unbound'' ErrInvalidEvent)
             else prop (setMode p ModeAdd True)
         | OpEscape \<Rightarrow> prop (reduceEscape p)
         | OpForward \<Rightarrow>
             if st_mode st = ModeAdd then ignored
             else (case resolveNavigationRecord s (ev_current_item ev) of
                     Inl e \<Rightarrow> Inl e
                   | Inr r \<Rightarrow>
                       if \<not> canNavigate (st_picker st) (rec_kind r)
                       then Inl (ErrWrap ''picker cannot navigate this kind'' ErrInvalidNavigation)
                       else navigate_record u p r)
         | OpParent \<Rightarrow>
             if st_mode st = ModeAdd then ignored
             else prop (setNavigationUnchecked u p (Parent (st_location st)))
         | OpSlash \<Rightarrow> reduce_slash u s p ev
         | OpHome \<Rightarrow>
             if st_mode st = ModeAdd \<or> (st_mode st = ModeInsert \<and> ev_query ev \<noteq> [])
             then prop (p\<lparr>pt_effect := (pt_effect p)\<lparr>ef_put := ''~''\<rparr>\<rparr>)
             else if st_mode st = ModeNormal \<and> ev_query ev \<noteq> [] then ignored
             else prop (setNavigationUnchecked u p (st_home st))
         | OpEnter \<Rightarrow> reduceEnter u s p ev
         | OpRestoreView \<Rightarrow> prop (p\<lparr>pt_effect := no_effect\<lparr>ef_restore_generation := sn_generation s\<rparr>\<rparr>)
         | OpOther _ \<Rightarrow> Inl (ErrWrap ''unknown opcode'' ErrInvalidEvent))"

text \<open>
  \<open>Handle\<close> up to its call of \<open>Apply\<close>: what is applied, after the directories of an accepted
  add query exist; \<open>cause\<close> is the state of the caller's context after their creation.
\<close>

definition handle_prepare :: "unicode \<Rightarrow> 'f os_fs \<Rightarrow> go_error option \<Rightarrow> snapshot \<Rightarrow> event \<Rightarrow> 'f \<Rightarrow> proposed result \<times> 'f" where
  "handle_prepare u fs cause s ev f =
     (case Reduce u s ev of
        Inl e \<Rightarrow> (Inl e, f)
      | Inr red \<Rightarrow>
          (case proposalValue red of
             Some p \<Rightarrow> (Inr p, f)
           | None \<Rightarrow>
               (case addIntentValue red of
                  None \<Rightarrow> (Inl (ErrText ''session handle: invalid reduction''), f)
                | Some intent \<Rightarrow>
                    (case CreateDirectoryTree fs (ai_base intent) (ai_query intent) f of
                       (Inl _, f') \<Rightarrow> (Inr (addErrorProposal s), f')
                     | (Inr created, f') \<Rightarrow>
                         let p = setNavigationUnchecked u
                               \<lparr>pt_base = ai_base_generation intent, pt_state = sn_state s, pt_build = None,
                                pt_effect = no_effect, pt_created = Some created\<rparr> (ct_target created)
                         in case cause of
                              Some c \<Rightarrow>
                                (case Rollback fs created f' of
                                   (None, f'') \<Rightarrow> (Inl (the (errors_join (Some c) None)), f'')
                                 | (Some e, f'') \<Rightarrow>
                                     (Inl (the (errors_join (Some c) (Some (ErrWrap ''rollback proposed transition'' e)))), f''))
                            | None \<Rightarrow> (Inr p, f')))))"

section \<open>selection.go\<close>

definition ErrInvalidSelection :: go_error where "ErrInvalidSelection = ErrText ''invalid selection''"
definition ErrUnknownSelection :: go_error where "ErrUnknownSelection = ErrText ''selection is not in the current snapshot''"
definition ErrInvalidBase :: go_error where "ErrInvalidBase = ErrText ''invalid original base''"

definition cdSelectionKind :: "kind \<Rightarrow> bool" where
  "cdSelectionKind k \<longleftrightarrow> k = KindLocal \<or> k = KindDirectory \<or> k = KindZoxide \<or> k = KindDrive"

definition ValidateCD :: "snapshot \<Rightarrow> bytes list \<Rightarrow> outcome result" where
  "ValidateCD s accepted =
     (case accepted of
        [raw] \<Rightarrow>
          (case ParseRecord raw of
             Inl _ \<Rightarrow> Inl ErrInvalidSelection
           | Inr _ \<Rightarrow>
               (case lookupRecord s raw of
                  None \<Rightarrow> Inl ErrUnknownSelection
                | Some r \<Rightarrow>
                    if rec_kind r = KindVirtual \<or> loc_kind (rec_target r) \<noteq> LocFilesystem \<or> \<not> cdSelectionKind (rec_kind r)
                    then Inl ErrInvalidSelection
                    else Inr \<lparr>out_status = StatusAccepted, out_paths = [rec_path r]\<rparr>))
      | _ \<Rightarrow> Inl ErrInvalidSelection)"

fun count_accepted :: "bytes list \<Rightarrow> (wire_record \<Rightarrow> nat) \<Rightarrow> (wire_record \<Rightarrow> nat) option" where
  "count_accepted [] counts = Some counts"
| "count_accepted (raw # rest) counts =
     (case ParseRecord raw of
        Inl _ \<Rightarrow> None
      | Inr key \<Rightarrow> count_accepted rest (counts(key := Suc (counts key))))"

fun take_selected :: "bytes \<Rightarrow> candidate list \<Rightarrow> (wire_record \<Rightarrow> nat) \<Rightarrow> bytes list \<Rightarrow> bytes list result" where
  "take_selected base [] counts paths = Inr paths"
| "take_selected base (r # rs) counts paths =
     (if counts (Wire r) = 0 then take_selected base rs counts paths
      else if rec_kind r = KindVirtual \<or> loc_kind (rec_target r) \<noteq> LocFilesystem then Inl ErrInvalidSelection
      else take_selected base rs (counts(Wire r := counts (Wire r) - 1)) (paths @ [Relative base (rec_path r)]))"

definition ValidateCP :: "snapshot \<Rightarrow> bytes list \<Rightarrow> bytes \<Rightarrow> outcome result" where
  "ValidateCP s accepted base =
     (if base = [] then Inl ErrInvalidBase
      else if accepted = [] then Inl ErrInvalidSelection
      else case count_accepted accepted (\<lambda>_. 0) of
             None \<Rightarrow> Inl ErrInvalidSelection
           | Some counts \<Rightarrow>
               (case take_selected base (recordValues s) counts [] of
                  Inl e \<Rightarrow> Inl e
                | Inr paths \<Rightarrow>
                    if length paths \<noteq> length accepted then Inl ErrUnknownSelection
                    else Inr \<lparr>out_status = StatusAccepted, out_paths = paths\<rparr>))"

section \<open>The record index\<close>

lemma fullRecordKey_eq: "fullRecordKey r = FullKey r"
  by (simp add: fullRecordKey_def FullKey_def wire_bytes_alt)

lemma index_fold:
  "fold index_step (enumerate n rs) m k =
     (case m k of Some i \<Rightarrow> Some i
      | None \<Rightarrow> (case find (\<lambda>p. fullRecordKey (snd p) = k) (enumerate n rs) of None \<Rightarrow> None | Some p \<Rightarrow> Some (fst p)))"
  by (induction rs arbitrary: n m) (auto simp: index_step_def Let_def split: option.splits)

lemma find_enumerate:
  "find (\<lambda>p. P (snd p)) (enumerate n rs) = Some (i, r) \<Longrightarrow> n \<le> i \<and> i < n + length rs \<and> rs ! (i - n) = r \<and> find P rs = Some r"
proof (induction rs arbitrary: n)
  case (Cons x xs)
  show ?case
  proof (cases "P x")
    case False
    with Cons.prems have "find (\<lambda>p. P (snd p)) (enumerate (Suc n) xs) = Some (i, r)" by simp
    from Cons.IH [OF this] False show ?thesis by (cases i) (auto simp: Suc_diff_le)
  qed (use Cons.prems in auto)
qed simp

lemma find_enumerate_None: "find (\<lambda>p. P (snd p)) (enumerate n rs) = None \<longleftrightarrow> find P rs = None"
  by (induction rs arbitrary: n) auto

text \<open>
  What the clients of the index rely on: looking up a key finds the first record with that key.
\<close>

locale first_match =
  fixes build :: "'a list \<Rightarrow> 's" and look :: "'s \<Rightarrow> 'k \<Rightarrow> 'a option" and key :: "'a \<Rightarrow> 'k"
  assumes look_build: "look (build xs) k = find (\<lambda>x. key x = k) xs"
begin

lemma look_member: "look (build xs) k = Some x \<Longrightarrow> x \<in> set xs \<and> key x = k"
  by (auto simp: look_build find_Some_iff)

lemma look_total: "x \<in> set xs \<Longrightarrow> \<exists>y. look (build xs) (key x) = Some y \<and> key y = key x"
  by (cases "look (build xs) (key x)") (auto simp: look_build find_None_iff find_Some_iff)

lemma look_distinct: "distinct (map key xs) \<Longrightarrow> x \<in> set xs \<Longrightarrow> look (build xs) (key x) = Some x"
  using look_total [of x xs] look_member [of xs "key x"] by (auto simp: distinct_map dest: inj_onD)

end

definition index_lookup :: "record_set \<Rightarrow> bytes \<Rightarrow> candidate option" where
  "index_lookup rs key = (case rs_index rs key of None \<Rightarrow> None | Some i \<Rightarrow> Some (rs_values rs ! i))"

interpretation index: first_match ownRecordSet index_lookup FullKey
proof
  fix xs :: "candidate list" and k
  show "index_lookup (ownRecordSet xs) k = find (\<lambda>x. FullKey x = k) xs"
  proof (cases "find (\<lambda>p. fullRecordKey (snd p) = k) (enumerate 0 xs)")
    case None
    with find_enumerate_None [of "\<lambda>x. fullRecordKey x = k" 0 xs] show ?thesis
      by (simp add: index_lookup_def ownRecordSet_def buildIndex_def index_fold fullRecordKey_eq)
  next
    case (Some p)
    with find_enumerate [of "\<lambda>x. fullRecordKey x = k" 0 xs "fst p" "snd p"] show ?thesis
      by (auto simp: index_lookup_def ownRecordSet_def buildIndex_def index_fold fullRecordKey_eq)
  qed
qed

text \<open>Snapshots are only ever published with an index built from their records.\<close>

definition indexed :: "snapshot \<Rightarrow> bool" where
  "indexed s \<longleftrightarrow> (case sn_records s of None \<Rightarrow> True | Some rs \<Rightarrow> rs = ownRecordSet (rs_values rs))"

lemma lookupRecord_first:
  assumes "indexed s"
  shows "lookupRecord s key = find (\<lambda>r. FullKey r = key) (recordValues s)"
proof (cases "sn_records s")
  case (Some rs)
  with assms have "rs = ownRecordSet (rs_values rs)" by (simp add: indexed_def)
  with index.look_build [of "rs_values rs" key] Some show ?thesis
    by (simp add: lookupRecord_def recordValues_def index_lookup_def)
qed (simp add: lookupRecord_def recordValues_def)

lemma lookupRecord_member: "indexed s \<Longrightarrow> lookupRecord s key = Some r \<Longrightarrow> r \<in> set (recordValues s) \<and> FullKey r = key"
  by (auto simp: lookupRecord_first find_Some_iff)

section \<open>Reduction\<close>

text \<open>The shape every session state has: prompt and error flag follow the mode.\<close>

definition state_ok :: "sstate \<Rightarrow> bool" where
  "state_ok st \<longleftrightarrow> st_prompt st = modePrompt (st_mode st) (st_add_error st)
     \<and> (st_add_error st \<longrightarrow> st_mode st = ModeAdd)
     \<and> st_mode st \<in> {ModeInsert, ModeNormal, ModeAdd} \<and> st_picker st \<in> {PickerCD, PickerCP}"

text \<open>What a proposal may be, seen from the snapshot it starts from.\<close>

definition stays :: "snapshot \<Rightarrow> proposed \<Rightarrow> bool" where
  "stays s p \<longleftrightarrow> pt_build p = None \<and> st_location (pt_state p) = st_location (sn_state s)"

definition navigates :: "snapshot \<Rightarrow> proposed \<Rightarrow> bool" where
  "navigates s p \<longleftrightarrow>
     (\<exists>b. pt_build p = Some b \<and> br_location b = st_location (pt_state p) \<and> br_picker b = st_picker (sn_state s)
        \<and> \<not> br_initial b) \<and> st_mode (pt_state p) \<noteq> ModeAdd \<and> ef_clear_query (pt_effect p) \<and> ef_clear_multi (pt_effect p)"

lemma setNavigationUnchecked_props:
  "navigates s (setNavigationUnchecked u (p\<lparr>pt_state := sn_state s\<rparr>) target)"
  "pt_base (setNavigationUnchecked u p target) = pt_base p"
  "pt_created (setNavigationUnchecked u p target) = pt_created p"
  "st_location (pt_state (setNavigationUnchecked u p target)) = target"
  "st_home (pt_state (setNavigationUnchecked u p target)) = st_home (pt_state p)"
  "st_picker (pt_state (setNavigationUnchecked u p target)) = st_picker (pt_state p)"
  "state_ok (pt_state p) \<Longrightarrow> state_ok (pt_state (setNavigationUnchecked u p target))"
  by (auto simp: setNavigationUnchecked_def navigates_def modeEffect_def state_ok_def Let_def)

lemma setMode_props:
  "pt_base (setMode p m c) = pt_base p" "pt_build (setMode p m c) = pt_build p" "pt_created (setMode p m c) = pt_created p"
  "st_location (pt_state (setMode p m c)) = st_location (pt_state p)"
  "st_home (pt_state (setMode p m c)) = st_home (pt_state p)"
  "st_picker (pt_state (setMode p m c)) = st_picker (pt_state p)"
  "m \<in> {ModeInsert, ModeNormal, ModeAdd} \<Longrightarrow> state_ok (pt_state p) \<Longrightarrow> state_ok (pt_state (setMode p m c))"
  by (auto simp: setMode_def state_ok_def Let_def)

lemma addErrorProposal_props:
  "pt_base (addErrorProposal s) = sn_generation s" "pt_build (addErrorProposal s) = None" "pt_created (addErrorProposal s) = None"
  "st_location (pt_state (addErrorProposal s)) = st_location (sn_state s)"
  "st_home (pt_state (addErrorProposal s)) = st_home (sn_state s)"
  "st_picker (pt_state (addErrorProposal s)) = st_picker (sn_state s)"
  "state_ok (sn_state s) \<Longrightarrow> st_mode (sn_state s) = ModeAdd \<Longrightarrow> state_ok (pt_state (addErrorProposal s))"
  by (auto simp: addErrorProposal_def state_ok_def Let_def)

lemmas proposal_props = setNavigationUnchecked_props setMode_props addErrorProposal_props

lemma navigationTarget_Inr: "navigationTarget r = Inr t \<Longrightarrow> t = rec_target r"
  by (auto simp: navigationTarget_def split: if_splits)

text \<open>Where navigation may lead, seen from a snapshot.\<close>

definition reachable_location :: "snapshot \<Rightarrow> location \<Rightarrow> bool" where
  "reachable_location s l \<longleftrightarrow> l = Root \<or> l = Parent (st_location (sn_state s)) \<or> l = st_home (sn_state s)
     \<or> (\<exists>r \<in> set (recordValues s). l = rec_target r)"

text \<open>The four forms of a reduction.\<close>

inductive reduced :: "unicode \<Rightarrow> snapshot \<Rightarrow> event \<Rightarrow> reduction \<Rightarrow> bool" for u s ev where
  red_nav: "reachable_location s target \<Longrightarrow> st_mode (sn_state s) \<noteq> ModeAdd \<Longrightarrow>
     reduced u s ev (ProposalReduction (setNavigationUnchecked u
       \<lparr>pt_base = sn_generation s, pt_state = sn_state s, pt_build = None, pt_effect = no_effect, pt_created = None\<rparr> target))"
| red_mode: "m \<in> {ModeInsert, ModeNormal, ModeAdd} \<Longrightarrow>
     reduced u s ev (ProposalReduction (setMode
       \<lparr>pt_base = sn_generation s, pt_state = sn_state s, pt_build = None, pt_effect = no_effect, pt_created = None\<rparr> m c))"
| red_effect: "reduced u s ev (ProposalReduction
     \<lparr>pt_base = sn_generation s, pt_state = sn_state s, pt_build = None, pt_effect = e, pt_created = None\<rparr>)"
| red_add_error: "st_mode (sn_state s) = ModeAdd \<Longrightarrow> reduced u s ev (ProposalReduction (addErrorProposal s))"
| red_add: "st_mode (sn_state s) = ModeAdd \<Longrightarrow> ValidateAddQuery (st_location (sn_state s)) (ev_query ev) = None \<Longrightarrow>
     reduced u s ev (AddReduction \<lparr>ai_base_generation = sn_generation s, ai_base = st_location (sn_state s), ai_query = ev_query ev\<rparr>)"

abbreviation start_proposal :: "snapshot \<Rightarrow> proposed" where
  "start_proposal s \<equiv>
     \<lparr>pt_base = sn_generation s, pt_state = sn_state s, pt_build = None, pt_effect = no_effect, pt_created = None\<rparr>"

lemma resolveRecord_member: "indexed s \<Longrightarrow> resolveRecord s raw = Inr r \<Longrightarrow> r \<in> set (recordValues s) \<and> FullKey r = raw"
  by (auto simp: resolveRecord_def split: sum.splits option.splits dest: lookupRecord_member)

lemma navigate_record_reduced:
  assumes "navigate_record u (start_proposal s) r = Inr red" and "r \<in> set (recordValues s)"
    and "st_mode (sn_state s) \<noteq> ModeAdd"
  shows "reduced u s ev red"
  using assms by (auto simp: navigate_record_def reachable_location_def split: sum.splits
      dest!: navigationTarget_Inr intro!: red_nav)

lemma reduceEnter_reduced:
  assumes "indexed s" and "reduceEnter u s (start_proposal s) ev = Inr red"
  shows "reduced u s ev red"
proof (cases "st_mode (sn_state s) = ModeAdd")
  case True
  with assms show ?thesis by (auto simp: reduceEnter_def split: option.splits intro: red_add red_add_error)
next
  case False
  have acc: "reduced u s ev (ProposalReduction ((start_proposal s)\<lparr>pt_effect := no_effect\<lparr>ef_accept := True\<rparr>\<rparr>))"
    using red_effect by simp
  show ?thesis
  proof (cases "resolveRecord s (ev_current_item ev)")
    case (Inl e)
    with assms(2) False acc show ?thesis by (simp add: reduceEnter_def Let_def split: if_splits)
  next
    case (Inr r)
    then have "r \<in> set (recordValues s)" using resolveRecord_member [OF assms(1)] by blast
    with Inr assms(2) False acc navigate_record_reduced [of u s r red ev] show ?thesis
      by (simp add: reduceEnter_def Let_def split: if_splits)
  qed
qed

lemma reduce_slash_reduced:
  assumes "reduce_slash u s (start_proposal s) ev = Inr red"
  shows "reduced u s ev red"
proof (cases "st_mode (sn_state s) = ModeAdd")
  case True
  with assms show ?thesis by (auto simp: reduce_slash_def Let_def intro: red_effect)
next
  case False
  then consider target where "reachable_location s target" "red = ProposalReduction (setNavigationUnchecked u (start_proposal s) target)"
    | r where "exactImmediateChild u s (ev_query ev) = Some r" "navigate_record u (start_proposal s) r = Inr red"
    | e where "red = ProposalReduction ((start_proposal s)\<lparr>pt_effect := e\<rparr>)"
    using assms by (auto simp: reduce_slash_def reachable_location_def Let_def split: if_splits option.splits)
  then show ?thesis
  proof cases
    case 2
    then have "r \<in> set (recordValues s)" by (auto simp: exactImmediateChild_def find_Some_iff split: if_splits)
    with 2 False navigate_record_reduced show ?thesis by blast
  qed (use False in \<open>auto intro: red_nav red_effect\<close>)
qed

lemma reduceEscape_reduced: "reduced u s ev (ProposalReduction (reduceEscape (start_proposal s)))"
  by (cases "st_mode (sn_state s)")
     (auto simp: reduceEscape_def intro: red_mode [of ModeNormal u s ev] red_effect)

lemma Reduce_reduced:
  assumes "indexed s" and "Reduce u s ev = Inr red"
  shows "reduced u s ev red"
proof (cases "ev_opcode ev")
  case OpModeInsert
  with assms show ?thesis by (auto simp: Reduce_def Let_def intro: red_mode split: if_splits)
next
  case OpModeAdd
  with assms show ?thesis by (auto simp: Reduce_def Let_def intro: red_mode split: if_splits)
next
  case OpEscape
  with assms reduceEscape_reduced show ?thesis by (auto simp: Reduce_def Let_def)
next
  case OpForward
  then consider r where "resolveNavigationRecord s (ev_current_item ev) = Inr r"
      "navigate_record u (start_proposal s) r = Inr red" "st_mode (sn_state s) \<noteq> ModeAdd"
    | "red = ProposalReduction ((start_proposal s)\<lparr>pt_effect := no_effect\<lparr>ef_ignore := True\<rparr>\<rparr>)"
    using assms(2) by (auto simp: Reduce_def Let_def split: if_splits sum.splits)
  then show ?thesis
  proof cases
    case 1
    then have "r \<in> set (recordValues s)"
      using resolveRecord_member [OF assms(1)] by (auto simp: resolveNavigationRecord_def split: if_splits sum.splits)
    with 1 navigate_record_reduced show ?thesis by blast
  qed (auto intro: red_effect)
next
  case OpParent
  with assms show ?thesis
    by (auto simp: Reduce_def Let_def reachable_location_def intro: red_nav red_effect split: if_splits)
next
  case OpSlash
  with assms reduce_slash_reduced show ?thesis by (auto simp: Reduce_def Let_def)
next
  case OpHome
  with assms show ?thesis
    by (auto simp: Reduce_def Let_def reachable_location_def intro: red_nav red_effect split: if_splits)
next
  case OpEnter
  with assms reduceEnter_reduced show ?thesis by (auto simp: Reduce_def Let_def)
next
  case OpRestoreView
  with assms show ?thesis by (auto simp: Reduce_def Let_def intro: red_effect)
next
  case (OpOther x)
  with assms show ?thesis by (simp add: Reduce_def Let_def)
qed

text \<open>
  C30: A proposal that \<open>Reduce\<close> makes keeps the session state well formed (prompt, error flag and mode
  agree), is based on the snapshot's generation, keeps picker and home, and either stays in
  place without a build or asks for a build of exactly the location it moves to, leaving add
  mode and clearing query and selection.
\<close>

theorem Reduce_proposal:
  assumes "indexed s" and "state_ok (sn_state s)" and "Reduce u s ev = Inr (ProposalReduction p)"
  shows "state_ok (pt_state p) \<and> pt_base p = sn_generation s \<and> pt_created p = None \<and>
    st_picker (pt_state p) = st_picker (sn_state s) \<and> st_home (pt_state p) = st_home (sn_state s) \<and>
    (stays s p \<or> navigates s p)"
proof -
  note nav = setNavigationUnchecked_props(1) [of s u "start_proposal s", simplified]
  from Reduce_reduced [OF assms(1,3)] show ?thesis
    using assms(2) nav by cases (auto simp: proposal_props stays_def)
qed

text \<open>
  C5: The finder cannot talk the session into an arbitrary directory: whatever bytes an event carries,
  a proposal moves only to the root, the parent, the home directory or the target of a record of
  the current snapshot, and a directory to be added is requested only under the current
  location with a validated query.
\<close>

theorem Reduce_authority:
  assumes "indexed s" and "Reduce u s ev = Inr red"
  shows "(\<forall>p. red = ProposalReduction p \<longrightarrow>
      st_location (pt_state p) = st_location (sn_state s) \<or> reachable_location s (st_location (pt_state p))) \<and>
    (\<forall>i. red = AddReduction i \<longrightarrow> ai_base i = st_location (sn_state s) \<and>
      ai_base_generation i = sn_generation s \<and> ValidateAddQuery (ai_base i) (ai_query i) = None)"
  using Reduce_reduced [OF assms] by cases (auto simp: proposal_props)

text \<open>
  \<open>Reduce\<close> fails only in three documented ways: an event that is not bound in the current mode or
  unknown, a navigation target that is missing or not navigable, and a record that the current
  snapshot does not contain.
\<close>

theorem Reduce_errors:
  assumes "Reduce u s ev = Inl e"
  shows "errors_is e ErrInvalidEvent \<or> errors_is e ErrInvalidNavigation \<or> errors_is e ErrUnknownRecord"
proof -
  have nav: "navigate_record u p r = Inl e \<Longrightarrow> errors_is e ErrInvalidNavigation" for p r
    by (auto simp: navigate_record_def navigationTarget_def split: sum.splits if_splits)
  show ?thesis
    using assms nav
    by (auto simp: Reduce_def reduceEnter_def reduce_slash_def resolveNavigationRecord_def resolveRecord_def Let_def
        split: opcode.splits if_splits sum.splits option.splits)
qed

section \<open>Selections\<close>

text \<open>
  A cd selection is accepted exactly when it is one record whose bytes are those of a record of the
  snapshot, of a kind one can change into; the outcome is the path stored with that record,
  never a path decoded from the finder's output.
\<close>

theorem ValidateCD_iff:
  assumes "indexed s"
  shows "ValidateCD s accepted = Inr oc \<longleftrightarrow>
    (\<exists>raw r. accepted = [raw] \<and> \<not> isl (ParseRecord raw) \<and> find (\<lambda>r. FullKey r = raw) (recordValues s) = Some r \<and>
       cdSelectionKind (rec_kind r) \<and> loc_kind (rec_target r) = LocFilesystem \<and>
       oc = \<lparr>out_status = StatusAccepted, out_paths = [rec_path r]\<rparr>)"
proof -
  have "\<not> isl x \<longleftrightarrow> (\<exists>w. x = Inr w)" for x :: "wire_record result" by (cases x) auto
  then show ?thesis
    using lookupRecord_first [OF assms]
    by (auto simp: ValidateCD_def cdSelectionKind_def split: list.splits sum.splits option.splits if_splits)
qed

lemma count_accepted_Some:
  "count_accepted accepted counts = Some c \<Longrightarrow>
     \<exists>keys. list_all2 (\<lambda>raw k. ParseRecord raw = Inr k) accepted keys \<and> c = (\<lambda>k. counts k + count (mset keys) k)"
proof (induction accepted counts rule: count_accepted.induct)
  case (2 raw rest counts)
  then obtain key where key: "ParseRecord raw = Inr key" "count_accepted rest (counts(key := Suc (counts key))) = Some c"
    by (auto split: sum.splits)
  from 2(1) [OF key] obtain keys where "list_all2 (\<lambda>raw k. ParseRecord raw = Inr k) rest keys"
    "c = (\<lambda>k. (counts(key := Suc (counts key))) k + count (mset keys) k)" by blast
  with key(1) show ?case by (intro exI [of _ "key # keys"]) auto
qed auto

lemma count_accepted_parsed:
  "list_all2 (\<lambda>raw k. ParseRecord raw = Inr k) accepted keys \<Longrightarrow>
     count_accepted accepted counts = Some (\<lambda>k. counts k + count (mset keys) k)"
proof (induction accepted keys arbitrary: counts rule: list_all2_induct)
  case (Cons raw rest k keys)
  have "(\<lambda>x. (counts(k := Suc (counts k))) x + count (mset keys) x) = (\<lambda>x. counts x + count (mset (k # keys)) x)"
    by auto
  with Cons show ?case by simp
qed simp

definition selectable :: "candidate \<Rightarrow> bool" where
  "selectable r \<longleftrightarrow> rec_kind r \<noteq> KindVirtual \<and> loc_kind (rec_target r) = LocFilesystem"

lemma take_selected_Inr:
  "take_selected base rs counts paths = Inr ps \<Longrightarrow>
     \<exists>sel. subseq sel rs \<and> ps = paths @ map (\<lambda>r. Relative base (rec_path r)) sel \<and> list_all selectable sel \<and>
       (\<forall>k. count (mset (map Wire sel)) k \<le> counts k)"
proof (induction base rs counts paths rule: take_selected.induct)
  case (2 base r rs counts paths)
  show ?case
  proof (cases "counts (Wire r) = 0")
    case True
    with 2 obtain sel where "subseq sel rs \<and> ps = paths @ map (\<lambda>r. Relative base (rec_path r)) sel \<and> list_all selectable sel \<and>
       (\<forall>k. count (mset (map Wire sel)) k \<le> counts k)" by auto
    then show ?thesis by (auto intro: exI [of _ sel])
  next
    case False
    with "2.prems" have sel: "selectable r" by (auto simp: selectable_def split: if_splits)
    have run: "take_selected base rs (counts(Wire r := counts (Wire r) - 1)) (paths @ [Relative base (rec_path r)]) = Inr ps"
      and ok: "\<not> (rec_kind r = KindVirtual \<or> loc_kind (rec_target r) \<noteq> LocFilesystem)"
      using "2.prems" False sel by (auto simp: selectable_def)
    from 2(2) [OF False ok run] obtain sel where
      s: "subseq sel rs" "ps = (paths @ [Relative base (rec_path r)]) @ map (\<lambda>r. Relative base (rec_path r)) sel"
         "list_all selectable sel" "\<forall>k. count (mset (map Wire sel)) k \<le> (counts(Wire r := counts (Wire r) - 1)) k"
      by blast
    have "count (mset (map Wire (r # sel))) k \<le> counts k" for k
      using s(4) [rule_format, of k] False by (auto split: if_splits)
    with s sel show ?thesis by (intro exI [of _ "r # sel"]) auto
  qed
qed auto

lemma take_selected_complete:
  assumes "M \<subseteq># mset (map Wire rs)" and "\<forall>r \<in> set rs. Wire r \<in># M \<longrightarrow> selectable r"
  shows "\<exists>ps. take_selected base rs (count M) paths = Inr ps \<and> length ps = length paths + size M"
  using assms
proof (induction rs arbitrary: M paths)
  case (Cons r rs)
  show ?case
  proof (cases "Wire r \<in># M")
    case False
    have "M \<subseteq># mset (map Wire rs)"
    proof (rule mset_subset_eqI)
      fix k
      have "count M k \<le> count (mset (map Wire (r # rs))) k" using Cons.prems(1) by (simp only: subseteq_mset_def)
      with False show "count M k \<le> count (mset (map Wire rs)) k" by (cases "k = Wire r") (auto simp: not_in_iff)
    qed
    with False Cons.IH [of M paths] Cons.prems(2) show ?thesis by (auto simp: not_in_iff)
  next
    case True
    let ?M = "M - {#Wire r#}"
    have sub: "?M \<subseteq># mset (map Wire rs)" using Cons.prems(1) by (simp add: subset_eq_diff_conv)
    have upd: "(count M)(Wire r := count M (Wire r) - 1) = count ?M" by auto
    have size: "size M = Suc (size ?M)" using True by (metis size_Suc_Diff1)
    have step: "take_selected base (r # rs) (count M) paths
        = take_selected base rs (count ?M) (paths @ [Relative base (rec_path r)])"
    proof -
      have nz: "count M (Wire r) \<noteq> 0" using True by (simp add: not_in_iff [symmetric])
      have ok: "\<not> (rec_kind r = KindVirtual \<or> loc_kind (rec_target r) \<noteq> LocFilesystem)"
        using Cons.prems(2) True by (simp add: selectable_def)
      show ?thesis by (simp only: take_selected.simps if_not_P [OF nz] if_not_P [OF ok] upd)
    qed
    have "\<forall>x \<in> set rs. Wire x \<in># ?M \<longrightarrow> selectable x" using Cons.prems(2) by (auto dest: in_diffD)
    from Cons.IH [OF sub this, of "paths @ [Relative base (rec_path r)]"] show ?thesis
      unfolding step size by (elim exE conjE, intro exI conjI) (assumption, simp only: length_append length_Cons list.size)
  qed
qed simp

text \<open>
  What a cp selection yields: the accepted bytes are, up to order and with multiplicity, the wire
  records of a subsequence of the snapshot, none of them virtual, and the outcome lists the
  relative paths stored with those records in snapshot order.
\<close>

theorem ValidateCP_sound:
  assumes "ValidateCP s accepted base = Inr oc"
  shows "\<exists>sel keys. subseq sel (recordValues s) \<and> list_all selectable sel \<and>
    list_all2 (\<lambda>raw k. ParseRecord raw = Inr k) accepted keys \<and> mset (map Wire sel) = mset keys \<and>
    oc = \<lparr>out_status = StatusAccepted, out_paths = map (\<lambda>r. Relative base (rec_path r)) sel\<rparr>"
proof -
  from assms obtain counts paths where run: "count_accepted accepted (\<lambda>_. 0) = Some counts"
    "take_selected base (recordValues s) counts [] = Inr paths" "length paths = length accepted"
    and oc: "oc = \<lparr>out_status = StatusAccepted, out_paths = paths\<rparr>"
    by (auto simp: ValidateCP_def split: if_splits option.splits sum.splits)
  obtain keys where keys: "list_all2 (\<lambda>raw k. ParseRecord raw = Inr k) accepted keys" "counts = (\<lambda>k. count (mset keys) k)"
    using count_accepted_Some [OF run(1)] by auto
  obtain sel where sel: "subseq sel (recordValues s)" "paths = map (\<lambda>r. Relative base (rec_path r)) sel"
    "list_all selectable sel" "\<forall>k. count (mset (map Wire sel)) k \<le> count (mset keys) k"
    using take_selected_Inr [OF run(2)] keys(2) by auto
  have "mset (map Wire sel) \<subseteq># mset keys" using sel(4) by (simp add: subseteq_mset_def)
  moreover have "size (mset (map Wire sel)) = size (mset keys)"
    using run(3) sel(2) list_all2_lengthD [OF keys(1)] by simp
  ultimately have "mset (map Wire sel) = mset keys"
    by (metis mset_subset_size nat_less_le subset_mset.le_imp_less_or_eq)
  with sel keys(1) oc show ?thesis by blast
qed

text \<open>
  Conversely, every selection the finder can make is accepted: if the accepted bytes are the wire
  bytes of records shown, each at most as often as it is shown, and none of them is virtual, the
  validation succeeds.
\<close>

lemma ValidateCP_accepts:
  assumes "base \<noteq> []" and "accepted \<noteq> []" and "\<forall>r \<in> set (recordValues s). record_ok r"
    and "mset accepted \<subseteq># mset (map FullKey (filter selectable (recordValues s)))"
  shows "\<exists>oc. ValidateCP s accepted base = Inr oc \<and> length (out_paths oc) = length accepted"
proof -
  let ?vs = "filter selectable (recordValues s)"
  have key: "\<exists>r \<in> set ?vs. raw = FullKey r" if "raw \<in> set accepted" for raw
    using that assms(4) by (metis (no_types, lifting) ex_map_conv image_iff list.set_map mset_subset_eqD set_mset_mset)
  define keys where "keys = map (\<lambda>raw. case ParseRecord raw of Inr k \<Rightarrow> k | Inl _ \<Rightarrow> undefined) accepted"
  have parse: "ParseRecord raw = Inr (case ParseRecord raw of Inr k \<Rightarrow> k | Inl _ \<Rightarrow> undefined)" if "raw \<in> set accepted" for raw
    using key [OF that] assms(3) record_ok_parse by fastforce
  have l2: "list_all2 (\<lambda>raw k. ParseRecord raw = Inr k) accepted keys"
    using parse by (auto simp: keys_def list_all2_conv_all_nth)
  let ?f = "\<lambda>raw. case ParseRecord raw of Inr k \<Rightarrow> k | Inl _ \<Rightarrow> undefined"
  have "image_mset ?f (mset accepted) \<subseteq># image_mset ?f (mset (map FullKey ?vs))"
    using assms(4) by (rule image_mset_subseteq_mono)
  also have "\<dots> = mset (map ?f (map FullKey ?vs))" by (simp only: mset_map)
  also have "\<dots> = mset (map Wire ?vs)"
    by (intro arg_cong [where f = mset]) (use assms(3) in \<open>simp add: record_ok_parse\<close>)
  also have "\<dots> \<subseteq># mset (map Wire (recordValues s))"
    by (simp add: image_mset_subseteq_mono multiset_filter_subset)
  finally have sub: "mset keys \<subseteq># mset (map Wire (recordValues s))" by (simp add: keys_def)
  have sel: "\<forall>r \<in> set (recordValues s). Wire r \<in># mset keys \<longrightarrow> selectable r"
  proof (intro ballI impI)
    fix r assume r: "r \<in> set (recordValues s)" "Wire r \<in># mset keys"
    then obtain raw where raw: "raw \<in> set accepted" "ParseRecord raw = Inr (Wire r)" using parse by (auto simp: keys_def)
    then obtain q where q: "q \<in> set ?vs" "raw = FullKey q" using key by blast
    then have "FullKey q = FullKey r" using raw(2) ParseRecord_Inr [of raw "Wire r"] by (simp add: FullKey_def)
    then have "rec_target q = rec_target r" "Wire q = Wire r"
      using record_ok_target FullKey_inject q r assms(3) by auto
    then have "rec_kind q = rec_kind r" by (metis Wire_sel(1))
    with q \<open>rec_target q = rec_target r\<close> show "selectable r" by (simp add: selectable_def)
  qed
  obtain ps where "take_selected base (recordValues s) (count (mset keys)) [] = Inr ps" "length ps = size (mset keys)"
    using take_selected_complete [OF sub sel, of base "[]"] by auto
  then show ?thesis
    using assms(1,2) count_accepted_parsed [OF l2, of "\<lambda>_. 0"] list_all2_lengthD [OF l2] by (simp add: ValidateCP_def)
qed

section \<open>A concrete session\<close>

definition demo_record :: candidate where
  "demo_record = newRecord KindDirectory ''b/'' ''/a/b''"

definition demo_snapshot :: "mode \<Rightarrow> snapshot" where
  "demo_snapshot m = \<lparr>sn_generation = 7,
     sn_state = \<lparr>st_picker = PickerCP, st_mode = m, st_location = Filesystem ''/a'', st_home = Filesystem ''/h'',
                 st_prompt = modePrompt m False, st_add_error = False\<rparr>,
     sn_records = Some (ownRecordSet [demo_record])\<rparr>"

definition demo_event :: "opcode \<Rightarrow> bytes \<Rightarrow> event" where
  "demo_event x item = \<lparr>ev_opcode = x, ev_key = [], ev_query = [], ev_current_item = item\<rparr>"

lemma demo_indexed [simp]: "indexed (demo_snapshot m)"
  by (simp add: indexed_def demo_snapshot_def ownRecordSet_def)

lemma demo_values [simp]: "recordValues (demo_snapshot m) = [demo_record]"
  by (simp add: recordValues_def demo_snapshot_def ownRecordSet_def)

lemma demo_record_ok: "record_ok demo_record"
  unfolding demo_record_def by (rule record_ok_new) (auto simp: validKind_def byte_of_def)

lemma demo_lookup: "lookupRecord (demo_snapshot m) (FullKey demo_record) = Some demo_record"
  by (simp add: lookupRecord_first)

theorem Reduce_proposal_witness:
  "\<exists>p. Reduce latin1 (demo_snapshot ModeNormal) (demo_event OpModeAdd []) = Inr (ProposalReduction p) \<and>
     state_ok (pt_state p) \<and> pt_base p = 7 \<and> st_mode (pt_state p) = ModeAdd"
proof -
  let ?s = "demo_snapshot ModeNormal"
  have run: "Reduce latin1 ?s (demo_event OpModeAdd []) = Inr (ProposalReduction (setMode (start_proposal ?s) ModeAdd True))"
    by (simp add: Reduce_def demo_event_def demo_snapshot_def)
  have "state_ok (sn_state ?s)" by (simp add: state_ok_def demo_snapshot_def)
  from Reduce_proposal [OF demo_indexed this run] run show ?thesis
    by (auto simp: demo_snapshot_def setMode_def Let_def)
qed

theorem Reduce_authority_witness:
  "\<exists>p. Reduce latin1 (demo_snapshot ModeNormal) (demo_event OpForward (FullKey demo_record)) = Inr (ProposalReduction p) \<and>
     st_location (pt_state p) = Filesystem ''/a/b'' \<and> reachable_location (demo_snapshot ModeNormal) (Filesystem ''/a/b'')"
proof -
  let ?s = "demo_snapshot ModeNormal" and ?t = "Filesystem ''/a/b''"
  have ne: "FullKey demo_record \<noteq> []" by (simp add: FullKey_def wire_bytes_alt)
  have "resolveNavigationRecord ?s (FullKey demo_record) = Inr demo_record"
    using record_ok_parse [OF demo_record_ok] ne by (simp add: resolveNavigationRecord_def resolveRecord_def demo_lookup)
  then have run: "Reduce latin1 ?s (demo_event OpForward (FullKey demo_record))
      = Inr (ProposalReduction (setNavigationUnchecked latin1 (start_proposal ?s) ?t))"
    by (simp add: Reduce_def demo_event_def demo_snapshot_def navigate_record_def navigationTarget_def canNavigate_def demo_record_def)
  have "?t \<noteq> st_location (sn_state ?s)" by (simp add: demo_snapshot_def Filesystem_def)
  with Reduce_authority [OF demo_indexed run] run show ?thesis by (auto simp: proposal_props)
qed

theorem Reduce_errors_witness:
  "\<exists>e. Reduce latin1 (demo_snapshot ModeInsert) (demo_event OpModeAdd []) = Inl e \<and>
     (errors_is e ErrInvalidEvent \<or> errors_is e ErrInvalidNavigation \<or> errors_is e ErrUnknownRecord)"
proof -
  have run: "Reduce latin1 (demo_snapshot ModeInsert) (demo_event OpModeAdd [])
      = Inl (ErrWrap ''add mode is unbound'' ErrInvalidEvent)"
    by (simp add: Reduce_def demo_event_def demo_snapshot_def)
  from Reduce_errors [OF run] run show ?thesis by blast
qed

theorem ValidateCD_iff_witness:
  "ValidateCD (demo_snapshot ModeInsert) [FullKey demo_record] = Inr \<lparr>out_status = StatusAccepted, out_paths = [''/a/b'']\<rparr>"
proof -
  have "\<not> isl (ParseRecord (FullKey demo_record))" using record_ok_parse [OF demo_record_ok] by simp
  then show ?thesis unfolding ValidateCD_iff [OF demo_indexed]
    by (auto simp: cdSelectionKind_def demo_record_def)
qed

theorem ValidateCP_sound_witness:
  "\<exists>sel. ValidateCP (demo_snapshot ModeInsert) [FullKey demo_record] ''/a''
       = Inr \<lparr>out_status = StatusAccepted, out_paths = map (\<lambda>r. Relative ''/a'' (rec_path r)) sel\<rparr> \<and>
     subseq sel [demo_record]"
proof -
  have sel: "selectable demo_record" by (simp add: selectable_def demo_record_def)
  have run: "ValidateCP (demo_snapshot ModeInsert) [FullKey demo_record] ''/a''
      = Inr \<lparr>out_status = StatusAccepted, out_paths = [Relative ''/a'' (rec_path demo_record)]\<rparr>"
    using record_ok_parse [OF demo_record_ok] sel by (simp add: ValidateCP_def selectable_def)
  from ValidateCP_sound [OF run] obtain sel where "subseq sel [demo_record]"
    "\<lparr>out_status = StatusAccepted, out_paths = [Relative ''/a'' (rec_path demo_record)]\<rparr>
       = \<lparr>out_status = StatusAccepted, out_paths = map (\<lambda>r. Relative ''/a'' (rec_path r)) sel\<rparr>"
    unfolding demo_values by (elim exE conjE) (rule that)
  with run show ?thesis by metis
qed

end
