(* ===== verification/Session_Actor.thy ===== *)
theory Session_Actor
  imports Session
begin

text \<open>
  \<open>internal/session\<close>, the actor: the select loop of \<open>run\<close> with its handlers (actor.go) and the
  client calls (actor_api.go).

  The loop's local variables and the effects a client can observe are the record \<open>actor\<close>: every
  message sent on a reply channel and every cleanup call is appended to a log, and so is every command received.  Commands carry the
  identity of their reply channel.  What the outside decides, the causes of the contexts when
  they are read, the error a cleanup returns and the result of a build, are arguments of the
  handlers; one iteration of the loop is one step of \<open>actor_step\<close>.  Durations are not modelled.
\<close>

section \<open>State\<close>

definition ErrClosed :: go_error where "ErrClosed = ErrText ''session actor is closed''"
definition ErrSuperseded :: go_error where "ErrSuperseded = ErrText ''session transition was superseded''"
definition ErrStaleGeneration :: go_error where "ErrStaleGeneration = ErrText ''session generation is stale''"
definition ErrTransitionPending :: go_error where "ErrTransitionPending = ErrText ''session transition is already pending''"
definition errNilGenerator :: go_error where "errNilGenerator = ErrText ''session actor: nil generator''"
definition errGenerationLimit :: go_error where "errGenerationLimit = ErrText ''session generation limit reached''"

record apply_cmd =
  cm_id :: nat
  cm_proposal :: proposed

record enrich_cmd =
  en_id :: nat
  en_base :: u64
  en_records :: "candidate list"

record reply =
  rp_result :: "(snapshot \<times> effect) option"
  rp_err :: "go_error option"

record pending =
  pe_id :: u64
  pe_cmd :: apply_cmd
  pe_retiring :: bool
  pe_reply_err :: "go_error option"

record actor =
  at_current :: snapshot
  at_pending :: "pending option"
  at_replacement :: "apply_cmd option"
  at_close_reply :: bool
  at_shutdown :: "go_error option"
  at_watch_session :: bool
  at_next_id :: u64
  at_generator :: bool
  at_builds :: "(u64 \<times> build_request) list"
  at_received :: "apply_cmd list"
  at_replies :: "(nat \<times> reply) list"
  at_cleanups :: "(nat \<times> created_tree option) list"
  at_enrich_replies :: "(nat \<times> reply) list"
  at_close_acks :: nat
  at_final :: "go_error option"

text \<open>The zero \<open>State\<close> of the first snapshot.\<close>

definition zero_state :: sstate where
  "zero_state = \<lparr>st_picker = PickerOther [], st_mode = ModeOther [],
     st_location = \<lparr>loc_kind = LocOther 0, loc_path = []\<rparr>, st_home = \<lparr>loc_kind = LocOther 0, loc_path = []\<rparr>,
     st_prompt = [], st_add_error = False\<rparr>"

definition new_actor :: "bool \<Rightarrow> actor" where
  "new_actor generator = \<lparr>at_current = \<lparr>sn_generation = 0, sn_state = zero_state, sn_records = Some (ownRecordSet [])\<rparr>,
     at_pending = None, at_replacement = None, at_close_reply = False, at_shutdown = None, at_watch_session = True,
     at_next_id = 0, at_generator = generator, at_builds = [], at_received = [], at_replies = [], at_cleanups = [],
     at_enrich_replies = [], at_close_acks = 0, at_final = None\<rparr>"

text \<open>What the handlers read from outside.\<close>

record actor_env =
  ae_caller :: "nat \<Rightarrow> go_error option"
  ae_session :: "go_error option"
  ae_cleanup :: "created_tree option \<Rightarrow> go_error option"

section \<open>Handlers\<close>

definition send_reply :: "nat \<Rightarrow> reply \<Rightarrow> actor \<Rightarrow> actor" where
  "send_reply i r a = a\<lparr>at_replies := at_replies a @ [(i, r)]\<rparr>"

definition replyApplyError :: "actor_env \<Rightarrow> apply_cmd \<Rightarrow> go_error option \<Rightarrow> actor \<Rightarrow> actor" where
  "replyApplyError env c err a =
     (let created = pt_created (cm_proposal c) in
      send_reply (cm_id c) \<lparr>rp_result = None, rp_err = errors_join err (ae_cleanup env created)\<rparr>
        (a\<lparr>at_cleanups := at_cleanups a @ [(cm_id c, created)]\<rparr>))"

definition replyEnrichError :: "enrich_cmd \<Rightarrow> go_error \<Rightarrow> actor \<Rightarrow> actor" where
  "replyEnrichError c err a =
     a\<lparr>at_enrich_replies := at_enrich_replies a @ [(en_id c, \<lparr>rp_result = None, rp_err = Some err\<rparr>)]\<rparr>"

definition nextGeneration :: "actor \<Rightarrow> (u64 \<times> actor) option" where
  "nextGeneration a = (if at_next_id a = - 1 then None else Some (at_next_id a + 1, a\<lparr>at_next_id := at_next_id a + 1\<rparr>))"

text \<open>\<open>pending = start(command)\<close>.\<close>

definition actor_start :: "actor_env \<Rightarrow> apply_cmd \<Rightarrow> actor \<Rightarrow> actor" where
  "actor_start env c a =
     (let a = a\<lparr>at_pending := None\<rparr>; p = cm_proposal c in
      if ae_caller env (cm_id c) \<noteq> None then replyApplyError env c (ae_caller env (cm_id c)) a
      else if pt_base p \<noteq> sn_generation (at_current a) then replyApplyError env c (Some ErrStaleGeneration) a
      else case pt_build p of
             None \<Rightarrow>
               let cur = (at_current a)\<lparr>sn_state := pt_state p\<rparr> in
               send_reply (cm_id c) \<lparr>rp_result = Some (cur, pt_effect p), rp_err = None\<rparr> (a\<lparr>at_current := cur\<rparr>)
           | Some build \<Rightarrow>
               if \<not> at_generator a then replyApplyError env c (Some errNilGenerator) a
               else case nextGeneration a of
                      None \<Rightarrow> replyApplyError env c (Some errGenerationLimit) a
                    | Some (g, a') \<Rightarrow>
                        a'\<lparr>at_pending := Some \<lparr>pe_id = g, pe_cmd = c, pe_retiring = False, pe_reply_err = None\<rparr>,
                           at_builds := at_builds a' @ [(g, build\<lparr>br_generation := g\<rparr>)]\<rparr>)"

text \<open>Mark the pending transition as retiring; its build is cancelled with the same cause.\<close>

definition retire :: "go_error option \<Rightarrow> actor \<Rightarrow> actor" where
  "retire err a =
     (case at_pending a of
        None \<Rightarrow> a
      | Some p \<Rightarrow> a\<lparr>at_pending := Some (p\<lparr>pe_retiring := True, pe_reply_err := err\<rparr>)\<rparr>)"

definition handle_apply :: "actor_env \<Rightarrow> apply_cmd \<Rightarrow> actor \<Rightarrow> actor" where
  "handle_apply env c a =
     (let a = a\<lparr>at_received := at_received a @ [c]\<rparr> in
      if at_shutdown a \<noteq> None then replyApplyError env c (at_shutdown a) a
      else if ae_caller env (cm_id c) \<noteq> None then replyApplyError env c (ae_caller env (cm_id c)) a
      else if pt_base (cm_proposal c) \<noteq> sn_generation (at_current a) then replyApplyError env c (Some ErrStaleGeneration) a
      else case at_pending a of
             None \<Rightarrow> actor_start env c a
           | Some p \<Rightarrow>
               if pe_retiring p \<or> at_replacement a \<noteq> None then replyApplyError env c (Some ErrTransitionPending) a
               else (retire (Some ErrSuperseded) a)\<lparr>at_replacement := Some c\<rparr>)"

definition handle_enrich :: "actor_env \<Rightarrow> enrich_cmd \<Rightarrow> actor \<Rightarrow> actor" where
  "handle_enrich env c a =
     (case at_shutdown a of
        Some e \<Rightarrow> replyEnrichError c e a
      | None \<Rightarrow>
          (case ae_caller env (en_id c) of
             Some e \<Rightarrow> replyEnrichError c e a
           | None \<Rightarrow>
               (case ae_session env of
                  Some e \<Rightarrow> replyEnrichError c e a
                | None \<Rightarrow>
                    if en_base c \<noteq> sn_generation (at_current a) then replyEnrichError c ErrStaleGeneration a
                    else if at_pending a \<noteq> None then replyEnrichError c ErrTransitionPending a
                    else case nextGeneration a of
                           None \<Rightarrow> replyEnrichError c errGenerationLimit a
                         | Some (g, a') \<Rightarrow>
                             let cur = \<lparr>sn_generation = g, sn_state = sn_state (at_current a'),
                                        sn_records = Some (ownRecordSet (en_records c))\<rparr> in
                             a'\<lparr>at_current := cur,
                                at_enrich_replies := at_enrich_replies a' @
                                  [(en_id c, \<lparr>rp_result = Some (cur, no_effect), rp_err = None\<rparr>)]\<rparr>)))"

text \<open>The outcome of a build, \<open>completionCommand\<close>; \<open>finish_pending\<close> answers the command that waits for it.\<close>

definition finish_pending :: "actor_env \<Rightarrow> build_result result \<Rightarrow> pending \<Rightarrow> actor \<Rightarrow> actor" where
  "finish_pending env outcome p a =
     (let c = pe_cmd p; prop = cm_proposal c in
      if pe_retiring p then replyApplyError env c (pe_reply_err p) a
      else if ae_caller env (cm_id c) \<noteq> None then replyApplyError env c (ae_caller env (cm_id c)) a
      else if ae_session env \<noteq> None then replyApplyError env c (ae_session env) a
      else case outcome of
             Inl e \<Rightarrow> replyApplyError env c (Some e) a
           | Inr built \<Rightarrow>
               if pt_base prop \<noteq> sn_generation (at_current a) then replyApplyError env c (Some ErrStaleGeneration) a
               else let cur = \<lparr>sn_generation = pe_id p, sn_state = pt_state prop,
                               sn_records = Some (ownRecordSet (bl_records built))\<rparr> in
                    send_reply (cm_id c) \<lparr>rp_result = Some (cur, (pt_effect prop)\<lparr>ef_reload_generation := pe_id p\<rparr>),
                                          rp_err = None\<rparr> (a\<lparr>at_current := cur\<rparr>))"

definition handle_completion :: "actor_env \<Rightarrow> u64 \<Rightarrow> build_result result \<Rightarrow> actor \<Rightarrow> actor" where
  "handle_completion env i outcome a =
     (case at_pending a of
        None \<Rightarrow> a
      | Some p \<Rightarrow>
          if i \<noteq> pe_id p then a
          else let a = (finish_pending env outcome p a)\<lparr>at_pending := None\<rparr> in
               case at_replacement a of
                 None \<Rightarrow> a
               | Some c \<Rightarrow> if at_shutdown a = None then actor_start env c (a\<lparr>at_replacement := None\<rparr>) else a)"

definition handle_close :: "actor \<Rightarrow> actor" where
  "handle_close a =
     (if at_close_reply a then a\<lparr>at_close_acks := Suc (at_close_acks a)\<rparr>
      else let a = a\<lparr>at_close_reply := True, at_shutdown := Some ErrClosed, at_watch_session := False\<rparr> in
           case at_pending a of
             None \<Rightarrow> a
           | Some p \<Rightarrow> if pe_retiring p then a else retire (Some ErrClosed) a)"

definition handle_caller_done :: "actor_env \<Rightarrow> pending \<Rightarrow> actor \<Rightarrow> actor" where
  "handle_caller_done env p a = retire (ae_caller env (cm_id (pe_cmd p))) a"

definition handle_session_done :: "actor_env \<Rightarrow> actor \<Rightarrow> actor" where
  "handle_session_done env a =
     (let a = a\<lparr>at_shutdown := ae_session env, at_watch_session := False\<rparr> in
      case at_pending a of
        None \<Rightarrow> a
      | Some p \<Rightarrow> if pe_retiring p then a else retire (ae_session env) a)"

text \<open>The head of the loop: leave when shutting down with nothing pending.\<close>

definition loop_head :: "actor_env \<Rightarrow> actor \<Rightarrow> actor" where
  "loop_head env a =
     (if at_pending a = None \<and> at_shutdown a \<noteq> None then
        let a = (case at_replacement a of
                   None \<Rightarrow> a
                 | Some c \<Rightarrow> (replyApplyError env c (at_shutdown a) a)\<lparr>at_replacement := None\<rparr>)
        in a\<lparr>at_final := at_shutdown a, at_close_acks := at_close_acks a + (if at_close_reply a then 1 else 0)\<rparr>
      else a)"

section \<open>Queries\<close>

definition query_guard :: "go_error option \<Rightarrow> actor \<Rightarrow> go_error option" where
  "query_guard cause a = (case at_shutdown a of Some e \<Rightarrow> Some e | None \<Rightarrow> cause)"

definition reply_current :: "go_error option \<Rightarrow> actor \<Rightarrow> snapshot result" where
  "reply_current cause a = (case query_guard cause a of Some e \<Rightarrow> Inl e | None \<Rightarrow> Inr (at_current a))"

definition reply_state :: "go_error option \<Rightarrow> actor \<Rightarrow> sstate result" where
  "reply_state cause a = (case query_guard cause a of Some e \<Rightarrow> Inl e | None \<Rightarrow> Inr (sn_state (at_current a)))"

definition reply_snapshot :: "go_error option \<Rightarrow> u64 \<Rightarrow> actor \<Rightarrow> snapshot result" where
  "reply_snapshot cause g a =
     (case query_guard cause a of
        Some e \<Rightarrow> Inl e
      | None \<Rightarrow> if g \<noteq> sn_generation (at_current a) then Inl ErrStaleGeneration else Inr (at_current a))"

definition reply_resolve :: "go_error option \<Rightarrow> bytes \<Rightarrow> actor \<Rightarrow> candidate result" where
  "reply_resolve cause key a =
     (case query_guard cause a of
        Some e \<Rightarrow> Inl e
      | None \<Rightarrow> (case lookupRecord (at_current a) key of None \<Rightarrow> Inl ErrUnknownRecord | Some r \<Rightarrow> Inr r))"

section \<open>The client calls\<close>

text \<open>
  \<open>enqueue\<close>: what the channel operation of its \<open>select\<close> did is the argument \<open>sel\<close>; \<open>cause\<close> and
  \<open>late_cause\<close> are the cause of the caller's context at entry and when its \<open>Done\<close> fires, \<open>final\<close> is
  \<open>actor.finalErr\<close> and \<open>ended\<close> whether \<open>actor.done\<close> is closed at entry.
\<close>

datatype send_outcome = Sent | CallerGone | ActorDone

definition errNilContext :: go_error where "errNilContext = ErrText ''session actor: nil context''"

definition terminalError :: "go_error option \<Rightarrow> go_error" where
  "terminalError final = (case final of Some e \<Rightarrow> e | None \<Rightarrow> ErrClosed)"

definition enqueue :: "go_error option \<Rightarrow> bool \<Rightarrow> go_error option \<Rightarrow> send_outcome \<Rightarrow> go_error option \<Rightarrow> go_error option" where
  "enqueue cause ended final sel late_cause =
     (if cause \<noteq> None then cause
      else if ended then Some (terminalError final)
      else case sel of Sent \<Rightarrow> None | CallerGone \<Rightarrow> late_cause | ActorDone \<Rightarrow> Some (terminalError final))"

text \<open>
  A call with a nil context fails; otherwise \<open>enq\<close> is what \<open>enqueue\<close> returned and the last argument what
  arrives on the reply channel.  A transition that never reached the actor is cleaned up by its caller.
\<close>

definition Apply :: "bool \<Rightarrow> (created_tree option \<Rightarrow> go_error option) \<Rightarrow> proposed \<Rightarrow> go_error option \<Rightarrow> reply \<Rightarrow> reply" where
  "Apply nil_ctx cleanup p enq rep =
     (if nil_ctx then \<lparr>rp_result = None, rp_err = Some errNilContext\<rparr>
      else case enq of
             Some e \<Rightarrow> \<lparr>rp_result = None, rp_err = errors_join (Some e) (cleanup (pt_created p))\<rparr>
           | None \<Rightarrow> rep)"

definition Enrich :: "bool \<Rightarrow> go_error option \<Rightarrow> reply \<Rightarrow> reply" where
  "Enrich nil_ctx enq rep =
     (if nil_ctx then \<lparr>rp_result = None, rp_err = Some errNilContext\<rparr>
      else case enq of Some e \<Rightarrow> \<lparr>rp_result = None, rp_err = Some e\<rparr> | None \<Rightarrow> rep)"

definition Current :: "bool \<Rightarrow> go_error option \<Rightarrow> go_error option \<Rightarrow> actor \<Rightarrow> snapshot result" where
  "Current nil_ctx enq cause a =
     (if nil_ctx then Inl errNilContext else case enq of Some e \<Rightarrow> Inl e | None \<Rightarrow> reply_current cause a)"

definition CurrentState :: "bool \<Rightarrow> go_error option \<Rightarrow> go_error option \<Rightarrow> actor \<Rightarrow> sstate result" where
  "CurrentState nil_ctx enq cause a =
     (if nil_ctx then Inl errNilContext else case enq of Some e \<Rightarrow> Inl e | None \<Rightarrow> reply_state cause a)"

definition Snapshot_at :: "bool \<Rightarrow> go_error option \<Rightarrow> go_error option \<Rightarrow> u64 \<Rightarrow> actor \<Rightarrow> snapshot result" where
  "Snapshot_at nil_ctx enq cause g a =
     (if nil_ctx then Inl errNilContext else case enq of Some e \<Rightarrow> Inl e | None \<Rightarrow> reply_snapshot cause g a)"

definition ResolveCurrent :: "bool \<Rightarrow> go_error option \<Rightarrow> go_error option \<Rightarrow> bytes \<Rightarrow> actor \<Rightarrow> candidate result" where
  "ResolveCurrent nil_ctx enq cause raw a =
     (if nil_ctx then Inl errNilContext else case enq of Some e \<Rightarrow> Inl e | None \<Rightarrow> reply_resolve cause raw a)"

section \<open>The loop\<close>

inductive actor_step :: "actor \<Rightarrow> actor \<Rightarrow> bool" where
  step_apply: "at_final a = None \<Longrightarrow> cm_id c \<notin> cm_id ` set (at_received a) \<Longrightarrow>
     actor_step a (loop_head env (handle_apply env c a))"
| step_enrich: "at_final a = None \<Longrightarrow> actor_step a (loop_head env (handle_enrich env c a))"
| step_complete: "at_final a = None \<Longrightarrow> (i, rq) \<in> set (at_builds a) \<Longrightarrow>
     actor_step a (loop_head env (handle_completion env i outcome (a\<lparr>at_builds := remove1 (i, rq) (at_builds a)\<rparr>)))"
| step_close: "at_final a = None \<Longrightarrow> actor_step a (loop_head env (handle_close a))"
| step_caller_done: "at_final a = None \<Longrightarrow> at_pending a = Some p \<Longrightarrow> \<not> pe_retiring p \<Longrightarrow>
     ae_caller env (cm_id (pe_cmd p)) \<noteq> None \<Longrightarrow> actor_step a (loop_head env (handle_caller_done env p a))"
| step_session_done: "at_final a = None \<Longrightarrow> at_watch_session a \<Longrightarrow> ae_session env \<noteq> None \<Longrightarrow>
     actor_step a (loop_head env (handle_session_done env a))"

inductive_cases actor_stepE: "actor_step a b"

section \<open>Which variables a handler touches\<close>

lemma send_reply_sel [simp]:
  "at_current (send_reply i r a) = at_current a" "at_pending (send_reply i r a) = at_pending a" "at_replacement (send_reply i r a) = at_replacement a"
  "at_close_reply (send_reply i r a) = at_close_reply a" "at_shutdown (send_reply i r a) = at_shutdown a" "at_watch_session (send_reply i r a) = at_watch_session a"
  "at_next_id (send_reply i r a) = at_next_id a" "at_generator (send_reply i r a) = at_generator a" "at_builds (send_reply i r a) = at_builds a"
  "at_received (send_reply i r a) = at_received a" "at_enrich_replies (send_reply i r a) = at_enrich_replies a" "at_close_acks (send_reply i r a) = at_close_acks a"
  "at_final (send_reply i r a) = at_final a" "at_cleanups (send_reply i r a) = at_cleanups a"
  "at_replies (send_reply i r a) = at_replies a @ [(i, r)]"
  by (simp_all add: send_reply_def)

lemma replyApplyError_sel [simp]:
  "at_current (replyApplyError env c e a) = at_current a" "at_pending (replyApplyError env c e a) = at_pending a" "at_replacement (replyApplyError env c e a) = at_replacement a"
  "at_close_reply (replyApplyError env c e a) = at_close_reply a" "at_shutdown (replyApplyError env c e a) = at_shutdown a" "at_watch_session (replyApplyError env c e a) = at_watch_session a"
  "at_next_id (replyApplyError env c e a) = at_next_id a" "at_generator (replyApplyError env c e a) = at_generator a" "at_builds (replyApplyError env c e a) = at_builds a"
  "at_received (replyApplyError env c e a) = at_received a" "at_enrich_replies (replyApplyError env c e a) = at_enrich_replies a" "at_close_acks (replyApplyError env c e a) = at_close_acks a"
  "at_final (replyApplyError env c e a) = at_final a"
  "at_replies (replyApplyError env c e a) = at_replies a @
     [(cm_id c, \<lparr>rp_result = None, rp_err = errors_join e (ae_cleanup env (pt_created (cm_proposal c)))\<rparr>)]"
  "at_cleanups (replyApplyError env c e a) = at_cleanups a @ [(cm_id c, pt_created (cm_proposal c))]"
  by (simp_all add: replyApplyError_def Let_def)

lemma replyEnrichError_sel [simp]:
  "at_current (replyEnrichError c e a) = at_current a" "at_pending (replyEnrichError c e a) = at_pending a" "at_replacement (replyEnrichError c e a) = at_replacement a"
  "at_close_reply (replyEnrichError c e a) = at_close_reply a" "at_shutdown (replyEnrichError c e a) = at_shutdown a" "at_watch_session (replyEnrichError c e a) = at_watch_session a"
  "at_next_id (replyEnrichError c e a) = at_next_id a" "at_generator (replyEnrichError c e a) = at_generator a" "at_builds (replyEnrichError c e a) = at_builds a"
  "at_received (replyEnrichError c e a) = at_received a" "at_close_acks (replyEnrichError c e a) = at_close_acks a" "at_final (replyEnrichError c e a) = at_final a"
  "at_cleanups (replyEnrichError c e a) = at_cleanups a" "at_replies (replyEnrichError c e a) = at_replies a"
  by (simp_all add: replyEnrichError_def)

lemma retire_sel [simp]:
  "at_current (retire e a) = at_current a" "at_replacement (retire e a) = at_replacement a" "at_close_reply (retire e a) = at_close_reply a"
  "at_shutdown (retire e a) = at_shutdown a" "at_watch_session (retire e a) = at_watch_session a" "at_next_id (retire e a) = at_next_id a"
  "at_generator (retire e a) = at_generator a" "at_builds (retire e a) = at_builds a" "at_received (retire e a) = at_received a"
  "at_enrich_replies (retire e a) = at_enrich_replies a" "at_close_acks (retire e a) = at_close_acks a" "at_final (retire e a) = at_final a"
  "at_cleanups (retire e a) = at_cleanups a" "at_replies (retire e a) = at_replies a"
  "at_pending (retire e a) = map_option (\<lambda>p. p\<lparr>pe_retiring := True, pe_reply_err := e\<rparr>) (at_pending a)"
  by (simp_all add: retire_def split: option.splits)

lemmas actor_handlers = handle_apply_def handle_enrich_def handle_completion_def handle_close_def
  handle_caller_done_def handle_session_done_def

section \<open>Generations\<close>

lemma word_less_Suc: "g \<noteq> - 1 \<Longrightarrow> g < g + 1" for g :: u64
  by (metis inc_less_eq_self_iff_eq not_le)

lemma nextGeneration_Some:
  "nextGeneration a = Some (g, a') \<Longrightarrow> g = at_next_id a + 1 \<and> at_next_id a < g \<and> a' = a\<lparr>at_next_id := g\<rparr>"
  by (auto simp: nextGeneration_def word_less_Suc split: if_splits)

section \<open>The control invariant\<close>

text \<open>
  At most one build runs and it belongs to the pending transition; a replacement waits only behind
  a retiring transition; the pending transition is still based on the current generation.
\<close>

definition pending_ok :: "pending \<Rightarrow> go_error option \<Rightarrow> (u64 \<times> build_request) list \<Rightarrow> snapshot \<Rightarrow> u64 \<Rightarrow> bool" where
  "pending_ok p shut builds cur nid \<longleftrightarrow> pe_id p = nid \<and> sn_generation cur < nid
     \<and> pt_base (cm_proposal (pe_cmd p)) = sn_generation cur
     \<and> (pe_retiring p \<longleftrightarrow> pe_reply_err p \<noteq> None) \<and> (shut \<noteq> None \<longrightarrow> pe_retiring p)
     \<and> (\<exists>b. pt_build (cm_proposal (pe_cmd p)) = Some b \<and> builds = [(nid, b\<lparr>br_generation := nid\<rparr>)])"

definition control_vars :: "pending option \<Rightarrow> apply_cmd option \<Rightarrow> go_error option \<Rightarrow> (u64 \<times> build_request) list \<Rightarrow>
    snapshot \<Rightarrow> u64 \<Rightarrow> bool" where
  "control_vars pend repl shut builds cur nid \<longleftrightarrow>
     (case pend of
        None \<Rightarrow> builds = [] \<and> (repl \<noteq> None \<longrightarrow> shut \<noteq> None)
      | Some p \<Rightarrow> pending_ok p shut builds cur nid \<and> (repl \<noteq> None \<longrightarrow> pe_retiring p))
     \<and> sn_generation cur \<le> nid \<and> indexed cur"

definition control :: "actor \<Rightarrow> bool" where
  "control a \<longleftrightarrow> at_final a = None \<and>
     control_vars (at_pending a) (at_replacement a) (at_shutdown a) (at_builds a) (at_current a) (at_next_id a)"

definition actor_inv :: "actor \<Rightarrow> bool" where
  "actor_inv a \<longleftrightarrow>
     (case at_final a of
        None \<Rightarrow> control a \<and> (at_shutdown a \<noteq> None \<longrightarrow> at_pending a \<noteq> None)
      | Some e \<Rightarrow> at_pending a = None \<and> at_replacement a = None \<and> at_builds a = [] \<and> at_shutdown a = Some e
          \<and> sn_generation (at_current a) \<le> at_next_id a \<and> indexed (at_current a))"

lemma indexed_own [simp]: "indexed \<lparr>sn_generation = g, sn_state = st, sn_records = Some (ownRecordSet rs)\<rparr>"
  by (simp add: indexed_def ownRecordSet_def)

lemma indexed_state [simp]: "indexed (sn\<lparr>sn_state := st\<rparr>) = indexed sn"
  by (simp add: indexed_def)

lemma loop_head_inv: "control a \<Longrightarrow> actor_inv (loop_head env a)"
  by (auto simp: loop_head_def control_def control_vars_def actor_inv_def Let_def split: option.splits)

lemma control_reply: "control a \<Longrightarrow> control (replyApplyError env c e a)"
  "control a \<Longrightarrow> control (replyEnrichError ec x a)" "control a \<Longrightarrow> control (send_reply i r a)"
  "control a \<Longrightarrow> control (a\<lparr>at_received := cs\<rparr>)"
  by (simp_all add: control_def)

text \<open>\<open>start\<close> is only reached with nothing pending.\<close>

lemma control_start:
  assumes "control a" and "at_pending a = None" and "at_replacement a = None" and "at_shutdown a = None"
  shows "control (actor_start env c a)"
proof -
  have a: "a\<lparr>at_pending := None\<rparr> = a" using assms(2) by simp
  have state: "control (a\<lparr>at_current := (at_current a)\<lparr>sn_state := st\<rparr>\<rparr>)" for st
    using assms by (simp add: control_def control_vars_def)
  have build: "control (a'\<lparr>at_pending := Some \<lparr>pe_id = g, pe_cmd = c, pe_retiring = False, pe_reply_err = None\<rparr>,
      at_builds := at_builds a' @ [(g, b\<lparr>br_generation := g\<rparr>)]\<rparr>)"
    if "nextGeneration a = Some (g, a')" "pt_build (cm_proposal c) = Some b"
      "pt_base (cm_proposal c) = sn_generation (at_current a)" for g a' b
    using that assms nextGeneration_Some [OF that(1)] by (auto simp: control_def control_vars_def pending_ok_def)
  show ?thesis
    by (simp add: actor_start_def a Let_def control_reply assms(1) state build split: option.splits)
qed

lemma control_retire:
  assumes "control a" and "e \<noteq> None"
  shows "control (retire e a)" and "at_pending a \<noteq> None \<Longrightarrow> control ((retire e a)\<lparr>at_replacement := r\<rparr>)"
    and "at_pending a \<noteq> None \<Longrightarrow> control ((retire e a)\<lparr>at_shutdown := sh\<rparr>)"
  using assms by (auto simp: control_def control_vars_def pending_ok_def split: option.splits)

lemma control_apply: "control a \<Longrightarrow> (at_shutdown a \<noteq> None \<longrightarrow> at_pending a \<noteq> None) \<Longrightarrow> control (handle_apply env c a)"
proof -
  assume a: "control a" "at_shutdown a \<noteq> None \<longrightarrow> at_pending a \<noteq> None"
  have repl: "at_replacement a = None" if "at_pending a = None" "at_shutdown a = None"
    using a that by (auto simp: control_def control_vars_def)
  show ?thesis
    using a repl
    by (auto simp: handle_apply_def Let_def control_reply control_retire split: option.splits
        intro!: control_start)
qed

lemma control_enrich: "control a \<Longrightarrow> control (handle_enrich env c a)"
  by (auto simp: handle_enrich_def Let_def control_reply split: option.splits dest!: nextGeneration_Some)
     (auto simp: control_def control_vars_def)

lemma control_close:
  assumes "control a"
  shows "control (handle_close a)"
  using assms
  by (auto simp: handle_close_def Let_def control_def control_vars_def pending_ok_def split: option.splits)

lemma control_session_done:
  assumes "control a" and "ae_session env \<noteq> None"
  shows "control (handle_session_done env a)"
  using assms
  by (auto simp: handle_session_done_def Let_def control_def control_vars_def pending_ok_def split: option.splits)

text \<open>Answering the pending command leaves a state in which a replacement may start.\<close>

lemma finish_pending_vars:
  assumes "control a" and "at_pending a = Some p"
  shows "control ((finish_pending env outcome p a)\<lparr>at_pending := None, at_builds := [], at_replacement := None\<rparr>)"
    and "at_shutdown (finish_pending env outcome p a) = at_shutdown a"
    and "at_replacement (finish_pending env outcome p a) = at_replacement a"
    and "at_builds (finish_pending env outcome p a) = at_builds a"
    and "at_final (finish_pending env outcome p a) = at_final a"
    and "at_next_id (finish_pending env outcome p a) = at_next_id a"
  using assms by (auto simp: finish_pending_def Let_def control_def control_vars_def pending_ok_def split: sum.splits)

lemma control_completion:
  assumes "control a" and "(i, rq) \<in> set (at_builds a)"
  shows "control (handle_completion env i outcome (a\<lparr>at_builds := remove1 (i, rq) (at_builds a)\<rparr>))"
proof -
  obtain p where p: "at_pending a = Some p" "at_builds a = [(i, rq)]" "i = pe_id p"
    using assms by (auto simp: control_def control_vars_def pending_ok_def split: option.splits)
  let ?a = "a\<lparr>at_builds := []\<rparr>"
  let ?f = "(finish_pending env outcome p ?a)\<lparr>at_pending := None\<rparr>"
  have "finish_pending env outcome p ?a = (finish_pending env outcome p a)\<lparr>at_builds := []\<rparr>"
    by (simp add: finish_pending_def Let_def replyApplyError_def send_reply_def split: sum.splits)
  then have f: "control (?f\<lparr>at_replacement := None\<rparr>)" and vars: "at_shutdown ?f = at_shutdown a" "at_replacement ?f = at_replacement a"
    using finish_pending_vars [OF assms(1) p(1), of env outcome] by (simp_all add: control_def)
  show ?thesis
  proof (cases "at_replacement a")
    case None
    then have "?f\<lparr>at_replacement := None\<rparr> = ?f" using vars by simp
    with f None vars p show ?thesis by (simp add: handle_completion_def Let_def)
  next
    case (Some c)
    show ?thesis
    proof (cases "at_shutdown a = None")
      case True
      have "control (actor_start env c (?f\<lparr>at_replacement := None\<rparr>))"
        using f True vars by (intro control_start) simp_all
      with True Some vars p show ?thesis by (simp add: handle_completion_def Let_def)
    next
      case False
      then obtain e where "at_shutdown a = Some e" by blast
      with f Some vars p show ?thesis by (simp add: handle_completion_def Let_def control_def control_vars_def)
    qed
  qed
qed

lemma actor_inv_step:
  assumes "actor_inv a" and "actor_step a b"
  shows "actor_inv b"
  using assms(2)
proof cases
  case (step_apply c env)
  with assms(1) have "control a" "at_shutdown a \<noteq> None \<longrightarrow> at_pending a \<noteq> None" by (simp_all add: actor_inv_def)
  then show ?thesis unfolding step_apply by (intro loop_head_inv control_apply)
next
  case (step_caller_done p env)
  then show ?thesis using assms(1)
    by (auto simp: actor_inv_def [of a] handle_caller_done_def intro!: loop_head_inv control_retire)
qed (use assms(1) in \<open>auto simp: actor_inv_def [of a] intro!: loop_head_inv control_enrich control_completion
      control_close control_session_done\<close>)

lemma actor_inv_new: "actor_inv (new_actor g)"
  by (simp add: actor_inv_def new_actor_def control_def control_vars_def)

section \<open>Every command is answered once\<close>

text \<open>
  \<open>settled t c r\<close>: the answer \<open>r\<close> to the command \<open>c\<close> either carries the state and the effect its own proposal
  asked for (the actor sets the generation to reload), or an error, and then the cleanup log \<open>t\<close> holds the
  directories this proposal created.  \<open>owes a M\<close>: the commands received are those answered and those in \<open>M\<close>.
\<close>

definition settled :: "(nat \<times> created_tree option) list \<Rightarrow> apply_cmd \<Rightarrow> reply \<Rightarrow> bool" where
  "settled t c r \<longleftrightarrow>
     (case rp_result r of
        None \<Rightarrow> rp_err r \<noteq> None \<and> (cm_id c, pt_created (cm_proposal c)) \<in> set t
      | Some (sn, eff) \<Rightarrow> rp_err r = None \<and> sn_state sn = pt_state (cm_proposal c)
          \<and> (\<exists>g. eff = (pt_effect (cm_proposal c))\<lparr>ef_reload_generation := g\<rparr>))"

definition cleaned :: "actor \<Rightarrow> bool" where
  "cleaned a \<longleftrightarrow> map fst (at_cleanups a) = map fst (filter (\<lambda>(i, r). rp_err r \<noteq> None) (at_replies a))
     \<and> (\<forall>(i, r) \<in> set (at_replies a). \<exists>c \<in> set (at_received a). cm_id c = i \<and> settled (at_cleanups a) c r)
     \<and> (\<forall>(i, t) \<in> set (at_cleanups a). \<exists>c \<in> set (at_received a). cm_id c = i \<and> t = pt_created (cm_proposal c))"

definition owes :: "actor \<Rightarrow> apply_cmd multiset \<Rightarrow> bool" where
  "owes a M \<longleftrightarrow> mset (map cm_id (at_received a)) = mset (map fst (at_replies a)) + image_mset cm_id M
     \<and> set_mset M \<subseteq> set (at_received a) \<and> cleaned a"

definition open_cmds :: "actor \<Rightarrow> apply_cmd multiset" where
  "open_cmds a = (case at_pending a of None \<Rightarrow> {#} | Some p \<Rightarrow> {#pe_cmd p#})
     + (case at_replacement a of None \<Rightarrow> {#} | Some c \<Rightarrow> {#c#})"

definition account :: "actor \<Rightarrow> bool" where
  "account a \<longleftrightarrow> owes a (open_cmds a) \<and> distinct (map cm_id (at_received a))"

lemma settled_mono: "settled t c r \<Longrightarrow> set t \<subseteq> set t' \<Longrightarrow> settled t' c r"
  by (auto simp: settled_def split: option.splits)

lemma cleaned_more:
  "cleaned a \<Longrightarrow> at_cleanups b = at_cleanups a \<Longrightarrow> at_replies b = at_replies a \<Longrightarrow>
   set (at_received a) \<subseteq> set (at_received b) \<Longrightarrow> cleaned b"
  unfolding cleaned_def by (simp add: case_prod_beta) (meson subsetD)

lemma cleaned_receive: "cleaned a \<Longrightarrow> cleaned (a\<lparr>at_received := at_received a @ [c]\<rparr>)"
  by (rule cleaned_more) auto

lemma cleaned_answer:
  assumes "cleaned a" and "c \<in> set (at_received a)" and "at_received b = at_received a"
    and "at_replies b = at_replies a @ [(cm_id c, r)]" and "settled (at_cleanups b) c r"
    and "at_cleanups b = at_cleanups a @ (if rp_err r = None then [] else [(cm_id c, pt_created (cm_proposal c))])"
  shows "cleaned b"
proof -
  have sub: "set (at_cleanups a) \<subseteq> set (at_cleanups b)" using assms(6) by simp
  have "\<exists>d \<in> set (at_received a). cm_id d = fst p \<and> settled (at_cleanups b) d (snd p)" if "p \<in> set (at_replies a)" for p
  proof -
    have "\<exists>d \<in> set (at_received a). cm_id d = fst p \<and> settled (at_cleanups a) d (snd p)"
      using assms(1) that unfolding cleaned_def case_prod_beta by blast
    then show ?thesis using settled_mono [OF _ sub] by blast
  qed
  moreover have "\<exists>d \<in> set (at_received a). cm_id d = fst p \<and> snd p = pt_created (cm_proposal d)"
    if "p \<in> set (at_cleanups a)" for p
    using assms(1) that by (simp add: cleaned_def case_prod_beta)
  moreover have "map fst (at_cleanups a) = map fst (filter (\<lambda>(i, r). rp_err r \<noteq> None) (at_replies a))"
    using assms(1) by (simp add: cleaned_def)
  ultimately show ?thesis
    using assms(2-5) by (auto simp: cleaned_def case_prod_beta assms(6))
qed

lemma cleaned_error:
  assumes "cleaned a" and "c \<in> set (at_received a)" and "e \<noteq> None"
  shows "cleaned (replyApplyError env c e a)"
  by (rule cleaned_answer [OF assms(1,2), where r = "\<lparr>rp_result = None,
        rp_err = errors_join e (ae_cleanup env (pt_created (cm_proposal c)))\<rparr>"])
     (use assms(3) in \<open>auto simp: settled_def\<close>)

lemma cleaned_result:
  assumes "cleaned a" and "c \<in> set (at_received a)" and "sn_state sn = pt_state (cm_proposal c)"
    and "eff = (pt_effect (cm_proposal c))\<lparr>ef_reload_generation := g\<rparr>"
  shows "cleaned (send_reply (cm_id c) \<lparr>rp_result = Some (sn, eff), rp_err = None\<rparr> a)"
proof (rule cleaned_answer [OF assms(1,2)])
  show "settled (at_cleanups (send_reply (cm_id c) \<lparr>rp_result = Some (sn, eff), rp_err = None\<rparr> a)) c
      \<lparr>rp_result = Some (sn, eff), rp_err = None\<rparr>"
    using assms(3,4) by (auto simp: settled_def)
qed simp_all

lemma owes_update [simp]:
  "owes (a\<lparr>at_current := x0\<rparr>) M = owes a M" "owes (a\<lparr>at_pending := x1\<rparr>) M = owes a M" "owes (a\<lparr>at_replacement := x2\<rparr>) M = owes a M"
  "owes (a\<lparr>at_close_reply := x3\<rparr>) M = owes a M" "owes (a\<lparr>at_shutdown := x4\<rparr>) M = owes a M" "owes (a\<lparr>at_watch_session := x5\<rparr>) M = owes a M"
  "owes (a\<lparr>at_next_id := x6\<rparr>) M = owes a M" "owes (a\<lparr>at_builds := x7\<rparr>) M = owes a M" "owes (a\<lparr>at_enrich_replies := x8\<rparr>) M = owes a M"
  "owes (a\<lparr>at_close_acks := x9\<rparr>) M = owes a M" "owes (a\<lparr>at_final := x10\<rparr>) M = owes a M"
  by (simp_all add: owes_def cleaned_def)

lemma owes_retire [simp]: "owes (retire e a) M = owes a M"
  by (simp add: owes_def cleaned_def)

lemma owes_error:
  "owes a (add_mset c M) \<Longrightarrow> e \<noteq> None \<Longrightarrow> owes (replyApplyError env c e a) M"
  by (simp add: owes_def cleaned_error)

lemma owes_result:
  "owes a (add_mset c M) \<Longrightarrow> sn_state sn = pt_state (cm_proposal c) \<Longrightarrow>
   eff = (pt_effect (cm_proposal c))\<lparr>ef_reload_generation := g\<rparr> \<Longrightarrow>
   owes (send_reply (cm_id c) \<lparr>rp_result = Some (sn, eff), rp_err = None\<rparr> a) M"
  using cleaned_result [of a c sn eff g] by (simp add: owes_def)

lemma owes_start:
  assumes "owes a (add_mset c M)"
  shows "owes (actor_start env c a)
    (case at_pending (actor_start env c a) of None \<Rightarrow> M | Some p \<Rightarrow> add_mset (pe_cmd p) M)"
    and "at_received (actor_start env c a) = at_received a" and "at_replacement (actor_start env c a) = at_replacement a"
proof -
  have a: "\<And>e. e \<noteq> None \<Longrightarrow> owes (replyApplyError env c e (a\<lparr>at_pending := None\<rparr>)) M"
    "\<And>cur. sn_state cur = pt_state (cm_proposal c) \<Longrightarrow>
      owes (send_reply (cm_id c) \<lparr>rp_result = Some (cur, pt_effect (cm_proposal c)), rp_err = None\<rparr> (a\<lparr>at_pending := None, at_current := cur\<rparr>)) M"
    using assms by (simp_all add: owes_error owes_result [where g = "ef_reload_generation (pt_effect (cm_proposal c))"])
  show "owes (actor_start env c a)
    (case at_pending (actor_start env c a) of None \<Rightarrow> M | Some p \<Rightarrow> add_mset (pe_cmd p) M)"
    using a assms by (auto simp: actor_start_def Let_def nextGeneration_def split: option.splits)
  show "at_received (actor_start env c a) = at_received a" "at_replacement (actor_start env c a) = at_replacement a"
    by (auto simp: actor_start_def Let_def nextGeneration_def split: option.splits)
qed

lemma account_head: "account a \<Longrightarrow> account (loop_head env a)"
proof (cases "at_pending a = None \<and> at_shutdown a \<noteq> None")
  case True
  assume a: "account a"
  show ?thesis
  proof (cases "at_replacement a")
    case None
    with True a show ?thesis by (auto simp: loop_head_def account_def open_cmds_def)
  next
    case (Some c)
    with True a have "owes a (add_mset c {#})" by (simp add: account_def open_cmds_def)
    then have "owes (replyApplyError env c (at_shutdown a) a) {#}" using True owes_error by blast
    with True Some a show ?thesis by (simp add: loop_head_def account_def open_cmds_def Let_def)
  qed
qed (auto simp: loop_head_def)

lemma account_apply:
  assumes "account a" and "cm_id c \<notin> cm_id ` set (at_received a)"
  shows "account (handle_apply env c a)"
proof -
  let ?a = "a\<lparr>at_received := at_received a @ [c]\<rparr>"
  have owed: "owes ?a (add_mset c (open_cmds a))"
    using assms(1) cleaned_receive by (auto simp: account_def owes_def)
  have dist: "distinct (map cm_id (at_received ?a))" using assms by (simp add: account_def)
  have err: "account (replyApplyError env c e ?a)" if "e \<noteq> None" for e
    using owes_error [OF owed that, of env] dist by (simp add: account_def open_cmds_def)
  have start: "account (actor_start env c ?a)" if "at_pending a = None"
  proof -
    have "owes ?a (add_mset c (case at_replacement a of None \<Rightarrow> {#} | Some r \<Rightarrow> {#r#}))"
      using owed that by (simp add: open_cmds_def)
    from owes_start [OF this, of env] dist show ?thesis
      by (auto simp: account_def open_cmds_def add_mset_commute split: option.splits)
  qed
  have swap: "account ((retire (Some ErrSuperseded) ?a)\<lparr>at_replacement := Some c\<rparr>)"
    if "at_pending a = Some p" "at_replacement a = None" for p
    using owed dist that by (simp add: account_def open_cmds_def add_mset_commute)
  show ?thesis using err start swap by (auto simp: handle_apply_def Let_def split: option.splits)
qed

lemma account_update [simp]:
  "account (a\<lparr>at_current := x0\<rparr>) = account a" "account (a\<lparr>at_close_reply := x1\<rparr>) = account a"
  "account (a\<lparr>at_shutdown := x2\<rparr>) = account a" "account (a\<lparr>at_watch_session := x3\<rparr>) = account a"
  "account (a\<lparr>at_next_id := x4\<rparr>) = account a" "account (a\<lparr>at_builds := x5\<rparr>) = account a"
  "account (a\<lparr>at_enrich_replies := x6\<rparr>) = account a" "account (a\<lparr>at_close_acks := x7\<rparr>) = account a"
  by (simp_all add: account_def open_cmds_def)

lemma account_retire [simp]: "account (retire e a) = account a"
  by (simp add: account_def open_cmds_def split: option.splits)

lemma account_enrich: "account a \<Longrightarrow> account (handle_enrich env c a)"
  by (auto simp: handle_enrich_def Let_def nextGeneration_def replyEnrichError_def split: option.splits)

lemma account_close: "account a \<Longrightarrow> account (handle_close a)"
  by (auto simp: handle_close_def Let_def split: option.splits)

lemma account_session_done: "account a \<Longrightarrow> account (handle_session_done env a)"
  by (auto simp: handle_session_done_def Let_def split: option.splits)

lemma finish_pending_owes:
  assumes "owes a (add_mset (pe_cmd p) M)" and "pe_retiring p \<longleftrightarrow> pe_reply_err p \<noteq> None"
  shows "owes (finish_pending env outcome p a) M"
    and "at_received (finish_pending env outcome p a) = at_received a"
proof -
  have "\<And>cur g. sn_state cur = pt_state (cm_proposal (pe_cmd p)) \<Longrightarrow>
      owes (send_reply (cm_id (pe_cmd p)) \<lparr>rp_result = Some (cur, (pt_effect (cm_proposal (pe_cmd p)))\<lparr>ef_reload_generation := g\<rparr>),
        rp_err = None\<rparr> (a\<lparr>at_current := cur\<rparr>)) M"
    using assms(1) by (simp add: owes_result)
  then show "owes (finish_pending env outcome p a) M"
    using owes_error [OF assms(1)] assms(2)
    by (auto simp: finish_pending_def Let_def split: sum.splits)
  show "at_received (finish_pending env outcome p a) = at_received a"
    by (simp add: finish_pending_def Let_def split: sum.splits)
qed

lemma finish_pending_keeps [simp]:
  "at_replacement (finish_pending env outcome p a) = at_replacement a"
  "at_shutdown (finish_pending env outcome p a) = at_shutdown a"
  by (simp_all add: finish_pending_def Let_def split: sum.splits)

lemma account_completion:
  assumes "account a" and "\<And>p. at_pending a = Some p \<Longrightarrow> pe_retiring p \<longleftrightarrow> pe_reply_err p \<noteq> None"
  shows "account (handle_completion env i outcome a)"
proof (cases "\<exists>p. at_pending a = Some p \<and> i = pe_id p")
  case False
  with assms(1) show ?thesis by (auto simp: handle_completion_def split: option.splits)
next
  case True
  then obtain p where p: "at_pending a = Some p" "i = pe_id p" by blast
  let ?M = "case at_replacement a of None \<Rightarrow> {#} | Some r \<Rightarrow> {#r#}"
  let ?f = "(finish_pending env outcome p a)\<lparr>at_pending := None\<rparr>"
  have "owes a (add_mset (pe_cmd p) ?M)" using assms(1) p by (simp add: account_def open_cmds_def)
  moreover have "pe_retiring p \<longleftrightarrow> pe_reply_err p \<noteq> None" using assms(2) p by blast
  ultimately have fin: "owes (finish_pending env outcome p a) ?M" "at_received (finish_pending env outcome p a) = at_received a"
    by (rule finish_pending_owes)+
  then have f: "owes ?f ?M" "distinct (map cm_id (at_received ?f))" using assms(1) by (simp_all add: account_def)
  show ?thesis
  proof (cases "at_replacement a")
    case None
    with f p show ?thesis by (simp add: handle_completion_def Let_def account_def open_cmds_def)
  next
    case (Some c)
    have "owes (?f\<lparr>at_replacement := None\<rparr>) (add_mset c {#})" using f Some by simp
    from owes_start [OF this, of env] f Some p show ?thesis
      by (auto simp: handle_completion_def Let_def account_def open_cmds_def split: option.splits)
  qed
qed

lemma distinct_mset_part:
  assumes "distinct xs" and "mset xs = mset ys + M"
  shows "distinct ys"
proof -
  have "count (mset ys) x \<le> 1" for x
    using assms(1) arg_cong [OF assms(2), of "\<lambda>m. count m x"]
    by (cases "x \<in> set xs") (simp_all add: distinct_count_atmost_1 count_eq_zero_iff [symmetric] del: count_mset_0_iff)
  then show ?thesis
    by (metis count_mset_0_iff distinct_count_atmost_1 le_antisym less_one linorder_not_less)
qed

text \<open>The invariant of the loop: control and accounting together.\<close>

definition actor_ok :: "actor \<Rightarrow> bool" where
  "actor_ok a \<longleftrightarrow> actor_inv a \<and> account a"

lemma account_step:
  assumes "actor_inv a" and "account a" and "actor_step a b"
  shows "account b"
  using assms(3)
proof cases
  case (step_complete i rq env outcome)
  have "account (handle_completion env i outcome (a\<lparr>at_builds := remove1 (i, rq) (at_builds a)\<rparr>))"
    using assms(1,2) step_complete(2)
    by (intro account_completion)
       (auto simp: actor_inv_def control_def control_vars_def pending_ok_def)
  with step_complete show ?thesis by (simp add: account_head)
qed (use assms(2) in \<open>auto simp: handle_caller_done_def intro!: account_head account_apply account_enrich account_close
      account_session_done\<close>)

lemma actor_ok_new: "actor_ok (new_actor g)"
  unfolding actor_ok_def using actor_inv_new [of g]
  by (simp add: account_def owes_def cleaned_def open_cmds_def new_actor_def)

lemma actor_ok_step: "actor_ok a \<Longrightarrow> actor_step a b \<Longrightarrow> actor_ok b"
  by (auto simp: actor_ok_def intro: actor_inv_step account_step)

section \<open>The current snapshot only moves forward\<close>

text \<open>\<open>advances a b\<close>: from \<open>a\<close> to \<open>b\<close> the generation grew, or it stayed with the same records.\<close>

definition advances :: "actor \<Rightarrow> actor \<Rightarrow> bool" where
  "advances a b \<longleftrightarrow> sn_generation (at_current a) < sn_generation (at_current b)
     \<or> sn_generation (at_current a) = sn_generation (at_current b) \<and> sn_records (at_current a) = sn_records (at_current b)"

lemma advances_refl: "at_current b = at_current a \<Longrightarrow> advances a b"
  by (simp add: advances_def)

lemma advances_trans: "advances a b \<Longrightarrow> advances b c \<Longrightarrow> advances a c"
  by (auto simp: advances_def)

lemma advances_start: "advances a (actor_start env c a)"
  by (auto simp: advances_def actor_start_def Let_def nextGeneration_def split: option.splits)

lemma advances_head: "at_current (loop_head env a) = at_current a"
  by (simp add: loop_head_def Let_def split: option.splits)

lemma advances_apply: "advances a (handle_apply env c a)"
proof -
  let ?a = "a\<lparr>at_received := at_received a @ [c]\<rparr>"
  have "advances a (actor_start env c ?a)" using advances_start [of ?a env c] by (simp add: advances_def)
  then show ?thesis by (auto simp: handle_apply_def Let_def advances_refl split: option.splits)
qed

lemma advances_enrich: "sn_generation (at_current a) \<le> at_next_id a \<Longrightarrow> advances a (handle_enrich env c a)"
  by (auto simp: handle_enrich_def Let_def advances_def dest!: nextGeneration_Some split: option.splits)

lemma advances_finish: "sn_generation (at_current a) < pe_id p \<Longrightarrow> advances a (finish_pending env outcome p a)"
  by (auto simp: finish_pending_def Let_def advances_def split: sum.splits)

lemma advances_completion:
  assumes "\<And>p. at_pending a = Some p \<Longrightarrow> sn_generation (at_current a) < pe_id p"
  shows "advances a (handle_completion env i outcome a)"
proof (cases "at_pending a")
  case (Some p)
  let ?f = "(finish_pending env outcome p a)\<lparr>at_pending := None\<rparr>"
  have f: "advances a ?f" using advances_finish [of a p env outcome] assms Some by (simp add: advances_def)
  have "advances ?f (actor_start env c (?f\<lparr>at_replacement := None\<rparr>))" for c
    using advances_start [of "?f\<lparr>at_replacement := None\<rparr>" env c] by (simp add: advances_def)
  with f have "advances a (actor_start env c (?f\<lparr>at_replacement := None\<rparr>))" for c by (blast intro: advances_trans)
  with f Some show ?thesis
    by (auto simp: handle_completion_def Let_def advances_refl split: option.splits)
qed (simp add: handle_completion_def advances_refl)

lemma advances_step:
  assumes "actor_inv a" and "actor_step a b"
  shows "advances a b"
  using assms(2)
proof cases
  case (step_complete i rq env outcome)
  let ?a = "a\<lparr>at_builds := remove1 (i, rq) (at_builds a)\<rparr>"
  have "advances ?a (handle_completion env i outcome ?a)"
    using assms(1) step_complete(2)
    by (intro advances_completion) (auto simp: actor_inv_def control_def control_vars_def pending_ok_def)
  with step_complete show ?thesis by (simp add: advances_def advances_head)
next
  case (step_apply c env)
  with advances_apply [of a env c] show ?thesis by (simp add: advances_def advances_head)
next
  case (step_enrich env c)
  with advances_enrich [of a env c] assms(1) show ?thesis
    by (simp add: advances_def advances_head actor_inv_def control_def control_vars_def)
qed (auto simp: advances_head actor_handlers Let_def intro!: advances_refl split: option.splits)

abbreviation actor_init :: "actor \<Rightarrow> bool" where
  "actor_init a \<equiv> \<exists>g. a = new_actor g"

interpretation loop: versioned_system actor_init actor_step actor_ok
  "\<lambda>a. unat (sn_generation (at_current a))" "\<lambda>a. sn_records (at_current a)"
proof unfold_locales
  show "actor_ok a" if "actor_init a" for a using that actor_ok_new by blast
  show "actor_ok b" if "actor_ok a" "actor_step a b" for a b using that by (rule actor_ok_step)
  show "unat (sn_generation (at_current a)) \<le> unat (sn_generation (at_current b))"
    if "actor_ok a" "actor_step a b" for a b
    using that advances_step [of a b] by (auto simp: actor_ok_def advances_def word_less_nat_alt)
  show "sn_records (at_current a) = sn_records (at_current b)"
    if "actor_ok a" "actor_step a b" "unat (sn_generation (at_current a)) = unat (sn_generation (at_current b))" for a b
    using that advances_step [of a b] by (auto simp: actor_ok_def advances_def word_less_nat_alt)
qed

section \<open>Properties of every run\<close>

lemma reach_ok: "reach actor_init actor_step a \<Longrightarrow> actor_inv a" "reach actor_init actor_step a \<Longrightarrow> account a"
  using loop.reach_inv [of a] by (auto simp: actor_ok_def)

lemma reach_pending:
  assumes "reach actor_init actor_step a" and "at_pending a = Some p"
  shows "at_final a = None" "pending_ok p (at_shutdown a) (at_builds a) (at_current a) (at_next_id a)"
  using reach_ok(1) [OF assms(1)] assms(2) by (auto simp: actor_inv_def control_def control_vars_def split: option.splits)

text \<open>
  C6: In every run of the actor at most one build runs.  It runs exactly while a transition is pending and it
  is that transition's own request, carrying the generation the transition will publish; a replacement waits
  only behind a transition that is being retired.
\<close>

theorem actor_single_build:
  assumes "reach actor_init actor_step a"
  shows "at_builds a = (case at_pending a of None \<Rightarrow> []
           | Some p \<Rightarrow> [(pe_id p, (the (pt_build (cm_proposal (pe_cmd p))))\<lparr>br_generation := pe_id p\<rparr>)])
     \<and> (at_replacement a \<noteq> None \<longrightarrow> (\<exists>p. at_pending a = Some p \<and> pe_retiring p))"
  using reach_ok(1) [OF assms]
  by (auto simp: actor_inv_def control_def control_vars_def pending_ok_def split: option.splits)

text \<open>
  C7: The generation names the records: along any run of the actor the current generation never decreases,
  and as long as it is unchanged so are the published records.
\<close>

theorem actor_generation_names_records:
  assumes "reach actor_init actor_step a" and "actor_step\<^sup>*\<^sup>* a b"
  shows "sn_generation (at_current a) \<le> sn_generation (at_current b) \<and>
    (sn_generation (at_current a) = sn_generation (at_current b) \<longrightarrow> sn_records (at_current a) = sn_records (at_current b))"
proof (intro conjI impI)
  have ok: "actor_ok a" using assms(1) by (rule loop.reach_inv)
  show "sn_generation (at_current a) \<le> sn_generation (at_current b)"
    using loop.steps_rank [OF ok assms(2)] by (simp add: word_le_nat_alt)
  show "sn_records (at_current a) = sn_records (at_current b)" if "sn_generation (at_current a) = sn_generation (at_current b)"
    using loop.steps_payload [OF ok assms(2)] that by simp
qed

text \<open>
  C1: Every transition command the actor received is answered at most once.  The commands without an answer
  are the pending one and its replacement, so when the loop has ended every command has been answered.  An
  answer is a result, with the state and the effect its own proposal asked for (the actor sets the generation
  to reload), or an error, and then the cleanup was called on the directories this very proposal created; the
  cleanup is called for no other command and on no other directories.  Commands are identified by their ids,
  which are distinct.
\<close>

theorem actor_answers_once:
  assumes "reach actor_init actor_step a"
  shows "distinct (map cm_id (at_received a)) \<and> distinct (map fst (at_replies a))
    \<and> cm_id ` set (at_received a) = fst ` set (at_replies a) \<union> cm_id ` set_mset (open_cmds a)
    \<and> (at_final a \<noteq> None \<longrightarrow> cm_id ` set (at_received a) = fst ` set (at_replies a))
    \<and> (\<forall>c \<in> set (at_received a). \<forall>r. (cm_id c, r) \<in> set (at_replies a) \<longrightarrow>
         (case rp_result r of
            None \<Rightarrow> rp_err r \<noteq> None \<and> (cm_id c, pt_created (cm_proposal c)) \<in> set (at_cleanups a)
          | Some (sn, eff) \<Rightarrow> rp_err r = None \<and> sn_state sn = pt_state (cm_proposal c)
              \<and> (\<exists>g. eff = (pt_effect (cm_proposal c))\<lparr>ef_reload_generation := g\<rparr>)))
    \<and> map fst (at_cleanups a) = map fst (filter (\<lambda>(i, r). rp_err r \<noteq> None) (at_replies a))
    \<and> (\<forall>(i, t) \<in> set (at_cleanups a). \<exists>c \<in> set (at_received a). cm_id c = i \<and> t = pt_created (cm_proposal c))"
proof (intro conjI impI)
  have acc: "mset (map cm_id (at_received a)) = mset (map fst (at_replies a)) + image_mset cm_id (open_cmds a)"
    and dist: "distinct (map cm_id (at_received a))" and clean: "cleaned a"
    using reach_ok(2) [OF assms] by (auto simp: account_def owes_def)
  show "distinct (map cm_id (at_received a))" by (rule dist)
  have "set_mset (mset (map cm_id (at_received a)))
    = set_mset (mset (map fst (at_replies a)) + image_mset cm_id (open_cmds a))" by (simp only: acc)
  then show ids: "cm_id ` set (at_received a) = fst ` set (at_replies a) \<union> cm_id ` set_mset (open_cmds a)"
    by simp
  show "distinct (map fst (at_replies a))" using dist acc by (rule distinct_mset_part)
  show "cm_id ` set (at_received a) = fst ` set (at_replies a)" if "at_final a \<noteq> None"
    using ids reach_ok(1) [OF assms] that by (auto simp: actor_inv_def open_cmds_def split: option.splits)
  show "\<forall>c \<in> set (at_received a). \<forall>r. (cm_id c, r) \<in> set (at_replies a) \<longrightarrow>
         (case rp_result r of
            None \<Rightarrow> rp_err r \<noteq> None \<and> (cm_id c, pt_created (cm_proposal c)) \<in> set (at_cleanups a)
          | Some (sn, eff) \<Rightarrow> rp_err r = None \<and> sn_state sn = pt_state (cm_proposal c)
              \<and> (\<exists>g. eff = (pt_effect (cm_proposal c))\<lparr>ef_reload_generation := g\<rparr>))"
  proof (intro ballI allI impI)
    fix c r
    assume c: "c \<in> set (at_received a)" and r: "(cm_id c, r) \<in> set (at_replies a)"
    from clean r obtain d where d: "d \<in> set (at_received a)" "cm_id d = cm_id c" "settled (at_cleanups a) d r"
      by (auto simp: cleaned_def)
    have "d = c" using dist c d(1,2) by (simp add: distinct_map inj_on_def)
    with d(3) show "case rp_result r of
            None \<Rightarrow> rp_err r \<noteq> None \<and> (cm_id c, pt_created (cm_proposal c)) \<in> set (at_cleanups a)
          | Some (sn, eff) \<Rightarrow> rp_err r = None \<and> sn_state sn = pt_state (cm_proposal c)
              \<and> (\<exists>g. eff = (pt_effect (cm_proposal c))\<lparr>ef_reload_generation := g\<rparr>)"
      by (simp add: settled_def)
  qed
  show "map fst (at_cleanups a) = map fst (filter (\<lambda>(i, r). rp_err r \<noteq> None) (at_replies a))"
    "\<forall>(i, t) \<in> set (at_cleanups a). \<exists>c \<in> set (at_received a). cm_id c = i \<and> t = pt_created (cm_proposal c)"
    using clean by (simp_all add: cleaned_def)
qed

lemma shutdown_kept:
  assumes "actor_step a b" and "at_shutdown a \<noteq> None"
  shows "at_shutdown b \<noteq> None"
proof -
  have head: "at_shutdown (loop_head env x) = at_shutdown x" for env x
    by (simp add: loop_head_def Let_def split: option.splits)
  show ?thesis using assms(1)
  proof cases
    case (step_complete i rq env outcome)
    then show ?thesis using assms(2) by (auto simp: head handle_completion_def Let_def split: option.splits)
  qed (use assms(2) in \<open>auto simp: head handle_apply_def handle_enrich_def handle_close_def handle_caller_done_def
      handle_session_done_def Let_def split: option.splits\<close>)
qed

text \<open>
  C33: Shutdown completes: once a shutdown has begun and the loop has not ended, some transition is still
  pending and its build is running, no step undoes the shutdown, and whatever that build returns its
  completion ends the loop with the shutdown error, leaving nothing pending.
\<close>

theorem actor_shutdown_completes:
  assumes "reach actor_init actor_step a" and "at_shutdown a = Some e" and "at_final a = None"
  shows "\<exists>p rq. at_pending a = Some p \<and> at_builds a = [(pe_id p, rq)] \<and>
    (\<forall>b. actor_step a b \<longrightarrow> at_shutdown b \<noteq> None) \<and>
    (\<forall>env outcome b. b = loop_head env (handle_completion env (pe_id p) outcome (a\<lparr>at_builds := []\<rparr>)) \<longrightarrow>
       actor_step a b \<and> at_final b = Some e \<and> at_pending b = None \<and> at_replacement b = None)"
proof -
  have inv: "actor_inv a" using assms(1) by (rule reach_ok)
  then obtain p where p: "at_pending a = Some p" using assms by (auto simp: actor_inv_def)
  with reach_pending(2) [OF assms(1)] obtain rq where rq: "at_builds a = [(pe_id p, rq)]"
    by (auto simp: pending_ok_def)
  have keep: "at_shutdown b \<noteq> None" if "actor_step a b" for b
    using that assms(2) shutdown_kept by blast
  have fin: "actor_step a b \<and> at_final b = Some e \<and> at_pending b = None \<and> at_replacement b = None"
    if b: "b = loop_head env (handle_completion env (pe_id p) outcome (a\<lparr>at_builds := []\<rparr>))" for env outcome b
  proof
    show "actor_step a b" using step_complete [OF assms(3), of "pe_id p" rq env outcome] rq b by simp
    show "at_final b = Some e \<and> at_pending b = None \<and> at_replacement b = None"
      using p assms(2) by (simp add: b loop_head_def handle_completion_def Let_def split: option.splits)
  qed
  show ?thesis
    by (rule exI [of _ p], rule exI [of _ rq], intro conjI p rq allI impI)
       (erule keep, (drule fin, (elim conjE, assumption))+)
qed

text \<open>
  A transition that is pending, not retired, and whose caller and session are alive is published by the
  completion of its build: the snapshot becomes its generation, its proposed state and the built records with
  their index, and the caller gets that snapshot and the proposal's effect with the reload of that generation.
  The stale-generation refusal is never taken there, because the base cannot have moved while it was pending.
\<close>

theorem actor_completion_publishes:
  assumes "reach actor_init actor_step a" and "at_pending a = Some p" and "\<not> pe_retiring p"
    and "ae_caller env (cm_id (pe_cmd p)) = None" and "ae_session env = None"
  shows "handle_completion env (pe_id p) (Inr built) a =
     (let prop = cm_proposal (pe_cmd p);
          cur = \<lparr>sn_generation = pe_id p, sn_state = pt_state prop, sn_records = Some (ownRecordSet (bl_records built))\<rparr> in
      a\<lparr>at_current := cur, at_pending := None,
        at_replies := at_replies a @ [(cm_id (pe_cmd p), \<lparr>rp_result = Some (cur, (pt_effect prop)\<lparr>ef_reload_generation := pe_id p\<rparr>),
                                                        rp_err = None\<rparr>)]\<rparr>)
     \<and> sn_generation (at_current a) < pe_id p"
proof
  have ok: "pending_ok p (at_shutdown a) (at_builds a) (at_current a) (at_next_id a)" using reach_pending(2) assms(1,2) .
  then show "sn_generation (at_current a) < pe_id p" by (simp add: pending_ok_def)
  have "at_replacement a = None" using reach_ok(1) [OF assms(1)] reach_pending(1) [OF assms(1,2)] assms(2,3)
    by (auto simp: actor_inv_def control_def control_vars_def)
  with ok assms(2-5) show "handle_completion env (pe_id p) (Inr built) a =
     (let prop = cm_proposal (pe_cmd p);
          cur = \<lparr>sn_generation = pe_id p, sn_state = pt_state prop, sn_records = Some (ownRecordSet (bl_records built))\<rparr> in
      a\<lparr>at_current := cur, at_pending := None,
        at_replies := at_replies a @ [(cm_id (pe_cmd p), \<lparr>rp_result = Some (cur, (pt_effect prop)\<lparr>ef_reload_generation := pe_id p\<rparr>),
                                                        rp_err = None\<rparr>)]\<rparr>)"
    by (simp add: handle_completion_def finish_pending_def pending_ok_def Let_def send_reply_def)
qed

text \<open>
  An enrichment that the actor accepts replaces the records under a strictly larger generation and keeps
  the session state; every transition proposed against the generation it replaced is refused as stale, with
  the cleanup of what it created.
\<close>

theorem actor_enrich_supersedes:
  assumes "reach actor_init actor_step a" and "at_final a = None" and "at_shutdown a = None" and "at_pending a = None"
    and "ae_caller env (en_id c) = None" and "ae_session env = None"
    and "en_base c = sn_generation (at_current a)" and "at_next_id a \<noteq> - 1"
  shows "sn_state (at_current (handle_enrich env c a)) = sn_state (at_current a)
    \<and> recordValues (at_current (handle_enrich env c a)) = en_records c
    \<and> sn_generation (at_current a) < sn_generation (at_current (handle_enrich env c a))
    \<and> (pt_base (cm_proposal d) = sn_generation (at_current a) \<and> ae_caller env (cm_id d) = None \<longrightarrow>
       handle_apply env d (handle_enrich env c a) = replyApplyError env d (Some ErrStaleGeneration)
         ((handle_enrich env c a)\<lparr>at_received := at_received a @ [d]\<rparr>))"
proof (intro conjI impI)
  have le: "sn_generation (at_current a) < at_next_id a + 1"
    using reach_ok(1) [OF assms(1)] assms(2,8) word_less_Suc [of "at_next_id a"]
    by (auto simp: actor_inv_def control_def control_vars_def)
  have cur: "at_current (handle_enrich env c a) = \<lparr>sn_generation = at_next_id a + 1, sn_state = sn_state (at_current a),
      sn_records = Some (ownRecordSet (en_records c))\<rparr>" "at_received (handle_enrich env c a) = at_received a"
     "at_shutdown (handle_enrich env c a) = None"
    using assms by (simp_all add: handle_enrich_def nextGeneration_def Let_def)
  then show "sn_state (at_current (handle_enrich env c a)) = sn_state (at_current a)"
    "recordValues (at_current (handle_enrich env c a)) = en_records c"
    by (simp_all add: recordValues_def ownRecordSet_def)
  show "sn_generation (at_current a) < sn_generation (at_current (handle_enrich env c a))" using le cur by simp
  show "handle_apply env d (handle_enrich env c a) = replyApplyError env d (Some ErrStaleGeneration)
         ((handle_enrich env c a)\<lparr>at_received := at_received a @ [d]\<rparr>)"
    if "pt_base (cm_proposal d) = sn_generation (at_current a) \<and> ae_caller env (cm_id d) = None"
    using le cur that by (simp add: handle_apply_def Let_def)
qed

text \<open>
  \<open>ResolveCurrent\<close> returns exactly the first published record whose full key is the given bytes, and fails
  as an unknown record for any other bytes, in every state the actor reaches before shutdown.
\<close>

theorem ResolveCurrent_exact:
  assumes "reach actor_init actor_step a" and "at_shutdown a = None"
  shows "ResolveCurrent False None None raw a =
     (case find (\<lambda>r. FullKey r = raw) (recordValues (at_current a)) of
        None \<Rightarrow> Inl ErrUnknownRecord
      | Some r \<Rightarrow> Inr r)"
proof -
  have "indexed (at_current a)" using reach_ok(1) [OF assms(1)]
    by (auto simp: actor_inv_def control_def control_vars_def split: option.splits)
  with assms(2) show ?thesis by (simp add: ResolveCurrent_def reply_resolve_def query_guard_def lookupRecord_first)
qed

section \<open>A concrete run\<close>

definition quiet_env :: actor_env where
  "quiet_env = \<lparr>ae_caller = \<lambda>_. None, ae_session = None, ae_cleanup = \<lambda>_. None\<rparr>"

definition demo_build :: build_request where
  "demo_build = \<lparr>br_generation = 0, br_picker = PickerCD, br_location = Filesystem ''/'', br_stat_workers = 1, br_initial = True\<rparr>"

definition demo_tree :: created_tree where
  "demo_tree = no_tree\<lparr>ct_created := [''/new'']\<rparr>"

definition demo_cmd :: apply_cmd where
  "demo_cmd = \<lparr>cm_id = 1, cm_proposal = \<lparr>pt_base = 0, pt_state = zero_state, pt_build = Some demo_build,
     pt_effect = no_effect, pt_created = Some demo_tree\<rparr>\<rparr>"

definition demo_pending :: pending where
  "demo_pending = \<lparr>pe_id = 1, pe_cmd = demo_cmd, pe_retiring = False, pe_reply_err = None\<rparr>"

definition demo_busy :: actor where
  "demo_busy = (new_actor True)\<lparr>at_pending := Some demo_pending, at_next_id := 1,
     at_builds := [(1, demo_build\<lparr>br_generation := 1\<rparr>)], at_received := [demo_cmd]\<rparr>"

definition demo_closing :: actor where
  "demo_closing = loop_head quiet_env (handle_close demo_busy)"

definition demo_closed :: actor where
  "demo_closed = loop_head quiet_env (handle_completion quiet_env 1 (Inr no_build) (demo_closing\<lparr>at_builds := []\<rparr>))"

lemmas demo_defs = quiet_env_def demo_cmd_def demo_pending_def new_actor_def

lemma demo_busy_step: "actor_step (new_actor True) demo_busy"
proof -
  have "demo_busy = loop_head quiet_env (handle_apply quiet_env demo_cmd (new_actor True))"
    by (simp add: demo_busy_def demo_defs loop_head_def handle_apply_def actor_start_def nextGeneration_def Let_def)
  then show ?thesis using step_apply [of "new_actor True" demo_cmd quiet_env] by (simp add: new_actor_def)
qed

lemma demo_busy_reach: "reach actor_init actor_step demo_busy"
  using demo_busy_step by (blast intro: reach_start reach_next)

lemma demo_closing_sel [simp]: "at_shutdown demo_closing = Some ErrClosed" "at_final demo_closing = None"
  "at_pending demo_closing = Some (demo_pending\<lparr>pe_retiring := True, pe_reply_err := Some ErrClosed\<rparr>)"
  "at_builds demo_closing = [(1, demo_build\<lparr>br_generation := 1\<rparr>)]" "at_received demo_closing = [demo_cmd]"
  "at_replacement demo_closing = None" "at_replies demo_closing = []" "at_cleanups demo_closing = []"
  by (simp_all add: demo_closing_def demo_busy_def loop_head_def handle_close_def Let_def demo_defs retire_def)

lemma demo_closing_reach: "reach actor_init actor_step demo_closing"
  unfolding demo_closing_def
  by (rule reach_next [OF demo_busy_reach]) (rule step_close, simp add: demo_busy_def new_actor_def)

lemma demo_closed_reach: "reach actor_init actor_step demo_closed"
  using reach_next [OF demo_closing_reach step_complete [of demo_closing 1 "demo_build\<lparr>br_generation := 1\<rparr>" quiet_env "Inr no_build"]]
  by (simp add: demo_closed_def)

theorem actor_single_build_witness:
  "length (at_builds demo_busy) = 1 \<and> at_pending demo_busy = Some demo_pending"
  using actor_single_build [OF demo_busy_reach] by (simp add: demo_busy_def)

theorem actor_generation_names_records_witness:
  "sn_records (at_current demo_busy) = Some (ownRecordSet []) \<and> at_pending demo_busy \<noteq> None"
proof -
  have "reach actor_init actor_step (new_actor True)" by (rule reach_start) blast
  from actor_generation_names_records [OF this, of demo_busy] demo_busy_step
  show ?thesis by (simp add: demo_busy_def new_actor_def)
qed

theorem actor_answers_once_witness:
  "at_final demo_closed = Some ErrClosed \<and> fst ` set (at_replies demo_closed) = {1} \<and> at_cleanups demo_closed = [(1, Some demo_tree)]"
proof -
  have "at_final demo_closed = Some ErrClosed" "at_received demo_closed = [demo_cmd]"
    and log: "length (at_cleanups demo_closed) = 1"
    by (simp_all add: demo_closed_def loop_head_def handle_completion_def finish_pending_def Let_def demo_pending_def)
  moreover have "cm_id ` set (at_received demo_closed) = fst ` set (at_replies demo_closed)"
    and own: "\<forall>(i, t) \<in> set (at_cleanups demo_closed). \<exists>c \<in> set (at_received demo_closed). cm_id c = i \<and> t = pt_created (cm_proposal c)"
    using actor_answers_once [OF demo_closed_reach] \<open>at_final demo_closed = Some ErrClosed\<close> by blast+
  ultimately show ?thesis by (auto simp: demo_cmd_def length_Suc_conv)
qed

theorem actor_shutdown_completes_witness:
  "at_final demo_closed = Some ErrClosed \<and> at_pending demo_closed = None"
  using actor_shutdown_completes [OF demo_closing_reach demo_closing_sel(1,2)]
  by (auto simp: demo_closed_def demo_pending_def)

theorem actor_completion_publishes_witness:
  "sn_generation (at_current (handle_completion quiet_env 1 (Inr no_build) demo_busy)) = 1"
proof -
  have "at_pending demo_busy = Some demo_pending" by (simp add: demo_busy_def)
  from actor_completion_publishes [OF demo_busy_reach this, of quiet_env no_build] show ?thesis
    by (simp add: demo_pending_def quiet_env_def Let_def)
qed

definition demo_enrich :: enrich_cmd where
  "demo_enrich = \<lparr>en_id = 5, en_base = 0, en_records = [demo_record]\<rparr>"

theorem actor_enrich_supersedes_witness:
  "recordValues (at_current (handle_enrich quiet_env demo_enrich (new_actor True))) = [demo_record]"
proof -
  have "reach actor_init actor_step (new_actor True)" by (rule reach_start) blast
  from actor_enrich_supersedes [OF this, of quiet_env demo_enrich] show ?thesis
    by (simp add: demo_enrich_def quiet_env_def new_actor_def)
qed

theorem ResolveCurrent_exact_witness:
  "ResolveCurrent False None None ''x'' demo_busy = Inl ErrUnknownRecord"
  using ResolveCurrent_exact [OF demo_busy_reach, of "''x''"]
  by (simp add: demo_busy_def new_actor_def recordValues_def ownRecordSet_def)

end
