(* ===== verification/Fzf_Action.thy ===== *)
theory Fzf_Action
  imports Protocol
begin

text \<open>
  \<open>internal/fzf\<close>, the text the program sends to fzf: the action language (action.go) with the
  rendering of an \<open>Effect\<close>, and the command line (options.go).

  An \<open>action\<close> is its text.  The operating system is the argument of \<open>optionsForPlatform\<close>, as in
  the code.
\<close>

section \<open>action.go\<close>

type_synonym action = string

definition action_sequence :: "action list \<Rightarrow> string" where
  "action_sequence actions = join_with ''+'' (filter (\<lambda>item. item \<noteq> []) actions)"

definition enableSearch :: action where "enableSearch = ''enable-search''"
definition disableSearch :: action where "disableSearch = ''disable-search''"
definition clearQuery :: action where "clearQuery = ''clear-query''"
definition clearMulti :: action where "clearMulti = ''clear-multi''"
definition acceptEnter :: action where "acceptEnter = ''print(enter)+accept''"
definition cancel_action :: action where "cancel_action = ''cancel''"
definition ignore_action :: action where "ignore_action = ''ignore''"
definition wait_action :: action where "wait_action = ''wait''"
definition first_action :: action where "first_action = ''first''"
definition last_action :: action where "last_action = ''last''"
definition jump_action :: action where "jump_action = ''jump''"
definition down_action :: action where "down_action = ''down''"
definition up_action :: action where "up_action = ''up''"
definition abort_action :: action where "abort_action = action_sequence [cancel_action, ''abort'']"
definition toggle_action :: action where "toggle_action = ''toggle''"
definition halfPageUp :: action where "halfPageUp = ''half-page-up''"
definition halfPageDown :: action where "halfPageDown = ''half-page-down''"
definition previewHalfPageUp :: action where "previewHalfPageUp = ''preview-half-page-up''"
definition previewHalfPageDown :: action where "previewHalfPageDown = ''preview-half-page-down''"
definition reloadEmpty :: action where "reloadEmpty = ''reload-sync(l:empty)''"
definition changePreviewDefault :: action where "changePreviewDefault = ''change-preview(p)''"
definition changePreviewInvalid :: action where "changePreviewInvalid = ''change-preview(p:invalid)''"

definition navigationKeys :: "string list" where
  "navigationKeys = [''ctrl-l'', ''tab'', ''right'', ''ctrl-h'', ''left'', ''/'', ''~'']"

definition listPagingKeys :: "string list" where
  "listPagingKeys = [''ctrl-u'', ''ctrl-d'']"

definition normalCommandKeys :: "string list" where
  "normalCommandKeys = [''h'', ''j'', ''k'', ''l'', ''i'', ''a'', ''q'', ''space'', ''g'', ''G'', ''jump'']"

definition normalPagingKeys :: "string list" where
  "normalPagingKeys = ['','', ''.'']"

definition active_keys :: string where
  "active_keys = ''hjkliaqgG/~,.''"

definition buildNormalPrintableKeys :: "string list" where
  "buildNormalPrintableKeys = map (\<lambda>c. [c]) (filter (\<lambda>c. c \<notin> set active_keys) (map char_of [33..<127::nat]))"

definition normalPrintableKeys :: "string list" where
  "normalPrintableKeys = buildNormalPrintableKeys"

definition appendKeys :: "string list list \<Rightarrow> string list" where
  "appendKeys groups = concat groups"

definition normalKeys :: "string list" where
  "normalKeys = appendKeys [normalCommandKeys, normalPagingKeys, normalPrintableKeys]"

text \<open>Backslash and parentheses cannot stand in a parenthesised argument; they go into brackets.\<close>

definition usesAlternateActionDelimiter :: "string \<Rightarrow> bool" where
  "usesAlternateActionDelimiter key \<longleftrightarrow> key = [BACKSLASH] \<or> key = ''('' \<or> key = '')''"

fun writeActionKey :: "bytes \<Rightarrow> string \<Rightarrow> bytes" where
  "writeActionKey encoded [] = encoded"
| "writeActionKey encoded (c # key) =
     writeActionKey (encoded @ (if c = BACKSLASH \<or> c = CHR '','' then [BACKSLASH] else []) @ [c]) key"

definition encodeActionKey :: "string \<Rightarrow> string" where
  "encodeActionKey key = writeActionKey [] key"

definition keyAction_size :: "string \<Rightarrow> string list \<Rightarrow> nat" where
  "keyAction_size name keys =
     (let ordinary = filter (\<lambda>k. \<not> usesAlternateActionDelimiter k) keys;
          alternateCount = length (filter usesAlternateActionDelimiter keys);
          ordinaryCount = length ordinary;
          ordinarySize = sum_list (map (\<lambda>k. length k + count_byte BACKSLASH k + count_byte (CHR '','') k) ordinary);
          size = length name + 2 + ordinarySize + (ordinaryCount - 1)
      in if alternateCount \<noteq> 0
         then size + (length name + 2 + alternateCount + (alternateCount - 1)) + (if ordinaryCount \<noteq> 0 then 1 else 0)
         else size)"

text \<open>The loop that writes the keys with a comma before every one but the first.\<close>

fun write_keys :: "(string \<Rightarrow> string) \<Rightarrow> nat \<Rightarrow> string list \<Rightarrow> string" where
  "write_keys enc written [] = []"
| "write_keys enc written (k # ks) = (if written \<noteq> 0 then '','' else []) @ enc k @ write_keys enc (Suc written) ks"

definition keyAction :: "string \<Rightarrow> string list \<Rightarrow> action" where
  "keyAction name keys =
     (let ordinary = filter (\<lambda>k. \<not> usesAlternateActionDelimiter k) keys;
          alternate = filter usesAlternateActionDelimiter keys
      in (if ordinary \<noteq> [] \<or> alternate = [] then name @ ''('' @ write_keys encodeActionKey 0 ordinary @ '')'' else [])
         @ (if alternate \<noteq> []
            then (if ordinary \<noteq> [] then ''+'' else []) @ name @ ''['' @ write_keys (\<lambda>k. k) 0 alternate @ '']''
            else []))"

definition rebind :: "mode \<Rightarrow> action" where
  "rebind m = (case m of
       ModeInsert \<Rightarrow> keyAction ''rebind'' (appendKeys [navigationKeys, listPagingKeys])
     | ModeNormal \<Rightarrow> keyAction ''rebind'' (appendKeys [navigationKeys, listPagingKeys, normalKeys])
     | ModeAdd \<Rightarrow> []
     | ModeOther _ \<Rightarrow> [])"

definition unbind :: "mode \<Rightarrow> action" where
  "unbind m = (case m of
       ModeInsert \<Rightarrow> keyAction ''unbind'' normalKeys
     | ModeNormal \<Rightarrow> []
     | ModeAdd \<Rightarrow> keyAction ''unbind'' (appendKeys [navigationKeys, listPagingKeys, normalKeys])
     | ModeOther _ \<Rightarrow> [])"

definition startUnbind :: action where
  "startUnbind = keyAction ''unbind'' (appendKeys [normalKeys, [''change'']])"

definition reload :: "u64 \<Rightarrow> action" where
  "reload g = ''reload-sync(l:'' @ itoa_u64 g @ '')''"

definition reloadForEvent :: "u64 \<Rightarrow> u64 \<Rightarrow> action" where
  "reloadForEvent g eventID =
     (if eventID = 0 then reload g else ''reload-sync(l:'' @ itoa_u64 g @ '':'' @ itoa_u64 eventID @ '')'')"

definition changeModePrompt :: "string \<Rightarrow> action result" where
  "changeModePrompt prompt =
     (if prompt \<in> {''[I] '', ''[N] '', ''[A] '', ''[A!] ''} then Inr (''change-prompt('' @ prompt @ '')'')
      else Inl (ErrText ''fzf: invalid mode prompt''))"

definition validateActionArgument :: "string \<Rightarrow> go_error option" where
  "validateActionArgument argument =
     (if CR \<in> set argument \<or> LF \<in> set argument \<or> NUL \<in> set argument
      then Some (ErrText ''fzf: action argument contains a control delimiter'') else None)"

definition changeHeader :: "string \<Rightarrow> action result" where
  "changeHeader header =
     (if header = [] then Inl (ErrText ''fzf: empty header'')
      else case validateActionArgument header of
             Some e \<Rightarrow> Inl e
           | None \<Rightarrow> Inr (''change-header:'' @ header))"

definition put_action :: "string \<Rightarrow> action result" where
  "put_action text =
     (if text \<noteq> ''/'' \<and> text \<noteq> ''~'' then Inl (ErrText ''fzf: put accepts only slash or tilde'')
      else Inr (''put('' @ text @ '')''))"

definition transformEvent :: "opcode \<Rightarrow> action" where
  "transformEvent x = ''transform(e:'' @ opcode_text x @ '')''"

definition trigger :: "string \<Rightarrow> action" where
  "trigger key = ''trigger('' @ key @ '')''"

definition binding :: "string \<Rightarrow> action list \<Rightarrow> string" where
  "binding keys actions = ''--bind='' @ keys @ '':'' @ action_sequence actions"

text \<open>
  The switch on the search state, then the actions that cannot fail before the \<open>put\<close>, between it and the
  prompt, and the optional prompt and header.
\<close>

definition search_actions :: "string \<Rightarrow> action list result" where
  "search_actions search =
     (if search = [] then Inr []
      else if search = ''on'' then Inr [enableSearch]
      else if search = ''off'' then Inr [disableSearch]
      else Inl (ErrText ''fzf: invalid search state''))"

definition rebind_actions :: "mode \<Rightarrow> action list result" where
  "rebind_actions m =
     (case m of
        ModeOther s \<Rightarrow> if s = [] then Inr [] else Inl (ErrText ''fzf: invalid rebind mode'')
      | _ \<Rightarrow> Inr [rebind m, unbind m])"

definition optional_action :: "(string \<Rightarrow> action result) \<Rightarrow> string \<Rightarrow> action list result" where
  "optional_action f text = (if text = [] then Inr [] else map_sum id (\<lambda>a. [a]) (f text))"

definition list_actions :: "effect \<Rightarrow> u64 \<Rightarrow> action list" where
  "list_actions e eventID =
     (if ef_clear_multi e then [clearMulti] else [])
     @ (if ef_reload_generation e \<noteq> 0 then [reloadForEvent (ef_reload_generation e) eventID] else [])
     @ (if ef_restore_generation e \<noteq> 0 then [reloadForEvent (ef_restore_generation e) eventID] else [])
     @ (if ef_clear_query e then [clearQuery] else [])"

definition closing_actions :: "effect \<Rightarrow> action list" where
  "closing_actions e =
     (if ef_invalid_path e then [reloadEmpty, wait_action, changePreviewInvalid, keyAction ''rebind'' [''change'']] else [])
     @ (if ef_abort e then [abort_action] else [])
     @ (if ef_accept e then [acceptEnter] else [])
     @ (if ef_ignore e then [ignore_action] else [])
     @ (if ef_reload_generation e \<noteq> 0 \<or> ef_restore_generation e \<noteq> 0 then [wait_action] else [])
     @ (if ef_reload_generation e \<noteq> 0 then [first_action] else [])
     @ (if ef_reload_generation e \<noteq> 0 \<or> ef_restore_generation e \<noteq> 0
        then [changePreviewDefault, keyAction ''unbind'' [''change'']] else [])"

definition renderEffect :: "effect \<Rightarrow> u64 \<Rightarrow> string result" where
  "renderEffect e eventID =
     (if ef_invalid_path e \<and> ef_put e \<noteq> ''/'' then Inl (ErrText ''fzf: invalid path effect requires put slash'')
      else if ef_reload_generation e \<noteq> 0 \<and> ef_restore_generation e \<noteq> 0
      then Inl (ErrText ''fzf: reload and restore generations are mutually exclusive'')
      else case search_actions (ef_search e) of
             Inl err \<Rightarrow> Inl err
           | Inr search \<Rightarrow>
               (case rebind_actions (ef_rebind e) of
                  Inl err \<Rightarrow> Inl err
                | Inr bind \<Rightarrow>
                    (case optional_action put_action (ef_put e) of
                       Inl err \<Rightarrow> Inl err
                     | Inr put \<Rightarrow>
                         (case optional_action changeModePrompt (ef_prompt e) of
                            Inl err \<Rightarrow> Inl err
                          | Inr prompt \<Rightarrow>
                              (case optional_action changeHeader (ef_header e) of
                                 Inl err \<Rightarrow> Inl err
                               | Inr header \<Rightarrow>
                                   Inr (action_sequence (search @ bind @ list_actions e eventID @ put
                                          @ closing_actions e @ prompt @ header)))))))"

definition RenderEffect :: "effect \<Rightarrow> string result" where
  "RenderEffect e = renderEffect e 0"

definition RenderEffectForEvent :: "effect \<Rightarrow> u64 \<Rightarrow> string result" where
  "RenderEffectForEvent e eventID = renderEffect e eventID"

section \<open>options.go\<close>

record options_config =
  oc_picker :: picker
  oc_prompt :: string
  oc_header :: string
  oc_listen :: string

definition errInvalidListenAddress :: go_error where
  "errInvalidListenAddress = ErrText ''fzf: invalid listen address''"

definition listen_prefix :: string where "listen_prefix = ''127.0.0.1:''"

definition validateListenAddress :: "string \<Rightarrow> go_error option" where
  "validateListenAddress address =
     (if \<not> has_prefix address listen_prefix then Some errInvalidListenAddress
      else let portText = drop (length listen_prefix) address in
        if portText = [] \<or> (length portText > 1 \<and> hd portText = CHR ''0'') then Some errInvalidListenAddress
        else if \<not> list_all is_digit portText then Some errInvalidListenAddress
        else case atoi portText of
               None \<Rightarrow> Some errInvalidListenAddress
             | Some port \<Rightarrow>
                 if port \<le> 0 \<or> port > 65535 \<or> itoa (nat port) \<noteq> portText then Some errInvalidListenAddress else None)"

definition transformDisplay :: action where "transformDisplay = ''transform(d)''"

definition pickerInfoCommand :: "picker \<Rightarrow> string" where
  "pickerInfoCommand p = (if p = PickerCD then ''--info-command=i:cd'' else ''--info-command=i:cp'')"

definition fixed_options :: "options_config \<Rightarrow> string list" where
  "fixed_options config =
     [''--ansi'', ''--style=full'', ''--layout=reverse'', ''--delimiter='' @ [TAB], ''--with-nth=2'', ''--keep-right'',
      ''--jump-labels=g'', ''--read0'', ''--print0'', ''--prompt='' @ oc_prompt config, ''--header='' @ oc_header config,
      ''--header-first'']"

definition info_options :: "options_config \<Rightarrow> string \<Rightarrow> string list" where
  "info_options config goos =
     (if oc_listen config \<noteq> [] then [''--info=hidden'', ''--list-label=0/0'', ''--listen='' @ oc_listen config]
      else if goos = ''windows'' then [''--info=inline-right'']
      else [pickerInfoCommand (oc_picker config)])"

definition key_bindings :: "bool \<Rightarrow> string list" where
  "key_bindings listenEnabled =
     (let forwardKeys = (if listenEnabled then ''ctrl-l,right'' else ''ctrl-l,tab,right'');
          normalForward = (if listenEnabled then ''right'' else ''tab'')
      in [''--preview=p'', ''--preview-window=right:50%:wrap:<80(down:50%:wrap)'',
          binding ''enter'' [transformEvent OpEnter], binding ''esc'' [transformEvent OpEscape],
          binding ''i'' [transformEvent OpModeInsert], binding ''a'' [transformEvent OpModeAdd],
          binding forwardKeys [transformEvent OpForward], binding ''ctrl-h,left'' [transformEvent OpParent],
          binding ''/'' [transformEvent OpSlash], binding ''~'' [transformEvent OpHome],
          binding ''g'' [jump_action], binding ''G'' [last_action], binding ''jump'' [first_action],
          binding ''j'' [down_action], binding ''k'' [up_action], binding ''h'' [trigger ''ctrl-h''],
          binding ''l'' [trigger normalForward], binding ''q'' [abort_action],
          binding ''ctrl-u'' [halfPageUp], binding ''ctrl-d'' [halfPageDown],
          binding '','' [previewHalfPageUp], binding ''.'' [previewHalfPageDown],
          binding ''change'' [transformEvent OpRestoreView]])"

definition optionsForPlatform :: "options_config \<Rightarrow> string \<Rightarrow> string list option result" where
  "optionsForPlatform config goos =
     (let listenEnabled = (oc_listen config \<noteq> []); unix_display = (\<not> listenEnabled \<and> goos \<noteq> ''windows'') in
      case oc_picker config of
        PickerOther _ \<Rightarrow> Inr None
      | _ \<Rightarrow>
          (case (if listenEnabled then validateListenAddress (oc_listen config) else None) of
             Some e \<Rightarrow> Inl e
           | None \<Rightarrow>
               Inr (Some (fixed_options config @ info_options config goos @ key_bindings listenEnabled
                 @ [binding ''start'' (startUnbind # (if unix_display then [transformDisplay] else []))]
                 @ (if unix_display then [binding ''resize'' [transformDisplay]] else [])
                 @ map (\<lambda>key. binding key [ignore_action]) normalPrintableKeys
                 @ (if oc_picker config = PickerCD
                    then [binding ''space'' [clearMulti, toggle_action], ''--sort'', ''--print-query'', ''--multi=1'']
                    else [binding ''space'' [toggle_action], ''--no-sort'', ''--multi''])))))"

section \<open>Key lists\<close>

lemma writeActionKey_concat:
  "writeActionKey acc key = acc @ concat (map (\<lambda>c. (if c = BACKSLASH \<or> c = CHR '','' then [BACKSLASH] else []) @ [c]) key)"
  by (induction key arbitrary: acc) auto

lemma encodeActionKey_simps [simp]:
  "encodeActionKey [] = []"
  "encodeActionKey (c # key) = (if c = BACKSLASH \<or> c = CHR '','' then [BACKSLASH] else []) @ c # encodeActionKey key"
  by (simp_all add: encodeActionKey_def writeActionKey_concat)

lemma write_keys_Suc: "write_keys enc (Suc n) ks = concat (map (\<lambda>k. CHR '','' # enc k) ks)"
  by (induction ks arbitrary: n) auto

lemma write_keys_0: "write_keys enc 0 ks = join_with '','' (map enc ks)"
proof (induction ks)
  case (Cons k ks)
  have "join_with '','' (map enc (k # ks)) = enc k @ concat (map (\<lambda>k. CHR '','' # enc k) ks)" for k
    by (induction ks arbitrary: k) auto
  then show ?case by (simp add: write_keys_Suc)
qed simp

text \<open>
  How a list of keys is read back: a backslash takes the next byte literally, an unescaped comma ends a key.
\<close>

fun read_keys :: "bytes \<Rightarrow> bytes \<Rightarrow> bytes list" where
  "read_keys acc [] = [acc]"
| "read_keys acc (c # s) =
     (if c = CHR '','' then acc # read_keys [] s
      else if c = BACKSLASH \<and> s \<noteq> [] then read_keys (acc @ [hd s]) (tl s)
      else read_keys (acc @ [c]) s)"

lemma comma_neq: "CHR '','' \<noteq> BACKSLASH" by (simp add: BACKSLASH_def)

lemma read_keys_encode: "read_keys acc (encodeActionKey key @ s) = read_keys (acc @ key) s"
  using comma_neq by (induction key arbitrary: acc) auto

lemma read_keys_join: "ks \<noteq> [] \<Longrightarrow> read_keys [] (join_with '','' (map encodeActionKey ks)) = ks"
proof (induction ks rule: induct_list012)
  case (2 k)
  show ?case using read_keys_encode [of "[]" k "[]"] by simp
next
  case (3 k l ks)
  then show ?case using read_keys_encode [of "[]" k "CHR '','' # join_with '','' (map encodeActionKey (l # ks))"] by simp
qed simp

lemma length_encodeActionKey: "length (encodeActionKey key) = length key + count_byte BACKSLASH key + count_byte (CHR '','') key"
  using comma_neq by (induction key) auto

lemma length_write_keys: "length (write_keys enc 0 ks) = sum_list (map (\<lambda>k. length (enc k)) ks) + (length ks - 1)"
  by (cases ks) (auto simp: write_keys_Suc length_concat comp_def sum_list_Suc)

lemma alternate_length: "usesAlternateActionDelimiter k \<Longrightarrow> length k = 1"
  by (auto simp: usesAlternateActionDelimiter_def)

text \<open>The buffer \<open>keyAction\<close> reserves is never too small.\<close>

lemma keyAction_size: "length (keyAction name keys) \<le> keyAction_size name keys"
proof -
  let ?a = "filter usesAlternateActionDelimiter keys"
  have "sum_list (map length ?a) = length ?a"
    by (induction keys) (auto simp: alternate_length)
  then have "length (write_keys (\<lambda>k. k) 0 ?a) = length ?a + (length ?a - 1)" by (simp add: length_write_keys)
  then show ?thesis
    by (simp add: keyAction_def keyAction_size_def Let_def length_write_keys length_encodeActionKey)
qed

text \<open>
  The keys an action names are read back exactly: the parenthesised list of \<open>keyAction\<close> decodes, with
  backslash escapes, to the ordinary keys in order, and the bracketed list splits at its commas into the
  backslash and parentheses, so no key is lost or merged whatever bytes it contains.
\<close>

theorem keyAction_reads_back:
  fixes name :: string and keys :: "string list"
  defines "ordinary \<equiv> filter (\<lambda>k. \<not> usesAlternateActionDelimiter k) keys"
    and "alternate \<equiv> filter usesAlternateActionDelimiter keys"
  shows "\<exists>body rest. keyAction name keys =
      (if ordinary = [] \<and> alternate \<noteq> [] then [] else name @ ''('' @ body @ '')'')
      @ (if alternate = [] then [] else (if ordinary = [] then [] else ''+'') @ name @ ''['' @ rest @ '']'')
    \<and> (if ordinary = [] then body = [] else read_keys [] body = ordinary)
    \<and> (if alternate = [] then rest = [] else split_on (CHR '','') rest = alternate)"
proof -
  have "split_on (CHR '','') (join_with '','' alternate) = alternate" if "alternate \<noteq> []"
  proof (rule split_on_join)
    show "\<forall>p\<in>set alternate. CHR '','' \<notin> set p"
      by (auto simp: alternate_def usesAlternateActionDelimiter_def BACKSLASH_def)
  qed (rule that)
  then show ?thesis
    by (intro exI [of _ "write_keys encodeActionKey 0 ordinary"] exI [of _ "write_keys (\<lambda>k. k) 0 alternate"])
       (auto simp: keyAction_def Let_def ordinary_def [symmetric] alternate_def [symmetric] write_keys_0 read_keys_join)
qed

section \<open>One line per action\<close>

text \<open>fzf reads an action as one line; these are the bytes that would end it.\<close>

definition plain :: "bytes \<Rightarrow> bool" where
  "plain s \<longleftrightarrow> CR \<notin> set s \<and> LF \<notin> set s \<and> NUL \<notin> set s"

lemma plain_simps [simp]: "plain []" "plain (c # s) \<longleftrightarrow> c \<noteq> CR \<and> c \<noteq> LF \<and> c \<noteq> NUL \<and> plain s"
  "plain (s @ t) \<longleftrightarrow> plain s \<and> plain t"
  by (auto simp: plain_def)

lemma plain_join [simp]: "plain sep \<Longrightarrow> list_all plain ps \<Longrightarrow> plain (join_with sep ps)"
  by (induction sep ps rule: join_with.induct) auto

lemma plain_itoa [simp]: "plain (itoa_u64 w)"
proof -
  have "\<not> is_digit CR" "\<not> is_digit LF" "\<not> is_digit NUL" by (simp_all add: is_digit_conv char_consts byte_of_def)
  then show ?thesis using itoa_digits by (auto simp: plain_def itoa_u64_def)
qed

lemma plain_encodeActionKey [simp]: "plain (encodeActionKey k) \<longleftrightarrow> plain k"
  by (induction k) (auto simp: char_consts)

lemma plain_keyAction: "plain name \<Longrightarrow> list_all plain keys \<Longrightarrow> plain (keyAction name keys)"
  by (auto simp: keyAction_def Let_def write_keys_0 char_consts list_all_iff comp_def intro!: plain_join)

lemma plain_printable: "list_all plain normalPrintableKeys"
proof -
  have "plain [char_of n]" if "33 \<le> n" "n < 127" for n :: nat
  proof -
    have n: "byte_of (char_of n) = n" using that by simp
    have "char_of n \<noteq> c" if "byte_of c < 33" for c using n that \<open>33 \<le> n\<close> by auto
    moreover have "byte_of CR < 33" "byte_of LF < 33" "byte_of NUL < 33" by (simp_all add: byte_of_def char_consts)
    ultimately show ?thesis by simp
  qed
  then show ?thesis 
    by (auto simp: normalPrintableKeys_def buildNormalPrintableKeys_def list_all_iff simp del: upt_rec_numeral plain_simps)
qed

lemma plain_keys: "list_all plain navigationKeys" "list_all plain listPagingKeys" "list_all plain normalKeys"
  using plain_printable
  by (simp_all add: navigationKeys_def listPagingKeys_def normalKeys_def appendKeys_def normalCommandKeys_def
      normalPagingKeys_def char_consts)

lemma plain_rebind: "plain (rebind m)" "plain (unbind m)"
  by (cases m; simp add: rebind_def unbind_def appendKeys_def plain_keyAction plain_keys char_consts)+

lemmas action_texts = enableSearch_def disableSearch_def clearQuery_def clearMulti_def acceptEnter_def cancel_action_def
  ignore_action_def wait_action_def first_action_def abort_action_def action_sequence_def reloadEmpty_def
  changePreviewDefault_def changePreviewInvalid_def

lemma plain_reload: "plain (reloadForEvent g i)"
  by (simp add: reloadForEvent_def reload_def char_consts)

lemma plain_list_actions: "list_all plain (list_actions e i)"
  by (simp add: list_actions_def plain_reload action_texts char_consts)

lemma plain_closing_actions: "list_all plain (closing_actions e)"
proof -
  have "plain (keyAction ''rebind'' [''change''])" "plain (keyAction ''unbind'' [''change''])"
    by (intro plain_keyAction; simp add: char_consts)+
  then show ?thesis by (simp add: closing_actions_def action_texts char_consts)
qed

text \<open>What \<open>renderEffect\<close> accepts.\<close>

definition effect_ok :: "effect \<Rightarrow> bool" where
  "effect_ok e \<longleftrightarrow> (ef_invalid_path e \<longrightarrow> ef_put e = ''/'')
     \<and> (ef_reload_generation e = 0 \<or> ef_restore_generation e = 0)
     \<and> ef_search e \<in> {[], ''on'', ''off''} \<and> ef_rebind e \<in> {ModeOther [], ModeInsert, ModeNormal, ModeAdd}
     \<and> ef_put e \<in> {[], ''/'', ''~''} \<and> ef_prompt e \<in> {[], ''[I] '', ''[N] '', ''[A] '', ''[A!] ''} \<and> plain (ef_header e)"

lemma parts_ok:
  "search_actions s = Inr as \<Longrightarrow> list_all plain as"
  "rebind_actions m = Inr as \<Longrightarrow> list_all plain as"
  "optional_action put_action s = Inr as \<Longrightarrow> list_all plain as"
  "optional_action changeModePrompt s = Inr as \<Longrightarrow> list_all plain as"
  "optional_action changeHeader s = Inr as \<Longrightarrow> list_all plain as"
proof -
  show "search_actions s = Inr as \<Longrightarrow> list_all plain as"
    by (auto simp: search_actions_def action_texts char_consts split: if_splits)
  show "rebind_actions m = Inr as \<Longrightarrow> list_all plain as"
    by (auto simp: rebind_actions_def plain_rebind split: mode.splits if_splits)
  show "optional_action put_action s = Inr as \<Longrightarrow> list_all plain as"
    by (auto simp: optional_action_def put_action_def char_consts split: if_splits)
  show "optional_action changeModePrompt s = Inr as \<Longrightarrow> list_all plain as"
    by (auto simp: optional_action_def changeModePrompt_def char_consts split: if_splits)
  show "optional_action changeHeader s = Inr as \<Longrightarrow> list_all plain as"
    by (auto simp: optional_action_def changeHeader_def validateActionArgument_def plain_def char_consts split: if_splits)
qed

lemma parts_iff:
  "(\<exists>as. search_actions s = Inr as) \<longleftrightarrow> s \<in> {[], ''on'', ''off''}"
  "(\<exists>as. rebind_actions m = Inr as) \<longleftrightarrow> m \<in> {ModeOther [], ModeInsert, ModeNormal, ModeAdd}"
  "(\<exists>as. optional_action put_action s = Inr as) \<longleftrightarrow> s \<in> {[], ''/'', ''~''}"
  "(\<exists>as. optional_action changeModePrompt s = Inr as) \<longleftrightarrow> s \<in> {[], ''[I] '', ''[N] '', ''[A] '', ''[A!] ''}"
  "(\<exists>as. optional_action changeHeader s = Inr as) \<longleftrightarrow> plain s"
      apply (simp add: search_actions_def)
     apply (cases m; simp add: rebind_actions_def)
    apply (simp add: optional_action_def put_action_def)
   apply (simp add: optional_action_def changeModePrompt_def)
  apply (simp add: optional_action_def changeHeader_def validateActionArgument_def plain_def)
  done

lemma renderEffect_accepts: "(\<exists>s. renderEffect e i = Inr s) = effect_ok e"
  unfolding effect_ok_def parts_iff [symmetric] by (auto simp: renderEffect_def split: sum.splits)

text \<open>
  \<open>renderEffect\<close> accepts exactly the effects that obey the action language (put, search, rebind, prompt
  and header well formed, not both a reload and a restore, an invalid path only with the slash), and what it
  produces is one line: it contains no carriage return, line feed or NUL.
\<close>

theorem renderEffect_ok:
  "((\<exists>s. renderEffect e i = Inr s) = effect_ok e) \<and> (\<forall>s. renderEffect e i = Inr s \<longrightarrow> plain s)"
proof
  show "\<forall>s. renderEffect e i = Inr s \<longrightarrow> plain s"
  proof (intro allI impI)
    fix s
    assume "renderEffect e i = Inr s"
    then obtain a b c d h where "search_actions (ef_search e) = Inr a" "rebind_actions (ef_rebind e) = Inr b"
      "optional_action put_action (ef_put e) = Inr c" "optional_action changeModePrompt (ef_prompt e) = Inr d"
      "optional_action changeHeader (ef_header e) = Inr h"
      and s: "s = action_sequence (a @ b @ list_actions e i @ c @ closing_actions e @ d @ h)"
      by (auto simp: renderEffect_def split: if_splits sum.splits)
    then have "list_all plain (a @ b @ list_actions e i @ c @ closing_actions e @ d @ h)"
      using plain_list_actions plain_closing_actions by (auto dest!: parts_ok)
    then show "plain s" unfolding s action_sequence_def
      by (intro plain_join) (auto simp: list_all_iff char_consts)
  qed
  show "(\<exists>s. renderEffect e i = Inr s) = effect_ok e" by (rule renderEffect_accepts)
qed

theorem renderEffect_ok_witness:
  "renderEffect (no_effect\<lparr>ef_put := ''/'', ef_header := ''x''\<rparr>) 0 = Inr ''put(/)+change-header:x'' \<and> plain ''put(/)+change-header:x''"
proof -
  have run: "renderEffect (no_effect\<lparr>ef_put := ''/'', ef_header := ''x''\<rparr>) 0 = Inr ''put(/)+change-header:x''"
    by (simp add: renderEffect_def no_effect_def search_actions_def rebind_actions_def optional_action_def put_action_def
        changeHeader_def validateActionArgument_def list_actions_def closing_actions_def action_sequence_def char_consts)
  with renderEffect_ok [of "no_effect\<lparr>ef_put := ''/'', ef_header := ''x''\<rparr>" 0] show ?thesis by blast
qed

end
