(* ===== verification/Process.thy ===== *)
theory Process
  imports Go_Filepath
begin

text \<open>
  \<open>internal/process\<close>: the environment a child gets (env.go, lookup.go), the validation of a process
  specification, the ownership of streams and the observer of exits (process.go, runner.go).

  The operating system is the argument \<open>windows\<close> (\<open>runtime.GOOS == "windows"\<close>); \<open>strings.ToUpper\<close> and
  \<open>strings.EqualFold\<close>, which consult the Unicode tables, are the record \<open>case_map\<close>.
\<close>

record case_map =
  to_upper :: "string \<Rightarrow> string"
  equal_fold :: "string \<Rightarrow> string \<Rightarrow> bool"

section \<open>env.go: entries\<close>

record environment_entry =
  en_raw :: string
  en_name :: string
  en_value :: string

definition isDrivePseudo :: "environment_entry \<Rightarrow> bool" where
  "isDrivePseudo e \<longleftrightarrow> en_name e \<noteq> [] \<and> hd (en_name e) = CHR ''=''"

definition asciiLetter :: "char \<Rightarrow> bool" where
  "asciiLetter c \<longleftrightarrow> CHR ''A'' \<le> c \<and> c \<le> CHR ''Z'' \<or> CHR ''a'' \<le> c \<and> c \<le> CHR ''z''"

definition ascii_raise :: "char \<Rightarrow> nat" where
  "ascii_raise c = (if CHR ''a'' \<le> c \<and> c \<le> CHR ''z'' then byte_of c - 32 else byte_of c)"

definition asciiEqualFold :: "char \<Rightarrow> char \<Rightarrow> bool" where
  "asciiEqualFold l r \<longleftrightarrow> ascii_raise l = ascii_raise r"

definition validWindowsDriveEnvironmentEntry :: "string \<Rightarrow> string \<Rightarrow> bool" where
  "validWindowsDriveEnvironmentEntry name val =
     (if length name \<noteq> 3 \<or> name ! 0 \<noteq> CHR ''='' \<or> \<not> asciiLetter (name ! 1) \<or> name ! 2 \<noteq> CHR '':'' \<or> length val < 3 then False
      else asciiEqualFold (val ! 0) (name ! 1) \<and> val ! 1 = CHR '':'' \<and> (val ! 2 = BACKSLASH \<or> val ! 2 = SLASH))"

definition entry_at :: "string \<Rightarrow> nat \<Rightarrow> environment_entry result" where
  "entry_at entry separator =
     (let name = take separator entry; val = drop (Suc separator) entry;
          parsed = \<lparr>en_raw = entry, en_name = name, en_value = val\<rparr> in
      if name = [] then Inl (ErrText ''process: empty environment name'')
      else if isDrivePseudo parsed \<and> \<not> validWindowsDriveEnvironmentEntry name val
      then Inl (ErrText ''process: invalid environment pseudo-key'')
      else Inr parsed)"

definition parseEnvironmentEntry :: "string \<Rightarrow> environment_entry result" where
  "parseEnvironmentEntry entry =
     (if entry = [] then Inl (ErrText ''process: empty environment entry'')
      else if NUL \<in> set entry then Inl (ErrText ''process: environment entry contains NUL'')
      else case index_byte entry (CHR ''='') of
             None \<Rightarrow> Inl (ErrText ''process: environment entry has no equals sign'')
           | Some 0 \<Rightarrow>
               (case index_byte (tl entry) (CHR ''='') of
                  None \<Rightarrow> Inl (ErrText ''process: invalid environment pseudo-key'')
                | Some relativeSeparator \<Rightarrow> entry_at entry (relativeSeparator + 1))
           | Some separator \<Rightarrow> entry_at entry separator)"

fun validateEnvironment :: "bool \<Rightarrow> string list \<Rightarrow> go_error option" where
  "validateEnvironment windows [] = None"
| "validateEnvironment windows (entry # environment) =
     (case parseEnvironmentEntry entry of
        Inl e \<Rightarrow> Some e
      | Inr parsed \<Rightarrow>
          if isDrivePseudo parsed \<and> \<not> windows then Some (ErrText ''process: invalid environment pseudo-key'')
          else validateEnvironment windows environment)"

definition environmentNameKey :: "case_map \<Rightarrow> bool \<Rightarrow> string \<Rightarrow> string" where
  "environmentNameKey cm windows name = (if windows then to_upper cm name else name)"

definition sameEnvironmentName :: "case_map \<Rightarrow> bool \<Rightarrow> string \<Rightarrow> string \<Rightarrow> bool" where
  "sameEnvironmentName cm windows l r \<longleftrightarrow> environmentNameKey cm windows l = environmentNameKey cm windows r"

definition blockedEnvironment :: "string list" where
  "blockedEnvironment = [''FZF_DEFAULT_OPTS'', ''FZF_DEFAULT_OPTS_FILE'', ''FZF_DEFAULT_COMMAND'', ''FZF_KEY'', ''FZF_QUERY'',
     ''FZF_CURRENT_ITEM'', ''SHELL_PICKER_TRACE_PATH'', ''SHELL_PICKER_TRACE_SESSION'']"

definition picker_prefix :: string where "picker_prefix = ''SHELL_PICKER_''"

definition blockedKey :: "case_map \<Rightarrow> bool \<Rightarrow> string \<Rightarrow> bool" where
  "blockedKey cm windows key =
     (let prefix = (if windows then length key \<ge> length picker_prefix \<and> equal_fold cm (take (length picker_prefix) key) picker_prefix
                    else has_prefix key picker_prefix)
      in prefix \<or> list_ex (\<lambda>b. if windows then equal_fold cm key b else key = b) blockedEnvironment)"

definition controlledKey :: "case_map \<Rightarrow> bool \<Rightarrow> environment_entry list \<Rightarrow> string \<Rightarrow> bool" where
  "controlledKey cm windows entries name = list_ex (\<lambda>e. sameEnvironmentName cm windows (en_name e) name) entries"

section \<open>env.go: sanitising\<close>

text \<open>
  The map of controlled variables is the list of its pairs in iteration order.  The three-level comparison is
  the lexicographic order of the key.
\<close>

definition env_sort_key :: "case_map \<Rightarrow> bool \<Rightarrow> environment_entry \<Rightarrow> string \<times> string \<times> string" where
  "env_sort_key cm windows e = (environmentNameKey cm windows (en_name e), en_name e, en_raw e)"

definition sortEnvironmentEntries :: "case_map \<Rightarrow> bool \<Rightarrow> environment_entry list \<Rightarrow> environment_entry list" where
  "sortEnvironmentEntries cm windows es = sort_key (env_sort_key cm windows) es"

fun collect_controlled :: "bool \<Rightarrow> (string \<times> string) list \<Rightarrow> environment_entry list" where
  "collect_controlled windows [] = []"
| "collect_controlled windows ((name, val) # rest) =
     (case parseEnvironmentEntry (name @ ''='' @ val) of
        Inl _ \<Rightarrow> collect_controlled windows rest
      | Inr e \<Rightarrow> if isDrivePseudo e \<and> \<not> windows then collect_controlled windows rest
                 else e # collect_controlled windows rest)"

text \<open>The in-place loop: \<open>acc\<close> is \<open>uniqueControlled\<close>, newest first.\<close>

fun unique_controlled :: "case_map \<Rightarrow> bool \<Rightarrow> environment_entry list \<Rightarrow> environment_entry list \<Rightarrow> environment_entry list" where
  "unique_controlled cm windows acc [] = rev acc"
| "unique_controlled cm windows acc (e # es) =
     (case acc of
        [] \<Rightarrow> unique_controlled cm windows [e] es
      | a # acc' \<Rightarrow> if sameEnvironmentName cm windows (en_name a) (en_name e)
                     then unique_controlled cm windows (e # acc') es
                     else unique_controlled cm windows (e # acc) es)"

definition controlled_entries :: "case_map \<Rightarrow> bool \<Rightarrow> (string \<times> string) list \<Rightarrow> environment_entry list" where
  "controlled_entries cm windows controlled =
     unique_controlled cm windows [] (sortEnvironmentEntries cm windows (collect_controlled windows controlled))"

text \<open>The index of the last inherited entry of each name, which only Windows keeps.\<close>

fun last_index :: "case_map \<Rightarrow> bool \<Rightarrow> nat \<Rightarrow> string list \<Rightarrow> (string \<rightharpoonup> nat) \<Rightarrow> (string \<rightharpoonup> nat)" where
  "last_index cm windows i [] m = m"
| "last_index cm windows i (raw # inherited) m =
     (case parseEnvironmentEntry raw of
        Inl _ \<Rightarrow> last_index cm windows (Suc i) inherited m
      | Inr e \<Rightarrow> last_index cm windows (Suc i) inherited
                    (if \<not> isDrivePseudo e \<or> windows then m(environmentNameKey cm windows (en_name e) \<mapsto> i) else m))"

definition keep_inherited :: "case_map \<Rightarrow> bool \<Rightarrow> environment_entry list \<Rightarrow> (string \<rightharpoonup> nat) \<Rightarrow> nat \<Rightarrow> string \<Rightarrow> bool" where
  "keep_inherited cm windows ctl latest i raw =
     (case parseEnvironmentEntry raw of
        Inl _ \<Rightarrow> False
      | Inr e \<Rightarrow> \<not> (isDrivePseudo e \<and> \<not> windows) \<and> \<not> blockedKey cm windows (en_name e)
          \<and> \<not> controlledKey cm windows ctl (en_name e)
          \<and> \<not> (windows \<and> (case latest (environmentNameKey cm windows (en_name e)) of None \<Rightarrow> 0 | Some j \<Rightarrow> j) \<noteq> i))"

definition SanitizeEnv :: "case_map \<Rightarrow> bool \<Rightarrow> string list \<Rightarrow> (string \<times> string) list \<Rightarrow> string list" where
  "SanitizeEnv cm windows inherited controlled =
     (let ctl = controlled_entries cm windows controlled;
          latest = (if windows then last_index cm windows 0 inherited Map.empty else Map.empty)
      in map snd (filter (\<lambda>(i, raw). keep_inherited cm windows ctl latest i raw) (enumerate 0 inherited)) @ map en_raw ctl)"

section \<open>lookup.go\<close>

fun environment_scan :: "case_map \<Rightarrow> bool \<Rightarrow> string \<Rightarrow> string list \<Rightarrow> string option" where
  "environment_scan cm windows name [] = None"
| "environment_scan cm windows name (raw # before) =
     (case parseEnvironmentEntry raw of
        Inl _ \<Rightarrow> environment_scan cm windows name before
      | Inr e \<Rightarrow> if sameEnvironmentName cm windows (en_name e) name then Some (en_value e)
                 else environment_scan cm windows name before)"

definition environmentValue :: "case_map \<Rightarrow> bool \<Rightarrow> string list \<Rightarrow> string \<Rightarrow> string option" where
  "environmentValue cm windows environment name = environment_scan cm windows name (rev environment)"

text \<open>
  \<open>exec.LookPath\<close> is the argument \<open>look\<close>; the directories of a path list are separated by colons, by
  semicolons on Windows, where the quoting of \<open>filepath.SplitList\<close> is not modelled.
\<close>

definition split_list :: "string \<Rightarrow> string list" where
  "split_list p = (if p = [] then [] else split_on (CHR '':'') p)"

fun look_directories :: "(string \<Rightarrow> string result) \<Rightarrow> string \<Rightarrow> string list \<Rightarrow> string result" where
  "look_directories look name [] = Inl (ErrText ''executable file not found in $PATH'')"
| "look_directories look name (directory # rest) =
     (case look (if directory = [] then ''./'' @ name else path_join directory name) of
        Inr path \<Rightarrow> Inr path
      | Inl _ \<Rightarrow> look_directories look name rest)"

definition lookPathInEnvironment :: "case_map \<Rightarrow> (string \<Rightarrow> string result) \<Rightarrow> string \<Rightarrow> string list \<Rightarrow> string result" where
  "lookPathInEnvironment cm look name environment =
     (if is_abs name \<or> SLASH \<in> set name \<or> BACKSLASH \<in> set name then look name
      else case environmentValue cm False environment ''PATH'' of
             None \<Rightarrow> look name
           | Some pathValue \<Rightarrow> look_directories look name (split_list pathValue))"

section \<open>process.go: specifications and streams\<close>

text \<open>
  A stream value as reflection sees it; \<^const>\<open>None\<close> is the nil interface.  \<open>sv_id\<close> stands for the dynamic
  type and the address together.
\<close>

record stream_value =
  sv_pointer :: bool
  sv_nil :: bool
  sv_file :: bool
  sv_closer :: bool
  sv_id :: nat

datatype containment = ContainmentOwnTree | ContainmentForegroundTree | ContainmentInheritTree | ContainmentOther nat

record process_spec =
  sp_path :: string
  sp_args :: "string list"
  sp_env :: "string list"
  sp_stdin :: "stream_value option"
  sp_stdout :: "stream_value option"
  sp_stderr :: "stream_value option"
  sp_close_stdin :: bool
  sp_containment :: containment
  sp_wait_delay :: int

definition ErrInvalidStream :: go_error where
  "ErrInvalidStream = ErrText ''process: pumped io.Closer requires stable pointer identity''"

definition validateStream :: "stream_value option \<Rightarrow> go_error option" where
  "validateStream stream =
     (case stream of
        None \<Rightarrow> None
      | Some v \<Rightarrow>
          if sv_pointer v \<and> sv_nil v then Some ErrInvalidStream
          else if sv_file v then None
          else if \<not> sv_closer v then None
          else if \<not> sv_pointer v then Some ErrInvalidStream
          else None)"

fun first_stream_error :: "stream_value option list \<Rightarrow> go_error option" where
  "first_stream_error [] = None"
| "first_stream_error (s # ss) = (case validateStream s of Some e \<Rightarrow> Some e | None \<Rightarrow> first_stream_error ss)"

definition validateSpec :: "bool \<Rightarrow> bool \<Rightarrow> process_spec \<Rightarrow> go_error option" where
  "validateSpec windows nil_ctx spec =
     (if nil_ctx then Some (ErrText ''process: nil context'')
      else if sp_path spec = [] then Some (ErrText ''process: empty executable path'')
      else case validateEnvironment windows (sp_env spec) of
             Some e \<Rightarrow> Some e
           | None \<Rightarrow>
               if sp_wait_delay spec < 0 then Some (ErrText ''process: negative WaitDelay'')
               else (case sp_containment spec of
                       ContainmentOther _ \<Rightarrow> Some (ErrText ''process: invalid containment'')
                     | _ \<Rightarrow> first_stream_error [sp_stdin spec, sp_stdout spec, sp_stderr spec]))"

definition pointerIdentity :: "stream_value option \<Rightarrow> nat option" where
  "pointerIdentity v =
     (case v of None \<Rightarrow> None | Some s \<Rightarrow> if \<not> sv_pointer s \<or> sv_nil s then None else Some (sv_id s))"

definition samePointer :: "stream_value option \<Rightarrow> stream_value option \<Rightarrow> bool" where
  "samePointer l r \<longleftrightarrow> pointerIdentity l \<noteq> None \<and> pointerIdentity r \<noteq> None \<and> pointerIdentity l = pointerIdentity r"

definition optInStdinCloser :: "process_spec \<Rightarrow> stream_value option" where
  "optInStdinCloser spec =
     (if \<not> sp_close_stdin spec then None
      else case sp_stdin spec of
             None \<Rightarrow> None
           | Some v \<Rightarrow>
               if \<not> sv_closer v then None
               else if sv_file v \<or> samePointer (sp_stdin spec) (sp_stdout spec) \<or> samePointer (sp_stdin spec) (sp_stderr spec)
               then None else Some v)"

text \<open>\<open>emergencyClosers\<close>: the closers to call and the identities already seen.\<close>

record emergency_closers =
  ec_items :: "stream_value list"
  ec_seen :: "nat set"

definition closers_add :: "stream_value option \<Rightarrow> emergency_closers \<Rightarrow> emergency_closers" where
  "closers_add stream c =
     (case stream of
        None \<Rightarrow> c
      | Some v \<Rightarrow>
          if \<not> sv_closer v then c
          else if sv_file v then c
          else (case pointerIdentity stream of
                  None \<Rightarrow> c
                | Some i \<Rightarrow> if i \<in> ec_seen c then c else c\<lparr>ec_items := ec_items c @ [v], ec_seen := insert i (ec_seen c)\<rparr>))"

section \<open>process.go: the tree handle\<close>

text \<open>\<open>kill\<close> and \<open>close\<close> are what the two callbacks return; the log counts their calls.\<close>

record tree_handle =
  th_killed :: bool
  th_closed :: bool
  th_kill_err :: "go_error option"
  th_close_err :: "go_error option"
  th_kills :: nat
  th_closes :: nat

definition newTreeHandle :: tree_handle where
  "newTreeHandle = \<lparr>th_killed = False, th_closed = False, th_kill_err = None, th_close_err = None, th_kills = 0, th_closes = 0\<rparr>"

definition KillTree :: "go_error option \<Rightarrow> tree_handle \<Rightarrow> go_error option \<times> tree_handle" where
  "KillTree kill h =
     (if th_closed h then (None, h)
      else let h = (if \<not> th_killed h then h\<lparr>th_killed := True, th_kill_err := kill, th_kills := Suc (th_kills h)\<rparr> else h)
           in (th_kill_err h, h))"

definition CloseTree :: "(go_error option) option \<Rightarrow> tree_handle \<Rightarrow> go_error option \<times> tree_handle" where
  "CloseTree close_fn h =
     (let h = (if \<not> th_closed h
               then (case close_fn of
                       None \<Rightarrow> h\<lparr>th_closed := True\<rparr>
                     | Some res \<Rightarrow> h\<lparr>th_closed := True, th_close_err := res, th_closes := Suc (th_closes h)\<rparr>)
               else h)
      in (th_close_err h, h))"

definition ErrWaitDelay :: go_error where
  "ErrWaitDelay = ErrText ''process: I/O pumps did not finish before WaitDelay''"

definition preserveWaitDelay :: "go_error option \<Rightarrow> bool \<Rightarrow> go_error option" where
  "preserveWaitDelay primary timedOut =
     (if \<not> timedOut then primary
      else case primary of None \<Rightarrow> Some ErrWaitDelay | Some e \<Rightarrow> Some (ErrJoin e ErrWaitDelay))"

section \<open>process.go: the exit observer\<close>

record observer_event =
  oe_pid :: int
  oe_process :: bool
  oe_error :: bool
  oe_exit :: bool
  oe_data :: int

record observer_result =
  or_n :: int
  or_events :: "observer_event list"
  or_err :: "go_error option"

definition ErrExitObserver :: go_error where
  "ErrExitObserver = ErrText ''process: exit observer failed''"

fun scan_events :: "int \<Rightarrow> bool \<Rightarrow> observer_event list \<Rightarrow> go_error option" where
  "scan_events pid registration [] = Some (ErrWrap ''missing expected process event'' ErrExitObserver)"
| "scan_events pid registration (e # es) =
     (if oe_error e
      then if oe_data e \<noteq> 0 then Some (ErrWrap ''errno'' ErrExitObserver)
           else if registration \<and> oe_pid e = pid \<and> oe_process e then None
           else scan_events pid registration es
      else if \<not> registration \<and> oe_pid e = pid \<and> oe_process e \<and> oe_exit e then None
      else scan_events pid registration es)"

definition validateObserverResult :: "int \<Rightarrow> observer_result \<Rightarrow> bool \<Rightarrow> go_error option" where
  "validateObserverResult pid r registration =
     (if or_err r \<noteq> None then Some (ErrWrap ''observer'' ErrExitObserver)
      else if or_n r \<le> 0 \<or> or_n r > int (length (or_events r)) then Some (ErrWrap ''invalid event count'' ErrExitObserver)
      else if registration \<and> or_n r \<noteq> 1 then Some (ErrWrap ''invalid registration count'' ErrExitObserver)
      else scan_events pid registration (take (nat (or_n r)) (or_events r)))"

definition validateKqueueObserverResults :: "int \<Rightarrow> observer_result \<Rightarrow> observer_result \<Rightarrow> go_error option" where
  "validateKqueueObserverResults pid registration wait_result =
     (case validateObserverResult pid registration True of
        Some e \<Rightarrow> Some e
      | None \<Rightarrow> validateObserverResult pid wait_result False)"

section \<open>What a sanitised environment holds\<close>

definition entry_ok :: "bool \<Rightarrow> environment_entry \<Rightarrow> bool" where
  "entry_ok windows e \<longleftrightarrow> parseEnvironmentEntry (en_raw e) = Inr e \<and> (isDrivePseudo e \<longrightarrow> windows)"

lemma entry_at_raw: "entry_at raw n = Inr e \<Longrightarrow> en_raw e = raw"
  by (auto simp: entry_at_def Let_def split: if_splits)

lemma parse_raw: "parseEnvironmentEntry raw = Inr e \<Longrightarrow> en_raw e = raw"
  by (auto simp: parseEnvironmentEntry_def entry_at_raw split: if_splits option.splits nat.splits)

lemma parse_again: "parseEnvironmentEntry raw = Inr e \<Longrightarrow> parseEnvironmentEntry (en_raw e) = Inr e"
  by (frule parse_raw) simp

lemma validateEnvironment_iff:
  "validateEnvironment windows environment = None \<longleftrightarrow> (\<forall>raw \<in> set environment. \<exists>e. entry_ok windows e \<and> en_raw e = raw)"
proof (induction windows environment rule: validateEnvironment.induct)
  case (2 windows raw environment)
  have "(\<exists>e. entry_ok windows e \<and> en_raw e = raw) \<longleftrightarrow>
      (\<exists>e. parseEnvironmentEntry raw = Inr e \<and> (isDrivePseudo e \<longrightarrow> windows))"
    by (auto simp: entry_ok_def dest: parse_raw)
  with 2 show ?case by (auto split: sum.splits)
qed simp

lemma collect_controlled_ok: "e \<in> set (collect_controlled windows controlled) \<Longrightarrow> entry_ok windows e"
  by (induction windows controlled rule: collect_controlled.induct)
     (auto simp: entry_ok_def intro: parse_again split: sum.splits if_splits)

lemma collect_controlled_mem:
  "(name, val) \<in> set controlled \<Longrightarrow> parseEnvironmentEntry (name @ ''='' @ val) = Inr e \<Longrightarrow> (isDrivePseudo e \<longrightarrow> windows) \<Longrightarrow>
     e \<in> set (collect_controlled windows controlled)"
  by (induction windows controlled rule: collect_controlled.induct) (auto split: sum.splits)

abbreviation name_key :: "case_map \<Rightarrow> bool \<Rightarrow> environment_entry \<Rightarrow> string" where
  "name_key cm windows e \<equiv> environmentNameKey cm windows (en_name e)"

lemma unique_controlled_spec:
  assumes "sorted_wrt (\<lambda>a b. name_key cm w a > name_key cm w b) acc" and "sorted (map (name_key cm w) es)"
    and "\<forall>a \<in> set acc. \<forall>e \<in> set es. name_key cm w a \<le> name_key cm w e"
  shows "sorted_wrt (\<lambda>a b. name_key cm w a < name_key cm w b) (unique_controlled cm w acc es)
    \<and> set (unique_controlled cm w acc es) \<subseteq> set acc \<union> set es
    \<and> name_key cm w ` set (unique_controlled cm w acc es) = name_key cm w ` (set acc \<union> set es)"
  using assms
proof (induction cm w acc es rule: unique_controlled.induct)
  case (1 cm w acc)
  then show ?case by (simp add: sorted_wrt_rev)
next
  case (2 cm w acc e es)
  show ?case
  proof (cases acc)
    case Nil
    with 2 show ?thesis by auto
  next
    case (Cons a acc')
    show ?thesis
    proof (cases "name_key cm w a = name_key cm w e")
      case True
      with 2(2) [OF Cons] 2(4-6) Cons show ?thesis by (auto simp: sameEnvironmentName_def)
    next
      case False
      with 2(6) Cons have "name_key cm w a < name_key cm w e" by (simp add: order_less_le)
      moreover from this 2(4) Cons have "\<forall>x \<in> set acc'. name_key cm w x < name_key cm w e"
        using order_less_trans by auto
      ultimately show ?thesis using False 2(3) [OF Cons] 2(4-6) Cons by (auto simp: sameEnvironmentName_def)
    qed
  qed
qed

lemma sorted_env: "sorted (map (name_key cm w) (sortEnvironmentEntries cm w es))"
proof -
  have "sorted (map (env_sort_key cm w) (sortEnvironmentEntries cm w es))" by (simp add: sortEnvironmentEntries_def)
  then show ?thesis
    by (auto simp: sorted_wrt_map env_sort_key_def less_eq_prod_def elim!: sorted_wrt_mono_rel [rotated])
qed

lemma controlled_entries_spec:
  shows "distinct (map (name_key cm w) (controlled_entries cm w controlled))"
    and "set (controlled_entries cm w controlled) \<subseteq> set (collect_controlled w controlled)"
    and "name_key cm w ` set (controlled_entries cm w controlled) = name_key cm w ` set (collect_controlled w controlled)"
proof -
  note spec = unique_controlled_spec [of cm w "[]" "sortEnvironmentEntries cm w (collect_controlled w controlled)", folded controlled_entries_def]
  have sorted: "sorted_wrt (\<lambda>a b. name_key cm w a < name_key cm w b) (controlled_entries cm w controlled)"
    using spec sorted_env by simp
  then show "distinct (map (name_key cm w) (controlled_entries cm w controlled))"
    using strict_sorted_iff sorted_wrt_map by metis
  show "set (controlled_entries cm w controlled) \<subseteq> set (collect_controlled w controlled)"
    "name_key cm w ` set (controlled_entries cm w controlled) = name_key cm w ` set (collect_controlled w controlled)"
    using spec sorted_env by (auto simp: sortEnvironmentEntries_def)
qed

lemma environment_scan_controlled:
  assumes "distinct (map (name_key cm w) es)" and "\<forall>d \<in> set es. parseEnvironmentEntry (en_raw d) = Inr d" and "e \<in> set es"
  shows "environment_scan cm w (en_name e) (map en_raw es @ rest) = Some (en_value e)"
  using assms by (induction es) (auto simp: sameEnvironmentName_def image_iff)

lemma SanitizeEnv_mem:
  assumes "raw \<in> set (SanitizeEnv cm w inherited controlled)"
  obtains e where "parseEnvironmentEntry raw = Inr e" and "isDrivePseudo e \<longrightarrow> w"
    and "e \<in> set (controlled_entries cm w controlled) \<or> raw \<in> set inherited \<and> \<not> blockedKey cm w (en_name e)
           \<and> \<not> controlledKey cm w (controlled_entries cm w controlled) (en_name e)"
proof -
  let ?ctl = "controlled_entries cm w controlled"
  from assms consider d where "d \<in> set ?ctl" "raw = en_raw d"
    | latest i where "raw \<in> set inherited" "keep_inherited cm w ?ctl latest i raw"
    by (auto simp: SanitizeEnv_def Let_def in_set_enumerate_eq)
  then show thesis
  proof cases
    case 1
    then have "entry_ok w d" using controlled_entries_spec(2) collect_controlled_ok by blast
    with 1 show ?thesis by (intro that [of d]) (auto simp: entry_ok_def)
  next
    case 2
    then obtain e where "parseEnvironmentEntry raw = Inr e" by (auto simp: keep_inherited_def split: sum.splits)
    with 2 show ?thesis by (intro that [of e]) (auto simp: keep_inherited_def)
  qed
qed

text \<open>
  C38: What a child process inherits: the sanitised environment always passes the validation that starting a
  process makes, every entry is a controlled variable or an inherited one that is neither blocked nor
  controlled, and looking a controlled variable up yields the controlled value, whatever was inherited.
\<close>

theorem SanitizeEnv_safe:
  fixes cm :: case_map and w :: bool and inherited :: "string list" and controlled :: "(string \<times> string) list"
  defines "r \<equiv> SanitizeEnv cm w inherited controlled" and "ctl \<equiv> controlled_entries cm w controlled"
  shows "validateEnvironment w r = None
    \<and> (\<forall>raw \<in> set r. \<exists>e. parseEnvironmentEntry raw = Inr e \<and> (e \<in> set ctl
          \<or> raw \<in> set inherited \<and> \<not> blockedKey cm w (en_name e) \<and> \<not> controlledKey cm w ctl (en_name e)))
    \<and> (\<forall>e \<in> set (collect_controlled w controlled).
          (\<forall>d \<in> set (collect_controlled w controlled). sameEnvironmentName cm w (en_name d) (en_name e) \<longrightarrow> d = e) \<longrightarrow>
          environmentValue cm w r (en_name e) = Some (en_value e))"
proof (intro conjI ballI impI)
  show "validateEnvironment w r = None" unfolding validateEnvironment_iff
  proof
    fix raw
    assume "raw \<in> set r"
    then obtain e where "parseEnvironmentEntry raw = Inr e" "isDrivePseudo e \<longrightarrow> w" unfolding r_def by (rule SanitizeEnv_mem)
    then show "\<exists>e. entry_ok w e \<and> en_raw e = raw" by (auto simp: entry_ok_def intro: parse_again dest: parse_raw)
  qed
  show "\<exists>e. parseEnvironmentEntry raw = Inr e \<and> (e \<in> set ctl
      \<or> raw \<in> set inherited \<and> \<not> blockedKey cm w (en_name e) \<and> \<not> controlledKey cm w ctl (en_name e))" if "raw \<in> set r" for raw
    using that unfolding r_def ctl_def by (blast elim: SanitizeEnv_mem)
  fix e
  assume e: "e \<in> set (collect_controlled w controlled)"
    and only: "\<forall>d \<in> set (collect_controlled w controlled). sameEnvironmentName cm w (en_name d) (en_name e) \<longrightarrow> d = e"
  have "name_key cm w e \<in> name_key cm w ` set ctl"
    unfolding ctl_def controlled_entries_spec(3) using e by (rule imageI)
  then obtain d where "d \<in> set ctl" "name_key cm w d = name_key cm w e" by (metis imageE)
  moreover from this have "d = e"
    using only subsetD [OF controlled_entries_spec(2) [of cm w controlled], of d] by (auto simp: ctl_def sameEnvironmentName_def)
  ultimately have "e \<in> set ctl" by simp
  moreover have "\<forall>d \<in> set ctl. parseEnvironmentEntry (en_raw d) = Inr d"
    using controlled_entries_spec(2) collect_controlled_ok by (fastforce simp: ctl_def entry_ok_def)
  moreover have "distinct (map (name_key cm w) (rev ctl))" using controlled_entries_spec(1) by (simp add: ctl_def flip: rev_map)
  ultimately show "environmentValue cm w r (en_name e) = Some (en_value e)"
    using environment_scan_controlled [of cm w "rev ctl" e]
    by (simp add: environmentValue_def r_def SanitizeEnv_def ctl_def Let_def rev_map)
qed

definition ascii_case :: case_map where
  "ascii_case = \<lparr>to_upper = map (\<lambda>c. char_of (ascii_raise c)), equal_fold = (\<lambda>a b. map ascii_raise a = map ascii_raise b)\<rparr>"

theorem SanitizeEnv_safe_witness:
  "environmentValue ascii_case False (SanitizeEnv ascii_case False [''PATH=x'', ''FZF_KEY=k''] [(''PATH'', ''y'')]) ''PATH'' = Some ''y''"
proof -
  let ?e = "\<lparr>en_raw = ''PATH=y'', en_name = ''PATH'', en_value = ''y''\<rparr>"
  have "collect_controlled False [(''PATH'', ''y'')] = [?e]"
    by (simp add: parseEnvironmentEntry_def entry_at_def isDrivePseudo_def NUL_def Let_def)
  with SanitizeEnv_safe [of False ascii_case "[''PATH=x'', ''FZF_KEY=k'']" "[(''PATH'', ''y'')]"] show ?thesis by simp
qed

section \<open>Handles are released once\<close>

text \<open>
  The operations on a tree handle as one step: \<^term>\<open>Inl\<close> is \<open>KillTree\<close>, \<^term>\<open>Inr\<close> is \<open>Close\<close>.
\<close>

definition tree_op :: "go_error option + go_error option option \<Rightarrow> tree_handle \<Rightarrow> tree_handle" where
  "tree_op x h = (case x of Inl k \<Rightarrow> snd (KillTree k h) | Inr c \<Rightarrow> snd (CloseTree c h))"

definition tree_inv :: "tree_handle \<Rightarrow> bool" where
  "tree_inv h \<longleftrightarrow> th_kills h = (if th_killed h then 1 else 0) \<and> th_closes h \<le> (if th_closed h then 1 else 0)"

lemma tree_inv_op: "tree_inv h \<Longrightarrow> tree_inv (tree_op x h)"
  by (cases x) (auto simp: tree_inv_def tree_op_def KillTree_def CloseTree_def Let_def split: option.splits)

interpretation tree: transition_system "\<lambda>h. h = newTreeHandle" "\<lambda>h h'. \<exists>x. h' = tree_op x h" tree_inv
proof
  show "tree_inv h" if "h = newTreeHandle" for h using that by (simp add: tree_inv_def newTreeHandle_def)
qed (auto intro: tree_inv_op)

lemma tree_op_reach: "reach (\<lambda>h. h = newTreeHandle) (\<lambda>h h'. \<exists>x. h' = tree_op x h) (fold tree_op ops newTreeHandle)"
  by (induction ops rule: rev_induct) (auto intro: reach_start reach_next)

lemma closed_fixed: "th_closed h \<Longrightarrow> fold tree_op ops h = h"
proof (induction ops)
  case (Cons x ops)
  have "tree_op x h = h" using Cons.prems by (cases x) (simp_all add: tree_op_def KillTree_def CloseTree_def)
  with Cons show ?case by simp
qed simp

text \<open>
  Whatever calls are made on a tree handle and in whatever order, the kernel-level kill and close are each
  called at most once, no kill is issued after the close, and the error of the first call is what every later
  call of the same kind returns.
\<close>

theorem TreeHandle_once:
  fixes ops more :: "(go_error option + go_error option option) list"
  defines "h \<equiv> fold tree_op ops newTreeHandle"
  shows "th_kills h \<le> 1 \<and> th_closes h \<le> 1
    \<and> (th_closed h \<longrightarrow> th_kills (fold tree_op more h) = th_kills h \<and> fst (CloseTree c (fold tree_op more h)) = th_close_err h)
    \<and> (th_killed h \<and> \<not> th_closed h \<longrightarrow> fst (KillTree k h) = th_kill_err h \<and> th_kills (snd (KillTree k h)) = th_kills h)"
proof (intro conjI impI)
  have "tree_inv h" unfolding h_def by (rule tree.reach_inv [OF tree_op_reach])
  then show "th_kills h \<le> 1" "th_closes h \<le> 1" by (auto simp: tree_inv_def split: if_splits)
  show "fst (KillTree k h) = th_kill_err h" "th_kills (snd (KillTree k h)) = th_kills h" if "th_killed h \<and> \<not> th_closed h"
    using that by (simp_all add: KillTree_def Let_def)
  assume "th_closed h"
  then show "th_kills (fold tree_op more h) = th_kills h" "fst (CloseTree c (fold tree_op more h)) = th_close_err h"
    by (simp_all add: closed_fixed CloseTree_def)
qed

theorem TreeHandle_once_witness:
  "th_kills (fold tree_op [Inl None, Inl None, Inr None, Inl None] newTreeHandle) = 1"
proof -
  have "fold tree_op [Inl None, Inl None, Inr None] newTreeHandle =
      newTreeHandle\<lparr>th_killed := True, th_kills := 1, th_closed := True\<rparr>"
    by (simp add: tree_op_def KillTree_def CloseTree_def Let_def newTreeHandle_def)
  with TreeHandle_once [of "[Inl None, Inl None, Inr None]" "[Inl None]" None None] show ?thesis by simp
qed

end
