(* ===== verification/Fzf_Process.thy ===== *)
theory Fzf_Process
  imports Fzf_Action Process
begin

text \<open>
  \<open>internal/fzf\<close>, the fzf process: the input stream that feeds it (input.go), the parsing of what it
  prints (output.go) and the preparation and checking of the process itself (process.go).

  The stream's mutex makes every method atomic, so its state is a record and a method is a function;
  \<open>Read\<close> is \<^const>\<open>None\<close> while it waits.  What the child printed and how it ended are arguments.
\<close>

section \<open>output.go\<close>

record fzf_result =
  fr_query :: bytes
  fr_key :: string
  fr_records :: "bytes list"
  fr_aborted :: bool
  fr_exit :: int

definition nulFrames :: "bytes \<Rightarrow> bytes list result" where
  "nulFrames output =
     (if output = [] then Inr []
      else if last output \<noteq> NUL then Inl (ErrText ''fzf: output has trailing bytes without NUL'')
      else Inr (split_on NUL (butlast output)))"

definition parse_aborted :: "picker \<Rightarrow> bytes list \<Rightarrow> int \<Rightarrow> fzf_result result" where
  "parse_aborted p frames exitCode =
     (let r = \<lparr>fr_query = [], fr_key = [], fr_records = [], fr_aborted = True, fr_exit = exitCode\<rparr> in
      case p of
        PickerCD \<Rightarrow>
          if frames = [] then Inr r
          else if length frames \<noteq> 1 then Inl (ErrText ''fzf: malformed cd abort output'')
          else Inr (r\<lparr>fr_query := hd frames\<rparr>)
      | PickerCP \<Rightarrow> if frames \<noteq> [] then Inl (ErrText ''fzf: malformed cp abort output'') else Inr r
      | PickerOther _ \<Rightarrow> Inr r)"

definition split_accepted :: "picker \<Rightarrow> bytes list \<Rightarrow> int \<Rightarrow> fzf_result result" where
  "split_accepted p frames exitCode =
     (let r = \<lparr>fr_query = [], fr_key = [], fr_records = [], fr_aborted = False, fr_exit = exitCode\<rparr> in
      case p of
        PickerCD \<Rightarrow>
          if length frames \<noteq> 3 then Inl (ErrText ''fzf: cd acceptance requires query, key, and one record'')
          else Inr (r\<lparr>fr_query := frames ! 0, fr_key := frames ! 1, fr_records := drop 2 frames\<rparr>)
      | PickerCP \<Rightarrow>
          if length frames < 2 then Inl (ErrText ''fzf: cp acceptance requires key and records'')
          else Inr (r\<lparr>fr_key := frames ! 0, fr_records := drop 1 frames\<rparr>)
      | PickerOther _ \<Rightarrow> Inr r)"

definition ParseOutput :: "picker \<Rightarrow> bytes \<Rightarrow> int \<Rightarrow> fzf_result result" where
  "ParseOutput p output exitCode =
     (if p \<noteq> PickerCD \<and> p \<noteq> PickerCP then Inl (ErrText ''fzf: invalid picker'')
      else if exitCode \<noteq> 0 \<and> exitCode \<noteq> 1 \<and> exitCode \<noteq> 130 then Inl (ErrText ''fzf: unexpected exit code'')
      else if exitCode = 1 then Inl (ErrText ''fzf: no match or search error (exit code 1)'')
      else case nulFrames output of
             Inl e \<Rightarrow> Inl e
           | Inr frames \<Rightarrow>
               if exitCode = 130 then parse_aborted p frames exitCode
               else (case split_accepted p frames exitCode of
                       Inl e \<Rightarrow> Inl e
                     | Inr r \<Rightarrow>
                         if fr_key r \<noteq> ''enter'' then Inl (ErrText ''fzf: unsupported acceptance key'')
                         else if list_ex (\<lambda>rec. rec = []) (fr_records r) then Inl (ErrText ''fzf: empty record frame'')
                         else Inr r))"

section \<open>input.go\<close>

record input_stream =
  is_buffer :: bytes
  is_closed :: bool
  is_cause :: "go_error option"

definition ErrInputClosed :: go_error where "ErrInputClosed = ErrText ''fzf: input stream is closed''"
definition ErrNilPublication :: go_error where "ErrNilPublication = ErrText ''fzf: nil publication callback''"
definition ErrEOF :: go_error where "ErrEOF = ErrText ''EOF''"

definition NewInputStream :: "bytes \<Rightarrow> input_stream" where
  "NewInputStream initial = \<lparr>is_buffer = initial, is_closed = False, is_cause = None\<rparr>"

definition input_Read :: "nat \<Rightarrow> input_stream \<Rightarrow> ((bytes \<times> go_error option) \<times> input_stream) option" where
  "input_Read n s =
     (if n = 0 then Some (([], None), s)
      else if is_buffer s = [] \<and> \<not> is_closed s then None
      else if is_buffer s \<noteq> [] then Some ((take n (is_buffer s), None), s\<lparr>is_buffer := drop n (is_buffer s)\<rparr>)
      else case is_cause s of Some e \<Rightarrow> Some (([], Some e), s) | None \<Rightarrow> Some (([], Some ErrEOF), s))"

definition input_Append :: "bytes \<Rightarrow> input_stream \<Rightarrow> go_error option \<times> input_stream" where
  "input_Append data s =
     (if is_closed s then (Some ErrInputClosed, s)
      else if data = [] then (None, s)
      else (None, s\<lparr>is_buffer := is_buffer s @ data\<rparr>))"

text \<open>The publication callback: nil, or what it returns; the third component says whether it ran.\<close>

definition AppendAfter :: "bytes \<Rightarrow> (go_error option) option \<Rightarrow> input_stream \<Rightarrow> go_error option \<times> bool \<times> input_stream" where
  "AppendAfter data publish s =
     (case publish of
        None \<Rightarrow> (Some ErrNilPublication, False, s)
      | Some outcome \<Rightarrow>
          if is_closed s then (Some ErrInputClosed, False, s)
          else if outcome \<noteq> None then (outcome, True, s)
          else if data = [] then (None, True, s)
          else (None, True, s\<lparr>is_buffer := is_buffer s @ data\<rparr>))"

definition closeWithError :: "go_error option \<Rightarrow> input_stream \<Rightarrow> input_stream" where
  "closeWithError cause s = (if is_closed s then s else s\<lparr>is_closed := True, is_cause := cause\<rparr>)"

definition input_Close :: "input_stream \<Rightarrow> input_stream" where
  "input_Close s = closeWithError None s"

definition CloseWithError :: "go_error option \<Rightarrow> input_stream \<Rightarrow> input_stream" where
  "CloseWithError cause s = closeWithError cause s"

section \<open>process.go\<close>

fun listen_scan :: "string \<Rightarrow> string list \<Rightarrow> string result" where
  "listen_scan address [] = Inr address"
| "listen_scan address (option # options) =
     (if option = ''--listen'' then Inl errInvalidListenAddress
      else if \<not> has_prefix option ''--listen='' then listen_scan address options
      else if address \<noteq> [] then Inl (ErrText ''fzf: multiple listen options'')
      else let addr = drop (length ''--listen='') option in
           case validateListenAddress addr of
             Some e \<Rightarrow> Inl e
           | None \<Rightarrow> listen_scan addr options)"

definition listenAddressFromOptions :: "string list \<Rightarrow> string result" where
  "listenAddressFromOptions options = listen_scan [] options"

definition validateListenAPIKey :: "string \<Rightarrow> go_error option" where
  "validateListenAPIKey key =
     (case b64_decode RawURLEncoding key of
        None \<Rightarrow> Some (ErrText ''fzf: invalid listen API key'')
      | Some decoded \<Rightarrow> if length decoded \<noteq> 32 then Some (ErrText ''fzf: invalid listen API key'') else None)"

text \<open>\<open>environmentValue\<close> of this package cuts at the first equals sign and keeps the last match.\<close>

definition cut_equals :: "string \<Rightarrow> (string \<times> string) option" where
  "cut_equals entry = (case index_byte entry (CHR ''='') of None \<Rightarrow> None | Some i \<Rightarrow> Some (take i entry, drop (Suc i) entry))"

definition fzf_environmentValue :: "case_map \<Rightarrow> bool \<Rightarrow> string list \<Rightarrow> string \<Rightarrow> string" where
  "fzf_environmentValue cm windows environment wanted =
     foldl (\<lambda>val entry. case cut_equals entry of
              None \<Rightarrow> val
            | Some (key, candidate) \<Rightarrow>
                if key = wanted \<or> (windows \<and> equal_fold cm key wanted) then candidate else val) [] environment"

definition executable_basename :: "string \<Rightarrow> bool" where
  "executable_basename s \<longleftrightarrow> s \<noteq> [] \<and> list_all (\<lambda>c. asciiLetter c \<or> is_digit c \<or> c \<in> set ''._-'') s"

record fzf_config =
  fc_picker :: picker
  fc_fzf_path :: string
  fc_executable :: string
  fc_environment :: "string list"
  fc_trace_path :: string
  fc_trace_session :: string
  fc_callback_address :: string
  fc_callback_token :: string
  fc_api_key :: string
  fc_options :: "string list"
  fc_input :: "stream_value option"
  fc_tty :: "stream_value option"
  fc_tty_err :: "stream_value option"

definition controlled_variables :: "fzf_config \<Rightarrow> string \<Rightarrow> string \<Rightarrow> (string \<times> string) list" where
  "controlled_variables config path listenAddress =
     [(''PATH'', path), (''SHELL_PICKER_ADDR'', fc_callback_address config), (''SHELL_PICKER_TOKEN'', fc_callback_token config)]
     @ (if fc_trace_path config \<noteq> [] \<and> fc_trace_session config \<noteq> []
        then [(''SHELL_PICKER_TRACE_PATH'', fc_trace_path config), (''SHELL_PICKER_TRACE_SESSION'', fc_trace_session config)]
        else [])
     @ (if listenAddress \<noteq> [] then [(''FZF_API_KEY'', fc_api_key config)] else [])"

text \<open>The specification for a Unix child; \<open>buffer\<close> is the fresh output buffer, the delay is in seconds.\<close>

definition session_spec :: "case_map \<Rightarrow> stream_value \<Rightarrow> fzf_config \<Rightarrow> string \<Rightarrow> process_spec" where
  "session_spec cm buffer config listenAddress =
     (let sanitized = SanitizeEnv cm False (fc_environment config) [];
          path = path_dir (fc_executable config) @ '':'' @ fzf_environmentValue cm False sanitized ''PATH''
      in \<lparr>sp_path = fc_fzf_path config,
          sp_args = fc_options config @ [''--with-shell='' @ path_base (fc_executable config) @ '' --fzf-shell''],
          sp_env = SanitizeEnv cm False sanitized (controlled_variables config path listenAddress),
          sp_stdin = fc_input config, sp_stdout = Some buffer,
          sp_stderr = (if fc_tty_err config = None \<and> fc_tty config \<noteq> None then fc_tty config else fc_tty_err config),
          sp_close_stdin = True, sp_containment = ContainmentForegroundTree, sp_wait_delay = 1\<rparr>)"

definition prepareSession :: "case_map \<Rightarrow> stream_value \<Rightarrow> fzf_config \<Rightarrow> process_spec result" where
  "prepareSession cm buffer config =
     (if fc_input config = None then Inl (ErrText ''fzf: nil input'')
      else if fc_fzf_path config = [] then Inl (ErrText ''fzf: empty fzf path'')
      else if fc_callback_address config = [] then Inl (ErrText ''fzf: empty callback address'')
      else if fc_callback_token config = [] then Inl (ErrText ''fzf: empty callback token'')
      else if \<not> is_abs (fc_executable config) then Inl (ErrText ''fzf: executable path must be absolute'')
      else if \<not> executable_basename (path_base (fc_executable config)) then Inl (ErrText ''fzf: unsafe executable basename'')
      else if CHR '':'' \<in> set (path_dir (fc_executable config))
      then Inl (ErrText ''fzf: executable directory contains path-list separator'')
      else if fc_tty config = None then Inl (ErrText ''fzf: foreground terminal is required'')
      else case listenAddressFromOptions (fc_options config) of
             Inl e \<Rightarrow> Inl e
           | Inr listenAddress \<Rightarrow>
               if listenAddress = []
               then if fc_api_key config \<noteq> [] then Inl (ErrText ''fzf: listen API key requires a listen option'')
                    else Inr (session_spec cm buffer config listenAddress)
               else if fc_api_key config = [] then Inl (ErrText ''fzf: listen API key is required for listen mode'')
               else (case validateListenAPIKey (fc_api_key config) of
                       Some e \<Rightarrow> Inl e
                     | None \<Rightarrow> Inr (session_spec cm buffer config listenAddress)))"

text \<open>How the runner ended: it ran to its end, the child exited with a code, or another error.\<close>

datatype run_end = RunOk | RunExit int | RunFailed go_error

definition fzf_Run :: "case_map \<Rightarrow> stream_value \<Rightarrow> fzf_config \<Rightarrow> (process_spec \<Rightarrow> bytes \<times> run_end) \<Rightarrow> fzf_result result" where
  "fzf_Run cm buffer config run =
     (case prepareSession cm buffer config of
        Inl e \<Rightarrow> Inl e
      | Inr spec \<Rightarrow>
          (let (output, ended) = run spec;
               parse = (\<lambda>code. map_sum (ErrWrap ''parse fzf output'') id (ParseOutput (fc_picker config) output code))
           in case ended of
                RunFailed e \<Rightarrow> Inl (ErrWrap ''run fzf'' e)
              | RunOk \<Rightarrow> parse 0
              | RunExit code \<Rightarrow> parse code))"

text \<open>\<open>strings.Fields\<close> on ASCII white space.\<close>

definition space_byte :: "char \<Rightarrow> bool" where
  "space_byte c \<longleftrightarrow> c = CHR '' '' \<or> (9 \<le> byte_of c \<and> byte_of c \<le> 13)"

definition first_field :: "string \<Rightarrow> string option" where
  "first_field s = (let t = dropWhile space_byte s in if t = [] then None else Some (takeWhile (\<lambda>c. \<not> space_byte c) t))"

definition parseVersion :: "string \<Rightarrow> (int \<times> int \<times> int) result" where
  "parseVersion output =
     (case first_field output of
        None \<Rightarrow> Inl (ErrText ''fzf: empty version output'')
      | Some version \<Rightarrow>
          (case map atoi (split_on (CHR ''.'') version) of
             [Some a, Some b, Some c] \<Rightarrow>
               if a < 0 \<or> b < 0 \<or> c < 0 then Inl (ErrText ''fzf: malformed version'') else Inr (a, b, c)
           | _ \<Rightarrow> Inl (ErrText ''fzf: malformed version'')))"

definition CheckVersionWithEnvironment :: "string \<Rightarrow> string \<Rightarrow> go_error option \<Rightarrow> string \<times> go_error option" where
  "CheckVersionWithEnvironment path stdout err =
     (if path = [] then ([], Some (ErrText ''fzf: empty fzf path''))
      else case err of
             Some e \<Rightarrow> ([], Some (ErrWrap ''check fzf version'' e))
           | None \<Rightarrow>
               (case parseVersion stdout of
                  Inl e \<Rightarrow> ([], Some e)
                | Inr (major, minor, patch) \<Rightarrow>
                    (the (first_field stdout),
                     if major = 0 \<and> (minor < 74 \<or> minor = 74 \<and> patch < 1)
                     then Some (ErrText ''fzf: version is below required 0.74.1'') else None)))"

section \<open>What fzf may print\<close>

definition nul_terminated :: "bytes list \<Rightarrow> bytes" where
  "nul_terminated fs = concat (map (\<lambda>f. f @ [NUL]) fs)"

lemma nul_terminated_join: "fs \<noteq> [] \<Longrightarrow> nul_terminated fs = join_with [NUL] fs @ [NUL]"
  unfolding nul_terminated_def by (induction "[NUL]" fs rule: join_with.induct) auto

lemma nulFrames_iff: "nulFrames output = Inr fs \<longleftrightarrow> (\<forall>f \<in> set fs. NUL \<notin> set f) \<and> output = nul_terminated fs"
proof
  assume run: "nulFrames output = Inr fs"
  show "(\<forall>f \<in> set fs. NUL \<notin> set f) \<and> output = nul_terminated fs"
  proof (cases "output = []")
    case True
    with run show ?thesis by (simp add: nulFrames_def nul_terminated_def)
  next
    case False
    with run have l: "last output = NUL" "fs = split_on NUL (butlast output)" by (auto simp: nulFrames_def split: if_splits)
    with False have "output = butlast output @ [NUL]" by (metis append_butlast_last_id)
    with l show ?thesis using split_on_parts by (auto simp: nul_terminated_join)
  qed
next
  assume "(\<forall>f \<in> set fs. NUL \<notin> set f) \<and> output = nul_terminated fs"
  then show "nulFrames output = Inr fs"
    by (cases "fs = []") (auto simp: nulFrames_def nul_terminated_join split_on_join nul_terminated_def [of "[]"])
qed

lemma length_3E: "length xs = 3 \<longleftrightarrow> (\<exists>a b c. xs = [a, b, c])"
  by (auto simp: numeral_3_eq_3 length_Suc_conv)

lemma length_ge2E: "\<not> length xs < 2 \<longleftrightarrow> (\<exists>a b cs. xs = a # b # cs)"
  by (cases xs; cases "tl xs") auto

text \<open>
  \<open>ParseOutput\<close> accepts exactly the outputs the two pickers can end with: for an acceptance (exit code 0) the
  NUL-terminated frames query, \<open>enter\<close>, record of cd or \<open>enter\<close> and one or more records of cp, all records
  nonempty; for an abort (exit code 130) nothing, or for cd the query alone; and it returns those frames.
\<close>

theorem ParseOutput_iff:
  "ParseOutput p output code = Inr r \<longleftrightarrow>
     (code = 0 \<and> p = PickerCD \<and> (\<exists>q rec. NUL \<notin> set q \<and> NUL \<notin> set rec \<and> rec \<noteq> [] \<and> output = nul_terminated [q, ''enter'', rec]
        \<and> r = \<lparr>fr_query = q, fr_key = ''enter'', fr_records = [rec], fr_aborted = False, fr_exit = 0\<rparr>))
   \<or> (code = 0 \<and> p = PickerCP \<and> (\<exists>recs. recs \<noteq> [] \<and> (\<forall>rec \<in> set recs. rec \<noteq> [] \<and> NUL \<notin> set rec)
        \<and> output = nul_terminated (''enter'' # recs)
        \<and> r = \<lparr>fr_query = [], fr_key = ''enter'', fr_records = recs, fr_aborted = False, fr_exit = 0\<rparr>))
   \<or> (code = 130 \<and> (p = PickerCD \<or> p = PickerCP) \<and> output = []
        \<and> r = \<lparr>fr_query = [], fr_key = [], fr_records = [], fr_aborted = True, fr_exit = 130\<rparr>)
   \<or> (code = 130 \<and> p = PickerCD \<and> (\<exists>q. NUL \<notin> set q \<and> output = nul_terminated [q]
        \<and> r = \<lparr>fr_query = q, fr_key = [], fr_records = [], fr_aborted = True, fr_exit = 130\<rparr>))"
proof -
  have enter: "NUL \<noteq> CHR ''e''" "NUL \<noteq> CHR ''n''" "NUL \<noteq> CHR ''t''" "NUL \<noteq> CHR ''r''" by (simp_all add: NUL_def)
  have split: "ParseOutput p output code = Inr r \<longleftrightarrow> (p = PickerCD \<or> p = PickerCP) \<and> (code = 0 \<or> code = 130) \<and>
     (\<exists>fs. ((\<forall>f \<in> set fs. NUL \<notin> set f) \<and> output = nul_terminated fs) \<and>
        (if code = 130 then parse_aborted p fs code = Inr r
         else split_accepted p fs code = Inr r \<and> fr_key r = ''enter'' \<and> (\<forall>rec \<in> set (fr_records r). rec \<noteq> [])))"
    unfolding ParseOutput_def nulFrames_iff [symmetric]
    by (auto simp: list_ex_iff split: if_splits sum.splits)
  have cd: "split_accepted PickerCD fs 0 = Inr r \<longleftrightarrow>
      (\<exists>a b c. fs = [a, b, c] \<and> r = \<lparr>fr_query = a, fr_key = b, fr_records = [c], fr_aborted = False, fr_exit = 0\<rparr>)" for fs
    using length_3E [of fs] by (auto simp: split_accepted_def split: if_splits)
  have cp: "split_accepted PickerCP fs 0 = Inr r \<longleftrightarrow>
      (\<exists>a b cs. fs = a # b # cs \<and> r = \<lparr>fr_query = [], fr_key = a, fr_records = b # cs, fr_aborted = False, fr_exit = 0\<rparr>)" for fs
    using length_ge2E [of fs] by (auto simp: split_accepted_def split: if_splits)
  have cd_abort: "parse_aborted PickerCD fs 130 = Inr r \<longleftrightarrow>
      fs = [] \<and> r = \<lparr>fr_query = [], fr_key = [], fr_records = [], fr_aborted = True, fr_exit = 130\<rparr>
      \<or> (\<exists>q. fs = [q] \<and> r = \<lparr>fr_query = q, fr_key = [], fr_records = [], fr_aborted = True, fr_exit = 130\<rparr>)" for fs
    by (cases fs; cases "tl fs") (auto simp: parse_aborted_def)
  have cp_abort: "parse_aborted PickerCP fs 130 = Inr r \<longleftrightarrow>
      fs = [] \<and> r = \<lparr>fr_query = [], fr_key = [], fr_records = [], fr_aborted = True, fr_exit = 130\<rparr>" for fs
    by (auto simp: parse_aborted_def)
  have nil: "nul_terminated [] = []" by (simp add: nul_terminated_def)
  show ?thesis
  proof (cases "code = 0")
    case True
    show ?thesis
    proof (cases p)
      case PickerCD
      with True show ?thesis unfolding split by (simp add: cd) (auto simp: enter)
    next
      case PickerCP
      with True show ?thesis unfolding split by (simp add: cp) (auto simp: enter neq_Nil_conv)
    qed (use True split in simp)
  next
    case False
    show ?thesis
    proof (cases p)
      case PickerCD
      with False show ?thesis unfolding split by (simp add: cd_abort) (auto simp: nil intro: exI [of _ "[]"] exI [of _ "[_]"])
    next
      case PickerCP
      with False show ?thesis unfolding split by (simp add: cp_abort) (auto simp: nil)
    qed (use False split in simp)
  qed
qed

theorem ParseOutput_iff_witness:
  "ParseOutput PickerCP (nul_terminated [''enter'', ''r'']) 0 =
     Inr \<lparr>fr_query = [], fr_key = ''enter'', fr_records = [''r''], fr_aborted = False, fr_exit = 0\<rparr>"
  unfolding ParseOutput_iff by (auto simp: NUL_def)

section \<open>The input stream\<close>

datatype input_op = OpRead nat | OpAppend bytes | OpAppendAfter bytes "go_error option option" | OpCloseWith "go_error option"

text \<open>The bytes a call delivers to the reader, the bytes it accepts from a writer, and the state after it.\<close>

definition input_step :: "input_op \<Rightarrow> input_stream \<Rightarrow> bytes \<times> bytes \<times> input_stream" where
  "input_step x s =
     (case x of
        OpRead n \<Rightarrow> (case input_Read n s of None \<Rightarrow> ([], [], s) | Some ((got, err), s') \<Rightarrow> (got, [], s'))
      | OpAppend d \<Rightarrow> (case input_Append d s of (None, s') \<Rightarrow> ([], d, s') | (Some e, s') \<Rightarrow> ([], [], s'))
      | OpAppendAfter d publish \<Rightarrow>
          (case AppendAfter d publish s of (None, pub, s') \<Rightarrow> ([], d, s') | (Some e, pub, s') \<Rightarrow> ([], [], s'))
      | OpCloseWith e \<Rightarrow> ([], [], CloseWithError e s))"

fun input_run :: "input_op list \<Rightarrow> input_stream \<Rightarrow> bytes \<times> bytes \<times> input_stream" where
  "input_run [] s = ([], [], s)"
| "input_run (x # xs) s =
     (case input_step x s of (got, acc, s') \<Rightarrow>
      case input_run xs s' of (got', acc', s'') \<Rightarrow> (got @ got', acc @ acc', s''))"

lemma input_step_fifo: "input_step x s = (got, acc, s') \<Longrightarrow> got @ is_buffer s' = is_buffer s @ acc"
  by (cases x)
     (auto simp: input_step_def input_Read_def input_Append_def AppendAfter_def CloseWithError_def closeWithError_def
       split: option.splits prod.splits if_splits)

lemma input_step_closed: "input_step x s = (got, acc, s') \<Longrightarrow> is_closed s \<Longrightarrow> acc = [] \<and> is_closed s' \<and> is_cause s' = is_cause s"
  by (cases x)
     (auto simp: input_step_def input_Read_def input_Append_def AppendAfter_def CloseWithError_def closeWithError_def
       split: option.splits prod.splits if_splits)

lemma input_run_fifo: "input_run xs s = (got, acc, s') \<Longrightarrow> got @ is_buffer s' = is_buffer s @ acc"
proof (induction xs arbitrary: s got acc)
  case (Cons x xs)
  obtain g a t where step: "input_step x s = (g, a, t)" by (metis prod_cases3)
  obtain g' a' where rest: "input_run xs t = (g', a', s')" "got = g @ g'" "acc = a @ a'"
    using Cons.prems step by (auto split: prod.splits)
  have "g @ (g' @ is_buffer s') = g @ is_buffer t @ a'" using Cons.IH rest(1) by simp
  also have "\<dots> = (g @ is_buffer t) @ a'" by simp
  also have "\<dots> = (is_buffer s @ a) @ a'" using input_step_fifo [OF step] by simp
  finally show ?case using rest by simp
qed simp

lemma input_run_closed:
  "input_run xs s = (got, acc, s') \<Longrightarrow> is_closed s \<Longrightarrow> acc = [] \<and> is_closed s' \<and> is_cause s' = is_cause s"
proof (induction xs arbitrary: s got acc)
  case (Cons x xs)
  obtain g a t where step: "input_step x s = (g, a, t)" by (metis prod_cases3)
  then show ?case using Cons input_step_closed [OF step] by (fastforce split: prod.splits)
qed simp

text \<open>
  C37: The input stream is a queue: after any sequence of reads, appends, publications and closes, the bytes
  delivered followed by the bytes still buffered are the initial bytes followed by the bytes accepted, in
  order.  Once it is closed it accepts nothing more and its cause is fixed, so a reader first drains the
  buffer and then gets that cause (or the end of file) for ever, and never waits.
\<close>

theorem InputStream_queue:
  assumes "input_run xs (NewInputStream initial) = (got, acc, s)"
  shows "got @ is_buffer s = initial @ acc
    \<and> (is_closed s \<longrightarrow> (\<forall>ys got' acc' s'. input_run ys s = (got', acc', s') \<longrightarrow> acc' = [] \<and> got' @ is_buffer s' = is_buffer s
         \<and> (\<forall>n > 0. input_Read n s' =
              (if is_buffer s' = [] then Some (([], Some (case is_cause s of None \<Rightarrow> ErrEOF | Some e \<Rightarrow> e)), s')
               else Some ((take n (is_buffer s'), None), s'\<lparr>is_buffer := drop n (is_buffer s')\<rparr>)))))"
proof (intro conjI impI allI)
  show "got @ is_buffer s = initial @ acc" using input_run_fifo [OF assms] by (simp add: NewInputStream_def)
  fix ys got' acc' s'
  assume run: "is_closed s" "input_run ys s = (got', acc', s')"
  then show "acc' = []" using input_run_closed by blast
  with run show "got' @ is_buffer s' = is_buffer s" using input_run_fifo by fastforce
  fix n :: nat
  assume "0 < n"
  with input_run_closed [OF run(2,1)] show "input_Read n s' =
      (if is_buffer s' = [] then Some (([], Some (case is_cause s of None \<Rightarrow> ErrEOF | Some e \<Rightarrow> e)), s')
       else Some ((take n (is_buffer s'), None), s'\<lparr>is_buffer := drop n (is_buffer s')\<rparr>))"
    by (auto simp: input_Read_def split: option.splits)
qed

theorem InputStream_queue_witness:
  "\<exists>s. input_run [OpAppend ''b'', OpRead 1, OpCloseWith None] (NewInputStream ''a'') = (''a'', ''b'', s) \<and> is_buffer s = ''b''"
proof -
  let ?s = "\<lparr>is_buffer = ''b'', is_closed = True, is_cause = None\<rparr>"
  have run: "input_run [OpAppend ''b'', OpRead 1, OpCloseWith None] (NewInputStream ''a'') = (''a'', ''b'', ?s)"
    by (simp add: NewInputStream_def input_step_def input_Append_def input_Read_def CloseWithError_def closeWithError_def)
  with InputStream_queue [OF run] show ?thesis by auto
qed

text \<open>
  The publication of an enriched batch and its exposure to fzf happen together: \<open>AppendAfter\<close> exposes the
  batch exactly when the publication ran and succeeded, and on a closed stream it does not publish at all.
\<close>

theorem AppendAfter_atomic:
  assumes "AppendAfter data (Some outcome) s = (err, pub, s')"
  shows "(is_closed s \<longrightarrow> \<not> pub \<and> err = Some ErrInputClosed \<and> s' = s)
    \<and> (\<not> is_closed s \<longrightarrow> pub \<and> err = outcome)
    \<and> (pub \<and> outcome = None \<longleftrightarrow> err = None) \<and> is_buffer s' = is_buffer s @ (if err = None then data else [])"
  using assms by (auto simp: AppendAfter_def split: if_splits)

theorem AppendAfter_atomic_witness:
  "\<exists>s'. AppendAfter ''b'' (Some None) (NewInputStream ''a'') = (None, True, s') \<and> is_buffer s' = ''ab''"
proof -
  let ?s = "\<lparr>is_buffer = ''ab'', is_closed = False, is_cause = None\<rparr>"
  have run: "AppendAfter ''b'' (Some None) (NewInputStream ''a'') = (None, True, ?s)"
    by (simp add: AppendAfter_def NewInputStream_def)
  from AppendAfter_atomic [OF run] run show ?thesis by auto
qed

section \<open>The listen address\<close>

lemma validateListenAddress_iff:
  "validateListenAddress a = None \<longleftrightarrow> (\<exists>port. 0 < port \<and> port \<le> 65535 \<and> a = listen_prefix @ itoa port)"
proof
  assume "validateListenAddress a = None"
  then obtain port :: int where "has_prefix a listen_prefix" "0 < port" "port \<le> 65535" "itoa (nat port) = drop (length listen_prefix) a"
    by (auto simp: validateListenAddress_def Let_def not_le split: if_splits option.splits)
  then show "\<exists>port. 0 < port \<and> port \<le> 65535 \<and> a = listen_prefix @ itoa port"
    by (intro exI [of _ "nat port"]) (auto simp: has_prefix_conv)
next
  assume "\<exists>port. 0 < port \<and> port \<le> 65535 \<and> a = listen_prefix @ itoa port"
  then obtain port where "0 < port" "port \<le> 65535" "a = listen_prefix @ itoa port" by blast
  then show "validateListenAddress a = None"
    by (simp add: validateListenAddress_def atoi_digits itoa_hd)
qed

lemma listen_scan_skip:
  "list_all (\<lambda>x. \<not> has_prefix x ''--listen'') xs \<Longrightarrow> listen_scan a (xs @ ys) = listen_scan a ys"
proof (induction xs)
  case (Cons x xs)
  then have "x \<noteq> ''--listen''" "\<not> has_prefix x ''--listen=''" by (auto simp: has_prefix_conv)
  with Cons show ?case by simp
qed simp

lemma binding_not_listen: "\<not> has_prefix (binding k as) ''--listen''"
  by (simp add: binding_def has_prefix_def)

text \<open>
  The options the program builds and the process it prepares agree on the listen address: whenever
  \<open>optionsForPlatform\<close> succeeds, \<open>listenAddressFromOptions\<close> finds in its result exactly the configured
  address (none when none is configured), whatever text the prompt and header hold, and the address is the
  loopback address with a port between 1 and 65535 in canonical decimal.
\<close>

theorem listenAddress_options:
  assumes "optionsForPlatform config goos = Inr (Some options)"
  shows "listenAddressFromOptions options = Inr (oc_listen config)
    \<and> (oc_listen config = [] \<or> (\<exists>port. 0 < port \<and> port \<le> 65535 \<and> oc_listen config = listen_prefix @ itoa port))"
proof -
  let ?listen = "oc_listen config \<noteq> []"
  let ?rest = "\<lambda>xs. listen_scan (oc_listen config) (key_bindings ?listen @ xs)"
  from assms obtain tail where options: "options = fixed_options config @ info_options config goos @ key_bindings ?listen @ tail"
    and valid: "?listen \<longrightarrow> validateListenAddress (oc_listen config) = None"
    and tail: "list_all (\<lambda>x. \<not> has_prefix x ''--listen'') tail"
    by (auto simp: optionsForPlatform_def Let_def binding_not_listen list_all_iff has_prefix_def [of "_ # _"]
        split: picker.splits option.splits if_splits)
  have keys: "list_all (\<lambda>x. \<not> has_prefix x ''--listen'') (key_bindings ?listen @ tail)"
    using tail by (simp add: key_bindings_def Let_def binding_not_listen has_prefix_def [of "_ # _"])
  have fixed: "list_all (\<lambda>x. \<not> has_prefix x ''--listen'') (fixed_options config)"
    by (simp add: fixed_options_def has_prefix_def)
  have end_scan: "listen_scan a (key_bindings ?listen @ tail) = Inr a" for a
    using listen_scan_skip [OF keys, of a "[]"] by simp
  have "listenAddressFromOptions options = listen_scan [] (info_options config goos @ key_bindings ?listen @ tail)"
    by (simp add: listenAddressFromOptions_def options listen_scan_skip [OF fixed])
  also have "\<dots> = Inr (oc_listen config)"
  proof (cases "?listen")
    case True
    then show ?thesis using valid end_scan by (simp add: info_options_def has_prefix_def [of "_ # _"])
  next
    case False
    have "list_all (\<lambda>x. \<not> has_prefix x ''--listen'') (info_options config goos)"
      using False by (simp add: info_options_def pickerInfoCommand_def has_prefix_def)
    then show ?thesis using False end_scan listen_scan_skip by simp
  qed
  finally show ?thesis using valid by (auto simp: validateListenAddress_iff)
qed

theorem listenAddress_options_witness:
  "\<exists>options. optionsForPlatform \<lparr>oc_picker = PickerCP, oc_prompt = ''[I] '', oc_header = ''--listen'', oc_listen = []\<rparr> ''linux'' = Inr (Some options)
     \<and> listenAddressFromOptions options = Inr []"
proof -
  let ?c = "\<lparr>oc_picker = PickerCP, oc_prompt = ''[I] '', oc_header = ''--listen'', oc_listen = []\<rparr>"
  obtain options where run: "optionsForPlatform ?c ''linux'' = Inr (Some options)"
    by (simp add: optionsForPlatform_def)
  from listenAddress_options [OF run] run show ?thesis by auto
qed

section \<open>Versions\<close>

lemma CheckVersion_iff:
  "path \<noteq> [] \<Longrightarrow> (snd (CheckVersionWithEnvironment path stdout None) = None) \<longleftrightarrow>
     (\<exists>v. parseVersion stdout = Inr v \<and> (0, 74, 1) \<le> v)"
  by (auto simp: CheckVersionWithEnvironment_def less_eq_prod_def parseVersion_def
      split: sum.splits prod.splits option.splits list.splits if_splits)

end
