(* ===== verification/Sessionipc.thy ===== *)
theory Sessionipc
  imports Session_Actor
begin

text \<open>
  \<open>internal/sessionipc\<close>: the messages between the callback processes and the session (dto.go), the
  credential (auth.go, strict_listener.go), the server's request handling and admission (server.go,
  server_http_helpers.go, server_load_finalization.go) and the client's mapping of responses (client.go).

  JSON text is not modelled: what \<open>encoding/json\<close> makes of a body is the record \<open>json_decoder\<close>, an argument.
  Sockets, HTTP parsing and timeouts belong to \<open>net/http\<close>; a request is the record of the fields the
  handler reads.  The backend is a record of state transformers.
\<close>

section \<open>dto.go\<close>

record event_request =
  eq_opcode :: opcode
  eq_key :: string
  eq_query64 :: string
  eq_item64 :: string

record event_response =
  es_effect :: effect
  es_event_id :: u64

record finalize_request =
  fq_event_id :: u64
  fq_applied :: bool

record load_request =
  lq_generation :: u64
  lq_event_id :: u64

record preview_request =
  pq_phase :: string
  pq_item64 :: string
  pq_renderer :: string
  pq_duration_us :: int
  pq_child_starts :: int
  pq_max_live :: int
  pq_outcome :: string

record preview_response =
  ps_kind :: kind
  ps_path64 :: string
  ps_size :: int
  ps_mod_time :: int
  ps_mode :: "32 word"

record resolved_candidate =
  rc_kind :: kind
  rc_path :: bytes
  rc_size :: int
  rc_mod_time :: int
  rc_mode :: "32 word"

definition MaxPreviewChildStarts :: int where "MaxPreviewChildStarts = 3"
definition MaxPreviewLiveChildren :: int where "MaxPreviewLiveChildren = 1"

definition decodeBytes :: "string \<Rightarrow> bytes result" where
  "decodeBytes encoded =
     (case b64_decode StdEncoding encoded of
        None \<Rightarrow> Inl (ErrText ''invalid byte encoding'')
      | Some decoded \<Rightarrow>
          if b64_encode StdEncoding decoded \<noteq> encoded then Inl (ErrText ''invalid byte encoding'') else Inr decoded)"

definition validTelemetryValue :: "string \<Rightarrow> bool" where
  "validTelemetryValue v \<longleftrightarrow> \<not> (length v = 0 \<or> length v > 64) \<and> list_all (\<lambda>c. 33 \<le> byte_of c \<and> byte_of c \<le> 126) v"

definition no_telemetry :: "preview_request \<Rightarrow> bool" where
  "no_telemetry q \<longleftrightarrow> pq_duration_us q = 0 \<and> pq_child_starts q = 0 \<and> pq_max_live q = 0 \<and> pq_outcome q = []"

definition finished_ok :: "preview_request \<Rightarrow> bool" where
  "finished_ok q \<longleftrightarrow> validTelemetryValue (pq_renderer q) \<and> validTelemetryValue (pq_outcome q)
     \<and> 0 \<le> pq_duration_us q \<and> pq_duration_us q \<le> 10000000
     \<and> 0 \<le> pq_child_starts q \<and> pq_child_starts q \<le> MaxPreviewChildStarts
     \<and> 0 \<le> pq_max_live q \<and> pq_max_live q \<le> MaxPreviewLiveChildren \<and> pq_max_live q \<le> pq_child_starts q
     \<and> \<not> (pq_renderer q = ''native'' \<and> (pq_child_starts q \<noteq> 0 \<or> pq_max_live q \<noteq> 0))"

definition validatePreview :: "preview_request \<Rightarrow> go_error option" where
  "validatePreview q =
     (if pq_item64 q = [] then Some (ErrText ''missing current item'')
      else if pq_phase q = ''resolve''
      then if pq_renderer q \<noteq> [] \<or> \<not> no_telemetry q then Some (ErrText ''invalid resolve telemetry'') else None
      else if pq_phase q = ''started''
      then if \<not> validTelemetryValue (pq_renderer q) \<or> \<not> no_telemetry q then Some (ErrText ''invalid started telemetry'') else None
      else if pq_phase q = ''finished''
      then if \<not> finished_ok q then Some (ErrText ''invalid finished telemetry'') else None
      else Some (ErrText ''invalid preview phase''))"

section \<open>auth.go, strict_listener.go\<close>

text \<open>A token is its 32 bytes.\<close>

type_synonym token = bytes

definition token_size :: nat where "token_size = 32"

definition token_String :: "token \<Rightarrow> string" where
  "token_String t = b64_encode RawURLEncoding t"

definition parseToken :: "string \<Rightarrow> token result" where
  "parseToken raw =
     (case b64_decode RawURLEncoding raw of
        None \<Rightarrow> Inl (ErrText ''invalid IPC credential'')
      | Some decoded \<Rightarrow>
          if length decoded \<noteq> token_size \<or> b64_encode RawURLEncoding decoded \<noteq> raw
          then Inl (ErrText ''invalid IPC credential'') else Inr decoded)"

definition bearer :: string where "bearer = ''Bearer ''"

definition authorized :: "token \<Rightarrow> string list \<Rightarrow> bool" where
  "authorized t headers =
     (case headers of
        [header] \<Rightarrow>
          let want = bearer @ token_String t in
          if length header \<noteq> length want \<or> \<not> has_prefix header bearer then False else header = want
      | _ \<Rightarrow> False)"

text \<open>\<open>bytes.Split\<close> at carriage return, line feed.\<close>

fun split_crlf :: "bytes \<Rightarrow> bytes list" where
  "split_crlf [] = [[]]"
| "split_crlf [c] = [[c]]"
| "split_crlf (c # d # s) =
     (if c = CR \<and> d = LF then [] # split_crlf s
      else case split_crlf (d # s) of [] \<Rightarrow> [[c]] | p # ps \<Rightarrow> (c # p) # ps)"

definition token_byte :: "char \<Rightarrow> bool" where
  "token_byte c = (let b = byte_of c in
     (97 \<le> b \<and> b \<le> 122) \<or> (65 \<le> b \<and> b \<le> 90) \<or> (48 \<le> b \<and> b \<le> 57) \<or> c = CHR ''_'' \<or> c = CHR ''-'')"

definition rawURLToken :: "bytes \<Rightarrow> bool" where
  "rawURLToken t = list_all token_byte t"

text \<open>
  \<open>bytes.EqualFold\<close> against \<open>Authorization\<close>: none of its letters has a case variant outside ASCII.
\<close>

definition lower_ascii :: "char \<Rightarrow> char" where
  "lower_ascii c = (if 65 \<le> byte_of c \<and> byte_of c \<le> 90 then char_of (byte_of c + 32) else c)"

definition is_authorization :: "bytes \<Rightarrow> bool" where
  "is_authorization name \<longleftrightarrow> map lower_ascii name = ''authorization''"

fun scan_authorization :: "nat \<Rightarrow> bytes list \<Rightarrow> bool" where
  "scan_authorization seen [] = (seen = 1)"
| "scan_authorization seen (line # lines) =
     (case index_byte line (CHR '':'') of
        None \<Rightarrow> scan_authorization seen lines
      | Some colon \<Rightarrow>
          if \<not> is_authorization (take colon line) then scan_authorization seen lines
          else let val = drop (Suc colon) line; prefix = CHR '' '' # bearer in
               if length val \<noteq> length prefix + length (token_String (replicate token_size NUL)) \<or> \<not> has_prefix val prefix
                  \<or> \<not> rawURLToken (drop (length prefix) val)
               then False else scan_authorization (Suc seen) lines)"

definition validRawAuthorization :: "bytes \<Rightarrow> bool" where
  "validRawAuthorization header = scan_authorization 0 (tl (split_crlf header))"

section \<open>server.go: admission\<close>

definition maxHandlers :: nat where "maxHandlers = 16"

record server =
  sv_in_flight :: nat
  sv_closing :: bool

definition admit :: "server \<Rightarrow> bool \<times> server" where
  "admit s =
     (if sv_closing s then (False, s)
      else if sv_in_flight s < maxHandlers then (True, s\<lparr>sv_in_flight := Suc (sv_in_flight s)\<rparr>)
      else (False, s))"

definition release :: "server \<Rightarrow> server" where
  "release s = s\<lparr>sv_in_flight := sv_in_flight s - 1\<rparr>"

definition begin_close :: "server \<Rightarrow> server" where
  "begin_close s = s\<lparr>sv_closing := True\<rparr>"

section \<open>server.go: requests\<close>

datatype request_body = BodyTooLarge | BodyFailed | BodyBytes bytes

record http_request =
  rq_uri :: string
  rq_raw_query :: string
  rq_raw_path :: string
  rq_method :: string
  rq_raw_auth :: bool
  rq_authorization :: "string list"
  rq_content_type :: string
  rq_body :: request_body

datatype payload = ErrorText | EventBody event_response | LoadBody bytes | DisplayBody string
  | PreviewBody preview_response | EmptyBody

record http_response =
  rs_status :: nat
  rs_payload :: payload

definition writeError :: "nat \<Rightarrow> http_response" where
  "writeError status = \<lparr>rs_status = status, rs_payload = ErrorText\<rparr>"

definition routes :: "string list" where
  "routes = [''/v1/event'', ''/v1/event/finalize'', ''/v1/load'', ''/v1/load/finalize'', ''/v1/display'', ''/v1/preview'']"

definition canonicalRoute :: "http_request \<Rightarrow> string option" where
  "canonicalRoute q =
     (if rq_raw_query q \<noteq> [] \<or> rq_raw_path q \<noteq> [] then None
      else if rq_uri q \<in> set routes then Some (rq_uri q) else None)"

definition ErrInvalidLoad :: go_error where "ErrInvalidLoad = ErrText ''invalid IPC load reservation''"

definition backend_status :: "go_error \<Rightarrow> nat" where
  "backend_status e =
     (if errors_is e ErrUnknownRecord \<or> errors_is e ErrStaleGeneration then 404
      else if errors_is e ErrInvalidLoad \<or> errors_is e ErrInvalidEvent \<or> errors_is e ErrInvalidNavigation then 400
      else 500)"

definition writeBackendError :: "go_error \<Rightarrow> http_response" where
  "writeBackendError e = writeError (backend_status e)"

text \<open>The decoders: \<^const>\<open>None\<close> when \<open>decodeObject\<close> fails; absent fields of a finalization stay absent.\<close>

record json_decoder =
  js_event :: "bytes \<Rightarrow> event_request option"
  js_finalize :: "bytes \<Rightarrow> (u64 option \<times> bool option) option"
  js_load :: "bytes \<Rightarrow> load_request option"
  js_display :: "bytes \<Rightarrow> unit option"
  js_preview :: "bytes \<Rightarrow> preview_request option"

record 'b backend =
  be_handle :: "event \<Rightarrow> 'b \<Rightarrow> event_response result \<times> 'b"
  be_load :: "load_request \<Rightarrow> 'b \<Rightarrow> bytes result \<times> 'b"
  be_header :: "'b \<Rightarrow> string result \<times> 'b"
  be_resolve :: "bytes \<Rightarrow> 'b \<Rightarrow> resolved_candidate result \<times> 'b"
  be_record :: "preview_request \<Rightarrow> 'b \<Rightarrow> go_error option \<times> 'b"
  be_finalize_event :: "(finalize_request \<Rightarrow> 'b \<Rightarrow> go_error option \<times> 'b) option"
  be_finalize_load :: "(finalize_request \<Rightarrow> 'b \<Rightarrow> go_error option \<times> 'b) option"

definition run_finalizer :: "(finalize_request \<Rightarrow> 'b \<Rightarrow> go_error option \<times> 'b) option \<Rightarrow> finalize_request \<Rightarrow> 'b \<Rightarrow> go_error option \<times> 'b" where
  "run_finalizer f q b =
     (if fq_event_id q = 0 then (None, b) else case f of None \<Rightarrow> (None, b) | Some fin \<Rightarrow> fin q b)"

definition finalizeEvent :: "'b backend \<Rightarrow> finalize_request \<Rightarrow> 'b \<Rightarrow> go_error option \<times> 'b" where
  "finalizeEvent be q b = run_finalizer (be_finalize_event be) q b"

definition finalizeLoad :: "'b backend \<Rightarrow> finalize_request \<Rightarrow> 'b \<Rightarrow> go_error option \<times> 'b" where
  "finalizeLoad be q b = run_finalizer (be_finalize_load be) q b"

text \<open>\<open>sent\<close>: whether the response could be written to the connection.\<close>

definition handleEvent :: "json_decoder \<Rightarrow> 'b backend \<Rightarrow> bool \<Rightarrow> bytes \<Rightarrow> 'b \<Rightarrow> http_response \<times> 'b" where
  "handleEvent js be sent body b =
     (case js_event js body of
        None \<Rightarrow> (writeError 400, b)
      | Some input \<Rightarrow>
          (case decodeBytes (eq_query64 input) of
             Inl _ \<Rightarrow> (writeError 400, b)
           | Inr query \<Rightarrow>
               (case decodeBytes (eq_item64 input) of
                  Inl _ \<Rightarrow> (writeError 400, b)
                | Inr current \<Rightarrow>
                    (case be_handle be \<lparr>ev_opcode = eq_opcode input, ev_key = eq_key input, ev_query = query, ev_current_item = current\<rparr> b of
                       (Inl e, b') \<Rightarrow> (writeBackendError e, b')
                     | (Inr res, b') \<Rightarrow>
                         (\<lparr>rs_status = 200, rs_payload = EventBody res\<rparr>,
                          if sent then b' else snd (finalizeEvent be \<lparr>fq_event_id = es_event_id res, fq_applied = False\<rparr> b'))))))"

definition handleFinalization ::
  "json_decoder \<Rightarrow> (finalize_request \<Rightarrow> 'b \<Rightarrow> go_error option \<times> 'b) \<Rightarrow> bytes \<Rightarrow> 'b \<Rightarrow> http_response \<times> 'b" where
  "handleFinalization js finalize body b =
     (case js_finalize js body of
        Some (Some i, Some applied) \<Rightarrow>
          if i = 0 then (writeError 400, b)
          else (case finalize \<lparr>fq_event_id = i, fq_applied = applied\<rparr> b of
                  (Some e, b') \<Rightarrow> (writeBackendError e, b')
                | (None, b') \<Rightarrow> (\<lparr>rs_status = 204, rs_payload = EmptyBody\<rparr>, b'))
      | _ \<Rightarrow> (writeError 400, b))"

definition handleEventFinalization :: "json_decoder \<Rightarrow> 'b backend \<Rightarrow> bytes \<Rightarrow> 'b \<Rightarrow> http_response \<times> 'b" where
  "handleEventFinalization js be body b = handleFinalization js (finalizeEvent be) body b"

definition handleLoadFinalization :: "json_decoder \<Rightarrow> 'b backend \<Rightarrow> bytes \<Rightarrow> 'b \<Rightarrow> http_response \<times> 'b" where
  "handleLoadFinalization js be body b = handleFinalization js (finalizeLoad be) body b"

definition handleLoad :: "json_decoder \<Rightarrow> 'b backend \<Rightarrow> bool \<Rightarrow> bytes \<Rightarrow> 'b \<Rightarrow> http_response \<times> 'b" where
  "handleLoad js be sent body b =
     (case js_load js body of
        None \<Rightarrow> (writeError 400, b)
      | Some input \<Rightarrow>
          if lq_generation input = 0 then (writeError 400, b)
          else (case be_load be input b of
                  (Inl e, b') \<Rightarrow> (writeBackendError e, b')
                | (Inr data, b') \<Rightarrow>
                    (\<lparr>rs_status = 200, rs_payload = LoadBody data\<rparr>,
                     if \<not> sent \<and> lq_event_id input \<noteq> 0
                     then snd (finalizeLoad be \<lparr>fq_event_id = lq_event_id input, fq_applied = False\<rparr> b') else b')))"

definition handleDisplay :: "json_decoder \<Rightarrow> 'b backend \<Rightarrow> bytes \<Rightarrow> 'b \<Rightarrow> http_response \<times> 'b" where
  "handleDisplay js be body b =
     (case js_display js body of
        None \<Rightarrow> (writeError 400, b)
      | Some _ \<Rightarrow>
          (case be_header be b of
             (Inl e, b') \<Rightarrow> (writeBackendError e, b')
           | (Inr header, b') \<Rightarrow> (\<lparr>rs_status = 200, rs_payload = DisplayBody header\<rparr>, b')))"

definition handlePreview :: "json_decoder \<Rightarrow> 'b backend \<Rightarrow> bytes \<Rightarrow> 'b \<Rightarrow> http_response \<times> 'b" where
  "handlePreview js be body b =
     (case js_preview js body of
        None \<Rightarrow> (writeError 400, b)
      | Some input \<Rightarrow>
          if validatePreview input \<noteq> None then (writeError 400, b)
          else (case decodeBytes (pq_item64 input) of
                  Inl _ \<Rightarrow> (writeError 400, b)
                | Inr current \<Rightarrow>
                    if current = [] then (writeError 400, b)
                    else (case be_resolve be current b of
                            (Inl e, b') \<Rightarrow> (writeBackendError e, b')
                          | (Inr c, b') \<Rightarrow>
                              if rc_kind c = KindVirtual \<or> rc_path c = [] \<or> \<not> is_abs (rc_path c) then (writeError 404, b')
                              else if pq_phase input = ''resolve''
                              then (\<lparr>rs_status = 200, rs_payload = PreviewBody \<lparr>ps_kind = rc_kind c,
                                       ps_path64 = b64_encode StdEncoding (rc_path c), ps_size = rc_size c,
                                       ps_mod_time = rc_mod_time c, ps_mode = rc_mode c\<rparr>\<rparr>, b')
                              else (case be_record be input b' of
                                      (Some e, b'') \<Rightarrow> (writeBackendError e, b'')
                                    | (None, b'') \<Rightarrow> (\<lparr>rs_status = 204, rs_payload = EmptyBody\<rparr>, b'')))))"

definition serve_route :: "json_decoder \<Rightarrow> 'b backend \<Rightarrow> bool \<Rightarrow> string \<Rightarrow> bytes \<Rightarrow> 'b \<Rightarrow> http_response \<times> 'b" where
  "serve_route js be sent route body b =
     (if route = ''/v1/event'' then handleEvent js be sent body b
      else if route = ''/v1/event/finalize'' then handleEventFinalization js be body b
      else if route = ''/v1/load'' then handleLoad js be sent body b
      else if route = ''/v1/load/finalize'' then handleLoadFinalization js be body b
      else if route = ''/v1/display'' then handleDisplay js be body b
      else handlePreview js be body b)"

definition ServeHTTP :: "json_decoder \<Rightarrow> token \<Rightarrow> 'b backend \<Rightarrow> bool \<Rightarrow> http_request \<Rightarrow> server \<Rightarrow> 'b \<Rightarrow> http_response \<times> server \<times> 'b" where
  "ServeHTTP js t be sent q s b =
     (case canonicalRoute q of
        None \<Rightarrow> (writeError 404, s, b)
      | Some route \<Rightarrow>
          if rq_method q \<noteq> ''POST'' then (writeError 405, s, b)
          else if \<not> rq_raw_auth q \<or> \<not> authorized t (rq_authorization q) then (writeError 401, s, b)
          else if rq_content_type q \<noteq> ''application/json'' then (writeError 415, s, b)
          else (case admit s of
                  (False, s') \<Rightarrow> (writeError (if sv_closing s' then 503 else 429), s', b)
                | (True, s') \<Rightarrow>
                    (case rq_body q of
                       BodyTooLarge \<Rightarrow> (writeError 413, release s', b)
                     | BodyFailed \<Rightarrow> (writeError 400, release s', b)
                     | BodyBytes body \<Rightarrow> (case serve_route js be sent route body b of (r, b') \<Rightarrow> (r, release s', b')))))"

section \<open>client.go\<close>

definition ErrUnauthorized :: go_error where "ErrUnauthorized = ErrText ''IPC request unauthorized''"
definition ErrNotFound :: go_error where "ErrNotFound = ErrText ''IPC resource not found''"
definition ErrBadRequest :: go_error where "ErrBadRequest = ErrText ''invalid IPC request''"
definition ErrTooManyRequests :: go_error where "ErrTooManyRequests = ErrText ''too many IPC requests''"
definition ErrInternal :: go_error where "ErrInternal = ErrText ''IPC request failed''"

definition statusError :: "nat \<Rightarrow> go_error option" where
  "statusError status =
     (if status = 200 \<or> status = 204 then None
      else if status = 401 then Some ErrUnauthorized
      else if status = 404 then Some ErrNotFound
      else if status = 400 \<or> status = 405 \<or> status = 415 then Some ErrBadRequest
      else if status = 429 then Some ErrTooManyRequests
      else Some ErrInternal)"

definition loadStatusError :: "nat \<Rightarrow> go_error option" where
  "loadStatusError status = (if status = 400 \<or> status = 404 then Some ErrInvalidLoad else statusError status)"

definition endpoint_prefix :: string where "endpoint_prefix = ''http://127.0.0.1:''"

definition Address :: "nat \<Rightarrow> string" where
  "Address port = endpoint_prefix @ itoa port"

text \<open>
  After the digit checks \<open>url.Parse\<close> can only yield the scheme, host and port just read, so its test never
  fails and is left out.
\<close>

definition parseEndpoint :: "string \<Rightarrow> string result" where
  "parseEndpoint raw =
     (let bad = Inl (ErrText ''invalid IPC endpoint'') in
      if \<not> has_prefix raw endpoint_prefix then bad
      else let portText = drop (length endpoint_prefix) raw in
        if portText = [] \<or> (length portText > 1 \<and> hd portText = CHR ''0'') then bad
        else if \<not> list_all is_digit portText then bad
        else if dec_value portText \<ge> 2 ^ 16 \<or> dec_value portText = 0 then bad
        else Inr raw)"

definition NewClientFromEnv :: "(string \<Rightarrow> string) option \<Rightarrow> (string \<times> token) result" where
  "NewClientFromEnv getenv =
     (case getenv of
        None \<Rightarrow> Inl (ErrText ''create IPC client: nil environment reader'')
      | Some env \<Rightarrow>
          (case parseEndpoint (env ''SHELL_PICKER_ADDR'') of
             Inl _ \<Rightarrow> Inl (ErrText ''create IPC client: invalid address'')
           | Inr address \<Rightarrow>
               (case parseToken (env ''SHELL_PICKER_TOKEN'') of
                  Inl _ \<Rightarrow> Inl (ErrText ''create IPC client: invalid credential'')
                | Inr t \<Rightarrow> Inr (address, t))))"

section \<open>Credentials\<close>

lemma parseToken_iff: "parseToken raw = Inr t \<longleftrightarrow> length t = token_size \<and> raw = token_String t"
  by (auto simp: parseToken_def token_String_def b64_decode_encode split: option.splits if_splits)

lemma authorized_iff: "authorized t headers \<longleftrightarrow> headers = [bearer @ token_String t]"
  by (auto simp: authorized_def Let_def has_prefix_conv split: list.splits)

lemma length_encode_cong:
  "length s = length t \<Longrightarrow> length (b64_encode e s) = length (b64_encode e t)"
proof (induction e s arbitrary: t rule: b64_encode.induct)
  case (4 e x y z s)
  then obtain x' y' z' t' where "t = x' # y' # z' # t'" "length s = length t'"
    by (auto simp: length_Suc_conv dest!: sym [of "Suc _"])
  with 4 show ?case by simp
qed (auto simp: length_Suc_conv dest!: sym [of "Suc _"])

lemma b64_char_token [simp]: "n < 64 \<Longrightarrow> token_byte (b64_char RawURLEncoding n)"
proof (cases "n < 62")
  case True
  then show ?thesis using b64_char_bytes [OF True, of RawURLEncoding] by (auto simp: token_byte_def Let_def)
next
  case False
  then show ?thesis by (auto simp: token_byte_def b64_char_def RawURLEncoding_def)
qed

lemma rawURLToken_encode: "rawURLToken (b64_encode RawURLEncoding s)"
proof -
  have "\<not> padded RawURLEncoding" by (simp add: RawURLEncoding_def)
  then show ?thesis unfolding rawURLToken_def by (induction RawURLEncoding s rule: b64_encode.induct) simp_all
qed

lemma split_crlf_line: "CR \<notin> set l \<Longrightarrow> split_crlf (l @ CR # LF # s) = l # split_crlf s"
proof (induction l rule: induct_list012)
  case (3 c d l)
  then show ?case by auto
qed auto

lemma split_crlf_last: "CR \<notin> set l \<Longrightarrow> split_crlf l = [l]"
  by (induction l rule: induct_list012) auto

lemma split_crlf_join:
  "ls \<noteq> [] \<Longrightarrow> \<forall>l \<in> set ls. CR \<notin> set l \<Longrightarrow> split_crlf (join_with [CR, LF] ls) = ls"
  by (induction "[CR, LF]" ls rule: join_with.induct) (auto simp: split_crlf_line split_crlf_last)

definition auth_line :: "token \<Rightarrow> bytes" where
  "auth_line t = ''Authorization: '' @ bearer @ token_String t"

definition other_line :: "bytes \<Rightarrow> bool" where
  "other_line l \<longleftrightarrow> CR \<notin> set l \<and> (case index_byte l (CHR '':'') of None \<Rightarrow> True | Some n \<Rightarrow> \<not> is_authorization (take n l))"

lemma scan_other: "list_all other_line ls \<Longrightarrow> scan_authorization n (ls @ rest) = scan_authorization n rest"
  by (induction ls) (auto simp: other_line_def split: option.splits)

lemma scan_auth_line:
  assumes "length t = token_size"
  shows "scan_authorization n (auth_line t # rest) = scan_authorization (Suc n) rest"
proof -
  have idx: "index_byte (auth_line t) (CHR '':'') = Some 13"
    by (simp add: auth_line_def eval_nat_numeral)
  have split: "take 13 (auth_line t) = ''Authorization''" "drop (Suc 13) (auth_line t) = CHR '' '' # bearer @ token_String t"
    by (simp_all add: auth_line_def eval_nat_numeral)
  have "is_authorization ''Authorization''" by (simp add: is_authorization_def, code_simp)
  moreover have "length (token_String (replicate token_size NUL)) = length (token_String t)"
    unfolding token_String_def by (rule length_encode_cong) (simp add: assms)
  moreover have "has_prefix (CHR '' '' # bearer @ token_String t) (CHR '' '' # bearer)" by (simp add: has_prefix_def)
  moreover have "drop (length (CHR '' '' # bearer)) (CHR '' '' # bearer @ token_String t) = token_String t" by simp
  ultimately show ?thesis using idx split rawURLToken_encode [of t] by (simp add: token_String_def)
qed

lemma scan_none: "list_all other_line ls \<Longrightarrow> scan_authorization n ls = (n = 1)"
  using scan_other [of ls n "[]"] by simp

text \<open>
  C35: The credential check is exact: the header \<open>Authorization: Bearer\<close> with the text of the session's token,
  sent once, passes both the check on the raw header bytes and the check on the parsed header; no other list
  of parsed headers passes, and the text that names a token in the environment is parsed only in its one
  canonical form, back to that token.
\<close>

theorem credential_exact:
  assumes "length t = token_size" and "CR \<notin> set request_line" and "list_all other_line before" and "list_all other_line after"
  shows "validRawAuthorization (join_with [CR, LF] (request_line # before @ auth_line t # after))
    \<and> (authorized t headers \<longleftrightarrow> headers = [bearer @ token_String t])
    \<and> (parseToken raw = Inr t \<longleftrightarrow> raw = token_String t)"
proof (intro conjI)
  have sym: "c \<noteq> CR" if "c \<in> set (token_String t)" for c
    using b64_encode_clean [OF wf_RawURLEncoding] that by (auto simp: token_String_def not_newline_def)
  then have "CR \<notin> set (auth_line t)" by (auto simp: auth_line_def bearer_def char_consts)
  with assms have "\<forall>l \<in> set (request_line # before @ auth_line t # after). CR \<notin> set l"
    by (auto simp: list_all_iff other_line_def)
  then have "split_crlf (join_with [CR, LF] (request_line # before @ auth_line t # after)) = request_line # before @ auth_line t # after"
    by (intro split_crlf_join) auto
  then show "validRawAuthorization (join_with [CR, LF] (request_line # before @ auth_line t # after))"
    using assms by (simp add: validRawAuthorization_def scan_other scan_auth_line scan_none del: scan_authorization.simps(2))
  show "authorized t headers \<longleftrightarrow> headers = [bearer @ token_String t]" by (rule authorized_iff)
  show "parseToken raw = Inr t \<longleftrightarrow> raw = token_String t" using assms(1) by (simp add: parseToken_iff)
qed

theorem credential_exact_witness:
  "parseToken (token_String (replicate 32 NUL)) = Inr (replicate 32 NUL)
   \<and> validRawAuthorization (join_with [CR, LF] [''POST /v1/load HTTP/1.1'', auth_line (replicate 32 NUL)])"
  using credential_exact [of "replicate 32 NUL" "''POST /v1/load HTTP/1.1''" "[]" "[]" "[]" "token_String (replicate 32 NUL)"]
  by (simp add: token_size_def char_consts)

section \<open>Admission\<close>

text \<open>The concurrent requests, seen from the semaphore: each is admitted and later released, in any interleaving.\<close>

inductive server_step :: "server \<Rightarrow> server \<Rightarrow> bool" where
  server_admit: "admit s = (ok, s') \<Longrightarrow> server_step s s'"
| server_release: "0 < sv_in_flight s \<Longrightarrow> server_step s (release s)"
| server_close: "server_step s (begin_close s)"

interpretation handlers: transition_system "\<lambda>s. s = \<lparr>sv_in_flight = 0, sv_closing = False\<rparr>" server_step "\<lambda>s. sv_in_flight s \<le> maxHandlers"
proof
  show "sv_in_flight t \<le> maxHandlers" if "sv_in_flight s \<le> maxHandlers" "server_step s t" for s t
    using that(2,1) by cases (auto simp: admit_def release_def begin_close_def split: if_splits)
qed simp

interpretation closing: monotone_system "\<lambda>s. sv_closing s" server_step "\<lambda>s. sv_closing s" "\<lambda>s. maxHandlers - sv_in_flight s"
proof
  show "sv_closing t" if "sv_closing s" "server_step s t" for s t
    using that(2,1) by cases (auto simp: admit_def release_def begin_close_def)
  show "maxHandlers - sv_in_flight s \<le> maxHandlers - sv_in_flight t" if "sv_closing s" "server_step s t" for s t
    using that(2,1) by cases (auto simp: admit_def release_def begin_close_def)
qed simp

text \<open>
  The server never runs more than sixteen handlers, in any interleaving of requests, and once it is closing
  no further request is admitted, so the number of running handlers only falls from then on.
\<close>

theorem server_admission:
  assumes "reach (\<lambda>s. s = \<lparr>sv_in_flight = 0, sv_closing = False\<rparr>) server_step s"
  shows "sv_in_flight s \<le> maxHandlers
    \<and> (sv_closing s \<longrightarrow> (\<forall>t. server_step\<^sup>*\<^sup>* s t \<longrightarrow> \<not> fst (admit t) \<and> sv_in_flight t \<le> sv_in_flight s))"
proof (intro conjI impI allI)
  show le: "sv_in_flight s \<le> maxHandlers" using assms by (rule handlers.reach_inv)
  fix t
  assume run: "sv_closing s" "server_step\<^sup>*\<^sup>* s t"
  then have "sv_closing t" by (rule closing.steps_inv)
  then show "\<not> fst (admit t)" by (simp add: admit_def)
  show "sv_in_flight t \<le> sv_in_flight s"
    using closing.steps_rank [OF run] handlers.steps_inv [OF le run(2)] le by linarith
qed

theorem server_admission_witness:
  "sv_in_flight \<lparr>sv_in_flight = 0, sv_closing = True\<rparr> \<le> maxHandlers \<and> \<not> fst (admit \<lparr>sv_in_flight = 0, sv_closing = True\<rparr>)"
proof -
  have "server_step \<lparr>sv_in_flight = 0, sv_closing = False\<rparr> \<lparr>sv_in_flight = 0, sv_closing = True\<rparr>"
    using server_close [of "\<lparr>sv_in_flight = 0, sv_closing = False\<rparr>"] by (simp add: begin_close_def)
  then have "reach (\<lambda>s. s = \<lparr>sv_in_flight = 0, sv_closing = False\<rparr>) server_step \<lparr>sv_in_flight = 0, sv_closing = True\<rparr>"
    by (blast intro: reach_start reach_next)
  from server_admission [OF this] show ?thesis by auto
qed

section \<open>Requests\<close>

lemma admit_release: "admit s = (True, s') \<Longrightarrow> release s' = s"
  by (auto simp: admit_def release_def split: if_splits)

definition request_ok :: "token \<Rightarrow> http_request \<Rightarrow> bool" where
  "request_ok t q \<longleftrightarrow> rq_uri q \<in> set routes \<and> rq_raw_query q = [] \<and> rq_method q = ''POST'' \<and> rq_raw_auth q
    \<and> rq_authorization q = [bearer @ token_String t] \<and> rq_content_type q = ''application/json''"

lemma refusal: "n \<in> {404, 405, 401, 415, 503, 429, 413, 400} \<Longrightarrow> statusError (rs_status (writeError n)) \<noteq> None"
  by (auto simp: writeError_def statusError_def)

lemma ServeHTTP_cases:
  assumes "ServeHTTP js t be sent q s b = (r, s', b')"
  shows "s' = s \<and> (request_ok t q \<and> fst (admit s) \<or> b' = b \<and> (\<exists>n \<in> {404, 405, 401, 415, 503, 429}. r = writeError n))"
proof (cases "canonicalRoute q")
  case None
  with assms show ?thesis by (auto simp: ServeHTTP_def)
next
  case (Some route)
  then have route: "rq_uri q \<in> set routes" "rq_raw_query q = []" by (auto simp: canonicalRoute_def split: if_splits)
  show ?thesis
  proof (cases "request_ok t q")
    case False
    with assms Some route show ?thesis by (auto simp: ServeHTTP_def request_ok_def authorized_iff split: if_splits)
  next
    case ok: True
    then have served: "ServeHTTP js t be sent q s b = (case admit s of
        (False, s') \<Rightarrow> (writeError (if sv_closing s' then 503 else 429), s', b)
      | (True, s') \<Rightarrow> (case rq_body q of
                       BodyTooLarge \<Rightarrow> (writeError 413, release s', b)
                     | BodyFailed \<Rightarrow> (writeError 400, release s', b)
                     | BodyBytes body \<Rightarrow> (case serve_route js be sent route body b of (r, b') \<Rightarrow> (r, release s', b'))))"
      using Some by (simp add: ServeHTTP_def request_ok_def authorized_iff)
    show ?thesis
    proof (cases "fst (admit s)")
      case True
      then obtain u where u: "admit s = (True, u)" by (metis prod.collapse)
      then have "release u = s" by (rule admit_release)
      with assms ok True u show ?thesis unfolding served by (auto split: request_body.splits prod.splits)
    next
      case False
      then have "admit s = (False, s)" by (auto simp: admit_def split: if_splits)
      with assms show ?thesis unfolding served by auto
    qed
  qed
qed

text \<open>
  C34: No request reaches the backend without the credential: if serving a request changes the backend or
  succeeds, it was a POST to one of the six exact routes with no query, carried exactly the one header with
  the session's token, passed the raw check, had a JSON content type, and was admitted while the server was
  open; and whatever the request, the handler slot it took is given back.
\<close>

theorem ServeHTTP_guarded:
  assumes "ServeHTTP js t be sent q s b = (r, s', b')"
  shows "s' = s \<and> (b' \<noteq> b \<or> statusError (rs_status r) = None \<longrightarrow>
    rq_uri q \<in> set routes \<and> rq_raw_query q = [] \<and> rq_method q = ''POST'' \<and> rq_raw_auth q
    \<and> rq_authorization q = [bearer @ token_String t] \<and> rq_content_type q = ''application/json''
    \<and> \<not> sv_closing s \<and> sv_in_flight s < maxHandlers)"
proof -
  have "request_ok t q \<and> fst (admit s)" if "b' \<noteq> b \<or> statusError (rs_status r) = None"
    using ServeHTTP_cases [OF assms] that refusal by blast
  moreover have "\<not> sv_closing s \<and> sv_in_flight s < maxHandlers" if "fst (admit s)"
    using that by (auto simp: admit_def split: if_splits)
  ultimately show ?thesis using ServeHTTP_cases [OF assms] unfolding request_ok_def by blast
qed

definition demo_backend :: "nat backend" where
  "demo_backend = \<lparr>be_handle = (\<lambda>e n. (Inr \<lparr>es_effect = no_effect, es_event_id = 1\<rparr>, Suc n)), be_load = (\<lambda>q n. (Inr [], Suc n)),
     be_header = (\<lambda>n. (Inr ''x'', Suc n)), be_resolve = (\<lambda>c n. (Inl ErrUnknownRecord, n)), be_record = (\<lambda>q n. (None, n)),
     be_finalize_event = None, be_finalize_load = None\<rparr>"

definition demo_json :: json_decoder where
  "demo_json = \<lparr>js_event = (\<lambda>_. None), js_finalize = (\<lambda>_. None), js_load = (\<lambda>_. None), js_display = (\<lambda>_. Some ()), js_preview = (\<lambda>_. None)\<rparr>"

definition demo_request :: http_request where
  "demo_request = \<lparr>rq_uri = ''/v1/display'', rq_raw_query = [], rq_raw_path = [], rq_method = ''POST'', rq_raw_auth = True,
     rq_authorization = [bearer @ token_String []], rq_content_type = ''application/json'', rq_body = BodyBytes ''{}''\<rparr>"

theorem ServeHTTP_guarded_witness:
  "\<exists>r b'. ServeHTTP demo_json [] demo_backend True demo_request \<lparr>sv_in_flight = 3, sv_closing = False\<rparr> 0
      = (r, \<lparr>sv_in_flight = 3, sv_closing = False\<rparr>, b') \<and> b' \<noteq> 0 \<and> rq_raw_auth demo_request"
proof -
  let ?s = "\<lparr>sv_in_flight = 3, sv_closing = False\<rparr>"
  have run: "ServeHTTP demo_json [] demo_backend True demo_request ?s 0 = (\<lparr>rs_status = 200, rs_payload = DisplayBody ''x''\<rparr>, ?s, 1)"
    by (simp add: ServeHTTP_def demo_request_def canonicalRoute_def routes_def authorized_iff admit_def maxHandlers_def release_def
        serve_route_def handleDisplay_def demo_json_def demo_backend_def)
  from ServeHTTP_guarded [OF run] run show ?thesis by auto
qed

lemma parseEndpoint_Address: "0 < port \<Longrightarrow> port < 65536 \<Longrightarrow> parseEndpoint (Address port) = Inr (Address port)"
  by (simp add: parseEndpoint_def Address_def itoa_hd)

text \<open>
  A callback process reaches its own session: from the address and the token text that the server
  publishes in the environment the client recovers exactly that address and that token.
\<close>

theorem NewClientFromEnv_roundtrip:
  assumes "0 < port" and "port < 65536" and "length t = token_size"
    and "env ''SHELL_PICKER_ADDR'' = Address port" and "env ''SHELL_PICKER_TOKEN'' = token_String t"
  shows "NewClientFromEnv (Some env) = Inr (Address port, t)"
proof -
  have "parseToken (token_String t) = Inr t" using assms(3) by (simp add: parseToken_iff)
  with assms parseEndpoint_Address show ?thesis by (simp add: NewClientFromEnv_def)
qed

theorem NewClientFromEnv_roundtrip_witness:
  "NewClientFromEnv (Some (\<lambda>n. if n = ''SHELL_PICKER_ADDR'' then Address 8080 else token_String (replicate 32 NUL)))
     = Inr (Address 8080, replicate 32 NUL)"
  by (rule NewClientFromEnv_roundtrip) (simp_all add: token_size_def)

text \<open>What the client reports for an error of the backend.\<close>

lemma backend_error_reported:
  "statusError (backend_status e) = Some (if errors_is e ErrUnknownRecord \<or> errors_is e ErrStaleGeneration then ErrNotFound
     else if errors_is e ErrInvalidLoad \<or> errors_is e ErrInvalidEvent \<or> errors_is e ErrInvalidNavigation then ErrBadRequest
     else ErrInternal)"
  by (simp add: backend_status_def statusError_def)

end
