(* ===== verification/Callback.thy ===== *)
theory Callback
  imports Fzf_Action Sessionipc
begin

text \<open>
  \<open>internal/callback\<close> and \<open>internal/finderinfo\<close>: the commands fzf sends back (grammar.go, validation.go), the
  text it displays (display.go, info.go, cursor_unix.go) and the dispatch of a command to the session
  (dispatch.go).

  The environment is a function from names to values.  A dispatch is a function of what the session answers;
  its effects, the calls made to the session and the bytes written to fzf, are its result.  Tracing is
  not modelled.
\<close>

section \<open>grammar.go\<close>

datatype cb_kind = CbEvent | CbLoad | CbPreview | CbDisplay | CbInfo | CbEmptySource | CbInvalidPreview | CbOther nat

record cb_command =
  cc_kind :: cb_kind
  cc_opcode :: opcode
  cc_generation :: u64
  cc_event_id :: u64
  cc_picker :: picker

definition plain_command :: "cb_kind \<Rightarrow> cb_command" where
  "plain_command k = \<lparr>cc_kind = k, cc_opcode = OpOther [], cc_generation = 0, cc_event_id = 0, cc_picker = PickerOther []\<rparr>"

definition command_Local :: "cb_command \<Rightarrow> bool" where
  "command_Local c \<longleftrightarrow> cc_kind c = CbInfo \<or> cc_kind c = CbEmptySource \<or> cc_kind c = CbInvalidPreview"

definition ErrGrammar :: go_error where "ErrGrammar = ErrText ''callback: invalid command grammar''"

definition event_table :: "(string \<times> opcode) list" where
  "event_table = [(''e:mi'', OpModeInsert), (''e:ma'', OpModeAdd), (''e:es'', OpEscape), (''e:fw'', OpForward), (''e:up'', OpParent),
     (''e:sl'', OpSlash), (''e:hm'', OpHome), (''e:en'', OpEnter), (''e:rs'', OpRestoreView)]"

text \<open>The checks on one number: no leading zero, digits only, in range (the comparison with the maximum cannot fail).\<close>

definition parse_id :: "string \<Rightarrow> u64 option" where
  "parse_id part =
     (if part = [] \<or> part = ''0'' \<or> hd part = CHR ''0'' then None
      else if \<not> list_all is_digit part then None
      else case parse_uint64 part of None \<Rightarrow> None | Some n \<Rightarrow> if n = 0 then None else Some n)"

definition parse_load :: "string \<Rightarrow> cb_command result" where
  "parse_load digits =
     (let parts = split_on (CHR '':'') digits in
      if length parts > 2 then Inl ErrGrammar
      else case parse_id (parts ! 0) of
             None \<Rightarrow> Inl ErrGrammar
           | Some g \<Rightarrow>
               if length parts = 2
               then (case parse_id (parts ! 1) of
                       None \<Rightarrow> Inl ErrGrammar
                     | Some i \<Rightarrow> Inr ((plain_command CbLoad)\<lparr>cc_generation := g, cc_event_id := i\<rparr>))
               else Inr ((plain_command CbLoad)\<lparr>cc_generation := g\<rparr>))"

definition Parse :: "string \<Rightarrow> cb_command result" where
  "Parse raw =
     (case map_of event_table raw of
        Some x \<Rightarrow> Inr ((plain_command CbEvent)\<lparr>cc_opcode := x\<rparr>)
      | None \<Rightarrow>
          if raw = ''p'' then Inr (plain_command CbPreview)
          else if raw = ''d'' then Inr (plain_command CbDisplay)
          else if raw = ''i:cd'' then Inr ((plain_command CbInfo)\<lparr>cc_picker := PickerCD\<rparr>)
          else if raw = ''i:cp'' then Inr ((plain_command CbInfo)\<lparr>cc_picker := PickerCP\<rparr>)
          else if raw = ''l:empty'' then Inr (plain_command CbEmptySource)
          else if raw = ''p:invalid'' then Inr (plain_command CbInvalidPreview)
          else if \<not> has_prefix raw ''l:'' then Inl ErrGrammar
          else parse_load (drop 2 raw))"

section \<open>validation.go\<close>

definition ErrKey :: go_error where "ErrKey = ErrText ''callback: unexpected fzf key''"

definition validKey :: "opcode \<Rightarrow> string \<Rightarrow> bool" where
  "validKey x key =
     (case x of
        OpModeInsert \<Rightarrow> key = ''i''
      | OpModeAdd \<Rightarrow> key = ''a''
      | OpEscape \<Rightarrow> key = ''esc''
      | OpForward \<Rightarrow> key \<in> {''ctrl-l'', ''tab'', ''right'', ''l''}
      | OpParent \<Rightarrow> key \<in> {''ctrl-h'', ''left'', ''h''}
      | OpSlash \<Rightarrow> key = ''/''
      | OpHome \<Rightarrow> key = ''~''
      | OpEnter \<Rightarrow> key = ''enter''
      | _ \<Rightarrow> False)"

definition ValidateLocal :: "cb_command \<Rightarrow> (string \<Rightarrow> string) option \<Rightarrow> go_error option" where
  "ValidateLocal c lookup =
     (case lookup of
        None \<Rightarrow> Some (ErrText ''callback: nil environment reader'')
      | Some env \<Rightarrow>
          (case cc_kind c of
             CbEvent \<Rightarrow> if cc_opcode c \<noteq> OpRestoreView \<and> \<not> validKey (cc_opcode c) (env ''FZF_KEY'') then Some ErrKey else None
           | CbOther _ \<Rightarrow> Some ErrGrammar
           | _ \<Rightarrow> None))"

section \<open>info.go\<close>

definition MaxCount :: int where "MaxCount = 1000000000"

definition ErrInvalidCount :: go_error where "ErrInvalidCount = ErrText ''finderinfo: invalid count''"

definition validCount :: "int \<Rightarrow> bool" where
  "validCount v \<longleftrightarrow> 0 \<le> v \<and> v \<le> MaxCount"

definition ValidateCounts :: "picker \<Rightarrow> int \<Rightarrow> int \<Rightarrow> int \<Rightarrow> go_error option" where
  "ValidateCounts p matched all selected =
     (case p of
        PickerOther _ \<Rightarrow> Some (ErrText ''finderinfo: invalid picker'')
      | _ \<Rightarrow> if \<not> validCount matched \<or> \<not> validCount all \<or> \<not> validCount selected then Some ErrInvalidCount else None)"

definition Format :: "picker \<Rightarrow> int \<Rightarrow> int \<Rightarrow> int \<Rightarrow> string result" where
  "Format p matched all selected =
     (case ValidateCounts p matched all selected of
        Some e \<Rightarrow> Inl e
      | None \<Rightarrow>
          let base = itoa (nat matched) @ ''/'' @ itoa (nat all) in
          if p = PickerCP \<and> selected > 0 then Inr (base @ '' ('' @ itoa (nat selected) @ '')'') else Inr base)"

section \<open>display.go\<close>

definition maxDisplayDimension :: int where "maxDisplayDimension = 1000"

definition parseCanonicalDecimal :: "string \<Rightarrow> int \<Rightarrow> nat \<Rightarrow> bool \<Rightarrow> int option" where
  "parseCanonicalDecimal raw maximum maxDigits allowZero =
     (if raw = [] \<or> length raw > maxDigits \<or> (length raw > 1 \<and> hd raw = CHR ''0'') then None
      else if \<not> list_all is_digit raw then None
      else case atoi raw of
             None \<Rightarrow> None
           | Some v \<Rightarrow> if v > maximum \<or> (v = 0 \<and> \<not> allowZero) then None else Some v)"

definition finderInfo :: "picker \<Rightarrow> (string \<Rightarrow> string) \<Rightarrow> string" where
  "finderInfo p env =
     (case (parseCanonicalDecimal (env ''FZF_MATCH_COUNT'') MaxCount 10 True, parseCanonicalDecimal (env ''FZF_TOTAL_COUNT'') MaxCount 10 True,
            parseCanonicalDecimal (env ''FZF_SELECT_COUNT'') MaxCount 10 True) of
        (Some matched, Some all, Some selected) \<Rightarrow>
          (case Format p matched all selected of Inl _ \<Rightarrow> [] | Inr text \<Rightarrow> text)
      | _ \<Rightarrow> [])"

definition displayCellWidth :: "rune \<Rightarrow> int" where
  "displayCellWidth r = (if 32 \<le> r \<and> r \<le> 126 then 1 else 2)"

definition stringCellWidth :: "bytes \<Rightarrow> int" where
  "stringCellWidth v = sum_list (map displayCellWidth (runes v))"

text \<open>The loop of \<open>trailingCells\<close>: \<open>p\<close> is \<open>value[:start]\<close>; the result is the final \<open>start\<close>.\<close>

function trailing_start :: "bytes \<Rightarrow> int \<Rightarrow> int \<Rightarrow> nat" where
  "trailing_start p maximum width =
     (if p = [] then 0
      else let (r, size) = decode_last_rune p; cellWidth = displayCellWidth r in
           if width + cellWidth > maximum then length p
           else trailing_start (take (length p - size) p) maximum (width + cellWidth))"
  by pat_completeness auto
termination
proof (relation "measure (\<lambda>(p, m, w). length p)")
  fix p :: bytes and maximum width :: int and x r size and cellWidth :: int
  assume "p \<noteq> []" "x = decode_last_rune p" "(r, size) = x"
  then have "0 < size" "p \<noteq> []" using decode_last_rune_size [of p] by (metis snd_conv)+
  then show "((take (length p - size) p, maximum, width + cellWidth), (p, maximum, width)) \<in> measure (\<lambda>(p, m, w). length p)"
    by (cases p) auto
qed simp

declare trailing_start.simps [simp del]

definition trailingCells :: "bytes \<Rightarrow> int \<Rightarrow> bytes" where
  "trailingCells v maximum = drop (trailing_start v maximum 0) v"

text \<open>The marker is two middle dots.\<close>

definition marker :: bytes where
  "marker = [CHR 0xC2, CHR 0xB7, CHR 0xC2, CHR 0xB7]"

definition content_width :: "(string \<Rightarrow> string) \<Rightarrow> int option" where
  "content_width env =
     (case parseCanonicalDecimal (env ''FZF_COLUMNS'') maxDisplayDimension 4 False of
        None \<Rightarrow> None
      | Some columns \<Rightarrow>
          if env ''FZF_PREVIEW_COLUMNS'' = [] then Some (columns - 4)
          else (case parseCanonicalDecimal (env ''FZF_PREVIEW_COLUMNS'') maxDisplayDimension 4 True of
                  None \<Rightarrow> None
                | Some preview \<Rightarrow>
                    if preview > 0
                    then if preview > columns - 4 then None
                         else if preview * 2 \<le> columns then Some (columns - preview - 8) else Some (columns - 4)
                    else Some (columns - 4)))"

definition visibleHeader :: "bytes \<Rightarrow> (string \<Rightarrow> string) \<Rightarrow> bytes option" where
  "visibleHeader header env =
     (if header = [] \<or> \<not> valid_utf8 header then None
      else case content_width env of
             None \<Rightarrow> None
           | Some contentWidth \<Rightarrow>
               if contentWidth \<le> 0 then None
               else if stringCellWidth header \<le> contentWidth then Some header
               else let markerWidth = stringCellWidth marker in
                 if contentWidth > markerWidth \<and> trailingCells header (contentWidth - markerWidth) \<noteq> []
                 then Some (marker @ trailingCells header (contentWidth - markerWidth))
                 else let tail = trailingCells header contentWidth in if tail \<noteq> [] then Some tail else None)"

section \<open>cursor_unix.go\<close>

definition cursorSequence :: "cursor_shape \<Rightarrow> string" where
  "cursorSequence shape =
     (case shape of CursorLine \<Rightarrow> CHR 0x1B # ''[5 q'' | CursorBlock \<Rightarrow> CHR 0x1B # ''[2 q'' | CursorOther _ \<Rightarrow> [])"

section \<open>dispatch.go\<close>

text \<open>
  The session as the dispatcher sees it, and the calls it makes.  The terminal renderer of previews is the
  argument \<open>render\<close>: the error it ends with, the telemetry of its children and what it wrote.  The telemetry
  messages themselves, whose failure the code ignores, are not listed among the calls.
\<close>

record ipc_client =
  cl_event :: "event_request \<Rightarrow> event_response result"
  cl_finalize_event :: "finalize_request \<Rightarrow> go_error option"
  cl_finalize_load :: "finalize_request \<Rightarrow> go_error option"
  cl_load :: "load_request \<Rightarrow> bytes result"
  cl_resolve :: "preview_request \<Rightarrow> preview_response result"
  cl_display :: "string result"

datatype ipc_call = CallEvent event_request | CallFinalizeEvent finalize_request | CallFinalizeLoad finalize_request
  | CallLoad load_request | CallResolve preview_request | CallDisplay

record 'w dispatched =
  di_calls :: "ipc_call list"
  di_out :: 'w
  di_err :: "go_error option"

text \<open>\<open>writeAll\<close> of this package: it keeps writing what a short write left; \<open>fuel\<close> is the number of bytes left.\<close>

fun write_rest :: "nat \<Rightarrow> 'w writer \<Rightarrow> 'w \<Rightarrow> bytes \<Rightarrow> go_error option \<times> 'w" where
  "write_rest 0 w st data = (None, st)"
| "write_rest (Suc fuel) w st data =
     (if data = [] then (None, st)
      else case w st data of
             (n, err, st') \<Rightarrow>
               if n < 0 \<or> n > int (length data) then (Some ErrShortWrite, st')
               else if err \<noteq> None then (err, st')
               else if n = 0 then (Some ErrShortWrite, st')
               else write_rest fuel w st' (drop (nat n) data))"

definition cb_writeAll :: "'w writer \<Rightarrow> 'w \<Rightarrow> bytes \<Rightarrow> go_error option \<times> 'w" where
  "cb_writeAll w st data = write_rest (length data) w st data"

definition shown_effect :: "(string \<Rightarrow> string) \<Rightarrow> effect \<Rightarrow> effect" where
  "shown_effect env e =
     (if ef_header e = [] then e
      else e\<lparr>ef_header := (case visibleHeader (ef_header e) env of Some h \<Rightarrow> h | None \<Rightarrow> [])\<rparr>)"

definition dispatchEventAction :: "'w writer \<Rightarrow> (string \<Rightarrow> string) \<Rightarrow> event_response \<Rightarrow> 'w \<Rightarrow> go_error option \<times> 'w" where
  "dispatchEventAction w env response st =
     (case RenderEffectForEvent (shown_effect env (es_effect response)) (es_event_id response) of
        Inl err \<Rightarrow> (Some err, st)
      | Inr line \<Rightarrow> cb_writeAll w st line)"

definition event_request_of :: "cb_command \<Rightarrow> (string \<Rightarrow> string) \<Rightarrow> event_request" where
  "event_request_of c env = \<lparr>eq_opcode = cc_opcode c, eq_key = env ''FZF_KEY'',
     eq_query64 = b64_encode StdEncoding (env ''FZF_QUERY''), eq_item64 = b64_encode StdEncoding (env ''FZF_CURRENT_ITEM'')\<rparr>"

definition dispatchEvent :: "ipc_client \<Rightarrow> 'w writer \<Rightarrow> (string \<Rightarrow> string) \<Rightarrow> cb_command \<Rightarrow> 'w \<Rightarrow> 'w dispatched" where
  "dispatchEvent cl w env c st =
     (let q = event_request_of c env in
      case cl_event cl q of
        Inl e \<Rightarrow> \<lparr>di_calls = [CallEvent q], di_out = st, di_err = Some e\<rparr>
      | Inr response \<Rightarrow>
          (case dispatchEventAction w env response st of
             (err, st') \<Rightarrow>
               if es_event_id response = 0 then \<lparr>di_calls = [CallEvent q], di_out = st', di_err = err\<rparr>
               else let f = \<lparr>fq_event_id = es_event_id response, fq_applied = (err = None)\<rparr> in
                    \<lparr>di_calls = [CallEvent q, CallFinalizeEvent f], di_out = st',
                     di_err = (if err = None then cl_finalize_event cl f else err)\<rparr>))"

definition dispatchLoad :: "ipc_client \<Rightarrow> 'w writer \<Rightarrow> cb_command \<Rightarrow> 'w \<Rightarrow> 'w dispatched" where
  "dispatchLoad cl w c st =
     (let q = \<lparr>lq_generation = cc_generation c, lq_event_id = cc_event_id c\<rparr>;
          (err, st') = (case cl_load cl q of Inl e \<Rightarrow> (Some e, st) | Inr data \<Rightarrow> cb_writeAll w st data)
      in if cc_event_id c = 0 then \<lparr>di_calls = [CallLoad q], di_out = st', di_err = err\<rparr>
         else let f = \<lparr>fq_event_id = cc_event_id c, fq_applied = (err = None)\<rparr> in
              \<lparr>di_calls = [CallLoad q, CallFinalizeLoad f], di_out = st',
               di_err = (if err = None then cl_finalize_load cl f else err)\<rparr>)"

definition dispatchDisplay :: "ipc_client \<Rightarrow> 'w writer \<Rightarrow> (string \<Rightarrow> string) \<Rightarrow> 'w \<Rightarrow> 'w dispatched" where
  "dispatchDisplay cl w env st =
     (case cl_display cl of
        Inl e \<Rightarrow> \<lparr>di_calls = [CallDisplay], di_out = st, di_err = Some e\<rparr>
      | Inr header \<Rightarrow>
          (case visibleHeader header env of
             None \<Rightarrow> \<lparr>di_calls = [CallDisplay], di_out = st, di_err = None\<rparr>
           | Some h \<Rightarrow>
               (case RenderEffect (no_effect\<lparr>ef_header := h\<rparr>) of
                  Inl e \<Rightarrow> \<lparr>di_calls = [CallDisplay], di_out = st, di_err = Some e\<rparr>
                | Inr text \<Rightarrow> (case cb_writeAll w st text of (err, st') \<Rightarrow> \<lparr>di_calls = [CallDisplay], di_out = st', di_err = err\<rparr>))))"

definition decodeCanonical :: "string \<Rightarrow> bytes result" where
  "decodeCanonical encoded =
     (case b64_decode StdEncoding encoded of
        None \<Rightarrow> Inl (ErrText ''callback: invalid resolved path encoding'')
      | Some decoded \<Rightarrow>
          if b64_encode StdEncoding decoded \<noteq> encoded then Inl (ErrText ''callback: invalid resolved path encoding'') else Inr decoded)"

text \<open>The part of \<open>dispatchPreview\<close> before rendering: nothing to render, an error, or the candidate.\<close>

definition resolve_preview :: "ipc_client \<Rightarrow> bool \<Rightarrow> (string \<Rightarrow> string) \<Rightarrow> ipc_call list \<times> resolved_candidate option result" where
  "resolve_preview cl has_renderer env =
     (if \<not> has_renderer then ([], Inl (ErrText ''callback: preview renderer unavailable''))
      else if env ''FZF_CURRENT_ITEM'' = [] then ([], Inr None)
      else let q = \<lparr>pq_phase = ''resolve'', pq_item64 = b64_encode StdEncoding (env ''FZF_CURRENT_ITEM''), pq_renderer = [],
                    pq_duration_us = 0, pq_child_starts = 0, pq_max_live = 0, pq_outcome = []\<rparr> in
           ([CallResolve q],
            case cl_resolve cl q of
              Inl e \<Rightarrow> if errors_is e ErrNotFound then Inr None else Inl e
            | Inr response \<Rightarrow>
                (case decodeCanonical (ps_path64 response) of
                   Inl e \<Rightarrow> Inl e
                 | Inr path \<Rightarrow>
                     if ps_kind response = KindVirtual \<or> \<not> is_abs path
                     then Inl (ErrText ''callback: resolved preview is not an absolute filesystem candidate'')
                     else Inr (Some \<lparr>rc_kind = ps_kind response, rc_path = path, rc_size = ps_size response,
                                     rc_mod_time = ps_mod_time response, rc_mode = ps_mode response\<rparr>))))"

text \<open>The telemetry of the renderer's children.\<close>

record telemetry =
  tl_renderer :: string
  tl_started :: bool
  tl_child_starts :: nat
  tl_live :: nat
  tl_max_live :: nat
  tl_invalid :: bool

definition new_telemetry :: telemetry where
  "new_telemetry = \<lparr>tl_renderer = ''native'', tl_started = False, tl_child_starts = 0, tl_live = 0, tl_max_live = 0, tl_invalid = False\<rparr>"

definition ObservePreviewDispatch :: "string \<Rightarrow> telemetry \<Rightarrow> telemetry" where
  "ObservePreviewDispatch renderer s =
     (s\<lparr>tl_renderer := (if renderer = [] then tl_renderer s
                       else if renderer = ''native'' \<and> tl_child_starts s > 0 \<and> tl_renderer s \<noteq> ''native''
                       then tl_renderer s @ ''-fallback'' else renderer)\<rparr>)\<lparr>tl_started := True\<rparr>"

datatype process_phase = PhaseStart | PhaseExit | PhaseOther

definition ObservePreviewProcess :: "process_phase \<Rightarrow> telemetry \<Rightarrow> telemetry" where
  "ObservePreviewProcess ph s =
     (let s = (case ph of
                 PhaseStart \<Rightarrow>
                   let s = s\<lparr>tl_child_starts := Suc (tl_child_starts s), tl_live := Suc (tl_live s)\<rparr> in
                   if tl_live s > tl_max_live s then s\<lparr>tl_max_live := tl_live s\<rparr> else s
               | PhaseExit \<Rightarrow> s\<lparr>tl_live := tl_live s - 1\<rparr>
               | PhaseOther \<Rightarrow> s)
      in s\<lparr>tl_invalid := (tl_child_starts s > 3 \<or> tl_max_live s > 1)\<rparr>)"

definition telemetry_snapshot :: "telemetry \<Rightarrow> string \<times> nat \<times> nat \<times> bool" where
  "telemetry_snapshot s = (tl_renderer s, tl_child_starts s, tl_max_live s,
     tl_invalid s \<or> tl_live s \<noteq> 0 \<or> tl_renderer s = ''native'' \<and> (tl_child_starts s \<noteq> 0 \<or> tl_max_live s \<noteq> 0))"

definition preview_error :: "go_error option \<Rightarrow> telemetry \<Rightarrow> go_error option" where
  "preview_error renderErr s =
     (case telemetry_snapshot s of
        (renderer, starts, live, invalid) \<Rightarrow>
          if invalid \<and> renderErr = None then Some (ErrText ''callback: preview child limit exceeded'') else renderErr)"

definition Dispatch :: "ipc_client option \<Rightarrow> 'w writer \<Rightarrow> (string \<Rightarrow> string) \<Rightarrow>
    (resolved_candidate \<Rightarrow> 'w \<Rightarrow> go_error option \<times> telemetry \<times> 'w) option \<Rightarrow> cb_command \<Rightarrow> 'w \<Rightarrow> 'w dispatched" where
  "Dispatch client w env render c st =
     (let quiet = (\<lambda>err. \<lparr>di_calls = [], di_out = st, di_err = err\<rparr>);
          write = (\<lambda>text. case cb_writeAll w st text of (err, st') \<Rightarrow> \<lparr>di_calls = [], di_out = st', di_err = err\<rparr>)
      in case ValidateLocal c (Some env) of
           Some e \<Rightarrow> if \<not> command_Local c \<and> client = None then quiet (Some (ErrText ''callback: incomplete dependencies'')) else quiet (Some e)
         | None \<Rightarrow>
             (case cc_kind c of
                CbInfo \<Rightarrow> write (finderInfo (cc_picker c) env)
              | CbEmptySource \<Rightarrow> quiet None
              | CbInvalidPreview \<Rightarrow> write ''[Invalid Path]''
              | CbOther _ \<Rightarrow> quiet (Some ErrGrammar)
              | k \<Rightarrow>
                  (case client of
                     None \<Rightarrow> quiet (Some (ErrText ''callback: incomplete dependencies''))
                   | Some cl \<Rightarrow>
                       (case k of
                          CbEvent \<Rightarrow> dispatchEvent cl w env c st
                        | CbLoad \<Rightarrow> dispatchLoad cl w c st
                        | CbDisplay \<Rightarrow> dispatchDisplay cl w env st
                        | _ \<Rightarrow>
                            (case resolve_preview cl (render \<noteq> None) env of
                               (calls, Inl e) \<Rightarrow> \<lparr>di_calls = calls, di_out = st, di_err = Some e\<rparr>
                             | (calls, Inr None) \<Rightarrow> \<lparr>di_calls = calls, di_out = st, di_err = None\<rparr>
                             | (calls, Inr (Some candidate)) \<Rightarrow>
                                 (case the render candidate st of
                                    (err, tele, st') \<Rightarrow> \<lparr>di_calls = calls, di_out = st', di_err = preview_error err tele\<rparr>))))))"

section \<open>The command language\<close>

definition command_text :: "cb_command \<Rightarrow> string" where
  "command_text c =
     (case cc_kind c of
        CbEvent \<Rightarrow> ''e:'' @ opcode_text (cc_opcode c)
      | CbLoad \<Rightarrow> ''l:'' @ itoa_u64 (cc_generation c) @ (if cc_event_id c = 0 then [] else '':'' @ itoa_u64 (cc_event_id c))
      | CbPreview \<Rightarrow> ''p''
      | CbDisplay \<Rightarrow> ''d''
      | CbInfo \<Rightarrow> ''i:'' @ picker_text (cc_picker c)
      | CbEmptySource \<Rightarrow> ''l:empty''
      | CbInvalidPreview \<Rightarrow> ''p:invalid''
      | CbOther n \<Rightarrow> [])"

definition known_opcodes :: "opcode list" where
  "known_opcodes = [OpModeInsert, OpModeAdd, OpEscape, OpForward, OpParent, OpSlash, OpHome, OpEnter, OpRestoreView]"

inductive is_command :: "cb_command \<Rightarrow> bool" where
  "x \<in> set known_opcodes \<Longrightarrow> is_command ((plain_command CbEvent)\<lparr>cc_opcode := x\<rparr>)"
| "g \<noteq> 0 \<Longrightarrow> is_command ((plain_command CbLoad)\<lparr>cc_generation := g, cc_event_id := i\<rparr>)"
| "k \<in> {CbPreview, CbDisplay, CbEmptySource, CbInvalidPreview} \<Longrightarrow> is_command (plain_command k)"
| "p \<in> {PickerCD, PickerCP} \<Longrightarrow> is_command ((plain_command CbInfo)\<lparr>cc_picker := p\<rparr>)"

lemma event_table_map: "event_table = map (\<lambda>x. (''e:'' @ opcode_text x, x)) known_opcodes"
  by (simp add: event_table_def known_opcodes_def opcode_text_def)

lemma parse_id_iff: "parse_id s = Some w \<longleftrightarrow> w \<noteq> 0 \<and> s = itoa_u64 w"
proof
  assume "parse_id s = Some w"
  then have s: "s \<noteq> []" "hd s \<noteq> CHR ''0''" "parse_uint64 s = Some w" "w \<noteq> 0"
    by (auto simp: parse_id_def split: if_splits option.splits)
  note p = parse_uint64_Some [OF s(3)]
  then have "itoa (dec_value s) = s" using s itoa_dec_value [of s] by auto
  with p s show "w \<noteq> 0 \<and> s = itoa_u64 w" by (simp add: itoa_u64_def)
next
  assume w: "w \<noteq> 0 \<and> s = itoa_u64 w"
  then have "0 < unat w" by (simp add: unat_gt_0)
  then have "hd s \<noteq> CHR ''0''" using itoa_hd w by (simp add: itoa_u64_def)
  moreover have "parse_uint64 s = Some w" "list_all is_digit s" "s \<noteq> []" using w by (simp, simp_all add: itoa_u64_def)
  ultimately show "parse_id s = Some w" using w by (auto simp: parse_id_def)
qed

lemma colon_not_digit: "CHR '':'' \<notin> set (itoa_u64 w)"
  using itoa_digits [of "CHR '':''" "unat w"] by (auto simp: itoa_u64_def is_digit_conv byte_of_def)

lemma parse_load_iff:
  "parse_load d = Inr c \<longleftrightarrow> (\<exists>g i. g \<noteq> 0 \<and> c = (plain_command CbLoad)\<lparr>cc_generation := g, cc_event_id := i\<rparr>
      \<and> d = itoa_u64 g @ (if i = 0 then [] else '':'' @ itoa_u64 i))"
proof
  assume run: "parse_load d = Inr c"
  define ps where "ps = split_on (CHR '':'') d"
  have d: "d = join_with '':'' ps" by (simp add: ps_def)
  have "ps \<noteq> []" by (simp add: ps_def)
  then consider (one) a where "ps = [a]" | (two) a b where "ps = [a, b]" | (more) "length ps > 2"
    by (cases ps; cases "tl ps"; cases "tl (tl ps)") auto
  then show "\<exists>g i. g \<noteq> 0 \<and> c = (plain_command CbLoad)\<lparr>cc_generation := g, cc_event_id := i\<rparr>
      \<and> d = itoa_u64 g @ (if i = 0 then [] else '':'' @ itoa_u64 i)"
  proof cases
    case one
    with run obtain g where "parse_id a = Some g" "c = (plain_command CbLoad)\<lparr>cc_generation := g\<rparr>"
      by (auto simp: parse_load_def Let_def ps_def [symmetric] split: option.splits)
    then show ?thesis using d one by (intro exI [of _ g] exI [of _ 0]) (simp add: parse_id_iff plain_command_def)
  next
    case two
    with run obtain g i where "parse_id a = Some g" "parse_id b = Some i" "c = (plain_command CbLoad)\<lparr>cc_generation := g, cc_event_id := i\<rparr>"
      by (auto simp: parse_load_def Let_def ps_def [symmetric] split: option.splits)
    then show ?thesis using d two by (intro exI [of _ g] exI [of _ i]) (simp add: parse_id_iff)
  next
    case more
    with run show ?thesis by (simp add: parse_load_def Let_def ps_def [symmetric])
  qed
next
  assume "\<exists>g i. g \<noteq> 0 \<and> c = (plain_command CbLoad)\<lparr>cc_generation := g, cc_event_id := i\<rparr>
      \<and> d = itoa_u64 g @ (if i = 0 then [] else '':'' @ itoa_u64 i)"
  then obtain g i where c: "g \<noteq> 0" "c = (plain_command CbLoad)\<lparr>cc_generation := g, cc_event_id := i\<rparr>"
    "d = itoa_u64 g @ (if i = 0 then [] else '':'' @ itoa_u64 i)" by blast
  have "split_on (CHR '':'') d = (if i = 0 then [itoa_u64 g] else [itoa_u64 g, itoa_u64 i])"
    using c(3) colon_not_digit by (simp add: split_on_no_sep split_on_append)
  moreover have "parse_id (itoa_u64 g) = Some g" "i \<noteq> 0 \<Longrightarrow> parse_id (itoa_u64 i) = Some i" using c by (simp_all add: parse_id_iff)
  ultimately show "parse_load d = Inr c" using c by (simp add: parse_load_def plain_command_def)
qed

lemma itoa_not_empty_word: "itoa_u64 g @ s \<noteq> ''empty''"
proof
  assume "itoa_u64 g @ s = ''empty''"
  then have "hd (itoa_u64 g) = CHR ''e''" by (cases "itoa_u64 g") (auto simp: itoa_u64_def)
  moreover have "hd (itoa_u64 g) \<in> set (itoa_u64 g)" by (simp add: itoa_u64_def)
  ultimately have "is_digit (CHR ''e'')" using itoa_digits by (auto simp: itoa_u64_def)
  then show False by (simp add: is_digit_conv byte_of_def)
qed

lemma event_table_prefix: "map_of event_table raw = Some x \<Longrightarrow> raw = ''e:'' @ opcode_text x \<and> x \<in> set known_opcodes"
  by (auto simp: event_table_map dest!: map_of_SomeD)

lemma event_table_lookup: "x \<in> set known_opcodes \<Longrightarrow> map_of event_table (''e:'' @ opcode_text x) = Some x"
  by (cases x) (simp_all add: known_opcodes_def event_table_def opcode_text_def)

lemma Parse_command:
  assumes c: "is_command c" and raw: "raw = command_text c"
  shows "Parse raw = Inr c"
  using c
proof cases
  case (1 x)
  have "raw = ''e:'' @ opcode_text x" unfolding raw 1(1) by (simp add: command_text_def plain_command_def)
  then have "map_of event_table raw = Some x" using event_table_lookup [OF 1(2)] by simp
  with 1 show ?thesis by (simp add: Parse_def)
next
  case (2 g i)
  let ?d = "itoa_u64 g @ (if i = 0 then [] else '':'' @ itoa_u64 i)"
  have r: "raw = ''l:'' @ ?d" using 2 by (simp add: raw command_text_def plain_command_def)
  have "parse_load ?d = Inr c" using 2 by (auto simp: parse_load_iff)
  moreover have "map_of event_table raw = None" by (simp add: r event_table_def)
  moreover have "?d \<noteq> ''empty''" by (rule itoa_not_empty_word)
  ultimately show ?thesis by (simp add: Parse_def r has_prefix_def numeral_2_eq_2)
next
  case (3 k)
  then show ?thesis unfolding raw by (auto simp: Parse_def command_text_def plain_command_def event_table_def)
next
  case (4 p)
  then show ?thesis unfolding raw by (auto simp: Parse_def command_text_def plain_command_def event_table_def picker_text_def)
qed

text \<open>
  \<open>Parse\<close> accepts exactly the texts of the commands that exist and returns the command a text stands for:
  each command has one spelling (generations and event identifiers in canonical decimal, nonzero, within 64
  bits), and nothing else is accepted.
\<close>

theorem Parse_iff: "Parse raw = Inr c \<longleftrightarrow> is_command c \<and> raw = command_text c"
proof
  assume run: "Parse raw = Inr c"
  show "is_command c \<and> raw = command_text c"
  proof (cases "map_of event_table raw")
    case (Some x)
    with run event_table_prefix [OF Some] show ?thesis
      by (auto simp: Parse_def command_text_def plain_command_def intro: is_command.intros [unfolded plain_command_def, simplified])
  next
    case None
    show ?thesis
    proof (cases "raw \<in> {''p'', ''d'', ''i:cd'', ''i:cp'', ''l:empty'', ''p:invalid''}")
      case True
      with run None show ?thesis
        by (auto simp: Parse_def command_text_def plain_command_def picker_text_def
            intro: is_command.intros [unfolded plain_command_def, simplified])
    next
      case False
      with run None have "has_prefix raw ''l:''" "parse_load (drop 2 raw) = Inr c" by (auto simp: Parse_def split: if_splits)
      then obtain g i where "g \<noteq> 0" "c = (plain_command CbLoad)\<lparr>cc_generation := g, cc_event_id := i\<rparr>"
        "drop 2 raw = itoa_u64 g @ (if i = 0 then [] else '':'' @ itoa_u64 i)" "raw = ''l:'' @ drop 2 raw"
        by (auto simp: parse_load_iff has_prefix_conv)
      then show ?thesis
        by (auto simp: command_text_def plain_command_def intro: is_command.intros [unfolded plain_command_def, simplified])
    qed
  qed
next
  assume "is_command c \<and> raw = command_text c"
  then show "Parse raw = Inr c" using Parse_command by blast
qed

section \<open>The header fits\<close>

definition cells :: "bytes list \<Rightarrow> int" where
  "cells cs = (\<Sum>c\<leftarrow>cs. displayCellWidth (fst (decode_rune c)))"

lemma stringCellWidth_chunks: "list_all rune_chunk cs \<Longrightarrow> stringCellWidth (concat cs) = cells cs"
  by (simp add: stringCellWidth_def cells_def runes_chunks comp_def)

lemma cells_append [simp]: "cells (cs @ ds) = cells cs + cells ds"
  by (simp add: cells_def)

lemma trailing_start_chunks:
  assumes "list_all rune_chunk cs" and "w \<le> m"
  shows "\<exists>k \<le> length cs. trailing_start (concat cs) m w = length (concat (take k cs)) \<and> w + cells (drop k cs) \<le> m"
  using assms
proof (induction cs arbitrary: w rule: rev_induct)
  case Nil
  then show ?case by (simp add: trailing_start.simps cells_def)
next
  case (snoc c cs)
  have c: "rune_chunk c" "list_all rune_chunk cs" using snoc.prems by auto
  then have last: "decode_last_rune (concat cs @ c) = decode_rune c" "c \<noteq> []" "snd (decode_rune c) = length c"
    using decode_last_rune_append by (auto simp: rune_chunk_def)
  let ?w = "displayCellWidth (fst (decode_rune c))"
  have step: "trailing_start (concat (cs @ [c])) m w =
      (if w + ?w > m then length (concat (cs @ [c])) else trailing_start (concat cs) m (w + ?w))"
    using last by (simp add: trailing_start.simps [of "concat cs @ c"] split_beta Let_def)
  show ?case
  proof (cases "w + ?w > m")
    case True
    with step snoc.prems show ?thesis by (intro exI [of _ "length (cs @ [c])"]) (simp add: cells_def)
  next
    case False
    with snoc.IH [OF c(2), of "w + ?w"] obtain k where k: "k \<le> length cs"
      "trailing_start (concat cs) m (w + ?w) = length (concat (take k cs))" "w + ?w + cells (drop k cs) \<le> m" by auto
    with False step show ?thesis by (intro exI [of _ k]) (simp add: cells_def)
  qed
qed

lemma trailingCells_spec:
  assumes "valid_utf8 v" and "0 \<le> m"
  shows "stringCellWidth (trailingCells v m) \<le> m \<and> (\<exists>pre. v = pre @ trailingCells v m)
    \<and> (\<exists>cs. list_all rune_chunk cs \<and> trailingCells v m = concat cs)"
proof -
  obtain cs where cs: "v = concat cs" "list_all rune_chunk cs" using valid_utf8_chunks [OF assms(1)] by blast
  obtain k where k: "trailing_start v m 0 = length (concat (take k cs))" "cells (drop k cs) \<le> m"
    using trailing_start_chunks [OF cs(2) assms(2)] cs(1) by auto
  have "v = concat (take k cs) @ concat (drop k cs)" unfolding cs(1) by (metis append_take_drop_id concat_append)
  then have tail: "trailingCells v m = concat (drop k cs)" "v = concat (take k cs) @ trailingCells v m"
    using k(1) by (simp_all add: trailingCells_def)
  have "list_all rune_chunk (drop k cs)" using cs(2) by (metis append_take_drop_id list_all_append)
  with tail k(2) show ?thesis by (auto simp: stringCellWidth_chunks)
qed

lemma marker_chunks: "marker = concat [[CHR 0xC2, CHR 0xB7], [CHR 0xC2, CHR 0xB7]]" "rune_chunk [CHR 0xC2, CHR 0xB7]"
  by (simp_all add: marker_def rune_chunk_def invalid_head_def decode_rune_def tail_len_def second_ok_def cont_def byte_of_def
      lead_bits_def cont_bits_def RuneError_def)

lemma marker_width:
  assumes "list_all rune_chunk cs"
  shows "stringCellWidth (marker @ concat cs) = stringCellWidth marker + cells cs"
proof -
  let ?ms = "[[CHR 0xC2, CHR 0xB7], [CHR 0xC2, CHR 0xB7]]"
  have "stringCellWidth (concat (?ms @ cs)) = cells (?ms @ cs)" "stringCellWidth (concat ?ms) = cells ?ms"
    using assms marker_chunks(2) by (intro stringCellWidth_chunks; simp)+
  then show ?thesis unfolding marker_chunks(1) concat_append cells_append by simp
qed

lemma content_width_bound: "content_width env = Some n \<Longrightarrow>
    \<exists>columns. parseCanonicalDecimal (env ''FZF_COLUMNS'') maxDisplayDimension 4 False = Some columns \<and> n \<le> columns - 4"
  by (auto simp: content_width_def split: option.splits if_splits)

text \<open>
  A header that is shown fits: what \<open>visibleHeader\<close> returns is the header or its end, possibly after the
  two-dot marker, cut only between characters, and its width in cells is at most the width of the content
  area, which leaves four columns of the screen for the border.
\<close>

theorem visibleHeader_fits:
  assumes "visibleHeader header env = Some shown"
  shows "\<exists>columns width pre tail cs. parseCanonicalDecimal (env ''FZF_COLUMNS'') maxDisplayDimension 4 False = Some columns
    \<and> content_width env = Some width \<and> width \<le> columns - 4 \<and> stringCellWidth shown \<le> width
    \<and> header = pre @ tail \<and> tail \<noteq> [] \<and> (shown = tail \<or> shown = marker @ tail) \<and> tail = concat cs \<and> list_all rune_chunk cs"
proof -
  from assms obtain n where n: "content_width env = Some n" "0 < n" and h: "header \<noteq> []" "valid_utf8 header"
    by (auto simp: visibleHeader_def split: if_splits option.splits)
  then obtain columns where col: "parseCanonicalDecimal (env ''FZF_COLUMNS'') maxDisplayDimension 4 False = Some columns" "n \<le> columns - 4"
    using content_width_bound by blast
  have "\<exists>pre tail cs. stringCellWidth shown \<le> n \<and> header = pre @ tail \<and> tail \<noteq> [] \<and> (shown = tail \<or> shown = marker @ tail)
      \<and> tail = concat cs \<and> list_all rune_chunk cs"
  proof (cases "stringCellWidth header \<le> n")
    case True
    with assms n h have "shown = header" by (simp add: visibleHeader_def)
    moreover obtain cs where "header = concat cs" "list_all rune_chunk cs" using valid_utf8_chunks [OF h(2)] by blast
    ultimately show ?thesis using True h(1) by (intro exI [of _ "[]"] exI [of _ header] exI [of _ cs]) simp
  next
    case wide: False
    let ?m = "stringCellWidth marker"
    let ?t = "trailingCells header (n - ?m)"
    show ?thesis
    proof (cases "n > ?m \<and> ?t \<noteq> []")
      case True
      with assms n h wide have shown: "shown = marker @ ?t" by (simp add: visibleHeader_def)
      from True trailingCells_spec [OF h(2), of "n - ?m"] obtain pre cs where t: "stringCellWidth ?t \<le> n - ?m"
        "header = pre @ ?t" "list_all rune_chunk cs" "?t = concat cs" by auto
      have "stringCellWidth (marker @ ?t) = ?m + stringCellWidth ?t"
        using marker_width [OF t(3)] stringCellWidth_chunks [OF t(3)] unfolding t(4) by simp
      with t True shown show ?thesis by (intro exI [of _ pre] exI [of _ ?t] exI [of _ cs]) auto
    next
      case False
      with assms n h wide have "shown = trailingCells header n" "shown \<noteq> []"
        by (auto simp: visibleHeader_def Let_def split: if_splits)
      with trailingCells_spec [OF h(2), of n] n show ?thesis by (metis less_imp_le)
    qed
  qed
  with n col show ?thesis by blast
qed

theorem visibleHeader_fits_witness:
  "\<exists>width. visibleHeader ''/a'' (\<lambda>n. if n = ''FZF_COLUMNS'' then ''80'' else []) = Some ''/a''
     \<and> content_width (\<lambda>n. if n = ''FZF_COLUMNS'' then ''80'' else []) = Some width \<and> stringCellWidth ''/a'' \<le> width"
proof -
  let ?env = "\<lambda>n. if n = ''FZF_COLUMNS'' then ''80'' else []"
  have dec: "list_all is_digit ''80''" "dec_value ''80'' = 80" by code_simp+
  have "parseCanonicalDecimal ''80'' maxDisplayDimension 4 False = Some 80"
    using dec by (simp add: parseCanonicalDecimal_def atoi_digits maxDisplayDimension_def)
  then have "visibleHeader ''/a'' ?env = Some ''/a''"
    by (simp add: visibleHeader_def content_width_def stringCellWidth_def displayCellWidth_def byte_of_def)
  with visibleHeader_fits [OF this] show ?thesis by blast
qed

section \<open>Every reservation is settled\<close>

context honest_writer
begin

lemma write_rest_ok:
  "length data \<le> fuel \<Longrightarrow> write_rest fuel w st data = (None, st') \<Longrightarrow> written st' = written st @ data"
proof (induction fuel arbitrary: st data)
  case (Suc fuel)
  show ?case
  proof (cases "data = []")
    case False
    obtain n err u where step: "w st data = (n, err, u)" by (metis prod_cases3)
    with Suc.prems False have n: "0 < n" "n \<le> int (length data)" "write_rest fuel w u (drop (nat n) data) = (None, st')"
      by (auto split: if_splits)
    have "length (drop (nat n) data) \<le> fuel" using n Suc.prems(1) by auto
    with Suc.IH n(3) have "written st' = written u @ drop (nat n) data" by blast
    with honest [OF step] n show ?thesis by simp
  qed (use Suc.prems in simp)
qed simp

lemma cb_writeAll_ok: "cb_writeAll w st data = (None, st') \<Longrightarrow> written st' = written st @ data"
  unfolding cb_writeAll_def by (rule write_rest_ok) simp_all

end

text \<open>
  C36: Every event reservation is settled exactly once by the callback that caused it: when the session answers an
  event with a nonzero identifier the callback makes exactly one finalization call for that identifier, after
  the event.  It reports the event as applied exactly when the action was rendered and writing it reported no
  error, and only if all bytes of the action reached fzf; and the callback ends without an error exactly when it was
  applied and the finalization succeeded.  The writer keeps to the contract of \<open>io.Writer\<close>.
\<close>

theorem dispatchEvent_settles:
  assumes "honest_writer w written" and "cl_event cl (event_request_of c env) = Inr response" and "es_event_id response \<noteq> 0"
  shows "\<exists>applied. di_calls (dispatchEvent cl w env c st) = [CallEvent (event_request_of c env),
        CallFinalizeEvent \<lparr>fq_event_id = es_event_id response, fq_applied = applied\<rparr>]
    \<and> (applied \<longleftrightarrow> (\<exists>line st'. renderEffect (shown_effect env (es_effect response)) (es_event_id response) = Inr line
          \<and> cb_writeAll w st line = (None, st')))
    \<and> (applied \<longrightarrow> (\<exists>line. renderEffect (shown_effect env (es_effect response)) (es_event_id response) = Inr line
          \<and> written (di_out (dispatchEvent cl w env c st)) = written st @ line))
    \<and> (di_err (dispatchEvent cl w env c st) = None
        \<longleftrightarrow> applied \<and> cl_finalize_event cl \<lparr>fq_event_id = es_event_id response, fq_applied = True\<rparr> = None)"
proof -
  obtain err st' where act: "dispatchEventAction w env response st = (err, st')" by fastforce
  have run: "dispatchEvent cl w env c st = \<lparr>di_calls = [CallEvent (event_request_of c env),
      CallFinalizeEvent \<lparr>fq_event_id = es_event_id response, fq_applied = (err = None)\<rparr>], di_out = st',
      di_err = (if err = None then cl_finalize_event cl \<lparr>fq_event_id = es_event_id response, fq_applied = (err = None)\<rparr> else err)\<rparr>"
    using assms(2,3) act by (simp add: dispatchEvent_def Let_def)
  have iff: "err = None \<longleftrightarrow> (\<exists>line st'. renderEffect (shown_effect env (es_effect response)) (es_event_id response) = Inr line
          \<and> cb_writeAll w st line = (None, st'))"
    using act by (auto simp: dispatchEventAction_def RenderEffectForEvent_def split: sum.splits)
  have bytes: "\<exists>line. renderEffect (shown_effect env (es_effect response)) (es_event_id response) = Inr line \<and> written st' = written st @ line"
    if none: "err = None"
  proof -
    obtain line where "renderEffect (shown_effect env (es_effect response)) (es_event_id response) = Inr line"
      "cb_writeAll w st line = (None, st')"
      using act none by (auto simp: dispatchEventAction_def RenderEffectForEvent_def split: sum.splits)
    with honest_writer.cb_writeAll_ok [OF assms(1)] show ?thesis by blast
  qed
  show ?thesis
  proof (cases err)
    case None
    then have "\<exists>line st'. renderEffect (shown_effect env (es_effect response)) (es_event_id response) = Inr line
        \<and> cb_writeAll w st line = (None, st')" using iff by blast
    then show ?thesis unfolding run using None bytes [OF None] by (intro exI [of _ True]) simp
  next
    case (Some e)
    then have "\<not> (\<exists>line st'. renderEffect (shown_effect env (es_effect response)) (es_event_id response) = Inr line
        \<and> cb_writeAll w st line = (None, st'))" using iff by simp
    then show ?thesis unfolding run using Some by (intro exI [of _ False]) simp
  qed
qed

definition demo_client :: ipc_client where
  "demo_client = \<lparr>cl_event = (\<lambda>_. Inr \<lparr>es_effect = no_effect\<lparr>ef_put := ''/''\<rparr>, es_event_id = 4\<rparr>), cl_finalize_event = (\<lambda>_. None),
     cl_finalize_load = (\<lambda>_. None), cl_load = (\<lambda>_. Inr []), cl_resolve = (\<lambda>_. Inl ErrNotFound), cl_display = Inr []\<rparr>"

theorem dispatchEvent_settles_witness:
  "\<exists>applied. di_calls (dispatchEvent demo_client buffer_writer (\<lambda>_. []) (plain_command CbEvent) []) =
     [CallEvent (event_request_of (plain_command CbEvent) (\<lambda>_. [])), CallFinalizeEvent \<lparr>fq_event_id = 4, fq_applied = applied\<rparr>]"
  using dispatchEvent_settles [OF buffer.honest_writer_axioms, of demo_client "plain_command CbEvent" "\<lambda>_. []" _ "[]"]
  by (fastforce simp: demo_client_def)

section \<open>Telemetry\<close>

definition telemetry_inv :: "telemetry \<Rightarrow> bool" where
  "telemetry_inv s \<longleftrightarrow> tl_live s \<le> tl_max_live s \<and> tl_max_live s \<le> tl_child_starts s
     \<and> (tl_invalid s \<longleftrightarrow> tl_child_starts s > 3 \<or> tl_max_live s > 1)"

definition telemetry_step :: "telemetry \<Rightarrow> telemetry \<Rightarrow> bool" where
  "telemetry_step s t \<longleftrightarrow> (\<exists>r. t = ObservePreviewDispatch r s) \<or> (\<exists>ph. t = ObservePreviewProcess ph s)"

lemma telemetry_inv_process: "telemetry_inv s \<Longrightarrow> telemetry_inv (ObservePreviewProcess ph s)"
  by (cases ph) (auto simp: telemetry_inv_def ObservePreviewProcess_def Let_def)

interpretation telemetry: transition_system "\<lambda>s. s = new_telemetry" telemetry_step telemetry_inv
proof
  show "telemetry_inv s" if "s = new_telemetry" for s using that by (simp add: telemetry_inv_def new_telemetry_def)
  show "telemetry_inv t" if "telemetry_inv s" "telemetry_step s t" for s t
    using that telemetry_inv_process by (auto simp: telemetry_step_def telemetry_inv_def ObservePreviewDispatch_def)
qed

text \<open>
  What a preview reports about its children is what the session accepts: whatever was observed while
  rendering, if the callback does not call the preview invalid, then the finished report it sends passes the
  session's validation, given printable labels and a duration within the ten seconds it is cut to.
\<close>

theorem telemetry_accepted:
  assumes "reach (\<lambda>s. s = new_telemetry) telemetry_step s" and "telemetry_snapshot s = (renderer, starts, live, False)"
    and "validTelemetryValue renderer" and "outcome = ''ok'' \<or> outcome = ''error''" and "0 \<le> us" and "us \<le> 10000000" and "item \<noteq> []"
  shows "validatePreview \<lparr>pq_phase = ''finished'', pq_item64 = item, pq_renderer = renderer, pq_duration_us = us,
     pq_child_starts = int starts, pq_max_live = int live, pq_outcome = outcome\<rparr> = None"
proof -
  have inv: "telemetry_inv s" using assms(1) by (rule telemetry.reach_inv)
  have s: "tl_renderer s = renderer" "tl_child_starts s = starts" "tl_max_live s = live" "\<not> tl_invalid s"
    "\<not> (renderer = ''native'' \<and> (starts \<noteq> 0 \<or> live \<noteq> 0))"
    using assms(2) by (auto simp: telemetry_snapshot_def)
  then have "starts \<le> 3" "live \<le> 1" "live \<le> starts" using inv by (auto simp: telemetry_inv_def)
  moreover have "validTelemetryValue outcome" using assms(4) by (auto simp: validTelemetryValue_def byte_of_def)
  ultimately show ?thesis using assms(3,5,6,7) s(5)
    by (auto simp: validatePreview_def finished_ok_def MaxPreviewChildStarts_def MaxPreviewLiveChildren_def)
qed

theorem telemetry_accepted_witness:
  "validatePreview \<lparr>pq_phase = ''finished'', pq_item64 = ''eA=='', pq_renderer = ''native'', pq_duration_us = 5,
     pq_child_starts = int 0, pq_max_live = int 0, pq_outcome = ''ok''\<rparr> = None"
  by (rule telemetry_accepted [where s = new_telemetry])
     (auto intro: reach_start simp: new_telemetry_def telemetry_snapshot_def validTelemetryValue_def byte_of_def)

end
