(* ===== verification/Enrichment.thy ===== *)
theory Enrichment
  imports Fzf_Process Sessionipc
begin

text \<open>
  \<open>internal/app\<close>, the initial enrichment: the coordinator that lets the asynchronous zoxide source publish into
  a running session (enrichment.go, enrichment_event.go, enrichment_callback.go, enrichment_commit.go,
  enrichment_lifecycle.go, enrichment_trace.go).

  The fields under the mutex \<open>gate\<close> are the record \<open>gate\<close>; every critical section is one function on it, so any
  interleaving of the goroutines is a sequence of those functions.  A method that would wait for a state
  change returns \<open>MustWait\<close> (its loop tries again after a change).  The cause of the parent context, when it is
  read, is the argument \<open>parent\<close>; contexts to cancel are identified by their event.  Metrics and the trace file
  are not part of this state.
\<close>

section \<open>State\<close>

definition errInitialEnrichmentZeroBase :: go_error where
  "errInitialEnrichmentZeroBase = ErrText ''initial enrichment: activation generation must be nonzero''"
definition errInitialEnrichmentActivated :: go_error where
  "errInitialEnrichmentActivated = ErrText ''initial enrichment: already activated''"
definition errInitialEnrichmentInactive :: go_error where
  "errInitialEnrichmentInactive = ErrText ''initial enrichment: inactive''"
definition errInitialEnrichmentCallbackApplication :: go_error where
  "errInitialEnrichmentCallbackApplication = ErrText ''initial enrichment: callback application failed''"
definition errEventLimit :: go_error where
  "errEventLimit = ErrText ''initial enrichment: event ID limit reached''"

record pending_event =
  pv_generation :: u64
  pv_close_input :: bool
  pv_finalized :: bool
  pv_applied :: bool
  pv_load_requested :: bool

record gate =
  ga_active :: bool
  ga_activated :: bool
  ga_initial :: u64
  ga_base :: u64
  ga_terminal_err :: "go_error option"
  ga_terminal_finalized :: bool
  ga_terminal :: bool
  ga_committing :: bool
  ga_in_flight :: nat
  ga_discard :: bool
  ga_next_id :: u64
  ga_cancels :: "u64 set"
  ga_pending :: "u64 \<rightharpoonup> pending_event"
  ga_input :: input_stream
  ga_close_done :: bool
  ga_cancelled :: "go_error option option"
  ga_trace :: "(string \<times> u64 \<times> nat) option"

definition newInitialEnrichment :: "bytes \<Rightarrow> gate" where
  "newInitialEnrichment initial = \<lparr>ga_active = True, ga_activated = False, ga_initial = 0, ga_base = 0, ga_terminal_err = None,
     ga_terminal_finalized = False, ga_terminal = False, ga_committing = False, ga_in_flight = 0, ga_discard = False, ga_next_id = 0,
     ga_cancels = {}, ga_pending = Map.empty, ga_input = NewInputStream initial, ga_close_done = False, ga_cancelled = None, ga_trace = None\<rparr>"

section \<open>enrichment_lifecycle.go, enrichment_trace.go\<close>

definition joinLifecycleErrors :: "go_error option \<Rightarrow> go_error option \<Rightarrow> go_error option" where
  "joinLifecycleErrors existing incoming =
     (case incoming of
        None \<Rightarrow> existing
      | Some i \<Rightarrow>
          (case existing of
             None \<Rightarrow> incoming
           | Some e \<Rightarrow> if errors_is e i then existing else if errors_is i e then incoming else Some (ErrJoin e i)))"

definition deactivateLocked :: "go_error option \<Rightarrow> go_error option \<Rightarrow> gate \<Rightarrow> go_error option \<times> bool \<times> gate" where
  "deactivateLocked parent cause g =
     (let cause = joinLifecycleErrors cause parent in
      if \<not> ga_active g
      then let g = (if cause \<noteq> None \<and> \<not> ga_terminal_finalized g
                    then g\<lparr>ga_terminal_err := joinLifecycleErrors (ga_terminal_err g) cause\<rparr> else g)
           in (ga_terminal_err g, False, g)
      else let g = g\<lparr>ga_active := False, ga_terminal_err := joinLifecycleErrors (ga_terminal_err g) cause\<rparr>
           in (ga_terminal_err g, True, g))"

text \<open>\<open>closeOnce\<close> and \<open>cancelOnce\<close>.\<close>

definition cancelSource :: "go_error option \<Rightarrow> gate \<Rightarrow> gate" where
  "cancelSource cause g = (if ga_cancelled g = None then g\<lparr>ga_cancelled := Some cause\<rparr> else g)"

definition finish :: "go_error option \<Rightarrow> gate \<Rightarrow> gate" where
  "finish cause g =
     cancelSource cause (if ga_close_done g then g else g\<lparr>ga_close_done := True, ga_input := CloseWithError cause (ga_input g)\<rparr>)"

definition Activate :: "go_error option \<Rightarrow> u64 \<Rightarrow> gate \<Rightarrow> go_error option \<times> gate" where
  "Activate parent base g =
     (if base = 0 then (Some errInitialEnrichmentZeroBase, g)
      else if ga_activated g then (Some errInitialEnrichmentActivated, g)
      else if \<not> ga_active g then (Some (case ga_terminal_err g of Some e \<Rightarrow> e | None \<Rightarrow> errInitialEnrichmentInactive), g)
      else if parent \<noteq> None then (parent, g)
      else (None, g\<lparr>ga_activated := True, ga_initial := base, ga_base := base\<rparr>))"

definition finishSource :: "go_error option \<Rightarrow> go_error option \<Rightarrow> gate \<Rightarrow> gate" where
  "finishSource parent sourceErr g =
     (case deactivateLocked parent sourceErr g of (cause, changed, g') \<Rightarrow> if changed then finish cause g' else g')"

definition clear_events :: "gate \<Rightarrow> gate" where
  "clear_events g = g\<lparr>ga_pending := Map.empty, ga_in_flight := card (ga_cancels g)\<rparr>"

definition Stop :: "go_error option \<Rightarrow> go_error option \<Rightarrow> gate \<Rightarrow> go_error option \<times> gate" where
  "Stop parent cause g =
     (let g = g\<lparr>ga_terminal := True, ga_discard := (parent = None)\<rparr> in
      case deactivateLocked parent cause g of
        (effective, _, g') \<Rightarrow> (effective, finish effective (clear_events g')))"

text \<open>\<open>Wait\<close> after the source goroutine has ended.\<close>

definition Wait :: "go_error option \<Rightarrow> gate \<Rightarrow> go_error option \<times> gate" where
  "Wait parent g =
     (let g = (if \<not> ga_terminal_finalized g
               then g\<lparr>ga_terminal_err := joinLifecycleErrors (ga_terminal_err g) parent, ga_terminal_finalized := True\<rparr> else g)
      in (ga_terminal_err g, g))"

definition setTraceDecision :: "string \<Rightarrow> u64 \<Rightarrow> nat \<Rightarrow> gate \<Rightarrow> gate" where
  "setTraceDecision outcome generation candidates g =
     (if ga_trace g \<noteq> None then g
      else g\<lparr>ga_trace := Some (if outcome \<noteq> ''published'' then (outcome, 0, 0) else (outcome, generation, candidates))\<rparr>)"

definition setBaseGeneration :: "u64 \<Rightarrow> gate \<Rightarrow> gate" where
  "setBaseGeneration generation g = (if generation = 0 then g else g\<lparr>ga_base := generation\<rparr>)"

section \<open>enrichment_event.go\<close>

datatype reservation = Reserved u64 | Refused go_error | MustWait

definition reserveEvent :: "gate \<Rightarrow> reservation \<times> gate" where
  "reserveEvent g =
     (if ga_terminal g then (Refused (case ga_terminal_err g of Some e \<Rightarrow> e | None \<Rightarrow> ErrCanceled), g)
      else if \<not> ga_committing g \<and> ga_in_flight g = 0
      then if ga_next_id g = - 1 then (Refused errEventLimit, g)
           else let i = ga_next_id g + 1 in
                (Reserved i, g\<lparr>ga_next_id := i, ga_cancels := insert i (ga_cancels g), ga_in_flight := Suc (ga_in_flight g)\<rparr>)
      else (MustWait, g))"

definition release_one :: "gate \<Rightarrow> gate" where
  "release_one g = g\<lparr>ga_in_flight := ga_in_flight g - 1\<rparr>"

text \<open>
  The generation an event's effect asks fzf to load, and the reservation it leaves.  The outcome of the session's
  work on an event is an error, or the published generation and the effect; the result is the cause to report,
  whether the source must be cancelled, and the state.
\<close>

definition effect_target :: "effect \<Rightarrow> u64" where
  "effect_target e = (if ef_reload_generation e = 0 then ef_restore_generation e else ef_reload_generation e)"

definition event_restores :: "opcode \<Rightarrow> effect \<Rightarrow> bool" where
  "event_restores x e \<longleftrightarrow> x = OpRestoreView \<and> ef_restore_generation e \<noteq> 0"

definition pending_of :: "opcode \<Rightarrow> effect \<Rightarrow> pending_event" where
  "pending_of x e = \<lparr>pv_generation = effect_target e,
     pv_close_input = (ef_reload_generation e \<noteq> 0 \<or> event_restores x e \<or> ef_invalid_path e), pv_finalized = False,
     pv_applied = False, pv_load_requested = False\<rparr>"

definition resolveEvent :: "go_error option \<Rightarrow> opcode \<Rightarrow> u64 \<Rightarrow> (u64 \<times> effect) result \<Rightarrow> gate \<Rightarrow> go_error option \<times> bool \<times> gate" where
  "resolveEvent parent x i res g =
     (let known = (i \<in> ga_cancels g); g = g\<lparr>ga_cancels := ga_cancels g - {i}\<rparr> in
      if \<not> known then (None, False, g)
      else case res of
             Inl _ \<Rightarrow> (None, False, release_one g)
           | Inr (generation, e) \<Rightarrow>
               if ga_terminal g then (ga_terminal_err g, False, release_one g)
               else let g = g\<lparr>ga_pending := (ga_pending g)(i \<mapsto> pending_of x e)\<rparr>
                    in if ef_accept e \<or> ef_abort e
                       then (case deactivateLocked parent None (g\<lparr>ga_terminal := True, ga_discard := True\<rparr>) of
                               (cause, _, g') \<Rightarrow> (cause, True, g'))
                       else if (event_restores x e \<or> ef_invalid_path e) \<and> ga_active g
                       then deactivateLocked parent None (g\<lparr>ga_discard := True\<rparr>)
                       else if ef_reload_generation e \<noteq> 0 \<and> ga_active g
                       then deactivateLocked parent None
                              (g\<lparr>ga_base := (if generation \<noteq> 0 then generation else ga_base g), ga_discard := True\<rparr>)
                       else (None, False, g))"

section \<open>enrichment_callback.go\<close>

definition suppressActiveRestore :: "bool \<Rightarrow> opcode \<Rightarrow> effect \<Rightarrow> effect" where
  "suppressActiveRestore active x e =
     (if x = OpRestoreView then e
      else if ef_restore_generation e = 0 \<or> ef_reload_generation e \<noteq> 0 \<or> ef_accept e \<or> ef_abort e then e
      else if \<not> active then e
      else e\<lparr>ef_restore_generation := 0\<rparr>)"

text \<open>\<open>HandleEvent\<close> after the reservation \<open>i\<close>: \<open>res\<close> is what the session did.\<close>

definition HandleEvent :: "go_error option \<Rightarrow> opcode \<Rightarrow> u64 \<Rightarrow> (u64 \<times> effect) result \<Rightarrow> gate \<Rightarrow> event_response result \<times> gate" where
  "HandleEvent parent x i res g =
     (let res = map_sum id (map_prod id (suppressActiveRestore (ga_active g) x)) res in
      case resolveEvent parent x i res g of
        (stopCause, stopSource, g') \<Rightarrow>
          (let res = (case (res, stopCause) of (Inr _, Some c) \<Rightarrow> if stopSource then res else Inl c | _ \<Rightarrow> res);
               g' = (case res of Inr (generation, e) \<Rightarrow> if ef_reload_generation e \<noteq> 0 then setBaseGeneration generation g' else g' | Inl _ \<Rightarrow> g');
               g' = (if stopSource then cancelSource stopCause g' else g')
           in (case res of Inl e \<Rightarrow> Inl e | Inr (_, e) \<Rightarrow> Inr \<lparr>es_effect = e, es_event_id = i\<rparr>, g')))"

definition failCallbackApplication :: "go_error option \<Rightarrow> gate \<Rightarrow> go_error option \<times> gate" where
  "failCallbackApplication parent g =
     (case deactivateLocked parent (Some errInitialEnrichmentCallbackApplication) (g\<lparr>ga_terminal := True, ga_discard := True\<rparr>) of
        (effective, _, g') \<Rightarrow> (effective, finish effective (clear_events g')))"

definition FinalizeEvent :: "go_error option \<Rightarrow> finalize_request \<Rightarrow> gate \<Rightarrow> go_error option \<times> gate" where
  "FinalizeEvent parent q g =
     (case ga_pending g (fq_event_id q) of
        None \<Rightarrow> (None, g)
      | Some p \<Rightarrow>
          if pv_finalized p then (None, g)
          else if \<not> fq_applied q then failCallbackApplication parent g
          else let g = (if pv_generation p = 0
                        then release_one (g\<lparr>ga_pending := (ga_pending g)(fq_event_id q := None)\<rparr>)
                        else g\<lparr>ga_pending := (ga_pending g)(fq_event_id q \<mapsto> p\<lparr>pv_finalized := True, pv_applied := True\<rparr>)\<rparr>)
               in (None, if pv_close_input p then g\<lparr>ga_input := input_Close (ga_input g)\<rparr> else g))"

definition load_reserved :: "load_request \<Rightarrow> gate \<Rightarrow> pending_event option" where
  "load_reserved q g =
     (case ga_pending g (lq_event_id q) of
        None \<Rightarrow> None
      | Some p \<Rightarrow>
          if lq_event_id q = 0 \<or> lq_generation q = 0 \<or> pv_generation p \<noteq> lq_generation q \<or> pv_load_requested p then None else Some p)"

definition validateLoadLocked :: "load_request \<Rightarrow> gate \<Rightarrow> go_error option" where
  "validateLoadLocked q g =
     (case load_reserved q g of
        None \<Rightarrow> Some ErrInvalidLoad
      | Some p \<Rightarrow> if \<not> pv_finalized p \<or> \<not> pv_applied p then Some ErrInvalidLoad else None)"

text \<open>One round of the loop of \<open>ValidateLoad\<close>: refused, admitted, or wait for a change.\<close>

definition ValidateLoad :: "load_request \<Rightarrow> gate \<Rightarrow> reservation" where
  "ValidateLoad q g =
     (case load_reserved q g of
        None \<Rightarrow> Refused ErrInvalidLoad
      | Some p \<Rightarrow> if pv_finalized p \<and> pv_applied p then Reserved (lq_event_id q) else MustWait)"

definition BeginLoad :: "load_request \<Rightarrow> gate \<Rightarrow> go_error option \<times> gate" where
  "BeginLoad q g =
     (case validateLoadLocked q g of
        Some e \<Rightarrow> (Some e, g)
      | None \<Rightarrow>
          (None, g\<lparr>ga_pending := (ga_pending g)(lq_event_id q := map_option (\<lambda>p. p\<lparr>pv_load_requested := True\<rparr>) (ga_pending g (lq_event_id q)))\<rparr>))"

definition FinalizeLoad :: "go_error option \<Rightarrow> finalize_request \<Rightarrow> gate \<Rightarrow> go_error option \<times> gate" where
  "FinalizeLoad parent q g =
     (case ga_pending g (fq_event_id q) of
        None \<Rightarrow> (Some ErrInvalidLoad, g)
      | Some p \<Rightarrow>
          if \<not> pv_finalized p \<or> \<not> pv_applied p then (Some ErrInvalidLoad, g)
          else if \<not> fq_applied q then failCallbackApplication parent g
          else if \<not> pv_load_requested p then (Some ErrInvalidLoad, g)
          else let g = release_one (g\<lparr>ga_pending := (ga_pending g)(fq_event_id q := None)\<rparr>)
               in (None, if pv_close_input p then g\<lparr>ga_input := input_Close (ga_input g)\<rparr> else g))"

section \<open>enrichment_commit.go\<close>

datatype commit_gate = CommitNow | CommitNever | CommitWait

text \<open>One round of \<open>beginCommit\<close>, and its way out when navigation cancelled the source while it waited.\<close>

definition beginCommit :: "gate \<Rightarrow> commit_gate \<times> gate" where
  "beginCommit g =
     (if \<not> ga_active g \<or> ga_terminal g then (CommitNever, g\<lparr>ga_committing := False\<rparr>)
      else let g = (if \<not> ga_committing g \<and> ga_in_flight g = 0 then g\<lparr>ga_committing := True\<rparr> else g) in
           if ga_in_flight g = 0 then (CommitNow, g) else (CommitWait, g))"

definition abandonCommit :: "gate \<Rightarrow> gate" where
  "abandonCommit g = g\<lparr>ga_committing := False\<rparr>"

definition quiet_error :: "go_error \<Rightarrow> bool" where
  "quiet_error e \<longleftrightarrow> errors_is e ErrInputClosed \<or> errors_is e ErrCanceled \<or> errors_is e ErrDeadlineExceeded"

text \<open>The published result is its generation and record count.\<close>

definition commit_decision :: "go_error option \<Rightarrow> (u64 \<times> nat) option \<Rightarrow> go_error option \<Rightarrow> gate \<Rightarrow> gate" where
  "commit_decision parent res terminal g =
     (case res of
        Some (generation, n) \<Rightarrow> setTraceDecision ''published'' generation n g
      | None \<Rightarrow>
          (case terminal of
             None \<Rightarrow> setTraceDecision ''discarded'' 0 0 g
           | Some e \<Rightarrow> if parent \<noteq> None \<or> \<not> quiet_error e then setTraceDecision ''failed'' 0 0 g
                       else setTraceDecision ''discarded'' 0 0 g))"

definition finishCommit :: "go_error option \<Rightarrow> (u64 \<times> nat) option \<Rightarrow> go_error option \<Rightarrow> gate \<Rightarrow> gate" where
  "finishCommit parent res terminal g =
     (let g = commit_decision parent res terminal g;
          g = (case res of Some (generation, _) \<Rightarrow> g\<lparr>ga_base := generation\<rparr> | None \<Rightarrow> g)
      in case deactivateLocked parent terminal g of
           (cause, changed, g') \<Rightarrow>
             let g' = g'\<lparr>ga_committing := False\<rparr> in if changed \<or> cause \<noteq> None then finish cause g' else g')"

definition enrich_error :: "actor_env \<Rightarrow> enrich_cmd \<Rightarrow> actor \<Rightarrow> go_error option" where
  "enrich_error env c a = rp_err (snd (last (at_enrich_replies (handle_enrich env c a))))"

text \<open>
  The body of \<open>commit\<close> once the gate is held.  \<open>cause\<close> is the cause of the source's own context; \<open>a\<close> is the actor
  when it answers the query for the base snapshot and \<open>b\<close> the actor when it is asked again, for the enrichment
  (inside the publication of the append) or, after a failed query, for the current snapshot.
\<close>

definition commit_published :: "go_error option \<Rightarrow> actor_env \<Rightarrow> nat \<Rightarrow> u64 \<Rightarrow> candidate list \<Rightarrow> candidate list \<Rightarrow> actor \<Rightarrow> gate \<Rightarrow> actor \<times> gate" where
  "commit_published parent env i base merged admitted b g =
     (let c = \<lparr>en_id = i, en_base = base, en_records = merged\<rparr>;
          active = (ga_active g \<and> \<not> ga_terminal g);
          outcome = (if \<not> active then Some ErrInputClosed else enrich_error env c b);
          b' = (if is_closed (ga_input g) \<or> \<not> active then b else handle_enrich env c b)
      in case AppendAfter (FrameRecordValues Wire admitted) (Some outcome) (ga_input g) of
           (err, _, input) \<Rightarrow>
             (let g = g\<lparr>ga_input := input\<rparr> in
              case err of
                Some e \<Rightarrow> (b', finishCommit parent None (joinLifecycleErrors (if quiet_error e then None else Some e) parent) g)
              | None \<Rightarrow> (b', finishCommit parent (Some (sn_generation (at_current b'), RecordCount (at_current b'))) None g)))"

definition commit :: "unicode \<Rightarrow> bytes \<Rightarrow> go_error option \<Rightarrow> go_error option \<Rightarrow> actor_env \<Rightarrow> nat \<Rightarrow> candidate list \<Rightarrow> actor \<Rightarrow> actor \<Rightarrow> gate \<Rightarrow> actor \<times> gate" where
  "commit u home parent cause env i source a b g =
     (case reply_snapshot cause (ga_base g) a of
        Inl e \<Rightarrow>
          (let g = (if \<not> errors_is e ErrTransitionPending \<and> \<not> errors_is e ErrCanceled
                    then (case reply_current None b of
                            Inr cur \<Rightarrow> if sn_generation cur > ga_base g then setBaseGeneration (sn_generation cur) g else g
                          | Inl _ \<Rightarrow> g)
                    else g)
           in (b, finishCommit parent None parent g))
      | Inr base \<Rightarrow>
          (case MergeNewRecords (recordValues base) (CompactHomeDisplays u source home) of
             (merged, admitted) \<Rightarrow>
               if admitted = [] then (b, finishCommit parent None None g)
               else commit_published parent env i (ga_base g) merged admitted b g))"

section \<open>The source goroutine and its trace record\<close>

text \<open>
  \<open>run\<close>, from the end of the load to its decision.  The parent's cause is read at up to three points,
  \<open>p1\<close>, \<open>p2\<close> and \<open>p3\<close>; \<open>ready\<close> says which case the select of \<open>waitForActivation\<close> took.  The result is the state and
  whether the goroutine goes on to \<open>commit\<close>.
\<close>

definition retainInterruptedSourceError :: "go_error option \<Rightarrow> go_error option \<Rightarrow> gate \<Rightarrow> gate" where
  "retainInterruptedSourceError parent sourceErr g =
     (case sourceErr of
        None \<Rightarrow> g
      | Some e \<Rightarrow> if errors_is e ErrCanceled \<and> parent = None then g else finishSource parent sourceErr g)"

definition waitForActivation :: "go_error option \<Rightarrow> bool \<Rightarrow> gate \<Rightarrow> bool \<times> gate" where
  "waitForActivation parent ready g =
     (if ready then (True, g) else (False, if parent \<noteq> None then snd (Stop parent parent g) else g))"

definition run_source :: "go_error option \<Rightarrow> go_error option \<Rightarrow> go_error option \<Rightarrow> bool \<Rightarrow> go_error option \<Rightarrow> bool \<Rightarrow> gate \<Rightarrow> bool \<times> gate" where
  "run_source p1 p2 p3 ready sourceErr discarded g =
     (if p1 \<noteq> None
      then (False, if sourceErr \<noteq> None then finishSource p1 (joinLifecycleErrors sourceErr p1) g else snd (Stop p1 p1 g))
      else case waitForActivation p2 ready g of
             (activated, g) \<Rightarrow>
               if \<not> activated then (False, retainInterruptedSourceError p2 sourceErr g)
               else if \<not> ga_active g then (False, retainInterruptedSourceError p2 sourceErr g)
               else if p3 \<noteq> None then (False, snd (Stop p3 p3 g))
               else if sourceErr \<noteq> None \<or> discarded then (False, finishSource p3 sourceErr g)
               else (True, g))"

definition normalizeSourceMetrics :: "zoxide_outcome \<Rightarrow> go_error option \<Rightarrow> go_error option \<Rightarrow> zoxide_outcome" where
  "normalizeSourceMetrics outcome sourceErr parent =
     (let outcome = (case sourceErr of
                       None \<Rightarrow> outcome
                     | Some e \<Rightarrow>
                         if (case parent of Some c \<Rightarrow> errors_is e c | None \<Rightarrow> False) then OutcomeCancelled
                         else if errors_is e ErrDeadlineExceeded then OutcomeTimeout
                         else if errors_is e ErrCanceled then OutcomeCancelled
                         else if outcome \<in> {OutcomeUnset, OutcomeOk, OutcomeCached} then OutcomeProcessError
                         else outcome);
          outcome = (if outcome = OutcomeUnset then OutcomeProcessError else outcome)
      in if outcome = OutcomePending \<or> outcome = OutcomeNotRun then OutcomeProcessError else outcome)"

text \<open>What \<open>emitSourceTerminal\<close> writes: outcome, generation, lifecycle and candidate count.\<close>

definition source_lifecycle :: "go_error option \<Rightarrow> go_error option \<Rightarrow> bool \<Rightarrow> zoxide_outcome \<Rightarrow> bool \<Rightarrow> string" where
  "source_lifecycle parent sourceErr discarded outcome discardRequested =
     (if parent \<noteq> None then ''failed''
      else if sourceErr \<noteq> None \<and> outcome \<noteq> OutcomeCancelled \<and> outcome \<noteq> OutcomeTimeout then ''failed''
      else if outcome \<in> {OutcomeMissing, OutcomeProcessError, OutcomeMalformed, OutcomeTimeout} then ''failed''
      else if outcome = OutcomeCancelled \<and> \<not> discardRequested then ''failed''
      else if discarded \<and> \<not> discardRequested then ''failed''
      else ''discarded'')"

definition emitSourceTerminal :: "go_error option \<Rightarrow> go_error option \<Rightarrow> bool \<Rightarrow> zoxide_outcome \<Rightarrow> gate \<Rightarrow> zoxide_outcome \<times> u64 \<times> string \<times> nat" where
  "emitSourceTerminal parent sourceErr discarded outcome g =
     (let source = normalizeSourceMetrics outcome sourceErr parent;
          (lifecycle, generation, candidates) =
            (case ga_trace g of
               Some t \<Rightarrow> t
             | None \<Rightarrow> (source_lifecycle parent sourceErr discarded source (ga_discard g), 0, 0));
          (generation, candidates) = (if lifecycle \<noteq> ''published'' then (ga_initial g, 0) else (generation, candidates))
      in (source, if generation = 0 then 1 else generation, lifecycle, candidates))"

section \<open>Interleavings\<close>

inductive gate_step :: "gate \<Rightarrow> gate \<Rightarrow> bool" where
  gate_reserve: "gate_step g (snd (reserveEvent g))"
| gate_handle: "gate_step g (snd (HandleEvent parent x i res g))"
| gate_finalize_event: "gate_step g (snd (FinalizeEvent parent q g))"
| gate_begin_load: "gate_step g (snd (BeginLoad r g))"
| gate_finalize_load: "gate_step g (snd (FinalizeLoad parent q g))"
| gate_fail: "gate_step g (snd (failCallbackApplication parent g))"
| gate_activate: "gate_step g (snd (Activate parent base g))"
| gate_finish_source: "gate_step g (finishSource parent err g)"
| gate_stop: "gate_step g (snd (Stop parent cause g))"
| gate_wait: "gate_step g (snd (Wait parent g))"
| gate_begin_commit: "gate_step g (snd (beginCommit g))"
| gate_abandon: "gate_step g (abandonCommit g)"
| gate_append: "gate_step g (g\<lparr>ga_input := snd (snd (AppendAfter data publish (ga_input g)))\<rparr>)"
| gate_finish_commit: "gate_step g (finishCommit parent published terminal g)"
| gate_resolve: "gate_step g (snd (snd (resolveEvent parent x i res g)))"
| gate_set_base: "gate_step g (setBaseGeneration generation g)"
| gate_finish: "gate_step g (finish c g)"
| gate_cancel: "gate_step g (cancelSource c g)"

abbreviation gate_init :: "gate \<Rightarrow> bool" where
  "gate_init g \<equiv> \<exists>initial. g = newInitialEnrichment initial"

text \<open>What the fields of the event bookkeeping are to each other.\<close>

definition events_ok :: "nat \<Rightarrow> u64 set \<Rightarrow> u64 set \<Rightarrow> u64 \<Rightarrow> bool \<Rightarrow> bool" where
  "events_ok n cancels pend next committing \<longleftrightarrow> n = card cancels + card pend \<and> n \<le> 1 \<and> cancels \<inter> pend = {}
     \<and> (\<forall>i \<in> cancels \<union> pend. i \<le> next) \<and> (committing \<longrightarrow> n = 0)"

definition gate_inv :: "gate \<Rightarrow> bool" where
  "gate_inv g \<longleftrightarrow> events_ok (ga_in_flight g) (ga_cancels g) (dom (ga_pending g)) (ga_next_id g) (ga_committing g)"

text \<open>The fields the lifecycle functions leave alone.\<close>

lemma deactivate_keeps [simp]:
  "ga_in_flight (snd (snd (deactivateLocked parent c g))) = ga_in_flight g" "ga_cancels (snd (snd (deactivateLocked parent c g))) = ga_cancels g"
  "ga_pending (snd (snd (deactivateLocked parent c g))) = ga_pending g" "ga_next_id (snd (snd (deactivateLocked parent c g))) = ga_next_id g"
  "ga_committing (snd (snd (deactivateLocked parent c g))) = ga_committing g" "ga_terminal (snd (snd (deactivateLocked parent c g))) = ga_terminal g"
  "ga_input (snd (snd (deactivateLocked parent c g))) = ga_input g" "ga_active (snd (snd (deactivateLocked parent c g))) = False"
  by (simp_all add: deactivateLocked_def Let_def)

lemma finish_keeps [simp]:
  "ga_in_flight (finish c g) = ga_in_flight g" "ga_cancels (finish c g) = ga_cancels g" "ga_pending (finish c g) = ga_pending g"
  "ga_next_id (finish c g) = ga_next_id g" "ga_committing (finish c g) = ga_committing g" "ga_terminal (finish c g) = ga_terminal g"
  "ga_active (finish c g) = ga_active g"
  by (simp_all add: finish_def cancelSource_def)

lemma cancelSource_keeps [simp]:
  "ga_in_flight (cancelSource c g) = ga_in_flight g" "ga_cancels (cancelSource c g) = ga_cancels g" "ga_pending (cancelSource c g) = ga_pending g"
  "ga_next_id (cancelSource c g) = ga_next_id g" "ga_committing (cancelSource c g) = ga_committing g" "ga_terminal (cancelSource c g) = ga_terminal g"
  "ga_active (cancelSource c g) = ga_active g"
  by (simp_all add: cancelSource_def)

lemma setBase_keeps [simp]:
  "ga_in_flight (setBaseGeneration n g) = ga_in_flight g" "ga_cancels (setBaseGeneration n g) = ga_cancels g" "ga_pending (setBaseGeneration n g) = ga_pending g"
  "ga_next_id (setBaseGeneration n g) = ga_next_id g" "ga_committing (setBaseGeneration n g) = ga_committing g" "ga_terminal (setBaseGeneration n g) = ga_terminal g"
  "ga_active (setBaseGeneration n g) = ga_active g"
  by (simp_all add: setBaseGeneration_def)

lemma clear_keeps [simp]:
  "ga_in_flight (clear_events g) = card (ga_cancels g)" "ga_cancels (clear_events g) = ga_cancels g" "ga_pending (clear_events g) = Map.empty"
  "ga_next_id (clear_events g) = ga_next_id g" "ga_committing (clear_events g) = ga_committing g" "ga_terminal (clear_events g) = ga_terminal g"
  "ga_active (clear_events g) = ga_active g"
  by (simp_all add: clear_events_def)

lemma decision_keeps [simp]:
  "ga_in_flight (commit_decision parent r t g) = ga_in_flight g" "ga_cancels (commit_decision parent r t g) = ga_cancels g"
  "ga_pending (commit_decision parent r t g) = ga_pending g" "ga_next_id (commit_decision parent r t g) = ga_next_id g"
  "ga_committing (commit_decision parent r t g) = ga_committing g" "ga_terminal (commit_decision parent r t g) = ga_terminal g"
  "ga_active (commit_decision parent r t g) = ga_active g" "ga_input (commit_decision parent r t g) = ga_input g"
  by (auto simp: commit_decision_def setTraceDecision_def split: option.splits)

lemma release_keeps [simp]:
  "ga_in_flight (release_one g) = ga_in_flight g - 1" "ga_cancels (release_one g) = ga_cancels g" "ga_pending (release_one g) = ga_pending g"
  "ga_next_id (release_one g) = ga_next_id g" "ga_committing (release_one g) = ga_committing g" "ga_terminal (release_one g) = ga_terminal g"
  "ga_active (release_one g) = ga_active g"
  by (simp_all add: release_one_def)

section \<open>The bookkeeping invariant\<close>

lemma events_ok_empty: "events_ok 0 cs ps next b \<Longrightarrow> cs = {} \<and> ps = {}"
  by (auto simp: events_ok_def)

lemma events_ok_reserve: "events_ok 0 cs ps next b \<Longrightarrow> events_ok 1 (insert i cs) ps i False"
  by (frule events_ok_empty) (simp add: events_ok_def)

text \<open>An event that runs, or one that waits for its acknowledgement, is the only one.\<close>

lemma only_member: "finite A \<Longrightarrow> i \<in> A \<Longrightarrow> card A + k \<le> 1 \<Longrightarrow> A = {i} \<and> k = 0" for A :: "'a set"
  using card_gt_0_iff [of A] card_le_Suc0_iff_eq [of A] by (cases k) auto

lemma events_ok_running: "events_ok n cs ps next b \<Longrightarrow> i \<in> cs \<Longrightarrow> cs = {i} \<and> ps = {} \<and> n = 1 \<and> \<not> b"
  using only_member [of cs i "card ps"] by (auto simp: events_ok_def)

lemma events_ok_waiting: "events_ok n cs ps next b \<Longrightarrow> i \<in> ps \<Longrightarrow> ps = {i} \<and> cs = {} \<and> n = 1 \<and> \<not> b"
  using only_member [of ps i "card cs"] by (auto simp: events_ok_def)

lemma events_ok_drop: "events_ok n cs ps next b \<Longrightarrow> i \<in> cs \<Longrightarrow> events_ok (n - 1) (cs - {i}) ps next b"
  by (frule (1) events_ok_running) (simp add: events_ok_def)

lemma events_ok_move: "events_ok n cs ps next b \<Longrightarrow> i \<in> cs \<Longrightarrow> events_ok n (cs - {i}) (insert i ps) next b"
  by (frule (1) events_ok_running) (simp add: events_ok_def)

lemma events_ok_done: "events_ok n cs ps next b \<Longrightarrow> i \<in> ps \<Longrightarrow> events_ok (n - 1) cs (ps - {i}) next b"
  by (frule (1) events_ok_waiting) (simp add: events_ok_def)

lemma events_ok_clear: "events_ok n cs ps next b \<Longrightarrow> events_ok (card cs) cs {} next b"
  by (auto simp: events_ok_def)

lemma events_ok_commit: "events_ok n cs ps next b \<Longrightarrow> events_ok n cs ps next False" "events_ok 0 cs ps next b \<Longrightarrow> events_ok 0 cs ps next c"
  by (auto simp: events_ok_def)

lemma gate_inv_reserve: "gate_inv g \<Longrightarrow> gate_inv (snd (reserveEvent g))"
  using events_ok_reserve by (auto simp: gate_inv_def reserveEvent_def Let_def)

lemma resolve_pending:
  fixes g :: gate
  defines "g' \<equiv> \<lambda>parent x i res. snd (snd (resolveEvent parent x i res g))"
  assumes "i \<in> ga_cancels g"
  shows "ga_cancels (g' parent x i res) = ga_cancels g - {i}" and "ga_next_id (g' parent x i res) = ga_next_id g"
    and "ga_committing (g' parent x i res) = ga_committing g"
    and "ga_in_flight (g' parent x i res) = ga_in_flight g - 1 \<and> ga_pending (g' parent x i res) = ga_pending g
      \<or> ga_in_flight (g' parent x i res) = ga_in_flight g \<and> dom (ga_pending (g' parent x i res)) = insert i (dom (ga_pending g))"
  using assms(2) unfolding g'_def
  by (cases res; auto simp: resolveEvent_def Let_def split_beta simp del: not_None_eq)+

lemma gate_inv_resolve:
  assumes "gate_inv g"
  shows "gate_inv (snd (snd (resolveEvent parent x i res g)))"
proof (cases "i \<in> ga_cancels g")
  case True
  note known = resolve_pending [OF True, of parent x res]
  from assms True show ?thesis
    using known(4) events_ok_drop [OF _ True] events_ok_move [OF _ True] by (auto simp: gate_inv_def known)
next
  case False
  with assms show ?thesis by (simp add: resolveEvent_def gate_inv_def)
qed

lemma HandleEvent_fields:
  assumes "HandleEvent parent x i res g = (r, g')"
  obtains res' c stop g1 where "resolveEvent parent x i res' g = (c, stop, g1)"
    and "ga_in_flight g' = ga_in_flight g1" "ga_cancels g' = ga_cancels g1" "ga_pending g' = ga_pending g1" "ga_next_id g' = ga_next_id g1"
    "ga_committing g' = ga_committing g1" "ga_terminal g' = ga_terminal g1" "ga_active g' = ga_active g1"
proof -
  let ?res = "map_sum id (map_prod id (suppressActiveRestore (ga_active g) x)) res"
  obtain c stop g1 where r: "resolveEvent parent x i ?res g = (c, stop, g1)" by (metis prod_cases3)
  show thesis
  proof (rule that [OF r])
  qed (use assms r in \<open>auto simp: HandleEvent_def Let_def split: option.splits if_splits sum.splits\<close>)
qed

lemma gate_inv_handle: "gate_inv g \<Longrightarrow> gate_inv (snd (HandleEvent parent x i res g))"
proof -
  assume inv: "gate_inv g"
  obtain r g' where run: "HandleEvent parent x i res g = (r, g')" by fastforce
  then obtain res' c stop g1 where "resolveEvent parent x i res' g = (c, stop, g1)"
    "ga_in_flight g' = ga_in_flight g1" "ga_cancels g' = ga_cancels g1" "ga_pending g' = ga_pending g1" "ga_next_id g' = ga_next_id g1"
    "ga_committing g' = ga_committing g1" by (rule HandleEvent_fields)
  with gate_inv_resolve [OF inv, of parent x i res'] run show ?thesis by (simp add: gate_inv_def)
qed

lemma gate_inv_fail: "gate_inv g \<Longrightarrow> gate_inv (snd (failCallbackApplication parent g))"
  by (auto simp: gate_inv_def failCallbackApplication_def split_beta intro: events_ok_clear)

lemma gate_inv_stop: "gate_inv g \<Longrightarrow> gate_inv (snd (Stop parent c g))"
  by (auto simp: gate_inv_def Stop_def Let_def split_beta intro: events_ok_clear)

lemma gate_inv_settle:
  assumes "gate_inv g" and "ga_pending g i = Some p"
  shows "gate_inv (release_one (g\<lparr>ga_pending := (ga_pending g)(i := None)\<rparr>))"
  using assms events_ok_done [of _ _ "dom (ga_pending g)" _ _ i] by (simp add: gate_inv_def domI)

lemma gate_inv_mark: "gate_inv g \<Longrightarrow> ga_pending g i = Some p \<Longrightarrow> gate_inv (g\<lparr>ga_pending := (ga_pending g)(i \<mapsto> q)\<rparr>)"
  by (auto simp: gate_inv_def insert_absorb domIff)

lemma gate_inv_input [simp]: "gate_inv (g\<lparr>ga_input := s\<rparr>) = gate_inv g"
  by (simp add: gate_inv_def)

lemma gate_inv_finalize_event: "gate_inv g \<Longrightarrow> gate_inv (snd (FinalizeEvent parent q g))"
  using gate_inv_settle gate_inv_mark gate_inv_fail
  by (auto simp: FinalizeEvent_def Let_def split: option.splits)

lemma gate_inv_begin_load: "gate_inv g \<Longrightarrow> gate_inv (snd (BeginLoad r g))"
  using gate_inv_mark
  by (auto simp: BeginLoad_def validateLoadLocked_def load_reserved_def split: option.splits if_splits)

lemma gate_inv_finalize_load: "gate_inv g \<Longrightarrow> gate_inv (snd (FinalizeLoad parent q g))"
  using gate_inv_settle gate_inv_fail by (auto simp: FinalizeLoad_def Let_def split: option.splits)

lemma gate_inv_finish_source: "gate_inv g \<Longrightarrow> gate_inv (finishSource parent e g)"
  by (auto simp: gate_inv_def finishSource_def split_beta)

lemma gate_inv_begin_commit: "gate_inv g \<Longrightarrow> gate_inv (snd (beginCommit g))"
  using events_ok_commit by (auto simp: gate_inv_def beginCommit_def Let_def)

lemma finishCommit_keeps [simp]:
  "ga_in_flight (finishCommit parent r t g) = ga_in_flight g" "ga_cancels (finishCommit parent r t g) = ga_cancels g"
  "ga_pending (finishCommit parent r t g) = ga_pending g" "ga_next_id (finishCommit parent r t g) = ga_next_id g"
  "ga_committing (finishCommit parent r t g) = False" "ga_terminal (finishCommit parent r t g) = ga_terminal g"
  "ga_active (finishCommit parent r t g) = False"
  by (simp_all add: finishCommit_def Let_def split_beta split: option.splits)

lemma gate_inv_activate: "gate_inv g \<Longrightarrow> gate_inv (snd (Activate parent base g))"
  by (simp add: gate_inv_def Activate_def)

lemma gate_inv_wait: "gate_inv g \<Longrightarrow> gate_inv (snd (Wait parent g))"
  by (simp add: gate_inv_def Wait_def Let_def)

lemma gate_inv_abandon: "gate_inv g \<Longrightarrow> gate_inv (abandonCommit g)"
  using events_ok_commit(1) by (auto simp: gate_inv_def abandonCommit_def)

lemma gate_inv_finish_commit: "gate_inv g \<Longrightarrow> gate_inv (finishCommit parent r t g)"
  using events_ok_commit(1) by (auto simp: gate_inv_def)

lemma gate_inv_finish: "gate_inv g \<Longrightarrow> gate_inv (finish c g)" "gate_inv g \<Longrightarrow> gate_inv (cancelSource c g)"
  by (simp_all add: gate_inv_def)

lemma gate_inv_set_base: "gate_inv g \<Longrightarrow> gate_inv (setBaseGeneration n g)"
  by (simp add: gate_inv_def)

lemmas gate_inv_ops = gate_inv_reserve gate_inv_resolve gate_inv_handle gate_inv_finalize_event gate_inv_begin_load gate_inv_finalize_load
  gate_inv_fail gate_inv_activate gate_inv_finish_source gate_inv_stop gate_inv_wait gate_inv_begin_commit gate_inv_abandon
  gate_inv_finish_commit gate_inv_finish gate_inv_set_base

lemma gate_inv_step: "gate_inv g \<Longrightarrow> gate_step g h \<Longrightarrow> gate_inv h"
  by (rotate_tac 1, erule gate_step.cases) (simp_all add: gate_inv_ops)

lemma gate_inv_new: "gate_inv (newInitialEnrichment initial)"
  by (simp add: gate_inv_def newInitialEnrichment_def events_ok_def)

section \<open>Latches\<close>

text \<open>What no step undoes.\<close>

definition latched :: "gate \<Rightarrow> gate \<Rightarrow> bool" where
  "latched g h \<longleftrightarrow> ga_next_id g \<le> ga_next_id h \<and> (ga_terminal g \<longrightarrow> ga_terminal h) \<and> (ga_active h \<longrightarrow> ga_active g)
     \<and> (is_closed (ga_input g) \<longrightarrow> is_closed (ga_input h)) \<and> (\<exists>more. is_buffer (ga_input h) = is_buffer (ga_input g) @ more)"

lemma latched_refl [simp]: "latched g g"
  by (simp add: latched_def)

lemma latched_trans: "latched g h \<Longrightarrow> latched h k \<Longrightarrow> latched g k"
  by (auto simp: latched_def)

lemma input_close_sel [simp]: "is_closed (input_Close s)" "is_buffer (input_Close s) = is_buffer s"
  "is_closed (CloseWithError c s)" "is_buffer (CloseWithError c s) = is_buffer s"
  by (simp_all add: input_Close_def CloseWithError_def closeWithError_def)

lemma finish_input: "is_buffer (ga_input (finish c g)) = is_buffer (ga_input g)"
  "is_closed (ga_input g) \<Longrightarrow> is_closed (ga_input (finish c g))"
  by (simp_all add: finish_def cancelSource_def)

lemma cancelSource_input [simp]: "ga_input (cancelSource c g) = ga_input g"
  by (simp add: cancelSource_def)

lemma setBase_input [simp]: "ga_input (setBaseGeneration n g) = ga_input g"
  by (simp add: setBaseGeneration_def)

lemma clear_input [simp]: "ga_input (clear_events g) = ga_input g"
  by (simp add: clear_events_def)

lemma release_input [simp]: "ga_input (release_one g) = ga_input g"
  by (simp add: release_one_def)

lemma append_input: "is_closed (snd (snd (AppendAfter d p s))) = is_closed s"
  "\<exists>more. is_buffer (snd (snd (AppendAfter d p s))) = is_buffer s @ more"
  by (auto simp: AppendAfter_def split: option.splits)

lemma latched_finish: "latched g (finish c g)" "latched g (cancelSource c g)"
  by (auto simp: latched_def finish_input)

lemma latched_reserve: "latched g (snd (reserveEvent g))"
  using word_less_Suc [of "ga_next_id g"] by (auto simp: latched_def reserveEvent_def Let_def)

lemma latched_resolve: "latched g (snd (snd (resolveEvent parent x i res g)))"
  by (cases res) (auto simp: latched_def resolveEvent_def Let_def split_beta simp del: not_None_eq)

lemma latched_handle: "latched g (snd (HandleEvent parent x i res g))"
proof -
  let ?res = "map_sum id (map_prod id (suppressActiveRestore (ga_active g) x)) res"
  obtain c stop g1 where r: "resolveEvent parent x i ?res g = (c, stop, g1)" by (metis prod_cases3)
  with latched_resolve [of g parent x i ?res] have "latched g g1" by simp
  then show ?thesis by (auto simp: HandleEvent_def Let_def r latched_def split: option.splits sum.splits if_splits)
qed

lemma latched_fail: "latched g (snd (failCallbackApplication parent g))"
  by (auto simp: latched_def failCallbackApplication_def split_beta finish_input)

lemma latched_finalize_event: "latched g (snd (FinalizeEvent parent q g))"
  by (simp add: FinalizeEvent_def Let_def latched_fail split: option.split) (simp add: latched_def)

lemma latched_begin_load: "latched g (snd (BeginLoad r g))"
  by (auto simp: latched_def BeginLoad_def split: option.splits)

lemma latched_finalize_load: "latched g (snd (FinalizeLoad parent q g))"
  by (simp add: FinalizeLoad_def Let_def latched_fail split: option.split) (simp add: latched_def)

lemma latched_lifecycle: "latched g (snd (Activate parent base g))" "latched g (finishSource parent e g)" "latched g (snd (Stop parent c g))"
  "latched g (snd (Wait parent g))" "latched g (snd (beginCommit g))" "latched g (abandonCommit g)" "latched g (setBaseGeneration n g)"
  by (auto simp: latched_def Activate_def finishSource_def split_beta finish_input Stop_def Wait_def Let_def beginCommit_def abandonCommit_def)

lemma latched_append: "latched g (g\<lparr>ga_input := snd (snd (AppendAfter d p (ga_input g)))\<rparr>)"
  using append_input by (simp add: latched_def)

lemma finishCommit_input: "is_buffer (ga_input (finishCommit parent r t g)) = is_buffer (ga_input g)"
  "is_closed (ga_input g) \<Longrightarrow> is_closed (ga_input (finishCommit parent r t g))"
  by (simp_all add: finishCommit_def Let_def split_beta finish_input split: option.splits)

lemma latched_finish_commit: "latched g (finishCommit parent r t g)"
  by (simp add: latched_def finishCommit_input)

lemma latched_step: "gate_step g h \<Longrightarrow> latched g h"
  by (erule gate_step.cases) (simp_all add: latched_finish latched_reserve latched_resolve latched_handle latched_fail latched_finalize_event
    latched_begin_load latched_finalize_load latched_lifecycle latched_append latched_finish_commit)

lemma latched_steps: "gate_step\<^sup>*\<^sup>* g h \<Longrightarrow> latched g h"
  by (induction rule: rtranclp_induct) (auto intro: latched_step latched_trans)

interpretation coordinator: monotone_system gate_init gate_step gate_inv "\<lambda>g. unat (ga_next_id g)"
proof unfold_locales
  show "gate_inv g" if "gate_init g" for g using that gate_inv_new by blast
  show "gate_inv h" if "gate_inv g" "gate_step g h" for g h using that by (rule gate_inv_step)
  show "unat (ga_next_id g) \<le> unat (ga_next_id h)" if "gate_inv g" "gate_step g h" for g h
    using latched_step [OF that(2)] by (simp add: latched_def word_le_nat_alt)
qed

section \<open>Events are serial\<close>

lemma reserved_fields:
  assumes "reserveEvent g = (Reserved j, h)"
  shows "\<not> ga_terminal g" "\<not> ga_committing g" "ga_in_flight g = 0" "j = ga_next_id g + 1" "ga_next_id g < j"
    "h = g\<lparr>ga_next_id := j, ga_cancels := insert j (ga_cancels g), ga_in_flight := 1\<rparr>"
  using assms word_less_Suc [of "ga_next_id g"] by (auto simp: reserveEvent_def Let_def split: if_splits)

text \<open>
  C2: The gate serializes events and the enrichment commit over every interleaving: an event is admitted only when
  no other event runs or waits for its acknowledgement and no commit is in progress, never after the session
  became terminal, and under an identifier larger than every identifier used before.
\<close>

theorem gate_serial:
  assumes "reach gate_init gate_step g" and "gate_step\<^sup>*\<^sup>* g g1" and "reserveEvent g1 = (Reserved j, h)"
  shows "ga_cancels g1 = {} \<and> ga_pending g1 = Map.empty \<and> \<not> ga_committing g1 \<and> \<not> ga_terminal g
    \<and> (\<forall>i \<in> ga_cancels g \<union> dom (ga_pending g). i < j) \<and> ga_next_id g < j
    \<and> ga_cancels h = {j} \<and> ga_in_flight h = 1"
proof -
  note fields = reserved_fields [OF assms(3)]
  have inv: "gate_inv g" using assms(1) by (rule coordinator.reach_inv)
  then have "gate_inv g1" using assms(2) by (rule coordinator.steps_inv)
  with fields have empty: "ga_cancels g1 = {} \<and> dom (ga_pending g1) = {}"
    unfolding gate_inv_def using events_ok_empty by metis
  have l: "latched g g1" using assms(2) by (rule latched_steps)
  then have "ga_next_id g < j" using fields(5) by (auto simp: latched_def)
  moreover have "i \<le> ga_next_id g" if "i \<in> ga_cancels g \<union> dom (ga_pending g)" for i
    using inv that by (auto simp: gate_inv_def events_ok_def)
  ultimately show ?thesis using fields l empty by (auto simp: latched_def intro: le_less_trans)
qed

lemma HandleEvent_success:
  fixes e :: effect and x :: opcode
  assumes "i \<in> ga_cancels g" and "\<not> ga_terminal g"
  defines "e' \<equiv> suppressActiveRestore (ga_active g) x e"
  shows "ga_pending (snd (HandleEvent parent x i (Inr (generation, e)) g)) = (ga_pending g)(i \<mapsto> pending_of x e')"
    and "ga_in_flight (snd (HandleEvent parent x i (Inr (generation, e)) g)) = ga_in_flight g"
    and "ga_cancels (snd (HandleEvent parent x i (Inr (generation, e)) g)) = ga_cancels g - {i}"
    and "ga_next_id (snd (HandleEvent parent x i (Inr (generation, e)) g)) = ga_next_id g"
    and "ga_committing (snd (HandleEvent parent x i (Inr (generation, e)) g)) = ga_committing g"
    and "\<not> ef_accept e' \<and> \<not> ef_abort e' \<Longrightarrow> \<not> ga_terminal (snd (HandleEvent parent x i (Inr (generation, e)) g))"
proof -
  obtain c stop g1 where r: "resolveEvent parent x i (Inr (generation, e')) g = (c, stop, g1)" by (metis prod_cases3)
  then have g1: "g1 = snd (snd (resolveEvent parent x i (Inr (generation, e')) g))" by simp
  have h: "ga_pending (snd (HandleEvent parent x i (Inr (generation, e)) g)) = ga_pending g1"
    "ga_in_flight (snd (HandleEvent parent x i (Inr (generation, e)) g)) = ga_in_flight g1"
    "ga_cancels (snd (HandleEvent parent x i (Inr (generation, e)) g)) = ga_cancels g1"
    "ga_next_id (snd (HandleEvent parent x i (Inr (generation, e)) g)) = ga_next_id g1"
    "ga_committing (snd (HandleEvent parent x i (Inr (generation, e)) g)) = ga_committing g1"
    "ga_terminal (snd (HandleEvent parent x i (Inr (generation, e)) g)) = ga_terminal g1"
    using r by (auto simp: HandleEvent_def Let_def e'_def split: option.splits if_splits)
  show "ga_pending (snd (HandleEvent parent x i (Inr (generation, e)) g)) = (ga_pending g)(i \<mapsto> pending_of x e')"
    using assms(1,2) unfolding h g1 by (simp add: resolveEvent_def Let_def split_beta)
  show "ga_in_flight (snd (HandleEvent parent x i (Inr (generation, e)) g)) = ga_in_flight g"
    "ga_cancels (snd (HandleEvent parent x i (Inr (generation, e)) g)) = ga_cancels g - {i}"
    "ga_next_id (snd (HandleEvent parent x i (Inr (generation, e)) g)) = ga_next_id g"
    "ga_committing (snd (HandleEvent parent x i (Inr (generation, e)) g)) = ga_committing g"
    using assms(1,2) unfolding h g1 by (simp_all add: resolveEvent_def Let_def split_beta)
  show "\<not> ga_terminal (snd (HandleEvent parent x i (Inr (generation, e)) g))" if "\<not> ef_accept e' \<and> \<not> ef_abort e'"
    using assms(1,2) that unfolding h g1 by (simp add: resolveEvent_def Let_def split_beta)
qed

lemma pending_of_sel [simp]: "pv_generation (pending_of x e) = effect_target e" "\<not> pv_finalized (pending_of x e)"
  "\<not> pv_applied (pending_of x e)" "\<not> pv_load_requested (pending_of x e)"
  by (simp_all add: pending_of_def)

lemma FinalizeEvent_applied:
  fixes parent :: "go_error option"
  assumes "ga_pending g i = Some p" and "\<not> pv_finalized p"
  defines "g' \<equiv> snd (FinalizeEvent parent \<lparr>fq_event_id = i, fq_applied = True\<rparr> g)"
  shows "fst (FinalizeEvent parent \<lparr>fq_event_id = i, fq_applied = True\<rparr> g) = None"
    and "ga_pending g' = (ga_pending g)(i := if pv_generation p = 0 then None else Some (p\<lparr>pv_finalized := True, pv_applied := True\<rparr>))"
    and "ga_in_flight g' = (if pv_generation p = 0 then ga_in_flight g - 1 else ga_in_flight g)"
    and "ga_cancels g' = ga_cancels g" and "ga_terminal g' = ga_terminal g" and "ga_committing g' = ga_committing g" and "ga_next_id g' = ga_next_id g"
    and "pv_close_input p \<Longrightarrow> is_closed (ga_input g')"
  using assms(1,2) unfolding g'_def by (simp_all add: FinalizeEvent_def Let_def)

lemma BeginLoad_finalized:
  assumes "ga_pending g i = Some p" and "pv_finalized p" and "pv_applied p" and "\<not> pv_load_requested p" and "i \<noteq> 0" and "pv_generation p \<noteq> 0"
  shows "BeginLoad \<lparr>lq_generation = pv_generation p, lq_event_id = i\<rparr> g
    = (None, g\<lparr>ga_pending := (ga_pending g)(i \<mapsto> p\<lparr>pv_load_requested := True\<rparr>)\<rparr>)"
  using assms by (simp add: BeginLoad_def validateLoadLocked_def load_reserved_def)

lemma FinalizeLoad_applied:
  fixes parent :: "go_error option"
  assumes "ga_pending g i = Some p" and "pv_finalized p" and "pv_applied p" and "pv_load_requested p"
  defines "g' \<equiv> snd (FinalizeLoad parent \<lparr>fq_event_id = i, fq_applied = True\<rparr> g)"
  shows "fst (FinalizeLoad parent \<lparr>fq_event_id = i, fq_applied = True\<rparr> g) = None"
    and "ga_pending g' = (ga_pending g)(i := None)" and "ga_in_flight g' = ga_in_flight g - 1"
    and "ga_cancels g' = ga_cancels g" and "ga_terminal g' = ga_terminal g" and "ga_committing g' = ga_committing g" and "ga_next_id g' = ga_next_id g"
  using assms(1-4) unfolding g'_def by (simp_all add: FinalizeLoad_def Let_def)

lemma running_event:
  assumes "gate_inv g" and "i \<in> ga_cancels g"
  shows "ga_cancels g = {i} \<and> ga_pending g = Map.empty \<and> ga_in_flight g = 1 \<and> \<not> ga_committing g"
  using events_ok_running [OF assms(1) [unfolded gate_inv_def] assms(2)] by auto

lemma HandleEvent_exit:
  assumes "i \<in> ga_cancels g" and "ef_accept e \<or> ef_abort e"
  shows "ga_terminal (snd (HandleEvent parent x i (Inr (generation, e)) g))"
proof -
  let ?e = "suppressActiveRestore (ga_active g) x e"
  have e: "ef_accept ?e \<or> ef_abort ?e" using assms(2) by (auto simp: suppressActiveRestore_def)
  obtain c stop g1 where r: "resolveEvent parent x i (Inr (generation, ?e)) g = (c, stop, g1)" by (metis prod_cases3)
  have "ga_terminal (snd (snd (resolveEvent parent x i (Inr (generation, ?e)) g)))"
    using assms(1) e by (auto simp: resolveEvent_def Let_def split_beta)
  with r show ?thesis by (auto simp: HandleEvent_def Let_def split: option.splits if_splits)
qed

text \<open>
  C8: The settlement of one event that the session handled successfully.  When its effect accepts or aborts, the gate
  becomes terminal and never admits another event.  Otherwise the reservation it leaves is freed by its
  acknowledgement when the effect asks for no load, and when it does the acknowledgement admits exactly one load, of
  exactly the effect's generation, and the acknowledgement of that load frees it; then the gate admits the next
  event, and until then it admits none.  The event runs in a coordinator that is not terminal and has identifiers
  left; acknowledgements report that fzf applied the action.
\<close>

theorem event_settles:
  fixes g g1 g2 g3 g4 :: gate and x :: opcode and e e' :: effect and load :: load_request and i generation :: u64 and parent :: "go_error option"
  defines "e' \<equiv> suppressActiveRestore (ga_active g) x e"
    and "g1 \<equiv> snd (HandleEvent parent x i (Inr (generation, e)) g)"
    and "g2 \<equiv> snd (FinalizeEvent parent \<lparr>fq_event_id = i, fq_applied = True\<rparr> g1)"
    and "load \<equiv> \<lparr>lq_generation = effect_target e', lq_event_id = i\<rparr>"
    and "g3 \<equiv> snd (BeginLoad load g2)"
    and "g4 \<equiv> snd (FinalizeLoad parent \<lparr>fq_event_id = i, fq_applied = True\<rparr> g3)"
  assumes r: "reach gate_init gate_step g" and i: "i \<in> ga_cancels g" and nz: "i \<noteq> 0" and t: "\<not> ga_terminal g" and n: "ga_next_id g \<noteq> - 1"
  shows "if ef_accept e \<or> ef_abort e then \<forall>h. gate_step\<^sup>*\<^sup>* g1 h \<longrightarrow> (\<exists>err. fst (reserveEvent h) = Refused err)
    else fst (reserveEvent g1) = MustWait
    \<and> (if effect_target e' = 0 then fst (reserveEvent g2) = Reserved (ga_next_id g + 1)
       else fst (BeginLoad load g1) \<noteq> None \<and> fst (BeginLoad load g2) = None \<and> fst (BeginLoad load g3) \<noteq> None
         \<and> fst (reserveEvent g2) = MustWait \<and> fst (reserveEvent g3) = MustWait
         \<and> (\<forall>q. q \<noteq> load \<longrightarrow> fst (BeginLoad q g2) \<noteq> None)
         \<and> fst (reserveEvent g4) = Reserved (ga_next_id g + 1))"
proof (cases "ef_accept e \<or> ef_abort e")
  case True
  have "\<exists>err. fst (reserveEvent h) = Refused err" if "gate_step\<^sup>*\<^sup>* g1 h" for h
    using latched_steps [OF that] HandleEvent_exit [OF i True] unfolding g1_def by (simp add: latched_def reserveEvent_def)
  with True show ?thesis by simp
next
  case False
  then have a: "\<not> ef_accept e'" "\<not> ef_abort e'" by (simp_all add: e'_def suppressActiveRestore_def)
  have only: "ga_cancels g = {i}" "ga_pending g = Map.empty" "ga_in_flight g = 1" "\<not> ga_committing g"
    using running_event [OF coordinator.reach_inv [OF r] i] by auto
  have h: "ga_pending g1 = [i \<mapsto> pending_of x e']" "ga_in_flight g1 = 1" "ga_next_id g1 = ga_next_id g" "\<not> ga_committing g1" "\<not> ga_terminal g1"
    using HandleEvent_success [OF i t, where parent = parent and x = x and generation = generation and e = e] only a unfolding g1_def e'_def by auto
  have p1: "ga_pending g1 i = Some (pending_of x e')" using h by simp
  note f = FinalizeEvent_applied [OF p1 pending_of_sel(2), where parent = parent, folded g2_def, simplified]
  have "fst (reserveEvent g1) = MustWait
    \<and> (if effect_target e' = 0 then fst (reserveEvent g2) = Reserved (ga_next_id g + 1)
       else fst (BeginLoad load g1) \<noteq> None \<and> fst (BeginLoad load g2) = None \<and> fst (BeginLoad load g3) \<noteq> None
         \<and> fst (reserveEvent g2) = MustWait \<and> fst (reserveEvent g3) = MustWait
         \<and> (\<forall>q. q \<noteq> load \<longrightarrow> fst (BeginLoad q g2) \<noteq> None)
         \<and> fst (reserveEvent g4) = Reserved (ga_next_id g + 1))"
  proof (cases "effect_target e' = 0")
    case True
    then show ?thesis using f h n by (simp add: reserveEvent_def Let_def)
  next
    case False
    let ?p = "(pending_of x e')\<lparr>pv_finalized := True, pv_applied := True\<rparr>"
    have p2: "ga_pending g2 = [i \<mapsto> ?p]" using f h False by simp
    then have b: "BeginLoad load g2 = (None, g2\<lparr>ga_pending := [i \<mapsto> ?p\<lparr>pv_load_requested := True\<rparr>]\<rparr>)"
      using BeginLoad_finalized [of g2 i ?p] nz False by (simp add: load_def)
    then have g3: "g3 = g2\<lparr>ga_pending := [i \<mapsto> ?p\<lparr>pv_load_requested := True\<rparr>]\<rparr>" by (simp add: g3_def)
    have "fst (BeginLoad q g2) \<noteq> None" if "q \<noteq> load" for q
      using that p2 by (cases q) (auto simp: BeginLoad_def validateLoadLocked_def load_reserved_def load_def split: if_splits)
    moreover have "fst (BeginLoad load g1) \<noteq> None" using p1 by (simp add: BeginLoad_def validateLoadLocked_def load_reserved_def load_def)
    moreover have "fst (BeginLoad load g3) \<noteq> None" by (simp add: g3 BeginLoad_def validateLoadLocked_def load_reserved_def load_def)
    moreover have "fst (reserveEvent g4) = Reserved (ga_next_id g + 1)"
      using FinalizeLoad_applied [of g3 i "?p\<lparr>pv_load_requested := True\<rparr>", where parent = parent, folded g4_def] f h n
      by (simp add: g3 reserveEvent_def Let_def)
    ultimately show ?thesis using f h b False by (simp add: g3 reserveEvent_def)
  qed
  with False show ?thesis by simp
qed

section \<open>A callback that could not be applied\<close>

lemma joinLifecycle_keeps: "joinLifecycleErrors existing (Some e) \<noteq> None"
  "\<exists>f. joinLifecycleErrors existing (Some e) = Some f \<and> (errors_is f e \<or> existing = Some f)"
  by (auto simp: joinLifecycleErrors_def split: option.splits)

lemma failCallback_sel:
  "ga_terminal (snd (failCallbackApplication parent g))" "\<not> ga_active (snd (failCallbackApplication parent g))"
  "ga_pending (snd (failCallbackApplication parent g)) = Map.empty"
  "ga_cancels (snd (failCallbackApplication parent g)) = ga_cancels g"
  by (simp_all add: failCallbackApplication_def split_beta)

text \<open>\<open>dead\<close>: terminal, with no reservation left.  No step leaves it.\<close>

definition dead :: "gate \<Rightarrow> bool" where
  "dead g \<longleftrightarrow> ga_terminal g \<and> ga_pending g = Map.empty"

lemma dead_resolve: "dead g \<Longrightarrow> dead (snd (snd (resolveEvent parent x i res g)))"
  by (cases res) (auto simp: dead_def resolveEvent_def Let_def)

lemma dead_handle: "dead g \<Longrightarrow> dead (snd (HandleEvent parent x i res g))"
proof -
  assume d: "dead g"
  obtain r g' where run: "HandleEvent parent x i res g = (r, g')" by fastforce
  then obtain res' c stop g1 where "resolveEvent parent x i res' g = (c, stop, g1)"
    "ga_pending g' = ga_pending g1" "ga_terminal g' = ga_terminal g1" by (rule HandleEvent_fields)
  with dead_resolve [OF d, of parent x i res'] run show ?thesis by (simp add: dead_def)
qed

lemma dead_callbacks: "dead g \<Longrightarrow> dead (snd (FinalizeEvent parent q g))" "dead g \<Longrightarrow> dead (snd (FinalizeLoad parent q g))"
  "dead g \<Longrightarrow> dead (snd (BeginLoad r g))" "dead g \<Longrightarrow> dead (snd (reserveEvent g))" "dead (snd (failCallbackApplication parent g))"
  using failCallback_sel [of parent g]
  by (simp_all add: dead_def FinalizeEvent_def FinalizeLoad_def BeginLoad_def validateLoadLocked_def load_reserved_def reserveEvent_def)

lemma dead_lifecycle: "dead g \<Longrightarrow> dead (snd (Activate parent base g))" "dead g \<Longrightarrow> dead (finishSource parent e g)"
  "dead g \<Longrightarrow> dead (snd (Stop parent c g))" "dead g \<Longrightarrow> dead (snd (Wait parent g))" "dead g \<Longrightarrow> dead (snd (beginCommit g))"
  "dead g \<Longrightarrow> dead (abandonCommit g)" "dead g \<Longrightarrow> dead (setBaseGeneration n g)" "dead g \<Longrightarrow> dead (finish c g)"
  "dead g \<Longrightarrow> dead (cancelSource c g)" "dead g \<Longrightarrow> dead (finishCommit parent t m g)" "dead g \<Longrightarrow> dead (g\<lparr>ga_input := s\<rparr>)"
  by (auto simp: dead_def Activate_def finishSource_def split_beta Stop_def Wait_def Let_def beginCommit_def abandonCommit_def)

lemma dead_step: "gate_step g h \<Longrightarrow> dead g \<Longrightarrow> dead h"
  by (erule gate_step.cases) (simp_all add: dead_resolve dead_handle dead_callbacks dead_lifecycle)

lemma dead_steps: "gate_step\<^sup>*\<^sup>* g h \<Longrightarrow> dead g \<Longrightarrow> dead h"
  by (induction rule: rtranclp_induct) (auto intro: dead_step)

section \<open>A load is served once\<close>

text \<open>\<open>served i\<close>: the event \<open>i\<close> has been admitted and no load of it is left to admit.  No step leaves it.\<close>

definition served :: "u64 \<Rightarrow> gate \<Rightarrow> bool" where
  "served i g \<longleftrightarrow> i \<le> ga_next_id g \<and> i \<notin> ga_cancels g \<and> (\<forall>p. ga_pending g i = Some p \<longrightarrow> pv_load_requested p)"

lemma served_resolve: "served i g \<Longrightarrow> served i (snd (snd (resolveEvent parent x j res g)))"
  by (cases res) (auto simp: served_def resolveEvent_def Let_def split_beta simp del: not_None_eq)

lemma served_handle: "served i g \<Longrightarrow> served i (snd (HandleEvent parent x j res g))"
proof -
  assume d: "served i g"
  obtain r g' where run: "HandleEvent parent x j res g = (r, g')" by fastforce
  then obtain res' c stop g1 where "resolveEvent parent x j res' g = (c, stop, g1)"
    "ga_cancels g' = ga_cancels g1" "ga_pending g' = ga_pending g1" "ga_next_id g' = ga_next_id g1" by (rule HandleEvent_fields)
  with served_resolve [OF d, of parent x j res'] run show ?thesis by (simp add: served_def)
qed

lemma served_reserve: "served i g \<Longrightarrow> served i (snd (reserveEvent g))"
  using word_less_Suc [of "ga_next_id g"] by (auto simp: served_def reserveEvent_def Let_def)

lemma served_fail: "served i g \<Longrightarrow> served i (snd (failCallbackApplication parent g))"
  by (simp add: served_def failCallbackApplication_def split_beta)

lemma served_callbacks: "served i g \<Longrightarrow> served i (snd (FinalizeEvent parent q g))" "served i g \<Longrightarrow> served i (snd (FinalizeLoad parent q g))"
  "served i g \<Longrightarrow> served i (snd (BeginLoad r g))"
  by (simp_all add: FinalizeEvent_def FinalizeLoad_def BeginLoad_def Let_def served_fail split: option.split) (auto simp: served_def)

lemma served_lifecycle: "served i g \<Longrightarrow> served i (snd (Activate parent base g))" "served i g \<Longrightarrow> served i (finishSource parent e g)"
  "served i g \<Longrightarrow> served i (snd (Stop parent c g))" "served i g \<Longrightarrow> served i (snd (Wait parent g))" "served i g \<Longrightarrow> served i (snd (beginCommit g))"
  "served i g \<Longrightarrow> served i (abandonCommit g)" "served i g \<Longrightarrow> served i (setBaseGeneration n g)" "served i g \<Longrightarrow> served i (finish c g)"
  "served i g \<Longrightarrow> served i (cancelSource c g)" "served i g \<Longrightarrow> served i (finishCommit parent t m g)" "served i g \<Longrightarrow> served i (g\<lparr>ga_input := s\<rparr>)"
  by (auto simp: served_def Activate_def finishSource_def split_beta Stop_def Wait_def Let_def beginCommit_def abandonCommit_def)

lemma served_step: "gate_step g h \<Longrightarrow> served i g \<Longrightarrow> served i h"
  by (erule gate_step.cases) (simp_all add: served_resolve served_handle served_reserve served_fail served_callbacks served_lifecycle)

lemma served_steps: "gate_step\<^sup>*\<^sup>* g h \<Longrightarrow> served i g \<Longrightarrow> served i h"
  by (induction rule: rtranclp_induct) (auto intro: served_step)

lemma served_refuses: "served i g \<Longrightarrow> lq_event_id q = i \<Longrightarrow> ValidateLoad q g = Refused ErrInvalidLoad"
  by (auto simp: served_def ValidateLoad_def load_reserved_def split: option.splits)

text \<open>
  C9: When fzf could not apply an event's action or read its load, the callback's report ends the session for good:
  whatever happens afterwards, no reservation exists, no event is admitted, no load is admitted, and the source may
  not begin a commit.
\<close>

theorem failed_callback_is_final:
  assumes "ga_pending g i = Some p" and "pv_finalized p \<longrightarrow> pv_applied p"
    and "g1 = (if pv_finalized p then snd (FinalizeLoad parent \<lparr>fq_event_id = i, fq_applied = False\<rparr> g)
               else snd (FinalizeEvent parent \<lparr>fq_event_id = i, fq_applied = False\<rparr> g))"
    and "gate_step\<^sup>*\<^sup>* g1 g2"
  shows "ga_pending g2 = Map.empty \<and> (\<forall>q. ValidateLoad q g2 = Refused ErrInvalidLoad \<and> fst (BeginLoad q g2) = Some ErrInvalidLoad)
    \<and> (\<exists>e. fst (reserveEvent g2) = Refused e) \<and> fst (beginCommit g2) = CommitNever"
proof -
  have g1: "g1 = snd (failCallbackApplication parent g)"
    using assms(1-3) by (auto simp: FinalizeLoad_def FinalizeEvent_def)
  have "dead g2" using assms(4) dead_steps failCallback_sel [of parent g] by (simp add: dead_def g1)
  then show ?thesis
    by (simp add: dead_def reserveEvent_def beginCommit_def ValidateLoad_def BeginLoad_def validateLoadLocked_def load_reserved_def)
qed

section \<open>The view stays the session's\<close>

lemma handle_enrich_disj:
  "(\<exists>e. handle_enrich env c b = replyEnrichError c e b)
   \<or> enrich_error env c b = None \<and> en_base c = sn_generation (at_current b) \<and> recordValues (at_current (handle_enrich env c b)) = en_records c"
proof (cases "at_shutdown b = None \<and> ae_caller env (en_id c) = None \<and> ae_session env = None \<and> en_base c = sn_generation (at_current b)
    \<and> at_pending b = None \<and> at_next_id b \<noteq> - 1")
  case True
  then show ?thesis by (simp add: handle_enrich_def enrich_error_def nextGeneration_def Let_def recordValues_def ownRecordSet_def)
next
  case False
  then have "\<exists>e. handle_enrich env c b = replyEnrichError c e b"
    by (auto simp: handle_enrich_def nextGeneration_def split: option.split)
  then show ?thesis ..
qed

lemma refused_enrich: "handle_enrich env c b = replyEnrichError c e b \<Longrightarrow> enrich_error env c b = Some e"
  by (simp add: enrich_error_def replyEnrichError_def)

lemma framed_values: "FramedRecords s = FrameRecordValues Wire (recordValues s)"
  by (simp add: FramedRecords_def recordValues_def FrameRecordValues_def split: option.splits)

lemma framed_append: "FrameRecordValues wire (xs @ ys) = FrameRecordValues wire xs @ FrameRecordValues wire ys"
  by (simp add: FrameRecordValues_eq FrameRecords_eq)

definition view_kept :: "actor \<times> gate \<Rightarrow> actor \<times> gate \<Rightarrow> bool" where
  "view_kept s t \<longleftrightarrow> (\<exists>more. is_buffer (ga_input (snd t)) = is_buffer (ga_input (snd s)) @ more
     \<and> FramedRecords (at_current (fst t)) = FramedRecords (at_current (fst s)) @ more)"

lemma view_kept_finish: "view_kept (b, g) (b', finishCommit parent r t h) = view_kept (b, g) (b', h)"
  by (simp add: view_kept_def finishCommit_input)

lemma view_kept_base: "view_kept (b, g) (b, setBaseGeneration n g)" "view_kept (b, g) (b, g)"
  by (simp_all add: view_kept_def)

lemma commit_published_view:
  assumes "base = sn_generation (at_current b) \<Longrightarrow> merged = recordValues (at_current b) @ admitted"
  shows "view_kept (b, g) (commit_published parent env i base merged admitted b g)"
proof -
  let ?c = "\<lparr>en_id = i, en_base = base, en_records = merged\<rparr>"
  consider e where "handle_enrich env ?c b = replyEnrichError ?c e b"
    | "enrich_error env ?c b = None" "base = sn_generation (at_current b)" "recordValues (at_current (handle_enrich env ?c b)) = merged"
    using handle_enrich_disj [of env ?c b] by auto
  then show ?thesis
  proof cases
    case (1 e)
    then show ?thesis
      using refused_enrich [OF 1]
      by (simp add: commit_published_def Let_def AppendAfter_def view_kept_finish) (simp add: view_kept_def)
  next
    case 2
    have "FramedRecords (at_current (handle_enrich env ?c b)) = FramedRecords (at_current b) @ FrameRecordValues Wire admitted"
      unfolding framed_values 2(3) using assms [OF 2(2)] by (simp add: framed_append)
    with 2(1) show ?thesis
      by (simp add: commit_published_def Let_def AppendAfter_def view_kept_finish) (simp add: view_kept_def)
  qed
qed

text \<open>
  C3: Fzf shows what the session holds: whatever the commit does with the source's records, the bytes it appends to
  fzf's input are exactly the frames by which the published records grow, and nothing is appended when nothing
  is published.  Between the query for the base and the enrichment the actor may have run on (\<open>b\<close> is any state
  it reaches from \<open>a\<close>).  The base's records have distinct identities.
\<close>

theorem commit_keeps_view:
  assumes "reach actor_init actor_step a" and "actor_step\<^sup>*\<^sup>* a b"
    and "distinct (map record_key (recordValues (at_current a)))"
    and "commit u home parent cause env i source a b g = (b', g')"
  shows "\<exists>more. is_buffer (ga_input g') = is_buffer (ga_input g) @ more
    \<and> FramedRecords (at_current b') = FramedRecords (at_current b) @ more"
proof -
  let ?adds = "CompactHomeDisplays u source home"
  have view: "view_kept (b, g) (commit u home parent cause env i source a b g)"
  proof (cases "reply_snapshot cause (ga_base g) a")
    case (Inl e)
    then show ?thesis by (simp add: commit_def view_kept_finish view_kept_base split: sum.split)
  next
    case (Inr base)
    then have base: "base = at_current a" "sn_generation (at_current a) = ga_base g"
      by (auto simp: reply_snapshot_def split: option.splits if_splits)
    obtain merged admitted where m: "MergeNewRecords (recordValues base) ?adds = (merged, admitted)" by fastforce
    have "merged = recordValues (at_current a) @ admitted"
      using records.merge_base_first [OF assms(3), of ?adds] m base by simp
    moreover have "recordValues (at_current a) = recordValues (at_current b)" if "ga_base g = sn_generation (at_current b)"
      using loop.steps_payload [OF loop.reach_inv [OF assms(1)] assms(2)] base(2) that by (simp add: recordValues_def)
    ultimately show ?thesis
      using commit_published_view [of "ga_base g" b merged admitted g parent env i]
      by (auto simp: commit_def Inr m view_kept_finish view_kept_base)
  qed
  with assms(4) show ?thesis by (simp add: view_kept_def)
qed

section \<open>The file-system root\<close>

text \<open>
  C40: At the root, the entries for the directory itself and for its parent have the same target.  The first build
  publishes both and fzf shows both; the merge of the enrichment keeps only the first of them, so the record of
  the parent entry is still on the screen but no longer among the session's records.
\<close>

theorem root_enrichment_drops_parent:
  fixes u :: unicode and p :: picker and entries :: "local_entry list"
  defines "base \<equiv> buildLocalRecords u p (Filesystem ''/'') entries"
    and "parent_entry \<equiv> newRecord (localDirectoryKind p) ''..'' ''/''"
  shows "parent_entry \<in> set base \<and> parent_entry \<notin> set (fst (MergeNewRecords base adds))"
proof -
  let ?dot = "newRecord (localDirectoryKind p) ''.'' ''/''"
  have root: "loc_path (Parent (Filesystem ''/'')) = ''/''" "loc_path (Filesystem ''/'') = ''/''" by code_simp+
  then obtain rest where base: "base = ?dot # parent_entry # rest"
    by (simp add: base_def parent_entry_def buildLocalRecords_def Let_def rootRecords_def ordinaryRootRecords_def)
  have key: "record_key parent_entry = record_key ?dot" "parent_entry \<noteq> ?dot"
    by (simp_all add: parent_entry_def record_key_def newRecord_def localDirectoryKind_def)
  have "?dot \<in> set (fst (MergeNewRecords base adds))" by (simp add: records.merge_eq base)
  with key records.merge_distinct [of base adds] have "parent_entry \<notin> set (fst (MergeNewRecords base adds))"
    by (auto simp: distinct_map inj_on_def)
  with base show ?thesis by simp
qed

section \<open>The steps of the source goroutine\<close>

text \<open>
  What the source goroutine, and the stop that the end of its parent context causes, may do to the coordinator while no
  event runs: end the source, and once it has been activated take and leave the commit gate, append and decide.
\<close>

inductive source_step :: "gate \<Rightarrow> gate \<Rightarrow> bool" where
  source_finish: "source_step g (finishSource parent err g)"
| source_stop: "source_step g (snd (Stop parent cause g))"
| source_begin_commit: "ga_activated g \<Longrightarrow> source_step g (snd (beginCommit g))"
| source_abandon: "source_step g (abandonCommit g)"
| source_append: "ga_activated g \<Longrightarrow> source_step g (g\<lparr>ga_input := snd (snd (AppendAfter data publish (ga_input g)))\<rparr>)"
| source_set_base: "ga_activated g \<Longrightarrow> source_step g (setBaseGeneration generation g)"
| source_finish_commit: "ga_activated g \<Longrightarrow> source_step g (finishCommit parent published terminal g)"

lemma source_gate_step: "source_step g h \<Longrightarrow> gate_step g h"
  by (erule source_step.cases) (auto intro: gate_step.intros)

lemma source_gate_steps: "source_step\<^sup>*\<^sup>* g h \<Longrightarrow> gate_step\<^sup>*\<^sup>* g h"
  by (induction rule: rtranclp_induct) (auto intro: source_gate_step rtranclp.rtrancl_into_rtrancl)

text \<open>The functions of the goroutine are made of these steps.\<close>

lemma source_one: "source_step g h \<Longrightarrow> source_step\<^sup>*\<^sup>* g h"
  by (rule r_into_rtranclp)

lemma source_two: "source_step g h \<Longrightarrow> source_step h k \<Longrightarrow> source_step\<^sup>*\<^sup>* g k"
  by (simp add: r_into_rtranclp rtranclp.rtrancl_into_rtrancl)

lemma source_retained: "source_step\<^sup>*\<^sup>* g (retainInterruptedSourceError parent e g)"
  by (auto simp: retainInterruptedSourceError_def intro: source_one source_finish split: option.split)

lemma source_run: "source_step\<^sup>*\<^sup>* g (snd (run_source p1 p2 p3 ready sourceErr discarded g))"
proof -
  have wait: "source_step\<^sup>*\<^sup>* g (retainInterruptedSourceError p2 sourceErr (snd (Stop p2 p2 g)))"
    using rtranclp_trans [OF source_one [OF source_stop] source_retained] .
  show ?thesis
    using wait source_retained [of g p2 sourceErr]
    by (auto simp: run_source_def waitForActivation_def intro: source_one source_finish source_stop)
qed

lemma source_commit: "ga_activated g \<Longrightarrow> source_step\<^sup>*\<^sup>* g (snd (commit u home parent cause env i source a b g))"
proof -
  assume act: "ga_activated g"
  have fin: "source_step\<^sup>*\<^sup>* g (finishCommit parent t m g)" for t m by (rule source_one [OF source_finish_commit [OF act]])
  have set: "source_step\<^sup>*\<^sup>* g (finishCommit parent t m (setBaseGeneration n g))" for t m n
    by (rule source_two [OF source_set_base [OF act] source_finish_commit]) (simp add: setBaseGeneration_def act)
  have app: "source_step\<^sup>*\<^sup>* g (finishCommit parent t m (g\<lparr>ga_input := snd (snd (AppendAfter d q (ga_input g)))\<rparr>))" for t m d q
    by (rule source_two [OF source_append [OF act] source_finish_commit]) (simp add: act)
  have "source_step\<^sup>*\<^sup>* g (snd (commit_published parent env i base merged admitted b g))" for base merged admitted
    using app by (simp add: commit_published_def Let_def split_beta split: option.split)
  then show ?thesis using fin set
    by (auto simp: commit_def Let_def split: sum.split prod.split)
qed

text \<open>
  What holds of the coordinator until fzf runs: it has no events, its input is open as long as it is active, and
  before its activation the input holds what it held.
\<close>

definition starting :: "bytes \<Rightarrow> gate \<Rightarrow> bool" where
  "starting held g \<longleftrightarrow> ga_cancels g = {} \<and> ga_pending g = Map.empty \<and> (ga_active g \<longrightarrow> \<not> is_closed (ga_input g))
     \<and> (\<not> ga_activated g \<longrightarrow> is_buffer (ga_input g) = held)"

lemma deactivate_origin [simp]: "ga_activated (snd (snd (deactivateLocked parent c g))) = ga_activated g"
  "ga_initial (snd (snd (deactivateLocked parent c g))) = ga_initial g"
  by (simp_all add: deactivateLocked_def Let_def)

lemma finish_origin [simp]: "ga_activated (finish c g) = ga_activated g" "ga_initial (finish c g) = ga_initial g"
  by (simp_all add: finish_def cancelSource_def)

lemma decision_origin [simp]: "ga_activated (commit_decision parent t m g) = ga_activated g" "ga_initial (commit_decision parent t m g) = ga_initial g"
  by (auto simp: commit_decision_def setTraceDecision_def split: option.splits)

lemma finishCommit_origin [simp]: "ga_activated (finishCommit parent t m g) = ga_activated g"
  "ga_initial (finishCommit parent t m g) = ga_initial g" "\<not> ga_active (finishCommit parent t m g)"
  by (simp_all add: finishCommit_def Let_def split_beta split: option.split)

lemma clear_origin [simp]: "ga_activated (clear_events g) = ga_activated g" "ga_initial (clear_events g) = ga_initial g"
  by (simp_all add: clear_events_def)

lemma source_origin: "source_step g h \<Longrightarrow> ga_activated h = ga_activated g \<and> ga_initial h = ga_initial g"
  by (erule source_step.cases)
     (simp_all add: finishSource_def split_beta Stop_def Let_def beginCommit_def abandonCommit_def setBaseGeneration_def)

lemma starting_step: "source_step g h \<Longrightarrow> starting held g \<Longrightarrow> starting held h"
  by (erule source_step.cases)
     (auto simp: starting_def finishSource_def split_beta Stop_def Let_def beginCommit_def abandonCommit_def setBaseGeneration_def
       finish_input append_input)

lemma source_steps:
  assumes "source_step\<^sup>*\<^sup>* g h"
  shows "ga_activated h = ga_activated g \<and> ga_initial h = ga_initial g" "starting held g \<Longrightarrow> starting held h"
  using assms by (induction rule: rtranclp_induct) (auto dest: source_origin intro: starting_step)

lemma starting_new: "starting held (newInitialEnrichment held)"
  by (simp add: starting_def newInitialEnrichment_def NewInputStream_def)

section \<open>Examples\<close>

definition demo_gate :: gate where
  "demo_gate = newInitialEnrichment []"

lemma demo_gate_reach: "reach gate_init gate_step demo_gate" "reach gate_init gate_step (snd (reserveEvent demo_gate))"
  by (auto simp: demo_gate_def intro: reach.intros gate_step.intros)

lemma demo_reserve: "reserveEvent demo_gate = (Reserved 1, demo_gate\<lparr>ga_next_id := 1, ga_cancels := {1}, ga_in_flight := 1\<rparr>)"
  by (simp add: demo_gate_def newInitialEnrichment_def reserveEvent_def)

theorem gate_serial_witness: "ga_cancels (snd (reserveEvent demo_gate)) = {1} \<and> ga_in_flight (snd (reserveEvent demo_gate)) = 1"
  using gate_serial [OF demo_gate_reach(1) rtranclp.rtrancl_refl demo_reserve] by (simp add: demo_reserve)

definition demo_reload :: effect where
  "demo_reload = no_effect\<lparr>ef_reload_generation := 5\<rparr>"

theorem event_settles_witness:
  "fst (BeginLoad \<lparr>lq_generation = 5, lq_event_id = 1\<rparr> (snd (FinalizeEvent None \<lparr>fq_event_id = 1, fq_applied = True\<rparr>
      (snd (HandleEvent None OpForward 1 (Inr (5, demo_reload)) (snd (reserveEvent demo_gate))))))) = None"
proof -
  have e: "suppressActiveRestore b OpForward demo_reload = demo_reload" "effect_target demo_reload = 5"
    "\<not> ef_accept demo_reload" "\<not> ef_abort demo_reload" for b
    by (simp_all add: suppressActiveRestore_def demo_reload_def no_effect_def effect_target_def)
  have g: "(1::u64) \<in> ga_cancels (snd (reserveEvent demo_gate))" "\<not> ga_terminal (snd (reserveEvent demo_gate))"
    "ga_next_id (snd (reserveEvent demo_gate)) \<noteq> - 1"
    by (simp_all add: demo_reserve) (simp add: demo_gate_def newInitialEnrichment_def)
  from event_settles [OF demo_gate_reach(2) g(1) _ g(2,3), where x = OpForward and e = demo_reload and parent = None and generation = 5]
  show ?thesis by (simp add: e)
qed

definition demo_pending_gate :: gate where
  "demo_pending_gate = snd (HandleEvent None OpForward 1 (Inr (5, demo_reload)) (snd (reserveEvent demo_gate)))"

theorem failed_callback_is_final_witness:
  "fst (beginCommit (snd (FinalizeEvent None \<lparr>fq_event_id = 1, fq_applied = False\<rparr> demo_pending_gate))) = CommitNever"
proof -
  have g: "(1::u64) \<in> ga_cancels (snd (reserveEvent demo_gate))" "\<not> ga_terminal (snd (reserveEvent demo_gate))"
    by (simp_all add: demo_reserve) (simp add: demo_gate_def newInitialEnrichment_def)
  have p: "ga_pending demo_pending_gate 1 = Some (pending_of OpForward (suppressActiveRestore (ga_active (snd (reserveEvent demo_gate))) OpForward demo_reload))"
    unfolding demo_pending_gate_def by (simp add: HandleEvent_success(1) [OF g])
  from failed_callback_is_final [OF p _ _ rtranclp.rtrancl_refl, of _ None] show ?thesis by simp
qed

theorem commit_keeps_view_witness:
  "\<exists>more. is_buffer (ga_input (snd (commit latin1 ''/h'' None None quiet_env 1 [demo_record] (new_actor True) (new_actor True) demo_gate))) = more
    \<and> FramedRecords (at_current (fst (commit latin1 ''/h'' None None quiet_env 1 [demo_record] (new_actor True) (new_actor True) demo_gate))) = more"
proof -
  have "reach actor_init actor_step (new_actor True)" by (rule reach_start) blast
  moreover have "distinct (map record_key (recordValues (at_current (new_actor True))))" by (simp add: new_actor_def recordValues_def ownRecordSet_def)
  moreover have "is_buffer (ga_input demo_gate) = []" "FramedRecords (at_current (new_actor True)) = []"
    by (simp_all add: demo_gate_def newInitialEnrichment_def NewInputStream_def new_actor_def FramedRecords_def ownRecordSet_def FrameRecordValues_def)
  ultimately show ?thesis
    using commit_keeps_view [OF _ rtranclp.rtrancl_refl _ surjective_pairing, of "new_actor True" latin1 "''/h''" None None quiet_env 1 "[demo_record]" demo_gate]
    by simp
qed

end
