(* ===== verification/Metrics.thy ===== *)
theory Metrics
  imports Zoxide Sessionipc
begin

text \<open>
  \<open>internal/app/metrics.go\<close>: the counters of one picker session.  \<open>uint64\<close> counters and \<open>time.Duration\<close> values keep
  their 64 bits (a duration is read as signed); the counters of type \<open>int\<close> are integers, since none of them comes
  near the ends of its range.  A map from labels to counters is an association list without repeated labels.
\<close>

section \<open>metrics.go\<close>

type_synonym duration = "64 word"

definition maxMetricCount :: u64 where "maxMetricCount = 1000000"
definition maxMetricLabels :: nat where "maxMetricLabels = 64"

definition max_duration :: duration where "max_duration = 0x7FFFFFFFFFFFFFFF"

definition boundedAdd :: "u64 \<Rightarrow> u64 \<Rightarrow> u64" where
  "boundedAdd v d = (if v \<ge> maxMetricCount \<or> d > maxMetricCount - v then maxMetricCount else v + d)"

definition boundedIncrement :: "u64 \<Rightarrow> u64" where
  "boundedIncrement v = boundedAdd v 1"

definition boundedIntAdd :: "int \<Rightarrow> int \<Rightarrow> int" where
  "boundedIntAdd v d = (if v \<ge> 1000000 \<or> d > 1000000 - v then 1000000 else v + d)"

definition saturatingDuration :: "duration \<Rightarrow> duration \<Rightarrow> duration" where
  "saturatingDuration v d = (if sint d > 0 \<and> sint v > sint (max_duration - d) then max_duration else v + d)"

record source_metrics =
  sm_local :: duration
  sm_zoxide :: duration
  sm_outcome :: zoxide_outcome
  sm_attempts :: int
  sm_starts :: int
  sm_exits :: int
  sm_processes :: int
  sm_live :: int
  sm_max_live :: int

type_synonym labels = "(string \<times> u64) list"

record metrics =
  me_events :: u64
  me_loads :: u64
  me_previews :: u64
  me_callback :: duration
  me_load_latency :: duration
  me_queue_wait :: duration
  me_transform :: duration
  me_sources :: source_metrics
  me_zoxide_recorded :: bool
  me_preview_started :: u64
  me_preview_finished :: u64
  me_preview_duration :: duration
  me_child_starts :: u64
  me_max_live :: int
  me_renderer_started :: labels
  me_renderer_finished :: labels
  me_outcomes :: labels
  me_renderer_overflow :: u64
  me_outcome_overflow :: u64

text \<open>The metrics at the start of \<open>runPicker\<close>.\<close>

definition new_metrics :: metrics where
  "new_metrics = \<lparr>me_events = 0, me_loads = 0, me_previews = 0, me_callback = 0, me_load_latency = 0, me_queue_wait = 0, me_transform = 0,
     me_sources = \<lparr>sm_local = 0, sm_zoxide = 0, sm_outcome = OutcomeNotRun, sm_attempts = 0, sm_starts = 0, sm_exits = 0, sm_processes = 0,
       sm_live = 0, sm_max_live = 0\<rparr>,
     me_zoxide_recorded = False, me_preview_started = 0, me_preview_finished = 0, me_preview_duration = 0, me_child_starts = 0, me_max_live = 0,
     me_renderer_started = [], me_renderer_finished = [], me_outcomes = [], me_renderer_overflow = 0, me_outcome_overflow = 0\<rparr>"

definition recordTransition :: "duration \<Rightarrow> duration \<Rightarrow> duration \<Rightarrow> metrics \<Rightarrow> metrics" where
  "recordTransition queueWait transform localDuration m =
     m\<lparr>me_events := boundedIncrement (me_events m), me_queue_wait := saturatingDuration (me_queue_wait m) queueWait,
       me_transform := saturatingDuration (me_transform m) transform,
       me_sources := (me_sources m)\<lparr>sm_local := saturatingDuration (sm_local (me_sources m)) localDuration\<rparr>\<rparr>"

definition recordZoxideSource :: "source_metrics \<Rightarrow> metrics \<Rightarrow> bool \<times> metrics" where
  "recordZoxideSource src m =
     (if me_zoxide_recorded m then (False, m)
      else let s = me_sources m;
               s = s\<lparr>sm_zoxide := saturatingDuration (sm_zoxide s) (sm_zoxide src)\<rparr>;
               s = (if sm_outcome src \<noteq> OutcomeUnset then s\<lparr>sm_outcome := sm_outcome src\<rparr> else s);
               s = s\<lparr>sm_attempts := boundedIntAdd (sm_attempts s) (sm_attempts src), sm_starts := boundedIntAdd (sm_starts s) (sm_starts src),
                     sm_exits := boundedIntAdd (sm_exits s) (sm_exits src), sm_processes := boundedIntAdd (sm_processes s) (sm_processes src),
                     sm_live := sm_live src\<rparr>;
               s = (if sm_max_live src > sm_max_live s then s\<lparr>sm_max_live := sm_max_live src\<rparr> else s)
           in (True, m\<lparr>me_zoxide_recorded := True, me_sources := s\<rparr>))"

definition recordCallback :: "duration \<Rightarrow> metrics \<Rightarrow> metrics" where
  "recordCallback d m = m\<lparr>me_callback := saturatingDuration (me_callback m) d\<rparr>"

definition recordLoad :: "duration \<Rightarrow> metrics \<Rightarrow> metrics" where
  "recordLoad d m = m\<lparr>me_loads := boundedIncrement (me_loads m), me_load_latency := saturatingDuration (me_load_latency m) d\<rparr>"

definition recordPreviewResolve :: "duration \<Rightarrow> metrics \<Rightarrow> metrics" where
  "recordPreviewResolve d m = m\<lparr>me_previews := boundedIncrement (me_previews m), me_callback := saturatingDuration (me_callback m) d\<rparr>"

definition validMetricLabel :: "string \<Rightarrow> bool" where
  "validMetricLabel v \<longleftrightarrow> \<not> (length v = 0 \<or> length v > 64) \<and> list_all (\<lambda>c. \<not> (byte_of c < 0x21 \<or> byte_of c > 0x7e)) v"

definition validatePreviewMetric :: "preview_request \<Rightarrow> go_error option" where
  "validatePreviewMetric q =
     (if pq_phase q = ''started''
      then if \<not> validMetricLabel (pq_renderer q) \<or> pq_duration_us q \<noteq> 0 \<or> pq_child_starts q \<noteq> 0 \<or> pq_max_live q \<noteq> 0 \<or> pq_outcome q \<noteq> []
           then Some (ErrText ''invalid started preview metric'') else None
      else if pq_phase q = ''finished''
      then if \<not> validMetricLabel (pq_renderer q) \<or> \<not> validMetricLabel (pq_outcome q) \<or> pq_duration_us q < 0 \<or> pq_duration_us q > 10000000
              \<or> pq_child_starts q < 0 \<or> pq_child_starts q > MaxPreviewChildStarts \<or> pq_max_live q < 0 \<or> pq_max_live q > MaxPreviewLiveChildren
              \<or> pq_max_live q > pq_child_starts q \<or> (pq_renderer q = ''native'' \<and> (pq_child_starts q \<noteq> 0 \<or> pq_max_live q \<noteq> 0))
           then Some (ErrText ''invalid finished preview metric'') else None
      else Some (ErrText ''invalid preview metric phase''))"

definition incrementLabel :: "string \<Rightarrow> labels \<times> u64 \<Rightarrow> labels \<times> u64" where
  "incrementLabel label lo =
     (case lo of (values, overflow) \<Rightarrow>
        if map_of values label \<noteq> None
        then (map (\<lambda>(k, n). (k, if k = label then boundedIncrement n else n)) values, overflow)
        else if length values < maxMetricLabels then (values @ [(label, 1)], overflow)
        else (values, boundedIncrement overflow))"

definition preview_phase :: "preview_request \<Rightarrow> metrics \<Rightarrow> metrics" where
  "preview_phase q m =
     (if pq_phase q = ''started''
      then (case incrementLabel (pq_renderer q) (me_renderer_started m, me_renderer_overflow m) of (values, overflow) \<Rightarrow>
              m\<lparr>me_preview_started := boundedIncrement (me_preview_started m), me_renderer_started := values, me_renderer_overflow := overflow\<rparr>)
      else if pq_phase q = ''finished''
      then (case incrementLabel (pq_renderer q) (me_renderer_finished m, me_renderer_overflow m) of (values, overflow) \<Rightarrow>
            case incrementLabel (pq_outcome q) (me_outcomes m, me_outcome_overflow m) of (outcomes, overflow') \<Rightarrow>
              m\<lparr>me_preview_finished := boundedIncrement (me_preview_finished m),
                me_preview_duration := saturatingDuration (me_preview_duration m) (word_of_int (pq_duration_us q) * 1000),
                me_child_starts := boundedAdd (me_child_starts m) (word_of_int (pq_child_starts q)),
                me_max_live := (if pq_max_live q > me_max_live m then pq_max_live q else me_max_live m),
                me_renderer_finished := values, me_renderer_overflow := overflow, me_outcomes := outcomes, me_outcome_overflow := overflow'\<rparr>)
      else m)"

definition recordPreview :: "preview_request \<Rightarrow> metrics \<Rightarrow> go_error option \<times> metrics" where
  "recordPreview q m =
     (case validatePreviewMetric q of
        Some e \<Rightarrow> (Some e, m)
      | None \<Rightarrow> (None, preview_phase q (m\<lparr>me_previews := boundedIncrement (me_previews m)\<rparr>)))"

section \<open>Bounded arithmetic\<close>

lemma boundedAdd_unat: "v \<le> maxMetricCount \<Longrightarrow> unat (boundedAdd v d) = min 1000000 (unat v + unat d)"
proof -
  assume le: "v \<le> maxMetricCount"
  then have v: "unat v \<le> 1000000" by (simp add: maxMetricCount_def word_le_nat_alt)
  have diff: "unat (maxMetricCount - v) = 1000000 - unat v" using unat_sub [OF le] by (simp add: maxMetricCount_def)
  show ?thesis
  proof (cases "v \<ge> maxMetricCount \<or> d > maxMetricCount - v")
    case True
    then have "1000000 \<le> unat v + unat d"
      using diff v by (auto simp: word_le_nat_alt word_less_nat_alt maxMetricCount_def)
    with True show ?thesis by (simp add: boundedAdd_def maxMetricCount_def)
  next
    case False
    then have sum: "unat v + unat d \<le> 1000000" using diff v by (auto simp: word_less_nat_alt)
    then have "unat (v + d) = unat v + unat d" by (simp add: unat_word_ariths)
    with False sum show ?thesis by (simp add: boundedAdd_def)
  qed
qed

lemma boundedAdd_le: "v \<le> maxMetricCount \<Longrightarrow> boundedAdd v d \<le> maxMetricCount"
  by (simp add: word_le_nat_alt boundedAdd_unat) (simp add: maxMetricCount_def)

lemma boundedIncrement_unat: "v \<le> maxMetricCount \<Longrightarrow> unat (boundedIncrement v) = min 1000000 (Suc (unat v))"
  by (simp add: boundedIncrement_def boundedAdd_unat)

lemma boundedIncrement_le: "v \<le> maxMetricCount \<Longrightarrow> boundedIncrement v \<le> maxMetricCount"
  by (simp add: boundedIncrement_def boundedAdd_le)

lemma saturatingDuration_min:
  assumes "0 \<le> sint v" and "0 \<le> sint d"
  shows "sint (saturatingDuration v d) = min (2 ^ 63 - 1) (sint v + sint d)"
proof -
  have m: "sint max_duration = 2 ^ 63 - 1" by (simp add: max_duration_def)
  have b: "sint v \<le> 2 ^ 63 - 1" "sint d \<le> 2 ^ 63 - 1" using sint_lt [of v] sint_lt [of d] by simp_all
  have diff: "sint (max_duration - d) = 2 ^ 63 - 1 - sint d"
    using assms b m by (simp add: sint_word_ariths signed_take_bit_int_eq_self)
  show ?thesis
  proof (cases "sint d > 0 \<and> sint v > sint (max_duration - d)")
    case True
    then show ?thesis using diff m by (simp add: saturatingDuration_def)
  next
    case False
    then have "sint v + sint d \<le> 2 ^ 63 - 1" using diff b assms by auto
    moreover from this have "sint (v + d) = sint v + sint d" using assms by (simp add: sint_word_ariths signed_take_bit_int_eq_self)
    ultimately show ?thesis using False by (auto simp: saturatingDuration_def)
  qed
qed

section \<open>Labels\<close>

definition labels_ok :: "labels \<Rightarrow> bool" where
  "labels_ok vs \<longleftrightarrow> distinct (map fst vs) \<and> length vs \<le> maxMetricLabels \<and> (\<forall>n \<in> snd ` set vs. n \<le> maxMetricCount)"

definition label_total :: "labels \<Rightarrow> nat" where
  "label_total vs = sum_list (map (\<lambda>v. unat (snd v)) vs)"

lemma label_bump_total:
  assumes "distinct (map fst vs)" and "map_of vs label = Some n" and "n \<le> maxMetricCount" and "unat n < 1000000"
  shows "label_total (map (\<lambda>(k, n). (k, if k = label then boundedIncrement n else n)) vs) = Suc (label_total vs)"
  using assms(1,2)
proof (induction vs)
  case (Cons v vs)
  obtain k m where v: "v = (k, m)" by fastforce
  show ?case
  proof (cases "k = label")
    case True
    then have "map (\<lambda>(k, n). (k, if k = label then boundedIncrement n else n)) vs = vs"
      using Cons.prems v by (intro map_idI) force
    with True Cons.prems v assms(3,4) show ?thesis by (simp add: label_total_def boundedIncrement_unat)
  next
    case False
    with Cons v show ?thesis by (simp add: label_total_def)
  qed
qed simp

lemma label_member_total: "map_of vs label = Some n \<Longrightarrow> unat n \<le> label_total vs"
  by (induction vs) (auto simp: label_total_def split: if_splits)

lemma incrementLabel_keeps:
  assumes "labels_ok vs" and "ov \<le> maxMetricCount" and "incrementLabel label (vs, ov) = (vs', ov')"
  shows "labels_ok vs'" and "ov' \<le> maxMetricCount"
    and "label_total vs + unat ov + k < 1000000 \<Longrightarrow> label_total vs' + unat ov' = Suc (label_total vs + unat ov)"
proof -
  have keys: "map fst (map (\<lambda>(k, n). (k, if k = label then boundedIncrement n else n)) vs) = map fst vs"
    by (induction vs) auto
  have one: "(1::u64) \<le> maxMetricCount" by (simp add: maxMetricCount_def)
  have bumped: "n \<le> maxMetricCount" if "n \<in> snd ` set (map (\<lambda>(k, n). (k, if k = label then boundedIncrement n else n)) vs)" for n
    using that assms(1) boundedIncrement_le by (auto simp: labels_ok_def split: if_splits)
  show "labels_ok vs'"
  proof (cases "map_of vs label")
    case None
    then have "label \<notin> fst ` set vs" by (simp add: map_of_eq_None_iff)
    with None assms one show ?thesis by (auto simp: incrementLabel_def labels_ok_def split: if_splits)
  next
    case (Some n)
    then have "vs' = map (\<lambda>(k, n). (k, if k = label then boundedIncrement n else n)) vs" using assms(3) by (simp add: incrementLabel_def)
    with bumped keys assms(1) show ?thesis by (simp only: labels_ok_def length_map) blast
  qed
  show "ov' \<le> maxMetricCount" using assms boundedIncrement_le by (auto simp: incrementLabel_def split: if_splits)
  show "label_total vs' + unat ov' = Suc (label_total vs + unat ov)" if lt: "label_total vs + unat ov + k < 1000000"
  proof (cases "map_of vs label")
    case (Some n)
    then have "n \<le> maxMetricCount" "unat n < 1000000"
      using assms(1) label_member_total [OF Some] lt map_of_SomeD [OF Some] by (force simp: labels_ok_def)+
    with Some assms label_bump_total [OF _ Some] show ?thesis by (auto simp: incrementLabel_def labels_ok_def)
  next
    case None
    with assms lt show ?thesis
      by (auto simp: incrementLabel_def label_total_def boundedIncrement_unat split: if_splits)
  qed
qed

lemma incrementLabel_counts:
  assumes "labels_ok vs" and "ov \<le> maxMetricCount" and "incrementLabel label (vs, ov) = (vs', ov')"
  shows "label_total vs + unat ov + k < 1000000 \<longrightarrow> label_total vs' + unat ov' = Suc (label_total vs + unat ov)"
  using incrementLabel_keeps(3) [OF assms] by blast

section \<open>The counters over a session\<close>

text \<open>Every call of the session; the durations come from a monotonic clock.\<close>

inductive metrics_step :: "metrics \<Rightarrow> metrics \<Rightarrow> bool" where
  step_transition: "0 \<le> sint q \<Longrightarrow> 0 \<le> sint t \<Longrightarrow> 0 \<le> sint l \<Longrightarrow> metrics_step m (recordTransition q t l m)"
| step_source: "0 \<le> sint (sm_zoxide src) \<Longrightarrow> metrics_step m (snd (recordZoxideSource src m))"
| step_callback: "0 \<le> sint d \<Longrightarrow> metrics_step m (recordCallback d m)"
| step_load: "0 \<le> sint d \<Longrightarrow> metrics_step m (recordLoad d m)"
| step_resolve: "0 \<le> sint d \<Longrightarrow> metrics_step m (recordPreviewResolve d m)"
| step_preview: "metrics_step m (snd (recordPreview q m))"

definition counters_ok :: "metrics \<Rightarrow> bool" where
  "counters_ok m \<longleftrightarrow> (\<forall>c \<in> {me_events m, me_loads m, me_previews m, me_preview_started m, me_preview_finished m, me_child_starts m,
       me_renderer_overflow m, me_outcome_overflow m}. c \<le> maxMetricCount)
     \<and> labels_ok (me_renderer_started m) \<and> labels_ok (me_renderer_finished m) \<and> labels_ok (me_outcomes m)
     \<and> 0 \<le> me_max_live m \<and> me_max_live m \<le> MaxPreviewLiveChildren"

definition durations_ok :: "metrics \<Rightarrow> bool" where
  "durations_ok m \<longleftrightarrow> (\<forall>d \<in> {me_callback m, me_load_latency m, me_queue_wait m, me_transform m, me_preview_duration m,
       sm_local (me_sources m), sm_zoxide (me_sources m)}. 0 \<le> sint d)"

text \<open>As long as the counters are below their limit, the labels account for every preview.\<close>

definition labels_account :: "metrics \<Rightarrow> bool" where
  "labels_account m \<longleftrightarrow>
     (unat (me_preview_started m) + unat (me_preview_finished m) < 1000000 \<longrightarrow>
        label_total (me_renderer_started m) + label_total (me_renderer_finished m) + unat (me_renderer_overflow m)
          = unat (me_preview_started m) + unat (me_preview_finished m))
     \<and> (unat (me_preview_finished m) < 1000000 \<longrightarrow>
        label_total (me_outcomes m) + unat (me_outcome_overflow m) = unat (me_preview_finished m))"

definition metrics_inv :: "metrics \<Rightarrow> bool" where
  "metrics_inv m \<longleftrightarrow> counters_ok m \<and> durations_ok m \<and> labels_account m"

lemma saturating_nonneg: "0 \<le> sint v \<Longrightarrow> 0 \<le> sint d \<Longrightarrow> 0 \<le> sint (saturatingDuration v d)"
  by (simp add: saturatingDuration_min)

lemma preview_microseconds: "0 \<le> n \<Longrightarrow> n \<le> 10000000 \<Longrightarrow> 0 \<le> sint (word_of_int n * 1000 :: duration)"
proof -
  assume n: "0 \<le> n" "n \<le> 10000000"
  then have "sint (word_of_int n :: duration) = n" by (simp add: sint_sbintrunc' signed_take_bit_int_eq_self)
  moreover from this n have "sint (word_of_int n * 1000 :: duration) = n * 1000" by (simp add: sint_word_ariths signed_take_bit_int_eq_self)
  ultimately show ?thesis using n by simp
qed

lemma validMetricLabel_eq: "validMetricLabel = validTelemetryValue"
  by (auto simp: fun_eq_iff validMetricLabel_def validTelemetryValue_def not_less list_all_iff)

lemma validatePreviewMetric_None:
  "validatePreviewMetric q = None \<longleftrightarrow> pq_phase q = ''started'' \<and> validTelemetryValue (pq_renderer q) \<and> no_telemetry q
     \<or> pq_phase q = ''finished'' \<and> finished_ok q"
  by (auto simp: validatePreviewMetric_def validMetricLabel_eq no_telemetry_def finished_ok_def)

lemma preview_phase_started:
  assumes "metrics_inv m" and "pq_phase q = ''started''"
  shows "metrics_inv (preview_phase q m)"
proof -
  obtain vs ov where inc: "incrementLabel (pq_renderer q) (me_renderer_started m, me_renderer_overflow m) = (vs, ov)" by fastforce
  have ok: "labels_ok (me_renderer_started m)" "me_renderer_overflow m \<le> maxMetricCount" "me_preview_started m \<le> maxMetricCount"
    using assms(1) by (simp_all add: metrics_inv_def counters_ok_def)
  note kept = incrementLabel_keeps [OF ok(1,2) inc]
  have "labels_account (preview_phase q m)"
    using assms incrementLabel_counts [OF ok(1,2) inc, of "label_total (me_renderer_finished m)"] ok(3)
    by (auto simp: metrics_inv_def labels_account_def preview_phase_def inc boundedIncrement_unat min_def split: if_splits)
  with assms inc kept(1,2) ok(3) show ?thesis
    by (simp add: metrics_inv_def counters_ok_def durations_ok_def preview_phase_def boundedIncrement_le)
qed

lemma preview_phase_finished:
  assumes "metrics_inv m" and "pq_phase q = ''finished''" and "finished_ok q"
  shows "metrics_inv (preview_phase q m)"
proof -
  obtain vs ov where inc: "incrementLabel (pq_renderer q) (me_renderer_finished m, me_renderer_overflow m) = (vs, ov)" by fastforce
  obtain ws ow where inc': "incrementLabel (pq_outcome q) (me_outcomes m, me_outcome_overflow m) = (ws, ow)" by fastforce
  have ok: "labels_ok (me_renderer_finished m)" "me_renderer_overflow m \<le> maxMetricCount" "me_preview_finished m \<le> maxMetricCount"
    "labels_ok (me_outcomes m)" "me_outcome_overflow m \<le> maxMetricCount"
    using assms(1) by (simp_all add: metrics_inv_def counters_ok_def)
  note kept = incrementLabel_keeps [OF ok(1,2) inc] incrementLabel_keeps [OF ok(4,5) inc']
  note phase = preview_phase_def [of q m, unfolded inc inc' assms(2)]
  have "labels_account (preview_phase q m)"
    using assms(1) incrementLabel_counts [OF ok(1,2) inc, of "label_total (me_renderer_started m)"]
      incrementLabel_counts [OF ok(4,5) inc', of 0] ok(3)
    by (auto simp: metrics_inv_def labels_account_def phase boundedIncrement_unat min_def split: if_splits)
  moreover have "durations_ok (preview_phase q m)"
    using assms(1,3) saturating_nonneg preview_microseconds by (auto simp: metrics_inv_def durations_ok_def phase finished_ok_def)
  ultimately show ?thesis
    using assms(1,3) kept(1,2,4,5) ok(3)
    by (auto simp: metrics_inv_def counters_ok_def phase boundedIncrement_le boundedAdd_le finished_ok_def)
qed

lemma metrics_inv_previews: "metrics_inv (m\<lparr>me_previews := boundedIncrement (me_previews m)\<rparr>)" if "metrics_inv m"
  using that by (simp add: metrics_inv_def counters_ok_def durations_ok_def labels_account_def boundedIncrement_le)

lemma metrics_inv_preview: "metrics_inv m \<Longrightarrow> metrics_inv (snd (recordPreview q m))"
  using preview_phase_started preview_phase_finished metrics_inv_previews
  by (auto simp: recordPreview_def validatePreviewMetric_None split: option.split)

lemma metrics_inv_step: "metrics_inv m \<Longrightarrow> metrics_step m m' \<Longrightarrow> metrics_inv m'"
  by (rotate_tac 1, erule metrics_step.cases)
     (simp_all add: metrics_inv_preview,
      auto simp: metrics_inv_def counters_ok_def durations_ok_def labels_account_def boundedIncrement_le saturating_nonneg
        recordTransition_def recordZoxideSource_def recordCallback_def recordLoad_def recordPreviewResolve_def Let_def)

lemma metrics_inv_new: "metrics_inv new_metrics"
  by (simp add: metrics_inv_def counters_ok_def durations_ok_def labels_account_def new_metrics_def labels_ok_def label_total_def
      maxMetricCount_def maxMetricLabels_def MaxPreviewLiveChildren_def)

interpretation counters: transition_system "\<lambda>m. m = new_metrics" metrics_step metrics_inv
  by unfold_locales (auto intro: metrics_inv_new metrics_inv_step)

section \<open>Properties\<close>

text \<open>
  The metrics of a session stay meaningful however long it runs: every counter stays within its limit, no label
  map grows beyond its limit or repeats a label, no accumulated duration becomes negative, the number of live
  preview children stays within the limit of the protocol, and until the counters saturate the labels and the
  overflow counter account for every preview started and finished and for every outcome.
\<close>

theorem metrics_bounded:
  assumes "reach (\<lambda>m. m = new_metrics) metrics_step m"
  shows "counters_ok m \<and> durations_ok m \<and> labels_account m"
  using counters.reach_inv [OF assms] by (simp add: metrics_inv_def)

definition demo_preview :: preview_request where
  "demo_preview = \<lparr>pq_phase = ''started'', pq_item64 = ''eA=='', pq_renderer = ''native'', pq_duration_us = 0,
     pq_child_starts = 0, pq_max_live = 0, pq_outcome = []\<rparr>"

theorem metrics_bounded_witness:
  "label_total (me_renderer_started (snd (recordPreview demo_preview new_metrics))) = 1"
proof -
  let ?m = "snd (recordPreview demo_preview new_metrics)"
  have "reach (\<lambda>m. m = new_metrics) metrics_step ?m" by (rule reach_next [OF reach_start]) (auto intro: metrics_step.intros)
  from metrics_bounded [OF this] have "labels_account ?m" by blast
  then show ?thesis
    by (simp add: labels_account_def demo_preview_def recordPreview_def validatePreviewMetric_def validMetricLabel_def byte_of_def
        new_metrics_def preview_phase_def incrementLabel_def maxMetricLabels_def boundedIncrement_def boundedAdd_def maxMetricCount_def)
qed

text \<open>
  The two validations of a preview report agree: the reports that the server lets through to the session are,
  apart from the resolving ones, exactly the reports with an item that the session's metrics accept.
\<close>

theorem preview_report_agrees:
  "validatePreview q = None \<and> pq_phase q \<noteq> ''resolve'' \<longleftrightarrow> pq_item64 q \<noteq> [] \<and> validatePreviewMetric q = None"
  by (auto simp: validatePreview_def validatePreviewMetric_None split: if_splits)

end
