(* ===== verification/Backend.thy ===== *)
theory Backend
  imports Enrichment Metrics
begin

text \<open>
  \<open>internal/app/backend.go\<close>: the session behind the IPC server.  Its state is the actor, the enrichment coordinator
  (absent when the session runs without one) and the metrics.  The outcome of \<open>session.Handle\<close> for an event, the
  causes of the request's context when they are read, the elapsed times and \<open>os.Stat\<close> are arguments; trace events are
  not part of the state.
\<close>

record picker_session =
  ps_actor :: actor
  ps_gate :: "gate option"
  ps_metrics :: metrics

text \<open>
  What a call reads from outside: the cause of its context at entry, whether its command reached the actor, the
  cause when the actor looks at the command, the cause at the end of the call, its duration, and the cause of the
  coordinator's parent context.
\<close>

record call_env =
  cl_cause :: "go_error option"
  cl_enqueue :: "go_error option"
  cl_cause_actor :: "go_error option"
  cl_cause_end :: "go_error option"
  cl_duration :: duration
  cl_parent :: "go_error option"

text \<open>
  \<open>HandleEvent\<close>.  With a coordinator the event must have been reserved as \<open>i\<close>; \<open>res\<close> is what the session did with it
  and \<open>a\<close> the actor afterwards, with the timings of the transition.
\<close>

record transition_times =
  tt_queue :: duration
  tt_transform :: duration
  tt_local :: duration

definition record_event :: "call_env \<Rightarrow> transition_times \<Rightarrow> bool \<Rightarrow> metrics \<Rightarrow> metrics" where
  "record_event c tt ok m =
     recordCallback (cl_duration c) (if ok then recordTransition (tt_queue tt) (tt_transform tt) (tt_local tt) m else m)"

definition backend_HandleEvent :: "call_env \<Rightarrow> transition_times \<Rightarrow> opcode \<Rightarrow> u64 \<Rightarrow> (u64 \<times> effect) result \<Rightarrow> actor \<Rightarrow> picker_session
    \<Rightarrow> event_response result \<times> picker_session" where
  "backend_HandleEvent c tt x i res a p =
     (case ps_gate p of
        Some g \<Rightarrow>
          (case HandleEvent (cl_parent c) x i res g of
             (out, g') \<Rightarrow> (out, p\<lparr>ps_actor := a, ps_gate := Some g', ps_metrics := record_event c tt (\<not> isl out) (ps_metrics p)\<rparr>))
      | None \<Rightarrow>
          (case cl_cause c of
             Some e \<Rightarrow> (Inl e, p)
           | None \<Rightarrow>
               (map_sum id (\<lambda>(_, e). \<lparr>es_effect = e, es_event_id = 0\<rparr>) res,
                p\<lparr>ps_actor := a, ps_metrics := record_event c tt (\<not> isl res) (ps_metrics p)\<rparr>)))"

definition backend_FinalizeEvent :: "call_env \<Rightarrow> finalize_request \<Rightarrow> picker_session \<Rightarrow> go_error option \<times> picker_session" where
  "backend_FinalizeEvent c q p =
     (case ps_gate p of
        None \<Rightarrow> (None, p)
      | Some g \<Rightarrow> (case FinalizeEvent (cl_parent c) q g of (err, g') \<Rightarrow> (err, p\<lparr>ps_gate := Some g'\<rparr>)))"

definition backend_FinalizeLoad :: "call_env \<Rightarrow> finalize_request \<Rightarrow> picker_session \<Rightarrow> go_error option \<times> picker_session" where
  "backend_FinalizeLoad c q p =
     (case ps_gate p of
        None \<Rightarrow> (None, p)
      | Some g \<Rightarrow> (case FinalizeLoad (cl_parent c) q g of (err, g') \<Rightarrow> (err, p\<lparr>ps_gate := Some g'\<rparr>)))"

text \<open>
  \<open>LoadGeneration\<close> after \<open>ValidateLoad\<close> has stopped waiting; a validation that still waits when the context ends fails
  with its cause, which is \<open>cl_cause_end\<close>.
\<close>

definition validate_wait :: "call_env \<Rightarrow> load_request \<Rightarrow> gate \<Rightarrow> go_error option" where
  "validate_wait c q g =
     (case ValidateLoad q g of
        Refused e \<Rightarrow> Some e
      | Reserved _ \<Rightarrow> None
      | MustWait \<Rightarrow> Some (case cl_cause_end c of Some e \<Rightarrow> e | None \<Rightarrow> ErrCanceled))"

definition begin_load :: "load_request \<Rightarrow> gate option \<Rightarrow> go_error option \<times> gate option" where
  "begin_load q mg = (case mg of None \<Rightarrow> (None, None) | Some g \<Rightarrow> map_prod id Some (BeginLoad q g))"

definition LoadGeneration :: "call_env \<Rightarrow> load_request \<Rightarrow> picker_session \<Rightarrow> bytes result \<times> picker_session" where
  "LoadGeneration c q p =
     (case cl_cause c of
        Some e \<Rightarrow> (Inl e, p)
      | None \<Rightarrow>
          (case (case ps_gate p of None \<Rightarrow> None | Some g \<Rightarrow> validate_wait c q g) of
             Some e \<Rightarrow> (Inl e, p)
           | None \<Rightarrow>
               (case Snapshot_at False (cl_enqueue c) (cl_cause_actor c) (lq_generation q) (ps_actor p) of
                  Inl e \<Rightarrow> (Inl e, p)
                | Inr s \<Rightarrow>
                    (case begin_load q (ps_gate p) of
                       (Some e, _) \<Rightarrow> (Inl e, p)
                     | (None, mg) \<Rightarrow> (Inr (FramedRecords s), p\<lparr>ps_gate := mg, ps_metrics := recordLoad (cl_duration c) (ps_metrics p)\<rparr>)))))"

definition CurrentHeader :: "unicode \<Rightarrow> call_env \<Rightarrow> picker_session \<Rightarrow> string result \<times> picker_session" where
  "CurrentHeader u c p =
     (case cl_cause c of
        Some e \<Rightarrow> (Inl e, p)
      | None \<Rightarrow>
          (case CurrentState False (cl_enqueue c) (cl_cause_actor c) (ps_actor p) of
             Inl e \<Rightarrow> (Inl e, p)
           | Inr st \<Rightarrow> (Inr (PromptDisplayHome u (st_location st) (st_home st)), p)))"

record file_info =
  fi_size :: int
  fi_mod_time :: int
  fi_mode :: "32 word"

definition ResolvePreview :: "(bytes \<Rightarrow> file_info result) \<Rightarrow> call_env \<Rightarrow> bytes \<Rightarrow> picker_session \<Rightarrow> resolved_candidate result \<times> picker_session" where
  "ResolvePreview stat c current p =
     (case cl_cause c of
        Some e \<Rightarrow> (Inl e, p)
      | None \<Rightarrow>
          (case ResolveCurrent False (cl_enqueue c) (cl_cause_actor c) current (ps_actor p) of
             Inl e \<Rightarrow> (Inl e, p)
           | Inr r \<Rightarrow>
               if rec_kind r = KindVirtual \<or> loc_kind (rec_target r) \<noteq> LocFilesystem then (Inl ErrUnknownRecord, p)
               else (case stat (rec_path r) of
                       Inl e \<Rightarrow> (Inl e, p)
                     | Inr info \<Rightarrow>
                         (case cl_cause_end c of
                            Some e \<Rightarrow> (Inl e, p)
                          | None \<Rightarrow>
                              (Inr \<lparr>rc_kind = rec_kind r, rc_path = rec_path r, rc_size = fi_size info,
                                     rc_mod_time = fi_mod_time info, rc_mode = fi_mode info\<rparr>,
                               p\<lparr>ps_metrics := recordPreviewResolve (cl_duration c) (ps_metrics p)\<rparr>)))))"

definition RecordPreview :: "call_env \<Rightarrow> preview_request \<Rightarrow> picker_session \<Rightarrow> go_error option \<times> picker_session" where
  "RecordPreview c q p =
     (case cl_cause c of
        Some e \<Rightarrow> (Some e, p)
      | None \<Rightarrow>
          (case recordPreview q (ps_metrics p) of
             (Some e, m) \<Rightarrow> (Some e, p\<lparr>ps_metrics := m\<rparr>)
           | (None, m) \<Rightarrow> (cl_cause_end c, p\<lparr>ps_metrics := recordCallback (cl_duration c) m\<rparr>)))"

section \<open>Loads\<close>

lemma Snapshot_at_Inr:
  assumes "Snapshot_at nil_ctx enq cause n a = Inr s"
  shows "s = at_current a" and "sn_generation (at_current a) = n"
  using assms by (auto simp: Snapshot_at_def reply_snapshot_def split: if_splits option.splits)

lemma BeginLoad_None:
  assumes "BeginLoad q g = (None, g')"
  obtains pe where "ga_pending g (lq_event_id q) = Some pe" "pv_finalized pe" "pv_applied pe" "\<not> pv_load_requested pe"
    "pv_generation pe = lq_generation q" "g' = g\<lparr>ga_pending := (ga_pending g)(lq_event_id q \<mapsto> pe\<lparr>pv_load_requested := True\<rparr>)\<rparr>"
  using assms by (auto simp: BeginLoad_def validateLoadLocked_def load_reserved_def split: option.splits if_splits)

lemma LoadGeneration_Inr:
  assumes "LoadGeneration c q p = (Inr data, p')"
  obtains mg where "sn_generation (at_current (ps_actor p)) = lq_generation q" "data = FramedRecords (at_current (ps_actor p))"
    "begin_load q (ps_gate p) = (None, mg)" "p' = p\<lparr>ps_gate := mg, ps_metrics := recordLoad (cl_duration c) (ps_metrics p)\<rparr>"
  using assms Snapshot_at_Inr
  by (fastforce simp: LoadGeneration_def split: option.splits sum.splits prod.splits)


section \<open>A reload from the event to the frames\<close>

lemma deactivate_changed: "fst (snd (deactivateLocked parent c g)) = ga_active g"
  by (simp add: deactivateLocked_def Let_def)

lemma HandleEvent_reload:
  assumes "i \<in> ga_cancels g" and "\<not> ga_terminal g" and "ef_reload_generation e \<noteq> 0" and "\<not> ef_accept e" and "\<not> ef_abort e"
  shows "suppressActiveRestore b x e = e" and "fst (HandleEvent parent x i (Inr (n, e)) g) = Inr \<lparr>es_effect = e, es_event_id = i\<rparr>"
proof -
  show s: "suppressActiveRestore b x e = e" for b using assms(3) by (simp add: suppressActiveRestore_def)
  obtain c stop g1 where r: "resolveEvent parent x i (Inr (n, e)) g = (c, stop, g1)" by (metis prod_cases3)
  have "c = None \<or> stop"
  proof (cases "ga_active g")
    case True
    then have "fst (snd (resolveEvent parent x i (Inr (n, e)) g))"
      using assms by (simp add: resolveEvent_def Let_def deactivate_changed)
    with r show ?thesis by simp
  next
    case False
    then show ?thesis using assms r by (simp add: resolveEvent_def Let_def)
  qed
  then show "fst (HandleEvent parent x i (Inr (n, e)) g) = Inr \<lparr>es_effect = e, es_event_id = i\<rparr>"
    by (auto simp: HandleEvent_def Let_def s r split: option.split)
qed

definition calm :: "call_env \<Rightarrow> bool" where
  "calm c \<longleftrightarrow> cl_cause c = None \<and> cl_enqueue c = None \<and> cl_cause_actor c = None"

text \<open>
  C10: The whole way of a navigation: when the session has published generation \<open>n\<close> for a running event, the callback
  receives the reload of \<open>n\<close>; after it has acknowledged its action, the load that fzf runs for this generation and
  this event is answered with exactly the frames of the published snapshot; and once that load is acknowledged
  the gate admits the next event.
\<close>

theorem reload_delivers:
  fixes p1 p2 p3 p4 :: picker_session
  assumes "reach gate_init gate_step g" and "i \<in> ga_cancels g" and "i \<noteq> 0" and "\<not> ga_terminal g" and "ga_next_id g \<noteq> - 1"
    and "ps_gate p = Some g" and "calm c" and "at_shutdown a = None" and "n = sn_generation (at_current a)" and "n \<noteq> 0"
    and "ef_reload_generation e = n" and "\<not> ef_accept e" and "\<not> ef_abort e"
    and "backend_HandleEvent c tt x i (Inr (n, e)) a p = (out, p1)"
    and "backend_FinalizeEvent c \<lparr>fq_event_id = i, fq_applied = True\<rparr> p1 = (err2, p2)"
    and "LoadGeneration c \<lparr>lq_generation = n, lq_event_id = i\<rparr> p2 = (data, p3)"
    and "backend_FinalizeLoad c \<lparr>fq_event_id = i, fq_applied = True\<rparr> p3 = (err4, p4)"
  shows "out = Inr \<lparr>es_effect = e, es_event_id = i\<rparr> \<and> err2 = None \<and> data = Inr (FramedRecords (at_current a)) \<and> err4 = None
    \<and> (\<exists>g4. ps_gate p4 = Some g4 \<and> fst (reserveEvent g4) = Reserved (ga_next_id g + 1))"
proof -
  have only: "ga_cancels g = {i}" "ga_pending g = Map.empty" "ga_in_flight g = 1" "\<not> ga_committing g"
    using running_event [OF coordinator.reach_inv [OF assms(1)] assms(2)] by auto
  have t: "effect_target e = n" using assms(10,11) by (simp add: effect_target_def)
  note reload = HandleEvent_reload [OF assms(2,4) _ assms(12,13)]
  obtain g1 where g1: "g1 = snd (HandleEvent (cl_parent c) x i (Inr (n, e)) g)" by simp
  have p1: "out = Inr \<lparr>es_effect = e, es_event_id = i\<rparr>" "ps_gate p1 = Some g1" "ps_actor p1 = a"
    using assms(6,10,11,14) reload(2) [of "cl_parent c" x n] g1 by (auto simp: backend_HandleEvent_def split: prod.splits)
  have h: "ga_pending g1 = [i \<mapsto> pending_of x e]" "ga_in_flight g1 = 1" "ga_next_id g1 = ga_next_id g" "\<not> ga_committing g1" "\<not> ga_terminal g1"
    using HandleEvent_success [OF assms(2,4), where parent = "cl_parent c" and x = x and generation = n and e = e] only assms(10-13) reload(1)
    unfolding g1 by auto
  have pe: "ga_pending g1 i = Some (pending_of x e)" using h by simp
  obtain g2 where g2: "g2 = snd (FinalizeEvent (cl_parent c) \<lparr>fq_event_id = i, fq_applied = True\<rparr> g1)" by simp
  note f = FinalizeEvent_applied [OF pe pending_of_sel(2), where parent = "cl_parent c", folded g2, simplified]
  have p2: "err2 = None" "ps_gate p2 = Some g2" "ps_actor p2 = a"
    using assms(15) p1 f(1) g2 by (auto simp: backend_FinalizeEvent_def split: prod.splits)
  let ?q = "(pending_of x e)\<lparr>pv_finalized := True, pv_applied := True\<rparr>" and ?l = "\<lparr>lq_generation = n, lq_event_id = i\<rparr>"
  have pend2: "ga_pending g2 = [i \<mapsto> ?q]" using f h t assms(10) by simp
  have b: "BeginLoad ?l g2 = (None, g2\<lparr>ga_pending := [i \<mapsto> ?q\<lparr>pv_load_requested := True\<rparr>]\<rparr>)"
    using BeginLoad_finalized [of g2 i ?q] pend2 assms(3,10) t by simp
  have "ValidateLoad ?l g2 = Reserved i" using pend2 assms(3,10) t by (simp add: ValidateLoad_def load_reserved_def)
  moreover have "Snapshot_at False (cl_enqueue c) (cl_cause_actor c) n a = Inr (at_current a)"
    using assms(7-9) by (simp add: calm_def Snapshot_at_def reply_snapshot_def query_guard_def)
  ultimately have p3: "data = Inr (FramedRecords (at_current a))" "ps_gate p3 = Some (g2\<lparr>ga_pending := [i \<mapsto> ?q\<lparr>pv_load_requested := True\<rparr>]\<rparr>)"
    using assms(7,16) p2 b by (auto simp: LoadGeneration_def validate_wait_def begin_load_def calm_def)
  let ?g3 = "g2\<lparr>ga_pending := [i \<mapsto> ?q\<lparr>pv_load_requested := True\<rparr>]\<rparr>"
  obtain g4 where g4: "g4 = snd (FinalizeLoad (cl_parent c) \<lparr>fq_event_id = i, fq_applied = True\<rparr> ?g3)" by simp
  note l = FinalizeLoad_applied [of ?g3 i "?q\<lparr>pv_load_requested := True\<rparr>", where parent = "cl_parent c", folded g4]
  have "err4 = None" "ps_gate p4 = Some g4"
    using assms(17) p3(2) l(1) g4 by (auto simp: backend_FinalizeLoad_def split: prod.splits)
  moreover have "fst (reserveEvent g4) = Reserved (ga_next_id g + 1)"
    using l f h t assms(5,10) by (simp add: reserveEvent_def Let_def)
  ultimately show ?thesis using p1 p2 p3 by simp
qed

section \<open>Examples\<close>

definition demo_actor :: actor where
  "demo_actor = handle_enrich quiet_env demo_enrich (new_actor True)"

lemma demo_actor_sel: "at_shutdown demo_actor = None" "sn_generation (at_current demo_actor) = 1" "recordValues (at_current demo_actor) = [demo_record]"
  by (simp_all add: demo_actor_def demo_enrich_def quiet_env_def new_actor_def handle_enrich_def nextGeneration_def Let_def
      recordValues_def ownRecordSet_def)

definition demo_call :: call_env where
  "demo_call = \<lparr>cl_cause = None, cl_enqueue = None, cl_cause_actor = None, cl_cause_end = None, cl_duration = 1, cl_parent = None\<rparr>"

definition demo_times :: transition_times where
  "demo_times = \<lparr>tt_queue = 1, tt_transform = 1, tt_local = 1\<rparr>"

definition demo_session :: "gate option \<Rightarrow> picker_session" where
  "demo_session mg = \<lparr>ps_actor = demo_actor, ps_gate = mg, ps_metrics = new_metrics\<rparr>"

definition demo_event_gate :: gate where
  "demo_event_gate = snd (reserveEvent demo_gate)"

definition demo_acked_gate :: gate where
  "demo_acked_gate = snd (FinalizeEvent None \<lparr>fq_event_id = 1, fq_applied = True\<rparr>
     (snd (HandleEvent None OpForward 1 (Inr (1, no_effect\<lparr>ef_reload_generation := 1\<rparr>)) demo_event_gate)))"


theorem reload_delivers_witness:
  "\<exists>p1 p2. snd (backend_HandleEvent demo_call demo_times OpForward 1 (Inr (1, no_effect\<lparr>ef_reload_generation := 1\<rparr>)) demo_actor (demo_session (Some demo_event_gate))) = p1
     \<and> snd (backend_FinalizeEvent demo_call \<lparr>fq_event_id = 1, fq_applied = True\<rparr> p1) = p2
     \<and> fst (LoadGeneration demo_call \<lparr>lq_generation = 1, lq_event_id = 1\<rparr> p2) = Inr (FramedRecords (at_current demo_actor))"
proof -
  have g: "reach gate_init gate_step demo_event_gate" "1 \<in> ga_cancels demo_event_gate" "\<not> ga_terminal demo_event_gate" "ga_next_id demo_event_gate \<noteq> - 1"
    using demo_gate_reach(2) unfolding demo_event_gate_def by (simp_all add: demo_reserve) (simp add: demo_gate_def newInitialEnrichment_def)
  have c: "calm demo_call" by (simp add: calm_def demo_call_def)
  have e: "ef_reload_generation (no_effect\<lparr>ef_reload_generation := 1\<rparr>) = 1" "\<not> ef_accept (no_effect\<lparr>ef_reload_generation := 1\<rparr>)"
    "\<not> ef_abort (no_effect\<lparr>ef_reload_generation := 1\<rparr>)" by (simp_all add: no_effect_def)
  have p: "ps_gate (demo_session (Some demo_event_gate)) = Some demo_event_gate" by (simp add: demo_session_def)
  show ?thesis
    using reload_delivers [OF g(1,2) _ g(3,4) p c demo_actor_sel(1) demo_actor_sel(2) [symmetric] _ e
        surjective_pairing surjective_pairing surjective_pairing surjective_pairing, of demo_times OpForward]
    by (simp del: prod.collapse)
qed

end
