(* ===== verification/Trace.thy ===== *)
theory Trace
  imports Backend
begin

text \<open>
  \<open>internal/integration\<close> (trace.go, trace_schema.go, trace_validation.go, trace_record.go) and the events of
  \<open>internal/app/trace.go\<close>: what a session writes into its trace file and what a reader of the file accepts.

  Times are nanoseconds (\<^const>\<open>None\<close> for the zero \<open>time.Time\<close>), durations of an event are nanoseconds and those of a
  record microseconds.  Formatting and parsing of timestamps and the SHA-256 digest are parameters.
\<close>

section \<open>trace_schema.go\<close>

record trace_schema =
  sc_event_outcomes :: "(string \<times> string list) list"
  sc_renderers :: "string list"
  sc_policies :: "string list"
  sc_zoxide_outcomes :: "string list"
  sc_candidates_min :: int
  sc_candidates_max :: int
  sc_child_starts_min :: int
  sc_child_starts_max :: int
  sc_max_live_min :: int
  sc_max_live_max :: int
  sc_zoxide_min :: int
  sc_attempts_max :: int
  sc_sidecar_max :: u64
  sc_live_required :: int
  sc_duration_min :: int
  sc_duration_max :: int
  sc_past_limit :: int
  sc_future_limit :: int
  sc_time_required :: bool
  sc_time_utc :: bool

definition productionTraceSchema :: trace_schema where
  "productionTraceSchema = \<lparr>
     sc_event_outcomes = [
       (''session.start'', [''cd'', ''cp'']), (''generation.start'', [''ok'']), (''generation.publish'', [''ok'']),
       (''generation.discard'', [''cancelled'', ''error'', ''stale'', ''superseded'']),
       (''zoxide.enrichment'', [''published'', ''discarded'', ''failed'']),
       (''fzf.start'', [''ok'']), (''fzf.exit'', [''ok'', ''aborted'', ''error'']),
       (''callback.info.start'', [''started'']), (''callback.info'', [''error'', ''ok'']),
       (''callback.event.start'', [''started'']),
       (''callback.event'', [''mi'', ''ma'', ''es'', ''fw'', ''up'', ''sl'', ''hm'', ''en'', ''rs'', ''error'']),
       (''callback.display.start'', [''started'']), (''callback.display'', [''ok'', ''error'']),
       (''callback.preview.start'', [''started'']), (''callback.preview'', [''ok'', ''error'']),
       (''callback.load.start'', [''started'']), (''callback.load'', [''ok'', ''error'']),
       (''preview.dispatch'', [''ok'', ''error'']), (''preview.finished'', [''ok'', ''error'']),
       (''preview.cancel'', [''cancelled'']), (''preview.exit'', [''ok'', ''error'']),
       (''session.close'', [''accepted'', ''aborted'', ''error'']),
       (''sidecar.get'', [''success'', ''transient'', ''terminal'']), (''sidecar.post'', [''success'', ''transient'', ''terminal'']),
       (''sidecar.stop'', [''context-canceled'', ''readiness-timeout'', ''transient-window'', ''terminal'', ''requested''])],
     sc_renderers = [''native'', ''eza'', ''glow'', ''bat'', ''kitten'', ''chafa'', ''unzip'', ''gzip'', ''xz'', ''tar'', ''file'', ''pdftoppm'',
       ''ffmpegthumbnailer'', ''ffmpeg'', ''exiftool''],
     sc_policies = [''cached'', ''fresh''],
     sc_zoxide_outcomes = [''ok'', ''missing'', ''process-error'', ''malformed'', ''timeout'', ''cancelled'', ''not-run'', ''cached'', ''pending''],
     sc_candidates_min = 0, sc_candidates_max = 1000000, sc_child_starts_min = 0, sc_child_starts_max = 3, sc_max_live_min = 0,
     sc_max_live_max = 1, sc_zoxide_min = 0, sc_attempts_max = 1000000, sc_sidecar_max = 1000000, sc_live_required = 0,
     sc_duration_min = 0, sc_duration_max = 86400000000000, sc_past_limit = 86400000000000, sc_future_limit = 1000000000,
     sc_time_required = True, sc_time_utc = True\<rparr>"

definition schemaContains :: "string list \<Rightarrow> string \<Rightarrow> bool" where
  "schemaContains values wanted = list_ex (\<lambda>v. v = wanted) values"

section \<open>trace.go: events\<close>

record trace_event =
  te_name :: string
  te_generation :: u64
  te_candidates :: int
  te_renderer :: string
  te_child_starts :: int
  te_max_live :: int
  te_outcome :: string
  te_path :: "bytes option"
  te_policy :: string
  te_attempts :: int
  te_starts :: int
  te_exits :: int
  te_processes :: int
  te_live :: int
  te_zmax_live :: int
  te_queue_wait :: int
  te_callback :: int
  te_local :: int
  te_zoxide :: int
  te_zoxide_outcome :: string
  te_sidecar_attempt :: u64
  te_transform :: int
  te_load :: int
  te_timestamp :: "int option"

text \<open>A literal \<open>TraceEvent{Name: name, Outcome: outcome}\<close>.\<close>

definition event_of :: "string \<Rightarrow> string \<Rightarrow> trace_event" where
  "event_of name outcome = \<lparr>te_name = name, te_generation = 0, te_candidates = 0, te_renderer = [], te_child_starts = 0, te_max_live = 0,
     te_outcome = outcome, te_path = None, te_policy = [], te_attempts = 0, te_starts = 0, te_exits = 0, te_processes = 0, te_live = 0,
     te_zmax_live = 0, te_queue_wait = 0, te_callback = 0, te_local = 0, te_zoxide = 0, te_zoxide_outcome = [], te_sidecar_attempt = 0,
     te_transform = 0, te_load = 0, te_timestamp = None\<rparr>"

section \<open>trace_validation.go\<close>

definition isPreviewEvent :: "string \<Rightarrow> bool" where
  "isPreviewEvent name \<longleftrightarrow> name \<in> {''preview.dispatch'', ''preview.finished'', ''preview.cancel'', ''preview.exit''}"

definition has_zoxide_fields :: "trace_event \<Rightarrow> bool" where
  "has_zoxide_fields e \<longleftrightarrow> te_policy e \<noteq> [] \<or> te_attempts e \<noteq> 0 \<or> te_starts e \<noteq> 0 \<or> te_exits e \<noteq> 0 \<or> te_processes e \<noteq> 0 \<or> te_live e \<noteq> 0
     \<or> te_zmax_live e \<noteq> 0 \<or> te_zoxide e \<noteq> 0 \<or> te_zoxide_outcome e \<noteq> []"

definition validateZoxideFields :: "trace_event \<Rightarrow> trace_schema \<Rightarrow> go_error option" where
  "validateZoxideFields e s =
     (if te_attempts e < sc_zoxide_min s \<or> te_starts e < sc_zoxide_min s \<or> te_exits e < sc_zoxide_min s \<or> te_processes e < sc_zoxide_min s
         \<or> te_live e < sc_zoxide_min s \<or> te_zmax_live e < sc_zoxide_min s \<or> te_attempts e > sc_attempts_max s
         \<or> te_starts e > te_attempts e \<or> te_exits e \<noteq> te_starts e \<or> te_processes e \<noteq> te_starts e \<or> te_live e \<noteq> sc_live_required s
         \<or> te_zmax_live e > te_starts e
      then Some (ErrText ''trace: invalid zoxide counters'')
      else if has_zoxide_fields e \<and> te_name e \<notin> {''generation.publish'', ''generation.discard'', ''zoxide.enrichment''}
      then Some (ErrText ''trace: zoxide fields are not valid for event'')
      else if has_zoxide_fields e \<and> (te_policy e = [] \<or> te_zoxide_outcome e = [])
      then Some (ErrText ''trace: incomplete zoxide fields'')
      else if te_name e = ''zoxide.enrichment'' \<and> (te_policy e = [] \<or> te_zoxide_outcome e = [])
      then Some (ErrText ''trace: enrichment requires zoxide fields'')
      else if te_policy e \<noteq> [] \<and> \<not> schemaContains (sc_policies s) (te_policy e) then Some (ErrText ''trace: invalid zoxide policy'')
      else if te_zoxide_outcome e \<noteq> [] \<and> \<not> schemaContains (sc_zoxide_outcomes s) (te_zoxide_outcome e)
      then Some (ErrText ''trace: invalid zoxide outcome'')
      else if te_zoxide_outcome e = ''pending'' \<and> (te_name e \<noteq> ''generation.publish'' \<or> te_attempts e \<noteq> 0 \<or> te_starts e \<noteq> 0 \<or> te_exits e \<noteq> 0
         \<or> te_processes e \<noteq> 0 \<or> te_live e \<noteq> 0 \<or> te_zmax_live e \<noteq> 0 \<or> te_zoxide e \<noteq> 0)
      then Some (ErrText ''trace: pending zoxide source has terminal fields'')
      else if te_name e = ''zoxide.enrichment'' \<and> (te_zoxide_outcome e = ''pending'' \<or> te_zoxide_outcome e = ''not-run'')
      then Some (ErrText ''trace: enrichment requires terminal zoxide outcome'')
      else None)"

definition validateSidecarFields :: "trace_event \<Rightarrow> trace_schema \<Rightarrow> go_error option" where
  "validateSidecarFields e s =
     (if te_sidecar_attempt e > sc_sidecar_max s then Some (ErrText ''trace: invalid sidecar attempt'')
      else if te_sidecar_attempt e \<noteq> 0 \<and> te_name e \<notin> {''sidecar.get'', ''sidecar.post'', ''sidecar.stop''}
      then Some (ErrText ''trace: sidecar attempt is not valid for event'')
      else if te_name e = ''sidecar.stop'' \<and> te_sidecar_attempt e \<noteq> 0 then Some (ErrText ''trace: sidecar stop cannot have an attempt'')
      else if te_name e \<in> {''sidecar.get'', ''sidecar.post''} \<and> te_sidecar_attempt e = 0
      then Some (ErrText ''trace: sidecar operation attempt is required'')
      else None)"

definition validateTimingFields :: "trace_event \<Rightarrow> trace_schema \<Rightarrow> go_error option" where
  "validateTimingFields e s =
     (if list_ex (\<lambda>d. d < sc_duration_min s \<or> d > sc_duration_max s)
           [te_queue_wait e, te_callback e, te_local e, te_zoxide e, te_transform e, te_load e]
      then Some (ErrText ''trace: invalid duration'')
      else if (te_queue_wait e \<noteq> 0 \<or> te_transform e \<noteq> 0) \<and> te_name e \<notin> {''generation.publish'', ''generation.discard''}
      then Some (ErrText ''trace: generation timing is not valid for event'')
      else if te_local e \<noteq> 0 \<and> te_name e \<notin> {''generation.publish'', ''generation.discard'', ''sidecar.get'', ''sidecar.post'', ''sidecar.stop''}
      then Some (ErrText ''trace: local timing is not valid for event'')
      else if te_zoxide e \<noteq> 0 \<and> te_name e \<notin> {''generation.publish'', ''generation.discard'', ''zoxide.enrichment''}
      then Some (ErrText ''trace: zoxide timing is not valid for event'')
      else if te_callback e \<noteq> 0 \<and> te_name e \<notin> {''callback.event'', ''callback.display''}
      then Some (ErrText ''trace: callback timing is not valid for event'')
      else if te_load e \<noteq> 0 \<and> te_name e \<noteq> ''callback.load'' then Some (ErrText ''trace: load timing is not valid for event'')
      else None)"

definition validTraceOutcomeWithSchema :: "string \<Rightarrow> string \<Rightarrow> trace_schema \<Rightarrow> bool" where
  "validTraceOutcomeWithSchema name outcome s =
     schemaContains (case map_of (sc_event_outcomes s) name of Some os \<Rightarrow> os | None \<Rightarrow> []) outcome"

definition fallback_suffix :: string where "fallback_suffix = ''-fallback''"

definition validRendererWithSchema :: "string \<Rightarrow> trace_schema \<Rightarrow> bool" where
  "validRendererWithSchema r s =
     (schemaContains (sc_renderers s) r \<or>
      (let n = length r - length fallback_suffix in
       length fallback_suffix \<le> length r \<and> drop n r = fallback_suffix \<and> take n r \<noteq> ''native'' \<and> schemaContains (sc_renderers s) (take n r)))"

definition timestamp_ok :: "trace_schema \<Rightarrow> int option \<Rightarrow> int option \<Rightarrow> bool" where
  "timestamp_ok s t now = (case (t, now) of (Some t, Some n) \<Rightarrow> \<not> (t > n + sc_future_limit s \<or> t < n - sc_past_limit s) | _ \<Rightarrow> True)"

definition generation_events :: "string list" where
  "generation_events = [''generation.start'', ''generation.publish'', ''generation.discard'', ''zoxide.enrichment'', ''callback.load'', ''callback.load.start'']"

text \<open>The checks of the event itself, before those of its groups of fields.\<close>

definition validate_event_fields :: "trace_event \<Rightarrow> trace_schema \<Rightarrow> go_error option" where
  "validate_event_fields e s =
     (if te_name e = ''zoxide.enrichment'' \<and> te_generation e = 0 then Some (ErrText ''trace: enrichment generation is required'')
      else if te_generation e > 0 \<and> te_name e \<notin> set generation_events then Some (ErrText ''trace: generation is not valid for event'')
      else if te_candidates e < sc_candidates_min s \<or> te_candidates e > sc_candidates_max s
         \<or> te_candidates e \<noteq> 0 \<and> te_name e \<noteq> ''generation.publish'' \<and> \<not> (te_name e = ''zoxide.enrichment'' \<and> te_outcome e = ''published'')
      then Some (ErrText ''trace: invalid candidate count'')
      else if te_path e \<noteq> None \<and> te_name e \<noteq> ''generation.publish'' then Some (ErrText ''trace: path is not valid for event'')
      else if te_renderer e \<noteq> [] \<and> \<not> isPreviewEvent (te_name e) then Some (ErrText ''trace: renderer is not valid for event'')
      else if isPreviewEvent (te_name e) \<and> \<not> validRendererWithSchema (te_renderer e) s then Some (ErrText ''trace: invalid renderer'')
      else if te_child_starts e < sc_child_starts_min s \<or> te_child_starts e > sc_child_starts_max s \<or> te_max_live e < sc_max_live_min s
         \<or> te_max_live e > sc_max_live_max s \<or> te_max_live e > te_child_starts e
      then Some (ErrText ''trace: invalid preview child counters'')
      else if (te_child_starts e \<noteq> 0 \<or> te_max_live e \<noteq> 0) \<and> te_name e \<notin> {''preview.finished'', ''preview.exit''}
      then Some (ErrText ''trace: preview child counters are not valid for event'')
      else if te_renderer e = ''native'' \<and> (te_child_starts e \<noteq> 0 \<or> te_max_live e \<noteq> 0)
      then Some (ErrText ''trace: native preview cannot have child counters'')
      else None)"

fun first_failure :: "go_error option list \<Rightarrow> go_error option" where
  "first_failure [] = None"
| "first_failure (c # cs) = (case c of Some e \<Rightarrow> Some e | None \<Rightarrow> first_failure cs)"

definition validateTraceEventWithSchema :: "trace_event \<Rightarrow> trace_schema \<Rightarrow> int option \<Rightarrow> go_error option" where
  "validateTraceEventWithSchema e s now =
     first_failure [
       if timestamp_ok s (te_timestamp e) now then None else Some (ErrText ''trace: invalid timestamp''),
       validate_event_fields e s,
       validateZoxideFields e s,
       validateSidecarFields e s,
       validateTimingFields e s,
       if validTraceOutcomeWithSchema (te_name e) (te_outcome e) s then None else Some (ErrText ''trace: invalid event or outcome'')]"

definition validateTraceEvent :: "int \<Rightarrow> trace_event \<Rightarrow> go_error option" where
  "validateTraceEvent now e = validateTraceEventWithSchema e productionTraceSchema (Some now)"

section \<open>trace_record.go: what a reader accepts\<close>

record trace_record =
  tc_schema :: int
  tc_time :: string
  tc_session :: string
  tc_event :: string
  tc_generation :: u64
  tc_candidates :: int
  tc_renderer :: string
  tc_child_starts :: int
  tc_max_live :: int
  tc_outcome :: string
  tc_path :: string
  tc_policy :: string
  tc_attempts :: int
  tc_starts :: int
  tc_exits :: int
  tc_processes :: int
  tc_live :: int
  tc_zmax_live :: int
  tc_queue_wait_us :: int
  tc_callback_us :: int
  tc_local_us :: int
  tc_zoxide_us :: int
  tc_zoxide_outcome :: string
  tc_sidecar_attempt :: u64
  tc_transform_us :: int
  tc_load_us :: int

definition TraceSchema :: int where "TraceSchema = 2"

definition redaction_prefix :: string where "redaction_prefix = ''sha256:''"

definition is_lower_hex :: "char \<Rightarrow> bool" where
  "is_lower_hex c \<longleftrightarrow> c \<in> set ''0123456789abcdef''"

definition validTraceRedaction :: "string \<Rightarrow> bool" where
  "validTraceRedaction v \<longleftrightarrow> take (length redaction_prefix) v = redaction_prefix \<and> length v = length redaction_prefix + 16
     \<and> list_all is_lower_hex (drop (length redaction_prefix) v)"

definition parseTraceRecordTimestamp :: "(string \<Rightarrow> int result) \<Rightarrow> string \<Rightarrow> trace_schema \<Rightarrow> int option result" where
  "parseTraceRecordTimestamp parse v s =
     (if v = [] then (if sc_time_required s then Inl (ErrText ''trace: missing timestamp'') else Inr None)
      else if sc_time_utc s \<and> last v \<noteq> CHR ''Z'' then Inl (ErrText ''trace: timestamp is not UTC'')
      else case parse v of Inl e \<Rightarrow> Inl (ErrWrap ''trace: invalid timestamp'' e) | Inr t \<Rightarrow> Inr (Some t))"

definition traceRecordDuration :: "int \<Rightarrow> trace_schema \<Rightarrow> int result" where
  "traceRecordDuration v s = (if v < 0 \<or> v > sc_duration_max s div 1000 then Inl (ErrText ''trace: invalid duration'') else Inr (v * 1000))"

fun all_results :: "'a result list \<Rightarrow> 'a list result" where
  "all_results [] = Inr []"
| "all_results (r # rs) = (case r of Inl e \<Rightarrow> Inl e | Inr x \<Rightarrow> (case all_results rs of Inl e \<Rightarrow> Inl e | Inr xs \<Rightarrow> Inr (x # xs)))"

definition event_of_record :: "trace_record \<Rightarrow> int option \<Rightarrow> int list \<Rightarrow> trace_event" where
  "event_of_record r t ds = \<lparr>te_name = tc_event r, te_generation = tc_generation r, te_candidates = tc_candidates r, te_renderer = tc_renderer r,
     te_child_starts = tc_child_starts r, te_max_live = tc_max_live r, te_outcome = tc_outcome r,
     te_path = (if tc_path r \<noteq> [] then Some (tc_path r) else None), te_policy = tc_policy r, te_attempts = tc_attempts r,
     te_starts = tc_starts r, te_exits = tc_exits r, te_processes = tc_processes r, te_live = tc_live r, te_zmax_live = tc_zmax_live r,
     te_queue_wait = ds ! 0, te_callback = ds ! 1, te_local = ds ! 2, te_zoxide = ds ! 3, te_zoxide_outcome = tc_zoxide_outcome r,
     te_sidecar_attempt = tc_sidecar_attempt r, te_transform = ds ! 4, te_load = ds ! 5, te_timestamp = t\<rparr>"

definition ValidateTraceRecordAt :: "(string \<Rightarrow> int result) \<Rightarrow> trace_record \<Rightarrow> int option \<Rightarrow> go_error option" where
  "ValidateTraceRecordAt parse r now =
     (let s = productionTraceSchema in
      if tc_schema r \<noteq> TraceSchema then Some (ErrText ''trace: unsupported schema'')
      else if \<not> validTraceRedaction (tc_session r) then Some (ErrText ''trace: invalid session redaction'')
      else case parseTraceRecordTimestamp parse (tc_time r) s of
             Inl e \<Rightarrow> Some e
           | Inr t \<Rightarrow>
               if tc_path r \<noteq> [] \<and> \<not> validTraceRedaction (tc_path r) then Some (ErrText ''trace: invalid path redaction'')
               else case all_results (map (\<lambda>d. traceRecordDuration d s)
                        [tc_queue_wait_us r, tc_callback_us r, tc_local_us r, tc_zoxide_us r, tc_transform_us r, tc_load_us r]) of
                      Inl e \<Rightarrow> Some e
                    | Inr ds \<Rightarrow> validateTraceEventWithSchema (event_of_record r t ds) s now)"

section \<open>trace.go: writing records\<close>

text \<open>
  \<open>Duration.Microseconds\<close> truncates.  The clock read by the validation and the one that stamps an event without a
  timestamp, the formatting of a UTC time, the digest and the JSON encoder are the environment of a call.
\<close>

definition microseconds :: "int \<Rightarrow> int" where
  "microseconds d = (if d < 0 then - (- d div 1000) else d div 1000)"

record trace_env =
  en_now :: int
  en_stamp :: int
  en_format :: "int \<Rightarrow> string"
  en_digest :: "bytes \<Rightarrow> bytes"
  en_marshal :: "trace_record \<Rightarrow> bytes result"

definition hex_string :: "bytes \<Rightarrow> string" where
  "hex_string bs = concat (map (\<lambda>b. [json_hex (byte_of b div 16), json_hex (byte_of b mod 16)]) bs)"

definition redact :: "(bytes \<Rightarrow> bytes) \<Rightarrow> bytes \<Rightarrow> string" where
  "redact digest v = redaction_prefix @ hex_string (take 8 (digest v))"

definition event_time :: "trace_env \<Rightarrow> trace_event \<Rightarrow> int" where
  "event_time env e = (case te_timestamp e of Some t \<Rightarrow> t | None \<Rightarrow> en_stamp env)"

definition record_of :: "trace_env \<Rightarrow> string \<Rightarrow> trace_event \<Rightarrow> trace_record" where
  "record_of env session e = \<lparr>tc_schema = TraceSchema, tc_time = en_format env (event_time env e), tc_session = session,
     tc_event = te_name e, tc_generation = te_generation e, tc_candidates = te_candidates e, tc_renderer = te_renderer e,
     tc_child_starts = te_child_starts e, tc_max_live = te_max_live e, tc_outcome = te_outcome e,
     tc_path = (case te_path e of Some p \<Rightarrow> redact (en_digest env) p | None \<Rightarrow> []), tc_policy = te_policy e, tc_attempts = te_attempts e,
     tc_starts = te_starts e, tc_exits = te_exits e, tc_processes = te_processes e, tc_live = te_live e, tc_zmax_live = te_zmax_live e,
     tc_queue_wait_us = microseconds (te_queue_wait e), tc_callback_us = microseconds (te_callback e), tc_local_us = microseconds (te_local e),
     tc_zoxide_us = microseconds (te_zoxide e), tc_zoxide_outcome = te_zoxide_outcome e, tc_sidecar_attempt = te_sidecar_attempt e,
     tc_transform_us = microseconds (te_transform e), tc_load_us = microseconds (te_load e)\<rparr>"

text \<open>
  The loop over \<open>Write\<close>.  A short write that is reported as an error is retried with the rest, any other error ends
  the loop.
\<close>

function write_loop :: "'w writer \<Rightarrow> 'w \<Rightarrow> bytes \<Rightarrow> go_error option \<times> 'w" where
  "write_loop w st line =
     (if line = [] then (None, st)
      else case w st line of
             (n, err, st') \<Rightarrow>
               if n < 0 \<or> n > int (length line) then (Some (ErrText ''trace: write event: invalid byte count''), st')
               else let rest = drop (nat n) line in
                    (case err of
                       Some e \<Rightarrow> if errors_is e ErrShortWrite \<and> n > 0 \<and> rest \<noteq> [] then write_loop w st' rest
                                 else (Some (ErrWrap ''trace: write event'' e), st')
                     | None \<Rightarrow> if n = 0 then (Some (ErrWrap ''trace: write event'' ErrShortWrite), st') else write_loop w st' rest))"
  by pat_completeness auto
termination
  by (relation "measure (\<lambda>(_, _, line). length line)") auto

declare write_loop.simps [simp del]

text \<open>A sink: \<open>WriteRecord\<close> when it is a record writer, \<open>Write\<close> otherwise, and \<open>Close\<close> when it is a closer.\<close>

record 'w sink_ops =
  so_record :: "('w \<Rightarrow> bytes \<Rightarrow> go_error option \<times> 'w) option"
  so_write :: "'w writer"
  so_close :: "('w \<Rightarrow> go_error option \<times> 'w) option"

record trace =
  tr_writer :: bool
  tr_session :: string
  tr_disabled :: bool

definition NewTrace :: "(bytes \<Rightarrow> bytes) \<Rightarrow> bytes \<Rightarrow> trace" where
  "NewTrace digest sid = \<lparr>tr_writer = True, tr_session = redact digest sid, tr_disabled = False\<rparr>"

definition NewTraceWithRedactedSession :: "string \<Rightarrow> trace result" where
  "NewTraceWithRedactedSession session =
     (if \<not> validTraceRedaction session then Inl (ErrText ''trace: invalid redacted session'')
      else Inr \<lparr>tr_writer = True, tr_session = session, tr_disabled = False\<rparr>)"

definition write_line :: "'w sink_ops \<Rightarrow> bytes \<Rightarrow> 'w \<Rightarrow> go_error option \<times> 'w" where
  "write_line ops line st =
     (case so_record ops of
        Some wr \<Rightarrow> (case wr st line of (err, st') \<Rightarrow> (map_option (ErrWrap ''trace: write event'') err, st'))
      | None \<Rightarrow> write_loop (so_write ops) st line)"

definition Trace_Event :: "'w sink_ops \<Rightarrow> trace_env \<Rightarrow> trace_event \<Rightarrow> trace \<Rightarrow> 'w \<Rightarrow> go_error option \<times> trace \<times> 'w" where
  "Trace_Event ops env e t st =
     (case validateTraceEvent (en_now env) e of
        Some err \<Rightarrow> (Some err, t, st)
      | None \<Rightarrow>
          (case en_marshal env (record_of env (tr_session t) e) of
             Inl err \<Rightarrow> (Some (ErrWrap ''trace: encode event'' err), t, st)
           | Inr body \<Rightarrow>
               if tr_disabled t then (None, t, st)
               else if \<not> tr_writer t then (Some (ErrText ''trace: nil writer''), t\<lparr>tr_disabled := True\<rparr>, st)
               else (case write_line ops (body @ [LF]) st of
                       (None, st') \<Rightarrow> (None, t, st')
                     | (Some err, st') \<Rightarrow> (Some err, t\<lparr>tr_disabled := True\<rparr>, st'))))"

definition Trace_Close :: "'w sink_ops \<Rightarrow> trace \<Rightarrow> 'w \<Rightarrow> go_error option \<times> trace \<times> 'w" where
  "Trace_Close ops t st =
     (if \<not> tr_writer t then (None, t, st)
      else let t = t\<lparr>tr_disabled := True, tr_writer := False\<rparr> in
           case so_close ops of None \<Rightarrow> (None, t, st) | Some c \<Rightarrow> (case c st of (err, st') \<Rightarrow> (err, t, st')))"

section \<open>internal/app/trace.go\<close>

text \<open>
  A picker trace that is not nil.  The diagnostic lines are \<^const>\<open>None\<close> when there is no diagnostic writer; the sink of
  the picker trace is the one its trace writes to, and is only closed directly when there is no trace.
\<close>

record picker_trace =
  pt_trace :: "trace option"
  pt_sink :: bool
  pt_diagnostic :: "string list option"
  pt_once :: bool
  pt_finish_once :: bool
  pt_closed :: bool
  pt_close_err :: "go_error option"

definition errPickerTraceClosed :: go_error where "errPickerTraceClosed = ErrText ''picker trace is closed''"

definition new_picker_trace :: "trace \<Rightarrow> string list option \<Rightarrow> picker_trace" where
  "new_picker_trace t diagnostic = \<lparr>pt_trace = Some t, pt_sink = True, pt_diagnostic = diagnostic, pt_once = False, pt_finish_once = False,
     pt_closed = False, pt_close_err = None\<rparr>"

text \<open>Opening the sink of a path is a parameter.\<close>

definition openPickerTrace :: "(bytes \<Rightarrow> go_error option) \<Rightarrow> (bytes \<Rightarrow> bytes) \<Rightarrow> bytes \<Rightarrow> bytes \<Rightarrow> string list option \<Rightarrow> picker_trace option result" where
  "openPickerTrace open_sink digest path sid diagnostic =
     (if path = [] then Inr None
      else case open_sink path of
             Some e \<Rightarrow> Inl (ErrWrap ''open picker trace'' e)
           | None \<Rightarrow> Inr (Some (new_picker_trace (NewTrace digest sid) diagnostic)))"

definition openCallbackTrace :: "(bytes \<Rightarrow> string \<Rightarrow> go_error option) \<Rightarrow> (string \<Rightarrow> string) option \<Rightarrow> picker_trace option" where
  "openCallbackTrace open_sink getenv =
     (case getenv of
        None \<Rightarrow> None
      | Some env \<Rightarrow>
          (let path = env ''SHELL_PICKER_TRACE_PATH''; session = env ''SHELL_PICKER_TRACE_SESSION'' in
           if path = [] \<or> session = [] then None
           else case NewTraceWithRedactedSession session of
                  Inl _ \<Rightarrow> None
                | Inr t \<Rightarrow> if open_sink path session \<noteq> None then None else Some (new_picker_trace t None)))"

definition disabledDiagnostic :: "picker_trace \<Rightarrow> picker_trace" where
  "disabledDiagnostic p =
     (if pt_once p then p
      else p\<lparr>pt_once := True, pt_diagnostic := map_option (\<lambda>ls. ls @ [''shell-picker: trace disabled'']) (pt_diagnostic p)\<rparr>)"

definition picker_event :: "'w sink_ops \<Rightarrow> trace_env \<Rightarrow> trace_event \<Rightarrow> picker_trace \<Rightarrow> 'w \<Rightarrow> go_error option \<times> picker_trace \<times> 'w" where
  "picker_event ops env e p st =
     (if pt_closed p then (Some errPickerTraceClosed, p, st)
      else case pt_trace p of
             None \<Rightarrow> (Some (ErrText ''picker trace has no trace writer''), p, st)
           | Some t \<Rightarrow>
               (case Trace_Event ops env e t st of
                  (err, t', st') \<Rightarrow>
                    let p = p\<lparr>pt_trace := Some t'\<rparr> in (err, if err \<noteq> None then disabledDiagnostic p else p, st')))"

definition picker_close :: "'w sink_ops \<Rightarrow> picker_trace \<Rightarrow> 'w \<Rightarrow> go_error option \<times> picker_trace \<times> 'w" where
  "picker_close ops p st =
     (if pt_closed p then (pt_close_err p, p, st)
      else let p = p\<lparr>pt_closed := True\<rparr>;
               (err, p, st) =
                 (case pt_trace p of
                    Some t \<Rightarrow> (case Trace_Close ops t st of (err, t', st') \<Rightarrow> (err, p\<lparr>pt_trace := Some t'\<rparr>, st'))
                  | None \<Rightarrow> if pt_sink p then (case so_close ops of None \<Rightarrow> (None, p, st) | Some c \<Rightarrow> (case c st of (err, st') \<Rightarrow> (err, p, st')))
                            else (None, p, st));
               p = p\<lparr>pt_close_err := err\<rparr>
           in (err, if err \<noteq> None then disabledDiagnostic p else p, st))"

definition status_text :: "status \<Rightarrow> string" where
  "status_text s = (case s of StatusAccepted \<Rightarrow> ''accepted'' | StatusAborted \<Rightarrow> ''aborted'' | StatusOther t \<Rightarrow> t)"

definition close_event :: "outcome \<Rightarrow> go_error option \<Rightarrow> trace_event" where
  "close_event outcome primary = event_of ''session.close'' (if primary = None then status_text (out_status outcome) else ''error'')"

definition picker_finish :: "'w sink_ops \<Rightarrow> trace_env \<Rightarrow> outcome \<Rightarrow> go_error option \<Rightarrow> picker_trace \<Rightarrow> 'w
    \<Rightarrow> (outcome \<times> go_error option) \<times> picker_trace \<times> 'w" where
  "picker_finish ops env outcome primary p st =
     ((outcome, primary),
      if pt_finish_once p then (p, st)
      else case picker_event ops env (close_event outcome primary) (p\<lparr>pt_finish_once := True\<rparr>) st of
             (_, p, st) \<Rightarrow> (case picker_close ops p st of (_, p, st) \<Rightarrow> (p, st)))"

text \<open>The events that the session builds.\<close>

definition outcome_text :: "zoxide_outcome \<Rightarrow> string" where
  "outcome_text z = (case z of OutcomeUnset \<Rightarrow> [] | OutcomeOk \<Rightarrow> ''ok'' | OutcomeMalformed \<Rightarrow> ''malformed'' | OutcomeTimeout \<Rightarrow> ''timeout''
     | OutcomeCancelled \<Rightarrow> ''cancelled'' | OutcomeMissing \<Rightarrow> ''missing'' | OutcomeProcessError \<Rightarrow> ''process-error'' | OutcomeCached \<Rightarrow> ''cached''
     | OutcomeNotRun \<Rightarrow> ''not-run'' | OutcomePending \<Rightarrow> ''pending'')"

definition tracePolicy :: "nat \<Rightarrow> string" where
  "tracePolicy policy = (if policy = 0 then policy_String ZoxideCached else policy_String policy)"

definition zeroZoxideMetrics :: "source_metrics \<Rightarrow> source_metrics" where
  "zeroZoxideMetrics s = s\<lparr>sm_attempts := 0, sm_starts := 0, sm_exits := 0, sm_processes := 0, sm_live := 0, sm_max_live := 0, sm_zoxide := 0\<rparr>"

text \<open>The zoxide fields of an event, from the metrics of a source.\<close>

definition with_source :: "nat \<Rightarrow> source_metrics \<Rightarrow> trace_event \<Rightarrow> trace_event" where
  "with_source policy s e = e\<lparr>te_policy := tracePolicy policy, te_attempts := sm_attempts s, te_starts := sm_starts s, te_exits := sm_exits s,
     te_processes := sm_processes s, te_live := sm_live s, te_zmax_live := sm_max_live s, te_zoxide := sint (sm_zoxide s),
     te_zoxide_outcome := outcome_text (sm_outcome s)\<rparr>"

definition traceGenerationTransition :: "nat \<Rightarrow> snapshot \<Rightarrow> duration \<Rightarrow> duration \<Rightarrow> bytes option \<Rightarrow> source_metrics \<Rightarrow> trace_event" where
  "traceGenerationTransition policy sn queueWait transform path s =
     (with_source policy s (event_of ''generation.publish'' ''ok''))
       \<lparr>te_generation := sn_generation sn, te_candidates := int (RecordCount sn), te_path := path, te_queue_wait := sint queueWait,
        te_local := sint (sm_local s), te_transform := sint transform\<rparr>"

definition traceInitialTransition :: "nat \<Rightarrow> picker \<Rightarrow> snapshot \<Rightarrow> duration \<Rightarrow> duration \<Rightarrow> source_metrics \<Rightarrow> bytes option \<Rightarrow> trace_event" where
  "traceInitialTransition policy picker sn queueWait transform s path =
     traceGenerationTransition policy sn queueWait transform path
       ((zeroZoxideMetrics s)\<lparr>sm_outcome := (if picker = PickerCD then OutcomePending else OutcomeNotRun)\<rparr>)"

definition traceTransition :: "nat \<Rightarrow> snapshot \<Rightarrow> duration \<Rightarrow> duration \<Rightarrow> source_metrics \<Rightarrow> bytes option \<Rightarrow> trace_event" where
  "traceTransition policy sn queueWait transform s path =
     traceGenerationTransition policy sn queueWait transform path ((zeroZoxideMetrics s)\<lparr>sm_outcome := OutcomeNotRun\<rparr>)"

definition traceZoxideEnrichment :: "nat \<Rightarrow> u64 \<Rightarrow> string \<Rightarrow> nat \<Rightarrow> source_metrics \<Rightarrow> trace_event" where
  "traceZoxideEnrichment policy generation lifecycle candidates s =
     (with_source policy s (event_of ''zoxide.enrichment'' lifecycle))\<lparr>te_generation := generation, te_candidates := int candidates\<rparr>"

text \<open>\<open>fzfsidecar/options.go\<close>: what the sidecar reports to its observer.\<close>

datatype observer_stop = StopContextCanceled | StopReadinessTimeout | StopTransientWindow | StopTerminal | StopRequested | StopReasonOther

datatype observer_kind = GetSuccess | GetTransient | GetTerminal | PostSuccess | PostTransient | PostTerminal | ObserverStop | KindOther

record observer_event =
  oe_kind :: observer_kind
  oe_stop_reason :: observer_stop
  oe_attempt :: u64
  oe_duration :: duration

definition sidecarTraceCategory :: "observer_event \<Rightarrow> (string \<times> string) option" where
  "sidecarTraceCategory e =
     (case oe_kind e of
        GetSuccess \<Rightarrow> Some (''sidecar.get'', ''success'')
      | GetTransient \<Rightarrow> Some (''sidecar.get'', ''transient'')
      | GetTerminal \<Rightarrow> Some (''sidecar.get'', ''terminal'')
      | PostSuccess \<Rightarrow> Some (''sidecar.post'', ''success'')
      | PostTransient \<Rightarrow> Some (''sidecar.post'', ''transient'')
      | PostTerminal \<Rightarrow> Some (''sidecar.post'', ''terminal'')
      | ObserverStop \<Rightarrow>
          (case oe_stop_reason e of
             StopContextCanceled \<Rightarrow> Some (''sidecar.stop'', ''context-canceled'')
           | StopReadinessTimeout \<Rightarrow> Some (''sidecar.stop'', ''readiness-timeout'')
           | StopTransientWindow \<Rightarrow> Some (''sidecar.stop'', ''transient-window'')
           | StopTerminal \<Rightarrow> Some (''sidecar.stop'', ''terminal'')
           | StopRequested \<Rightarrow> Some (''sidecar.stop'', ''requested'')
           | StopReasonOther \<Rightarrow> None)
      | KindOther \<Rightarrow> None)"

definition newSidecarTraceObserver :: "observer_event \<Rightarrow> trace_event option" where
  "newSidecarTraceObserver e =
     map_option (\<lambda>(name, outcome). (event_of name outcome)\<lparr>te_sidecar_attempt := oe_attempt e, te_local := sint (oe_duration e)\<rparr>)
       (sidecarTraceCategory e)"

section \<open>A written record is one that readers accept\<close>

lemma first_failure_None: "first_failure (c # cs) = None \<longleftrightarrow> c = None \<and> first_failure cs = None"
  by (cases c) auto

lemma guard_None: "((if b then Some x else y) = None) \<longleftrightarrow> \<not> b \<and> y = None" "((if b then None else Some x) = None) \<longleftrightarrow> b"
  by simp_all

lemmas no_failure = validateTraceEventWithSchema_def first_failure_None first_failure.simps(1) guard_None

lemma json_hex_lower: "n < 16 \<Longrightarrow> is_lower_hex (json_hex n)"
  unfolding less_16_cases by (auto simp: upt_rec json_hex_def is_lower_hex_def)

lemma hex_string_lower: "list_all is_lower_hex (hex_string bs)"
  using byte_of_less by (induction bs) (auto simp: hex_string_def intro!: json_hex_lower less_mult_imp_div_less)

lemma hex_string_length: "length (hex_string bs) = 2 * length bs"
  by (induction bs) (auto simp: hex_string_def)

lemma redact_valid: "8 \<le> length (digest v) \<Longrightarrow> validTraceRedaction (redact digest v)"
  by (simp add: validTraceRedaction_def redact_def redaction_prefix_def hex_string_lower hex_string_length)

lemma redact_nonempty [simp]: "redact digest v \<noteq> []"
  by (simp add: redact_def redaction_prefix_def)

text \<open>What a reader sees of an event: durations cut to whole microseconds, the path replaced, the time of the record.\<close>

definition as_read :: "trace_env \<Rightarrow> trace_event \<Rightarrow> trace_event" where
  "as_read env e = e\<lparr>te_queue_wait := te_queue_wait e div 1000 * 1000, te_callback := te_callback e div 1000 * 1000,
     te_local := te_local e div 1000 * 1000, te_zoxide := te_zoxide e div 1000 * 1000, te_transform := te_transform e div 1000 * 1000,
     te_load := te_load e div 1000 * 1000, te_path := map_option (redact (en_digest env)) (te_path e),
     te_timestamp := Some (event_time env e)\<rparr>"

lemma as_read_sel:
  "te_name (as_read env e) = te_name e" "te_generation (as_read env e) = te_generation e" "te_candidates (as_read env e) = te_candidates e"
  "te_renderer (as_read env e) = te_renderer e" "te_child_starts (as_read env e) = te_child_starts e" "te_max_live (as_read env e) = te_max_live e"
  "te_outcome (as_read env e) = te_outcome e" "te_policy (as_read env e) = te_policy e"
  "te_attempts (as_read env e) = te_attempts e" "te_starts (as_read env e) = te_starts e" "te_exits (as_read env e) = te_exits e"
  "te_processes (as_read env e) = te_processes e" "te_live (as_read env e) = te_live e" "te_zmax_live (as_read env e) = te_zmax_live e"
  "te_zoxide_outcome (as_read env e) = te_zoxide_outcome e" "te_sidecar_attempt (as_read env e) = te_sidecar_attempt e"
  "te_timestamp (as_read env e) = Some (event_time env e)" "te_path (as_read env e) = map_option (redact (en_digest env)) (te_path e)"
  "te_queue_wait (as_read env e) = te_queue_wait e div 1000 * 1000" "te_callback (as_read env e) = te_callback e div 1000 * 1000"
  "te_local (as_read env e) = te_local e div 1000 * 1000" "te_zoxide (as_read env e) = te_zoxide e div 1000 * 1000"
  "te_transform (as_read env e) = te_transform e div 1000 * 1000" "te_load (as_read env e) = te_load e div 1000 * 1000"
  by (simp_all add: as_read_def)

text \<open>A chain of guards passes when each of its conditions implies the one of a chain that passes.\<close>

lemma guard_mono:
  "b' \<longrightarrow> b \<Longrightarrow> y = None \<longrightarrow> y' = None \<Longrightarrow> (if b then Some x else y) = None \<longrightarrow> (if b' then Some x else y') = None"
  by simp

lemma nonzero_cut: "(d::int) div 1000 * 1000 \<noteq> 0 \<longrightarrow> d \<noteq> 0"
  by auto

lemma refuted: "\<not> P \<Longrightarrow> P \<longrightarrow> Q"
  by simp

lemmas guard_intros = guard_mono conj_mono disj_mono imp_refl nonzero_cut

lemma as_read_zoxide: "validateZoxideFields e s = None \<longrightarrow> validateZoxideFields (as_read env e) s = None"
  unfolding validateZoxideFields_def has_zoxide_fields_def as_read_sel by (intro guard_intros)

lemma as_read_sidecar: "validateSidecarFields (as_read env e) s = validateSidecarFields e s"
  unfolding validateSidecarFields_def as_read_sel by (rule refl)

lemma as_read_event: "validate_event_fields (as_read env e) s = validate_event_fields e s"
  unfolding validate_event_fields_def as_read_sel option.map_disc_iff by (rule refl)

lemma cut_bounds: "0 \<le> (d::int) \<Longrightarrow> 0 \<le> d div 1000 * 1000 \<and> d div 1000 * 1000 \<le> d"
  using div_mult_mod_eq [of d 1000] by (simp add: pos_imp_zdiv_nonneg_iff)

lemma timing_bounds:
  assumes "validateTimingFields e s = None" and "d \<in> {te_queue_wait e, te_callback e, te_local e, te_zoxide e, te_transform e, te_load e}"
  shows "sc_duration_min s \<le> d" and "d \<le> sc_duration_max s"
proof -
  have "\<not> list_ex (\<lambda>d. d < sc_duration_min s \<or> d > sc_duration_max s)
      [te_queue_wait e, te_callback e, te_local e, te_zoxide e, te_transform e, te_load e]"
    using assms(1) unfolding validateTimingFields_def guard_None by (rule conjunct1)
  then have "\<not> (d < sc_duration_min s \<or> d > sc_duration_max s)" using assms(2) unfolding list_ex_iff by auto
  then show "sc_duration_min s \<le> d" "d \<le> sc_duration_max s" by auto
qed

lemma cut_timing:
  assumes "sc_duration_min s = 0" and "validateTimingFields e s = None"
    and "d \<in> {te_queue_wait e, te_callback e, te_local e, te_zoxide e, te_transform e, te_load e}"
  shows "\<not> (d div 1000 * 1000 < sc_duration_min s \<or> sc_duration_max s < d div 1000 * 1000)"
  using timing_bounds [OF assms(2,3)] assms(1) cut_bounds [of d] by linarith

lemma as_read_timing:
  assumes "sc_duration_min s = 0" and ok: "validateTimingFields e s = None"
  shows "validateTimingFields (as_read env e) s = None"
proof -
  have "\<not> list_ex (\<lambda>d. d < sc_duration_min s \<or> d > sc_duration_max s)
      [te_queue_wait e div 1000 * 1000, te_callback e div 1000 * 1000, te_local e div 1000 * 1000, te_zoxide e div 1000 * 1000,
       te_transform e div 1000 * 1000, te_load e div 1000 * 1000]"
    using cut_timing [OF assms] unfolding list_ex_iff by auto
  then have "validateTimingFields e s = None \<longrightarrow> validateTimingFields (as_read env e) s = None"
    unfolding validateTimingFields_def as_read_sel by (intro guard_intros refuted)
  with ok show ?thesis by simp
qed

lemma event_of_record_of:
  "event_of_record (record_of env session e) (Some (event_time env e)) [te_queue_wait e div 1000 * 1000, te_callback e div 1000 * 1000,
      te_local e div 1000 * 1000, te_zoxide e div 1000 * 1000, te_transform e div 1000 * 1000, te_load e div 1000 * 1000] = as_read env e"
  by (cases "te_path e") (simp_all add: event_of_record_def record_of_def as_read_def)

lemma recorded_duration:
  "0 \<le> d \<Longrightarrow> d \<le> sc_duration_max s \<Longrightarrow> traceRecordDuration (microseconds d) s = Inr (d div 1000 * 1000)"
  by (auto simp: traceRecordDuration_def microseconds_def not_less zdiv_mono1)

text \<open>
  Every record that a trace writes is one that readers of the trace file accept: when an event passes the validation of the
  writer, the record built from it, with its durations cut to microseconds and its path replaced by a digest, passes
  the validation of the reader, at every time of reading that has the record's timestamp in its window, and without
  a clock at all.  The formatting of the timestamp is assumed to be read back by the parser and to end in Z, and
  the digest to have at least eight bytes.
\<close>

theorem record_accepted:
  assumes "validateTraceEvent (en_now env) e = None" and "validTraceRedaction session"
    and "parse (en_format env (event_time env e)) = Inr (event_time env e)"
    and "en_format env (event_time env e) \<noteq> []" and "last (en_format env (event_time env e)) = CHR ''Z''"
    and "\<forall>p. te_path e = Some p \<longrightarrow> 8 \<le> length (en_digest env p)"
    and "timestamp_ok productionTraceSchema (Some (event_time env e)) clock"
  shows "ValidateTraceRecordAt parse (record_of env session e) clock = None"
proof -
  let ?s = productionTraceSchema and ?r = "record_of env session e" and ?t = "Some (event_time env e)"
  have ok: "validate_event_fields e ?s = None" "validateZoxideFields e ?s = None" "validateSidecarFields e ?s = None"
    "validateTimingFields e ?s = None" "validTraceOutcomeWithSchema (te_name e) (te_outcome e) ?s"
    using assms(1) unfolding validateTraceEvent_def no_failure by simp_all
  have time: "parseTraceRecordTimestamp parse (tc_time ?r) ?s = Inr ?t"
    using assms(3-5) by (simp add: parseTraceRecordTimestamp_def record_of_def)
  have path: "\<not> (tc_path ?r \<noteq> [] \<and> \<not> validTraceRedaction (tc_path ?r))"
    using assms(6) redact_valid by (simp add: record_of_def split: option.splits)
  have us: "traceRecordDuration (microseconds d) ?s = Inr (d div 1000 * 1000)"
    if "d \<in> {te_queue_wait e, te_callback e, te_local e, te_zoxide e, te_transform e, te_load e}" for d
    by (rule recorded_duration) (use timing_bounds [OF ok(4) that] in \<open>simp_all add: productionTraceSchema_def\<close>)
  have all: "all_results (map (\<lambda>d. traceRecordDuration d ?s)
        [tc_queue_wait_us ?r, tc_callback_us ?r, tc_local_us ?r, tc_zoxide_us ?r, tc_transform_us ?r, tc_load_us ?r])
      = Inr [te_queue_wait e div 1000 * 1000, te_callback e div 1000 * 1000, te_local e div 1000 * 1000,
          te_zoxide e div 1000 * 1000, te_transform e div 1000 * 1000, te_load e div 1000 * 1000]"
    by (simp add: record_of_def us)
  have "validateTimingFields (as_read env e) ?s = None"
    by (rule as_read_timing) (use ok(4) in \<open>simp_all add: productionTraceSchema_def\<close>)
  then have "validateTraceEventWithSchema (as_read env e) ?s clock = None"
    using ok as_read_zoxide [THEN mp, OF ok(2)] assms(7) unfolding no_failure as_read_sidecar as_read_event as_read_sel by simp
  moreover have "tc_schema ?r = TraceSchema" "tc_session ?r = session" by (simp_all add: record_of_def)
  ultimately show ?thesis using assms(2) path time all
    by (simp add: ValidateTraceRecordAt_def Let_def event_of_record_of del: map_eq_conv list.map)
qed

definition demo_trace_env :: trace_env where
  "demo_trace_env = \<lparr>en_now = 0, en_stamp = 0, en_format = (\<lambda>_. ''1970-01-01T00:00:00Z''), en_digest = (\<lambda>_. replicate 32 CHR 0x2A),
     en_marshal = (\<lambda>_. Inr ''{}'')\<rparr>"

theorem record_accepted_witness:
  "ValidateTraceRecordAt (\<lambda>_. Inr 0) (record_of demo_trace_env ''sha256:0123456789abcdef'' (event_of ''session.start'' ''cd'')) (Some 0) = None"
proof (rule record_accepted)
  show "validateTraceEvent (en_now demo_trace_env) (event_of ''session.start'' ''cd'') = None" by code_simp
  show "validTraceRedaction ''sha256:0123456789abcdef''" by code_simp
qed (simp_all add: demo_trace_env_def event_time_def event_of_def timestamp_ok_def productionTraceSchema_def)

section \<open>The events of a session\<close>

text \<open>The only decision an enrichment records is one of the lifecycle outcomes of its trace event.\<close>

definition decision_ok :: "gate \<Rightarrow> bool" where
  "decision_ok g \<longleftrightarrow> (case ga_trace g of None \<Rightarrow> True | Some (l, _, _) \<Rightarrow> l \<in> {''published'', ''discarded'', ''failed''})"

lemma keeps_trace [simp]:
  "ga_trace (finish c g) = ga_trace g" "ga_trace (cancelSource c g) = ga_trace g" "ga_trace (setBaseGeneration n g) = ga_trace g"
  "ga_trace (snd (snd (deactivateLocked parent e g))) = ga_trace g" "ga_trace (release_one g) = ga_trace g"
  "ga_trace (clear_events g) = ga_trace g"
  by (simp_all add: finish_def cancelSource_def setBaseGeneration_def deactivateLocked_def release_one_def clear_events_def Let_def)

lemma decision_commit: "decision_ok g \<Longrightarrow> decision_ok (finishCommit parent r t g)"
proof -
  assume ok: "decision_ok g"
  then have "decision_ok (commit_decision parent r t g)"
    by (auto simp: commit_decision_def setTraceDecision_def decision_ok_def split: option.splits)
  then show ?thesis by (auto simp: finishCommit_def decision_ok_def Let_def split_beta split: option.splits)
qed

lemma other_ops_keep_trace:
  "ga_trace (snd (reserveEvent g)) = ga_trace g" "ga_trace (snd (snd (resolveEvent parent x i res g))) = ga_trace g"
  "ga_trace (snd (failCallbackApplication parent g)) = ga_trace g" "ga_trace (snd (Activate parent base g)) = ga_trace g"
  "ga_trace (finishSource parent e g) = ga_trace g" "ga_trace (snd (Stop parent c g)) = ga_trace g" "ga_trace (snd (Wait parent g)) = ga_trace g"
  "ga_trace (snd (beginCommit g)) = ga_trace g" "ga_trace (abandonCommit g) = ga_trace g"
  by (auto simp: reserveEvent_def resolveEvent_def failCallbackApplication_def Activate_def finishSource_def Stop_def Wait_def
      beginCommit_def abandonCommit_def Let_def split_beta split: option.splits sum.splits)

lemma callbacks_keep_trace:
  "ga_trace (snd (HandleEvent parent x i res g)) = ga_trace g" "ga_trace (snd (FinalizeEvent parent q g)) = ga_trace g"
  "ga_trace (snd (BeginLoad r g)) = ga_trace g" "ga_trace (snd (FinalizeLoad parent q g)) = ga_trace g"
  using other_ops_keep_trace
  by (auto simp: HandleEvent_def FinalizeEvent_def BeginLoad_def FinalizeLoad_def Let_def split_beta split: option.splits sum.splits)

interpretation decisions: transition_system gate_init gate_step decision_ok
proof
  show "decision_ok g" if "gate_init g" for g using that by (auto simp: decision_ok_def newInitialEnrichment_def)
  show "decision_ok h" if "decision_ok g" "gate_step g h" for g h using that(2,1)
  proof cases
    case (gate_finish_commit parent published terminal)
    with that show ?thesis using decision_commit by simp
  qed (simp_all add: decision_ok_def other_ops_keep_trace callbacks_keep_trace)
qed

text \<open>The counters of a source whose processes have all ended.\<close>

definition source_ok :: "source_metrics \<Rightarrow> bool" where
  "source_ok s \<longleftrightarrow> 0 \<le> sm_max_live s \<and> sm_max_live s \<le> sm_starts s \<and> sm_starts s \<le> sm_attempts s \<and> sm_attempts s \<le> 1000000
     \<and> sm_exits s = sm_starts s \<and> sm_processes s = sm_starts s \<and> sm_live s = 0 \<and> 0 \<le> sint (sm_zoxide s) \<and> sint (sm_zoxide s) \<le> 86400000000000"

definition day_long :: "duration \<Rightarrow> bool" where
  "day_long d \<longleftrightarrow> 0 \<le> sint d \<and> sint d \<le> 86400000000000"

lemma tracePolicy_cases: "policy \<le> 2 \<Longrightarrow> tracePolicy policy = ''cached'' \<or> tracePolicy policy = ''fresh''"
  by (auto simp: tracePolicy_def policy_String_def ZoxideCached_def ZoxideFresh_def)

lemma policy_known:
  "policy \<le> 2 \<Longrightarrow> tracePolicy policy \<noteq> [] \<and> schemaContains (sc_policies productionTraceSchema) (tracePolicy policy)"
  using tracePolicy_cases [of policy] by (auto simp: schemaContains_def productionTraceSchema_def)

lemma outcome_known:
  "z \<noteq> OutcomeUnset \<Longrightarrow> outcome_text z \<noteq> [] \<and> schemaContains (sc_zoxide_outcomes productionTraceSchema) (outcome_text z)"
  by (cases z) (simp_all add: outcome_text_def schemaContains_def productionTraceSchema_def)

lemma outcome_text_special:
  "outcome_text z = ''pending'' \<longleftrightarrow> z = OutcomePending" "outcome_text z = ''not-run'' \<longleftrightarrow> z = OutcomeNotRun"
  by (cases z; simp add: outcome_text_def)+

lemma emitted_source:
  assumes "reach gate_init gate_step g" and "emitSourceTerminal parent err discarded outcome g = (z, generation, lifecycle, n)"
  shows "z \<notin> {OutcomeUnset, OutcomePending, OutcomeNotRun}" and "generation \<noteq> 0"
    and "lifecycle \<in> {''published'', ''discarded'', ''failed''}" and "lifecycle \<noteq> ''published'' \<Longrightarrow> n = 0"
proof -
  have ok: "decision_ok g" using assms(1) by (rule decisions.reach_inv)
  show "z \<notin> {OutcomeUnset, OutcomePending, OutcomeNotRun}"
    using assms(2) by (auto simp: emitSourceTerminal_def normalizeSourceMetrics_def Let_def split: prod.splits if_splits)
  show "generation \<noteq> 0" "lifecycle \<noteq> ''published'' \<Longrightarrow> n = 0"
    using assms(2) by (auto simp: emitSourceTerminal_def Let_def split: prod.splits if_splits)
  show "lifecycle \<in> {''published'', ''discarded'', ''failed''}"
    using assms(2) ok by (cases "ga_trace g")
      (auto simp: emitSourceTerminal_def decision_ok_def source_lifecycle_def Let_def split: prod.splits if_splits)
qed

text \<open>The fields that no event of this section sets.\<close>

lemma enrichment_sel:
  defines "e policy generation l n s \<equiv> traceZoxideEnrichment policy generation l n s"
  shows "te_name (e policy generation l n s) = ''zoxide.enrichment''" "te_outcome (e policy generation l n s) = l"
    "te_generation (e policy generation l n s) = generation" "te_candidates (e policy generation l n s) = int n"
    "te_renderer (e policy generation l n s) = []" "te_child_starts (e policy generation l n s) = 0" "te_max_live (e policy generation l n s) = 0"
    "te_path (e policy generation l n s) = None" "te_policy (e policy generation l n s) = tracePolicy policy"
    "te_attempts (e policy generation l n s) = sm_attempts s" "te_starts (e policy generation l n s) = sm_starts s"
    "te_exits (e policy generation l n s) = sm_exits s" "te_processes (e policy generation l n s) = sm_processes s"
    "te_live (e policy generation l n s) = sm_live s" "te_zmax_live (e policy generation l n s) = sm_max_live s"
    "te_zoxide (e policy generation l n s) = sint (sm_zoxide s)" "te_zoxide_outcome (e policy generation l n s) = outcome_text (sm_outcome s)"
    "te_queue_wait (e policy generation l n s) = 0" "te_callback (e policy generation l n s) = 0" "te_local (e policy generation l n s) = 0"
    "te_transform (e policy generation l n s) = 0" "te_load (e policy generation l n s) = 0" "te_sidecar_attempt (e policy generation l n s) = 0"
    "te_timestamp (e policy generation l n s) = None"
  by (simp_all add: e_def traceZoxideEnrichment_def with_source_def event_of_def)

lemma transition_sel:
  defines "e policy sn q t p s \<equiv> traceGenerationTransition policy sn q t p s"
  shows "te_name (e policy sn q t p s) = ''generation.publish''" "te_outcome (e policy sn q t p s) = ''ok''"
    "te_generation (e policy sn q t p s) = sn_generation sn" "te_candidates (e policy sn q t p s) = int (RecordCount sn)"
    "te_renderer (e policy sn q t p s) = []" "te_child_starts (e policy sn q t p s) = 0" "te_max_live (e policy sn q t p s) = 0"
    "te_path (e policy sn q t p s) = p" "te_policy (e policy sn q t p s) = tracePolicy policy"
    "te_attempts (e policy sn q t p s) = sm_attempts s" "te_starts (e policy sn q t p s) = sm_starts s"
    "te_exits (e policy sn q t p s) = sm_exits s" "te_processes (e policy sn q t p s) = sm_processes s"
    "te_live (e policy sn q t p s) = sm_live s" "te_zmax_live (e policy sn q t p s) = sm_max_live s"
    "te_zoxide (e policy sn q t p s) = sint (sm_zoxide s)" "te_zoxide_outcome (e policy sn q t p s) = outcome_text (sm_outcome s)"
    "te_queue_wait (e policy sn q t p s) = sint q" "te_callback (e policy sn q t p s) = 0" "te_local (e policy sn q t p s) = sint (sm_local s)"
    "te_transform (e policy sn q t p s) = sint t" "te_load (e policy sn q t p s) = 0" "te_sidecar_attempt (e policy sn q t p s) = 0"
    "te_timestamp (e policy sn q t p s) = None"
  by (simp_all add: e_def traceGenerationTransition_def with_source_def event_of_def)

text \<open>The parts of the schema that are bounds.\<close>

lemma schema_bounds:
  "sc_candidates_min productionTraceSchema = 0" "sc_candidates_max productionTraceSchema = 1000000"
  "sc_child_starts_min productionTraceSchema = 0" "sc_child_starts_max productionTraceSchema = 3"
  "sc_max_live_min productionTraceSchema = 0" "sc_max_live_max productionTraceSchema = 1" "sc_zoxide_min productionTraceSchema = 0"
  "sc_attempts_max productionTraceSchema = 1000000" "sc_sidecar_max productionTraceSchema = 1000000" "sc_live_required productionTraceSchema = 0"
  "sc_duration_min productionTraceSchema = 0" "sc_duration_max productionTraceSchema = 86400000000000"
  by (simp_all add: productionTraceSchema_def)

lemma outcome_listed:
  "l \<in> {''published'', ''discarded'', ''failed''} \<Longrightarrow> validTraceOutcomeWithSchema ''zoxide.enrichment'' l productionTraceSchema"
  "validTraceOutcomeWithSchema ''generation.publish'' ''ok'' productionTraceSchema"
  by (auto simp: validTraceOutcomeWithSchema_def productionTraceSchema_def schemaContains_def)

text \<open>
  The record that closes the initial enrichment is never lost to the trace's own validation: whatever the coordinator went
  through, and whatever the source and the session's context ended with, the event that \<open>emitSourceTerminal\<close> builds
  from a source with ended processes is one that the trace accepts.  In particular its generation is not zero, its
  lifecycle is published, discarded or failed, its outcome is a terminal one, and only a published event carries
  candidates.
\<close>

theorem enrichment_event_valid:
  assumes "reach gate_init gate_step g" and "source_ok s" and "policy \<le> 2"
    and "emitSourceTerminal parent err discarded (sm_outcome s) g = (z, generation, lifecycle, n)" and "n \<le> 1000000"
  shows "validateTraceEvent now (traceZoxideEnrichment policy generation lifecycle n (s\<lparr>sm_outcome := z\<rparr>)) = None"
proof -
  let ?e = "traceZoxideEnrichment policy generation lifecycle n (s\<lparr>sm_outcome := z\<rparr>)" and ?s = productionTraceSchema
  note src = emitted_source [OF assms(1,4)]
  have "validate_event_fields ?e ?s = None"
    using src(2,4) assms(5) by (auto simp: validate_event_fields_def enrichment_sel schema_bounds isPreviewEvent_def generation_events_def)
  moreover have "validateZoxideFields ?e ?s = None"
    using src(1) assms(2) policy_known [OF assms(3)] outcome_known [of z]
    by (auto simp: validateZoxideFields_def enrichment_sel schema_bounds source_ok_def outcome_text_special)
  moreover have "validateSidecarFields ?e ?s = None" by (simp add: validateSidecarFields_def enrichment_sel)
  moreover have "validateTimingFields ?e ?s = None"
    using assms(2) by (simp add: validateTimingFields_def enrichment_sel schema_bounds source_ok_def)
  moreover have "validTraceOutcomeWithSchema (te_name ?e) (te_outcome ?e) ?s"
    using outcome_listed(1) [OF src(3)] by (simp add: enrichment_sel)
  ultimately show ?thesis unfolding validateTraceEvent_def no_failure by (simp add: timestamp_ok_def enrichment_sel)
qed

theorem enrichment_event_valid_witness:
  "validateTraceEvent 0 (traceZoxideEnrichment 1 1 ''discarded'' 0
     \<lparr>sm_local = 0, sm_zoxide = 5, sm_outcome = OutcomeOk, sm_attempts = 1, sm_starts = 1, sm_exits = 1, sm_processes = 1, sm_live = 0,
       sm_max_live = 1\<rparr>) = None"
proof -
  let ?s = "\<lparr>sm_local = 0, sm_zoxide = 5, sm_outcome = OutcomeOk, sm_attempts = 1, sm_starts = 1, sm_exits = 1, sm_processes = 1, sm_live = 0,
       sm_max_live = 1\<rparr>"
  have "reach gate_init gate_step (newInitialEnrichment [])" by (rule reach_start) blast
  moreover have "source_ok ?s" by (simp add: source_ok_def)
  moreover have "emitSourceTerminal None None False (sm_outcome ?s) (newInitialEnrichment []) = (OutcomeOk, 1, ''discarded'', 0)"
    by (simp add: emitSourceTerminal_def newInitialEnrichment_def normalizeSourceMetrics_def source_lifecycle_def)
  ultimately show ?thesis using enrichment_event_valid [of "newInitialEnrichment []" ?s 1 None None False OutcomeOk 1 "''discarded''" 0 0]
    by simp
qed

text \<open>
  The record of every published generation is one that the trace accepts: for the initial generation of either picker
  and for the later ones, with at most a million candidates and durations of at most a day.
\<close>

theorem transition_events_valid:
  assumes "policy \<le> 2" and "RecordCount sn \<le> 1000000" and "day_long q" and "day_long t" and "day_long (sm_local s)"
  shows "validateTraceEvent now (traceInitialTransition policy picker sn q t s path) = None"
    and "validateTraceEvent now (traceTransition policy sn q t s path) = None"
proof -
  have valid: "validateTraceEvent now (traceGenerationTransition policy sn q t path ((zeroZoxideMetrics s)\<lparr>sm_outcome := z\<rparr>)) = None"
    if "z \<noteq> OutcomeUnset" for z
  proof -
    let ?e = "traceGenerationTransition policy sn q t path ((zeroZoxideMetrics s)\<lparr>sm_outcome := z\<rparr>)" and ?s = productionTraceSchema
    have "validate_event_fields ?e ?s = None"
      using assms(2) by (auto simp: validate_event_fields_def transition_sel schema_bounds isPreviewEvent_def generation_events_def)
    moreover have "validateZoxideFields ?e ?s = None"
      using policy_known [OF assms(1)] outcome_known [OF that]
      by (auto simp: validateZoxideFields_def transition_sel schema_bounds zeroZoxideMetrics_def)
    moreover have "validateSidecarFields ?e ?s = None" by (simp add: validateSidecarFields_def transition_sel)
    moreover have "validateTimingFields ?e ?s = None"
      using assms(3-5) by (auto simp: validateTimingFields_def transition_sel schema_bounds zeroZoxideMetrics_def day_long_def)
    ultimately show ?thesis using outcome_listed(2) unfolding validateTraceEvent_def no_failure by (simp add: timestamp_ok_def transition_sel)
  qed
  from valid show "validateTraceEvent now (traceInitialTransition policy picker sn q t s path) = None"
    "validateTraceEvent now (traceTransition policy sn q t s path) = None"
    by (simp_all add: traceInitialTransition_def traceTransition_def)
qed


section \<open>The trace file\<close>

text \<open>
  A writer that keeps to the contract of \<open>io.Writer\<close> about byte counts, and a sink as the Unix build opens it: a
  plain file, whose closing leaves its contents alone.
\<close>

locale bounded_writer = honest_writer +
  assumes bounded: "w st data = (n, err, st') \<Longrightarrow> 0 \<le> n \<and> n \<le> int (length data)"
begin

lemma write_loop_prefix:
  "write_loop w st line = (err, st') \<Longrightarrow> \<exists>k. written st' = written st @ take k line \<and> (err = None \<longrightarrow> length line \<le> k)"
proof (induction "length line" arbitrary: st line rule: less_induct)
  case less
  obtain n e u where step: "w st line = (n, e, u)" by (metis prod_cases3)
  have n: "0 \<le> n" "n \<le> int (length line)" using bounded [OF step] by auto
  have u: "written u = written st @ take (nat n) line" using honest [OF step] n by simp
  let ?rest = "drop (nat n) line"
  consider (empty) "line = []" | (last) "line \<noteq> []" "st' = u" "err \<noteq> None" | (more) "line \<noteq> []" "0 < n" "write_loop w u ?rest = (err, st')"
    using less.prems step n by (subst (asm) write_loop.simps) (auto simp: Let_def split: if_splits option.splits)
  then show ?case
  proof cases
    case empty
    then show ?thesis using less.prems by (simp add: write_loop.simps)
  next
    case last
    then show ?thesis using u by (intro exI [of _ "nat n"]) auto
  next
    case more
    then have "length ?rest < length line" by simp
    from less.hyps [OF this more(3)] obtain k where k: "written st' = written u @ take k ?rest" "err = None \<longrightarrow> length ?rest \<le> k"
      by blast
    then show ?thesis using u by (intro exI [of _ "nat n + k"]) (auto simp: take_add)
  qed
qed

end

locale trace_sink = bounded_writer "so_write ops" written for ops :: "'w sink_ops" and written :: "'w \<Rightarrow> bytes" +
  assumes plain: "so_record ops = None"
    and close_keeps: "so_close ops = Some c \<Longrightarrow> written (snd (c st)) = written st"

definition buffer_sink :: "bytes sink_ops" where
  "buffer_sink = \<lparr>so_record = None, so_write = buffer_writer, so_close = Some (\<lambda>st. (None, st))\<rparr>"

interpretation buffer_sink: trace_sink buffer_sink "\<lambda>buf. buf"
  by unfold_locales (auto simp: buffer_sink_def buffer_writer_def)

text \<open>
  What can be asked of a picker trace: to report an event, to close, and to finish with an outcome.  The functions of the
  environment (the encoder, the time format and the digest) are the same in every call; each call has its own
  clock and time stamp.
\<close>

datatype trace_op = ReportEvent int int trace_event | CloseTrace | FinishTrace int int outcome "go_error option"

definition at_time :: "trace_env \<Rightarrow> int \<Rightarrow> int \<Rightarrow> trace_env" where
  "at_time env now stamp = env\<lparr>en_now := now, en_stamp := stamp\<rparr>"

fun picker_do :: "'w sink_ops \<Rightarrow> trace_env \<Rightarrow> picker_trace \<times> 'w \<Rightarrow> trace_op \<Rightarrow> picker_trace \<times> 'w" where
  "picker_do ops env (p, st) (ReportEvent now stamp e) = snd (picker_event ops (at_time env now stamp) e p st)"
| "picker_do ops env (p, st) CloseTrace = snd (picker_close ops p st)"
| "picker_do ops env (p, st) (FinishTrace now stamp oc err) = snd (picker_finish ops (at_time env now stamp) oc err p st)"

text \<open>
  The lines the calls ask for, in their order: one for every event that passes the validation and can be encoded, with the
  record of the event under the session of the trace; only the first call to finish reports its event.
\<close>

definition event_line :: "trace_env \<Rightarrow> string \<Rightarrow> trace_event \<Rightarrow> bytes list" where
  "event_line env session e =
     (if validateTraceEvent (en_now env) e \<noteq> None then []
      else case en_marshal env (record_of env session e) of Inl _ \<Rightarrow> [] | Inr body \<Rightarrow> [body @ [LF]])"

fun op_line :: "trace_env \<Rightarrow> string \<Rightarrow> bool \<Rightarrow> trace_op \<Rightarrow> bytes list" where
  "op_line env session finished (ReportEvent now stamp e) = event_line (at_time env now stamp) session e"
| "op_line env session finished CloseTrace = []"
| "op_line env session finished (FinishTrace now stamp oc err) =
     (if finished then [] else event_line (at_time env now stamp) session (close_event oc err))"

fun is_finish :: "trace_op \<Rightarrow> bool" where
  "is_finish (FinishTrace now stamp oc err) = True"
| "is_finish _ = False"

fun asked_lines :: "trace_env \<Rightarrow> string \<Rightarrow> bool \<Rightarrow> trace_op list \<Rightarrow> bytes list" where
  "asked_lines env session finished [] = []"
| "asked_lines env session finished (x # xs) = op_line env session finished x @ asked_lines env session (finished \<or> is_finish x) xs"

text \<open>
  The invariant: of the lines asked for so far, a first part \<open>ls\<close> is in the file, then a part of the next one; nothing is
  missing while the trace is not disabled.
\<close>

definition lines_inv :: "('w \<Rightarrow> bytes) \<Rightarrow> string \<Rightarrow> bytes \<Rightarrow> bytes list \<Rightarrow> picker_trace \<times> 'w \<Rightarrow> bool" where
  "lines_inv written session base asked ps \<longleftrightarrow>
     (case ps of (p, st) \<Rightarrow> \<exists>t ls rest tail. pt_trace p = Some t \<and> tr_session t = session \<and> asked = ls @ rest
        \<and> written st = base @ concat ls @ tail \<and> (\<not> tr_disabled t \<longrightarrow> tr_writer t \<and> \<not> pt_closed p \<and> rest = [] \<and> tail = [])
        \<and> (tail = [] \<or> (\<exists>l rs. rest = l # rs \<and> prefix tail l))
        \<and> pt_diagnostic p = Some (if pt_once p then [''shell-picker: trace disabled''] else []))"

lemma lines_invI:
  assumes "pt_trace p = Some t" and "tr_session t = session" and "asked = ls @ rest"
    and "written st = base @ concat ls @ tail" and "\<not> tr_disabled t \<longrightarrow> tr_writer t \<and> \<not> pt_closed p \<and> rest = [] \<and> tail = []"
    and "tail = [] \<or> (\<exists>l rs. rest = l # rs \<and> prefix tail l)"
    and "pt_diagnostic p = Some (if pt_once p then [''shell-picker: trace disabled''] else [])"
  shows "lines_inv written session base asked (p, st)"
  unfolding lines_inv_def prod.case using assms by blast

lemma lines_invE:
  assumes "lines_inv written session base asked (p, st)"
  obtains t ls rest tail where "pt_trace p = Some t" "tr_session t = session" "asked = ls @ rest"
    "written st = base @ concat ls @ tail" "\<not> tr_disabled t \<longrightarrow> tr_writer t \<and> \<not> pt_closed p \<and> rest = [] \<and> tail = []"
    "tail = [] \<or> (\<exists>l rs. rest = l # rs \<and> prefix tail l)"
    "pt_diagnostic p = Some (if pt_once p then [''shell-picker: trace disabled''] else [])"
  using assms unfolding lines_inv_def prod.case by blast

lemma lines_diagnostic: "lines_inv written session base asked (p, st) \<Longrightarrow> lines_inv written session base asked (disabledDiagnostic p, st)"
  by (erule lines_invE, rule lines_invI) (auto simp: disabledDiagnostic_def)

lemma lines_fields [simp]:
  "lines_inv written session base asked (p\<lparr>pt_close_err := r\<rparr>, st) = lines_inv written session base asked (p, st)"
  "lines_inv written session base asked (p\<lparr>pt_finish_once := b\<rparr>, st) = lines_inv written session base asked (p, st)"
  by (simp_all add: lines_inv_def)

text \<open>A disabled or closed trace drops a line that is asked for.\<close>

lemma lines_dropped:
  assumes "lines_inv written session base asked (p, st)" and "pt_trace p = Some t" and "tr_disabled t"
  shows "lines_inv written session base (asked @ dropped) (p, st)"
  using assms(1)
proof (rule lines_invE)
  fix u ls rest tail
  assume u: "pt_trace p = Some u" "tr_session u = session" "asked = ls @ rest" "written st = base @ concat ls @ tail"
    "tail = [] \<or> (\<exists>l rs. rest = l # rs \<and> prefix tail l)" "pt_diagnostic p = Some (if pt_once p then [''shell-picker: trace disabled''] else [])"
  with assms(2,3) show ?thesis by (intro lines_invI [where rest = "rest @ dropped"]) auto
qed

context trace_sink
begin

lemma write_line_part:
  assumes "write_loop (so_write ops) st line = (r, st')"
  obtains part where "written st' = written st @ part" "prefix part line" "r = None \<Longrightarrow> part = line"
proof -
  obtain k where "written st' = written st @ take k line" "r = None \<longrightarrow> length line \<le> k" using write_loop_prefix [OF assms] by blast
  then show thesis by (intro that [of "take k line"]) (auto simp: take_is_prefix)
qed

lemma lines_trace_event:
  assumes "lines_inv written session base asked (p, st)" and "pt_trace p = Some t" and "Trace_Event ops env e t st = (err, t', st')"
    and "\<not> pt_closed p"
  shows "lines_inv written session base (asked @ event_line env session e) (p\<lparr>pt_trace := Some t'\<rparr>, st')"
  using assms(1)
proof (rule lines_invE)
  fix u ls rest tail
  assume "pt_trace p = Some u" and sess: "tr_session u = session"
    and inv: "asked = ls @ rest" "written st = base @ concat ls @ tail" "tail = [] \<or> (\<exists>l rs. rest = l # rs \<and> prefix tail l)"
      "pt_diagnostic p = Some (if pt_once p then [''shell-picker: trace disabled''] else [])"
    and en: "\<not> tr_disabled u \<longrightarrow> tr_writer u \<and> \<not> pt_closed p \<and> rest = [] \<and> tail = []"
  with assms(2) have u: "u = t" by simp
  have keep: "p\<lparr>pt_trace := Some t\<rparr> = p" using assms(2) by (cases p) simp
  consider (none) "event_line env session e = []" "t' = t" "st' = st"
    | (off) "tr_disabled t" "t' = t" "st' = st"
    | (written) body r where "event_line env session e = [body @ [LF]]" "\<not> tr_disabled t"
        "write_loop (so_write ops) st (body @ [LF]) = (r, st')" "t' = (if r = None then t else t\<lparr>tr_disabled := True\<rparr>)"
    using assms(3) plain sess en u
    by (auto simp: Trace_Event_def write_line_def event_line_def split: option.splits sum.splits if_splits prod.splits)
  then show ?thesis
  proof cases
    case none
    then show ?thesis using assms(1) keep by simp
  next
    case off
    then show ?thesis using lines_dropped [OF assms(1,2)] keep by simp
  next
    case written
    obtain part where part: "written st' = written st @ part" "prefix part (body @ [LF])" "r = None \<Longrightarrow> part = body @ [LF]"
      using write_line_part [OF written(3)] by blast
    have now: "rest = []" "tail = []" "tr_writer t" using en u written(2) by auto
    show ?thesis
    proof (cases "r = None")
      case True
      then show ?thesis using inv now part sess u written assms(4)
        by (intro lines_invI [where t = t' and ls = "ls @ [body @ [LF]]" and rest = "[]" and tail = "[]"]) auto
    next
      case False
      then show ?thesis using inv now part sess u written
        by (intro lines_invI [where t = t' and ls = ls and rest = "[body @ [LF]]" and tail = part]) auto
    qed
  qed
qed

lemma lines_event:
  assumes "lines_inv written session base asked (p, st)"
  shows "lines_inv written session base (asked @ event_line env session e) (snd (picker_event ops env e p st))"
proof -
  obtain t where t: "pt_trace p = Some t" and cl: "pt_closed p \<longrightarrow> tr_disabled t" using assms by (rule lines_invE) auto
  show ?thesis
  proof (cases "pt_closed p")
    case True
    then show ?thesis using lines_dropped [OF assms t] cl by (simp add: picker_event_def)
  next
    case False
    obtain err t' st' where run: "Trace_Event ops env e t st = (err, t', st')" by (metis prod_cases3)
    note after = lines_trace_event [OF assms t run False]
    with lines_diagnostic [OF after] show ?thesis using False t run by (simp add: picker_event_def Let_def)
  qed
qed

lemma lines_close:
  assumes "lines_inv written session base asked (p, st)"
  shows "lines_inv written session base asked (snd (picker_close ops p st))"
proof (cases "pt_closed p")
  case False
  obtain t where t: "pt_trace p = Some t" and en: "\<not> tr_disabled t \<longrightarrow> tr_writer t" using assms by (rule lines_invE) auto
  obtain err t' st' where run: "Trace_Close ops t st = (err, t', st')" by (metis prod_cases3)
  have same: "written st' = written st" "tr_session t' = tr_session t" "tr_disabled t'"
    using run en close_keeps by (auto simp: Trace_Close_def Let_def split: if_splits option.splits prod.splits) (metis snd_conv)+
  have "lines_inv written session base asked (p\<lparr>pt_closed := True, pt_trace := Some t'\<rparr>, st')"
    using assms
  proof (rule lines_invE)
    fix u ls rest tail
    assume "pt_trace p = Some u" "tr_session u = session" "asked = ls @ rest" "written st = base @ concat ls @ tail"
      "tail = [] \<or> (\<exists>l rs. rest = l # rs \<and> prefix tail l)" "pt_diagnostic p = Some (if pt_once p then [''shell-picker: trace disabled''] else [])"
    with t same show ?thesis by (intro lines_invI [where t = t' and ls = ls and rest = rest and tail = tail]) auto
  qed
  then have after: "lines_inv written session base asked (p\<lparr>pt_closed := True, pt_trace := Some t', pt_close_err := err\<rparr>, st')" by simp
  with lines_diagnostic [OF after] show ?thesis using False t run by (simp add: picker_close_def Let_def)
qed (use assms in \<open>simp add: picker_close_def\<close>)

lemma lines_do:
  assumes "lines_inv written session base asked (p, st)"
  shows "lines_inv written session base (asked @ op_line env session (pt_finish_once p) x) (picker_do ops env (p, st) x)"
proof (cases x)
  case (FinishTrace now stamp oc err)
  let ?env = "at_time env now stamp" and ?p = "p\<lparr>pt_finish_once := True\<rparr>"
  show ?thesis
  proof (cases "pt_finish_once p")
    case False
    obtain r q u where run: "picker_event ops ?env (close_event oc err) ?p st = (r, q, u)" by (metis prod_cases3)
    have "lines_inv written session base (asked @ event_line ?env session (close_event oc err)) (q, u)"
      using lines_event [of session base asked ?p st ?env "close_event oc err"] run assms by simp
    from lines_close [OF this] run FinishTrace False show ?thesis by (simp add: picker_finish_def split_beta)
  qed (use FinishTrace assms in \<open>simp add: picker_finish_def\<close>)
qed (use assms lines_event lines_close in simp_all)

end

lemma close_once [simp]: "pt_finish_once (fst (snd (picker_close ops p st))) = pt_finish_once p"
  by (simp add: picker_close_def disabledDiagnostic_def Let_def split_beta split: option.split)

lemma event_once [simp]: "pt_finish_once (fst (snd (picker_event ops env e p st))) = pt_finish_once p"
  by (simp add: picker_event_def disabledDiagnostic_def Let_def split_beta split: option.split)

lemma do_once: "pt_finish_once (fst (picker_do ops env (p, st) x)) \<longleftrightarrow> pt_finish_once p \<or> is_finish x"
  by (cases x) (simp_all add: picker_finish_def split_beta)

lemma lines_fold:
  assumes "trace_sink ops written" and "lines_inv written session base asked (p, st)"
  shows "lines_inv written session base (asked @ asked_lines env session (pt_finish_once p) xs) (foldl (picker_do ops env) (p, st) xs)"
  using assms(2)
proof (induction xs arbitrary: p st asked)
  case (Cons x xs)
  obtain q u where run: "picker_do ops env (p, st) x = (q, u)" by fastforce
  have "lines_inv written session base (asked @ op_line env session (pt_finish_once p) x) (q, u)"
    using trace_sink.lines_do [OF assms(1) Cons.prems, of env x] run by simp
  from Cons.IH [OF this] do_once [of ops env p st x] run show ?case by simp
qed simp

text \<open>
  C23: The trace file holds exactly the lines the calls asked for: after what it held before, the file is a first part of
  the list of encoded records (\<open>asked_lines\<close>: in the order of the calls, one line for every event that passed the
  validation and could be encoded, under the session of the trace), followed by at most a part of the
  next line of that list.  As long as the trace is not disabled (by a failed write or by closing) no line is missing
  and no part of a line is there.  The diagnostic that the trace is disabled is written at most once.  The sink is
  a plain file that keeps to the contract of \<open>io.Writer\<close>.
\<close>

theorem trace_file_lines:
  assumes "trace_sink ops written"
    and "foldl (picker_do ops env) (new_picker_trace (NewTrace digest sid) (Some []), st) xs = (p, st')"
  shows "\<exists>t ls rest tail. pt_trace p = Some t \<and> asked_lines env (redact digest sid) False xs = ls @ rest
    \<and> written st' = written st @ concat ls @ tail \<and> (\<not> tr_disabled t \<longrightarrow> rest = [] \<and> tail = [])
    \<and> (tail = [] \<or> (\<exists>l rs. rest = l # rs \<and> prefix tail l))
    \<and> pt_diagnostic p = Some (if pt_once p then [''shell-picker: trace disabled''] else [])"
proof -
  have "lines_inv written (redact digest sid) (written st) [] (new_picker_trace (NewTrace digest sid) (Some []), st)"
    by (rule lines_invI [where t = "NewTrace digest sid" and ls = "[]" and rest = "[]" and tail = "[]"]) (simp_all add: new_picker_trace_def NewTrace_def)
  from lines_fold [OF assms(1) this, of env xs] assms(2)
  have "lines_inv written (redact digest sid) (written st) (asked_lines env (redact digest sid) False xs) (p, st')"
    by (simp add: new_picker_trace_def)
  then show ?thesis by (rule lines_invE) blast
qed

theorem trace_file_lines_witness:
  "\<exists>ls rest tail. asked_lines demo_trace_env (redact (en_digest demo_trace_env) []) False
        [ReportEvent 0 0 (event_of ''session.start'' ''cd''), ReportEvent 0 0 (event_of ''nothing'' []), CloseTrace] = ls @ rest
     \<and> snd (foldl (picker_do buffer_sink demo_trace_env) (new_picker_trace (NewTrace (en_digest demo_trace_env) []) (Some []), ''x'')
        [ReportEvent 0 0 (event_of ''session.start'' ''cd''), ReportEvent 0 0 (event_of ''nothing'' []), CloseTrace]) = ''x'' @ concat ls @ tail"
proof -
  let ?xs = "[ReportEvent 0 0 (event_of ''session.start'' ''cd''), ReportEvent 0 0 (event_of ''nothing'' []), CloseTrace]"
  let ?run = "foldl (picker_do buffer_sink demo_trace_env) (new_picker_trace (NewTrace (en_digest demo_trace_env) []) (Some []), ''x'') ?xs"
  have "?run = (fst ?run, snd ?run)" by (rule surjective_pairing)
  from trace_file_lines [OF buffer_sink.trace_sink_axioms this] show ?thesis by blast
qed

end
