(* ===== verification/Sidecar.thy ===== *)
theory Sidecar
  imports Callback Trace
begin

text \<open>
  \<open>internal/fzfsidecar\<close>: the optional sidecar that polls a running fzf over its listen port and keeps the label of the list
  up to date (activation.go, state.go, state_client.go, client.go, client_errors.go, session.go, session_polling.go,
  session_observer.go, session_network.go), and the lifecycle the application gives it (\<open>internal/app/sidecar.go\<close>).

  One HTTP exchange is a value: how it ended and what the two contexts said afterwards.  JSON and MIME parsing are
  parameters, and so are the error classes that Go finds by type (\<open>net.Error\<close>, \<open>url.Error\<close>).  Times are nanoseconds.
\<close>

section \<open>activation.go\<close>

definition ActivationVariable :: string where "ActivationVariable = ''SHELL_PICKER_EXPERIMENTAL_FZF_SIDECAR''"

definition activationASCIILetter :: "char \<Rightarrow> bool" where
  "activationASCIILetter c \<longleftrightarrow> CHR ''A'' \<le> c \<and> c \<le> CHR ''Z'' \<or> CHR ''a'' \<le> c \<and> c \<le> CHR ''z''"

definition activation_raise :: "char \<Rightarrow> nat" where
  "activation_raise c = (if CHR ''a'' \<le> c \<and> c \<le> CHR ''z'' then byte_of c - 32 else byte_of c)"

definition activationASCIIEqualFold :: "char \<Rightarrow> char \<Rightarrow> bool" where
  "activationASCIIEqualFold l r \<longleftrightarrow> activation_raise l = activation_raise r"

definition validActivationDriveEnvironmentEntry :: "string \<Rightarrow> string \<Rightarrow> bool" where
  "validActivationDriveEnvironmentEntry name v =
     (if name = ''=::'' then v = [CHR '':'', CHR '':'', BACKSLASH]
      else if length name \<noteq> 3 \<or> name ! 0 \<noteq> CHR ''='' \<or> \<not> activationASCIILetter (name ! 1) \<or> name ! 2 \<noteq> CHR '':'' \<or> length v < 3 then False
      else activationASCIIEqualFold (v ! 0) (name ! 1) \<and> v ! 1 = CHR '':'' \<and> (v ! 2 = BACKSLASH \<or> v ! 2 = SLASH))"

definition splitActivationEnvironmentEntry :: "bool \<Rightarrow> string \<Rightarrow> (string \<times> string) option" where
  "splitActivationEnvironmentEntry windows entry =
     (if entry = [] \<or> NUL \<in> set entry then None
      else case index_byte entry (CHR ''='') of
             None \<Rightarrow> None
           | Some 0 \<Rightarrow>
               if \<not> windows then None
               else (case index_byte (tl entry) (CHR ''='') of
                       None \<Rightarrow> None
                     | Some rel \<Rightarrow>
                         let name = take (rel + 1) entry; v = drop (Suc (rel + 1)) entry in
                         if \<not> validActivationDriveEnvironmentEntry name v then None else Some (name, v))
           | Some separator \<Rightarrow> Some (take separator entry, drop (Suc separator) entry))"

text \<open>The loop of \<open>Enabled\<close>; \<^term>\<open>fold_eq\<close> is \<open>strings.EqualFold\<close>, used on Windows only.\<close>

fun enabled_scan :: "(string \<Rightarrow> string \<Rightarrow> bool) \<Rightarrow> bool \<Rightarrow> string option \<Rightarrow> string list \<Rightarrow> bool" where
  "enabled_scan fold_eq windows found [] = (found = Some ''1'')"
| "enabled_scan fold_eq windows found (entry # rest) =
     (case splitActivationEnvironmentEntry windows entry of
        None \<Rightarrow> False
      | Some (name, v) \<Rightarrow>
          if \<not> (if windows then fold_eq name ActivationVariable else name = ActivationVariable) then enabled_scan fold_eq windows found rest
          else if \<not> windows \<and> found \<noteq> None \<and> found \<noteq> Some v then False
          else enabled_scan fold_eq windows (Some v) rest)"

definition Enabled :: "(string \<Rightarrow> string \<Rightarrow> bool) \<Rightarrow> bool \<Rightarrow> string list \<Rightarrow> bool" where
  "Enabled fold_eq windows environment = enabled_scan fold_eq windows None environment"

section \<open>client_errors.go\<close>

definition errTransport :: go_error where "errTransport = ErrText ''fzf sidecar: HTTP transport failure''"
definition errResponse :: go_error where "errResponse = ErrText ''fzf sidecar: invalid HTTP response''"
definition errResponseTooBig :: go_error where "errResponseTooBig = ErrText ''fzf sidecar: HTTP response too large''"
definition errInvalidJSON :: go_error where "errInvalidJSON = ErrText ''fzf sidecar: invalid JSON response''"
definition errInvalidState :: go_error where "errInvalidState = ErrText ''fzf sidecar: invalid fzf state''"
definition errStateTooLarge :: go_error where "errStateTooLarge = ErrText ''fzf sidecar: selected state too large''"
definition errInconsistentSnapshot :: go_error where "errInconsistentSnapshot = ErrText ''fzf sidecar: inconsistent fzf snapshot''"
definition errInvalidAction :: go_error where "errInvalidAction = ErrText ''fzf sidecar: invalid fzf action''"
definition errInvalidStatus :: go_error where "errInvalidStatus = ErrText ''fzf sidecar: unexpected HTTP status''"
definition errInvalidMimeType :: go_error where "errInvalidMimeType = ErrText ''fzf sidecar: unexpected HTTP content type''"
definition errTransientCycle :: go_error where "errTransientCycle = ErrText ''fzf sidecar: transient polling cycle''"

lemmas sidecar_errors = errTransport_def errResponse_def errResponseTooBig_def errInvalidJSON_def errInvalidState_def errStateTooLarge_def
  errInconsistentSnapshot_def errInvalidAction_def errInvalidStatus_def errInvalidMimeType_def errTransientCycle_def

text \<open>
  An error with an \<open>Is\<close> method for a sentinel and an \<open>Unwrap\<close> is a join of the sentinel and its cause: \<open>errors.Is\<close> sees
  both.
\<close>

definition transportError :: "go_error \<Rightarrow> go_error" where "transportError cause = ErrJoin errTransport cause"
definition transientCycleError :: "go_error \<Rightarrow> go_error" where "transientCycleError cause = ErrJoin errTransientCycle cause"

datatype reason = ReasonNone | ReasonHTTPStatus | ReasonTransport | ReasonResponse | ReasonResponseTooLarge | ReasonInvalidMIME | ReasonInvalidJSON
  | ReasonInvalidState | ReasonInvalidAction | ReasonInconsistentSnapshot | ReasonContextCanceled

record diagnostic =
  dg_status :: nat
  dg_reason :: reason

text \<open>
  An \<open>operationError\<close> carries its diagnostic next to its cause; every caller also returns the diagnostic, so that the
  error only keeps the mark that it is one.
\<close>

definition operation_mark :: string where "operation_mark = ''fzf sidecar: operation failure''"

fun is_operation_error :: "go_error \<Rightarrow> bool" where
  "is_operation_error (ErrText _) = False"
| "is_operation_error (ErrWrap m e) = (m = operation_mark \<or> is_operation_error e)"
| "is_operation_error (ErrJoin a b) = (is_operation_error a \<or> is_operation_error b)"

definition wrapOperationError :: "go_error \<Rightarrow> go_error" where
  "wrapOperationError e = (if is_operation_error e then e else ErrWrap operation_mark e)"

text \<open>\<open>diagnosticForError\<close> of an error that is not an operation error.\<close>

definition diagnosticForError :: "go_error option \<Rightarrow> diagnostic" where
  "diagnosticForError err =
     \<lparr>dg_status = 0,
      dg_reason =
        (case err of
           None \<Rightarrow> ReasonHTTPStatus
         | Some e \<Rightarrow>
             if errors_is e ErrCanceled \<or> errors_is e ErrDeadlineExceeded then ReasonContextCanceled
             else if errors_is e errResponseTooBig then ReasonResponseTooLarge
             else if errors_is e errInvalidMimeType then ReasonInvalidMIME
             else if errors_is e errInvalidJSON then ReasonInvalidJSON
             else if errors_is e errInvalidState then ReasonInvalidState
             else if errors_is e errInvalidAction then ReasonInvalidAction
             else if errors_is e errInconsistentSnapshot then ReasonInconsistentSnapshot
             else if errors_is e errTransport then ReasonTransport
             else ReasonResponse)\<rparr>"

text \<open>The sentinels of the standard library, and what is found by type.\<close>

definition io_EOF :: go_error where "io_EOF = ErrText ''EOF''"
definition ErrUnexpectedEOF :: go_error where "ErrUnexpectedEOF = ErrText ''unexpected EOF''"
definition ErrNetClosed :: go_error where "ErrNetClosed = ErrText ''use of closed network connection''"
definition ECONNRESET :: go_error where "ECONNRESET = ErrText ''connection reset by peer''"
definition ECONNREFUSED :: go_error where "ECONNREFUSED = ErrText ''connection refused''"
definition ECONNABORTED :: go_error where "ECONNABORTED = ErrText ''software caused connection abort''"
definition EPIPE :: go_error where "EPIPE = ErrText ''broken pipe''"

record error_classes =
  ec_net_temporary :: "go_error \<Rightarrow> bool"
  ec_url_cause :: "go_error \<Rightarrow> go_error option"
  ec_errno :: "go_error \<Rightarrow> nat option"

definition isTransientTransportCause :: "error_classes \<Rightarrow> go_error \<Rightarrow> bool" where
  "isTransientTransportCause cls e \<longleftrightarrow>
     errors_is e ErrDeadlineExceeded \<or> errors_is e io_EOF \<or> errors_is e ErrUnexpectedEOF \<or> errors_is e ErrNetClosed \<or> errors_is e ECONNRESET
     \<or> errors_is e ECONNREFUSED \<or> errors_is e ECONNABORTED \<or> errors_is e EPIPE \<or> ec_net_temporary cls e"

definition isConnectionRefused :: "error_classes \<Rightarrow> go_error \<Rightarrow> bool" where
  "isConnectionRefused cls e \<longleftrightarrow> errors_is e ECONNREFUSED \<or> ec_errno cls e = Some 10061"

definition isBoundedHTTPTransportError :: "error_classes \<Rightarrow> go_error \<Rightarrow> bool" where
  "isBoundedHTTPTransportError cls e =
     (case ec_url_cause cls e of None \<Rightarrow> False | Some c \<Rightarrow> isTransientTransportCause cls c \<or> isConnectionRefused cls c)"

definition isBoundedTransportError :: "error_classes \<Rightarrow> go_error \<Rightarrow> bool" where
  "isBoundedTransportError cls e \<longleftrightarrow> isTransientTransportCause cls e \<or> isConnectionRefused cls e \<or> isBoundedHTTPTransportError cls e"

definition isReadinessTransportError :: "error_classes \<Rightarrow> go_error \<Rightarrow> bool" where
  "isReadinessTransportError cls e \<longleftrightarrow> isConnectionRefused cls e \<or> errors_is e ErrDeadlineExceeded"

definition requestContextError :: "go_error option \<Rightarrow> go_error option \<Rightarrow> go_error option" where
  "requestContextError parent request = (case parent of Some e \<Rightarrow> Some e | None \<Rightarrow> request)"

section \<open>state.go\<close>

record fzf_state =
  fz_picker :: picker
  fz_matched :: int
  fz_total :: int
  fz_selected :: int
  fz_formatted :: string

record fzf_page =
  pg_matched :: int
  pg_total :: int
  pg_selected :: int

definition state_validate :: "fzf_state \<Rightarrow> go_error option" where
  "state_validate s =
     (if ValidateCounts (fz_picker s) (fz_matched s) (fz_total s) (fz_selected s) \<noteq> None then Some errInvalidState
      else if fz_matched s > fz_total s \<or> fz_selected s > fz_total s then Some errInvalidState
      else None)"

definition renderedLabel :: "fzf_state \<Rightarrow> string result" where
  "renderedLabel s =
     (case state_validate s of Some e \<Rightarrow> Inl e | None \<Rightarrow> Format (fz_picker s) (fz_matched s) (fz_total s) (fz_selected s))"

definition newFZFState :: "picker \<Rightarrow> int \<Rightarrow> int \<Rightarrow> int \<Rightarrow> fzf_state result" where
  "newFZFState p matched t selected =
     (let s = \<lparr>fz_picker = p, fz_matched = matched, fz_total = t, fz_selected = selected, fz_formatted = []\<rparr> in
      case renderedLabel s of Inl _ \<Rightarrow> Inl errInvalidState | Inr f \<Rightarrow> Inr (s\<lparr>fz_formatted := f\<rparr>))"

definition label_action :: string where "label_action = ''change-list-label:''"

definition actionBody :: "fzf_state \<Rightarrow> bytes result" where
  "actionBody s = (case renderedLabel s of Inl _ \<Rightarrow> Inl errInvalidAction | Inr f \<Rightarrow> Inr (label_action @ f))"

text \<open>
  What the JSON decoder finds in a body: no document of the right shape, one with something after it, or the two
  counts and the member \<open>selected\<close>, which may be missing or null, something that is not an array, or an array of so
  many items.
\<close>

datatype selected_json = SelectedMissing | SelectedNotArray | SelectedArray nat

datatype wire_json = WireInvalid | WireTrailing | WireState "int option" "int option" selected_json

definition countSelected :: "nat \<Rightarrow> int result" where
  "countSelected n = (if int n > MaxCount then Inl errInvalidState else Inr (int n))"

definition decodePage :: "(bytes \<Rightarrow> wire_json) \<Rightarrow> bytes \<Rightarrow> fzf_page result" where
  "decodePage parse body =
     (case parse body of
        WireInvalid \<Rightarrow> Inl (ErrJoin errInvalidJSON errInvalidState)
      | WireTrailing \<Rightarrow> Inl errInvalidJSON
      | WireState (Some t) (Some m) (SelectedArray n) \<Rightarrow>
          (case countSelected n of Inl _ \<Rightarrow> Inl errInvalidState | Inr c \<Rightarrow> Inr \<lparr>pg_matched = m, pg_total = t, pg_selected = c\<rparr>)
      | WireState _ _ _ \<Rightarrow> Inl errInvalidState)"

definition decodeState :: "(bytes \<Rightarrow> wire_json) \<Rightarrow> bytes \<Rightarrow> picker \<Rightarrow> fzf_state result" where
  "decodeState parse body p =
     (case decodePage parse body of Inl e \<Rightarrow> Inl e | Inr pg \<Rightarrow> newFZFState p (pg_matched pg) (pg_total pg) (pg_selected pg))"

definition parseCanonicalCount :: "string \<Rightarrow> int option" where
  "parseCanonicalCount v =
     (if v = [] \<or> (length v > 1 \<and> hd v = CHR ''0'') then None else if \<not> list_all is_digit v then None else atoi v)"

text \<open>\<open>strings.Index(s, " (")\<close> and the number of its occurrences (they cannot overlap).\<close>

fun mark_from :: "nat \<Rightarrow> string \<Rightarrow> nat list" where
  "mark_from i [] = []"
| "mark_from i (c # s) = (if take 2 (c # s) = '' ('' then [i] else []) @ mark_from (Suc i) s"

definition split_selected :: "string \<Rightarrow> (string \<times> picker \<times> int) option" where
  "split_selected text =
     (case mark_from 0 text of
        [] \<Rightarrow> Some (text, PickerCD, 0)
      | i # others \<Rightarrow>
          if others \<noteq> [] \<or> last text \<noteq> CHR '')'' then None
          else (case parseCanonicalCount (take (length text - 1 - (i + 2)) (drop (i + 2) text)) of
                  None \<Rightarrow> None
                | Some selected \<Rightarrow> if selected = 0 then None else Some (take i text, PickerCP, selected)))"

definition parseFormattedLabel :: "string \<Rightarrow> fzf_state result" where
  "parseFormattedLabel label =
     (case index_byte label SLASH of
        None \<Rightarrow> Inl errInvalidAction
      | Some slash \<Rightarrow>
          if slash = 0 \<or> count_byte SLASH label \<noteq> 1 then Inl errInvalidAction
          else case (parseCanonicalCount (take slash label), split_selected (drop (Suc slash) label)) of
                 (Some m, Some (totalText, p, selected)) \<Rightarrow>
                   (case parseCanonicalCount totalText of
                      None \<Rightarrow> Inl errInvalidAction
                    | Some t \<Rightarrow>
                        (case newFZFState p m t selected of
                           Inl _ \<Rightarrow> Inl errInvalidAction
                         | Inr s \<Rightarrow> if fz_formatted s \<noteq> label then Inl errInvalidAction else Inr s))
               | _ \<Rightarrow> Inl errInvalidAction)"

section \<open>client.go, client_body.go, state_client.go: one exchange\<close>

definition maxResponseBytes :: nat where "maxResponseBytes = 1048576"

text \<open>
  How an exchange ended: the request could not be built, the client failed, or there is a response, with its status, its
  content type and what reading its body gave (the bytes, and the error that ended the reading early, if any).
\<close>

datatype exchange_end = RequestInvalid | ExchangeFailed go_error | Responded nat string bytes "go_error option"

record exchange =
  ex_end :: exchange_end
  ex_parent :: "go_error option"
  ex_request :: "go_error option"

text \<open>The body is read through a limit of one byte more than allowed, so that an error beyond it is not seen.\<close>

definition readBodyContext :: "bytes \<Rightarrow> go_error option \<Rightarrow> bytes result" where
  "readBodyContext data err =
     (if length data > maxResponseBytes then Inl errResponseTooBig else case err of Some e \<Rightarrow> Inl e | None \<Rightarrow> Inr data)"

definition isJSON :: "(string \<Rightarrow> string option) \<Rightarrow> string \<Rightarrow> bool" where
  "isJSON media_type content =
     (case media_type content of None \<Rightarrow> False | Some m \<Rightarrow> list_all2 asciiEqualFold m ''application/json'')"

definition canceled_result :: "nat \<Rightarrow> go_error \<Rightarrow> 'a result \<times> diagnostic" where
  "canceled_result status e = (Inl (wrapOperationError e), \<lparr>dg_status = status, dg_reason = ReasonContextCanceled\<rparr>)"

definition failed_result :: "nat \<Rightarrow> reason \<Rightarrow> go_error \<Rightarrow> 'a result \<times> diagnostic" where
  "failed_result status r e = (Inl (wrapOperationError e), \<lparr>dg_status = status, dg_reason = r\<rparr>)"

definition getPageResult :: "(string \<Rightarrow> string option) \<Rightarrow> (bytes \<Rightarrow> wire_json) \<Rightarrow> int \<Rightarrow> exchange \<Rightarrow> fzf_page result \<times> diagnostic" where
  "getPageResult media parse offset x =
     (let classified = requestContextError (ex_parent x) (ex_request x) in
      if offset < 0 then failed_result 0 ReasonInvalidState errInvalidState
      else case ex_end x of
             RequestInvalid \<Rightarrow> failed_result 0 ReasonResponse errResponse
           | ExchangeFailed e \<Rightarrow>
               (case classified of Some c \<Rightarrow> canceled_result 0 c | None \<Rightarrow> failed_result 0 ReasonTransport (transportError e))
           | Responded status content data err \<Rightarrow>
               (case readBodyContext data err of
                  Inl e \<Rightarrow>
                    if errors_is e errResponseTooBig then failed_result status (dg_reason (diagnosticForError (Some e))) e
                    else (case classified of
                            Some c \<Rightarrow> canceled_result status c
                          | None \<Rightarrow> failed_result status (dg_reason (diagnosticForError (Some e))) e)
                | Inr body \<Rightarrow>
                    (case classified of
                       Some c \<Rightarrow> canceled_result status c
                     | None \<Rightarrow>
                         if status = 503 then failed_result status ReasonHTTPStatus (transientCycleError errInvalidStatus)
                         else if status \<noteq> 200 then failed_result status ReasonHTTPStatus errInvalidStatus
                         else if \<not> isJSON media content then failed_result status ReasonInvalidMIME errInvalidMimeType
                         else (case decodePage parse body of
                                 Inl e \<Rightarrow> failed_result status (dg_reason (diagnosticForError (Some e))) e
                               | Inr page \<Rightarrow> (Inr page, \<lparr>dg_status = status, dg_reason = ReasonHTTPStatus\<rparr>)))))"

definition postActionResult :: "exchange \<Rightarrow> go_error option \<times> diagnostic" where
  "postActionResult x =
     (let classified = requestContextError (ex_parent x) (ex_request x);
          fail = (\<lambda>r :: unit result \<times> diagnostic. (case fst r of Inl e \<Rightarrow> Some e | Inr _ \<Rightarrow> None, snd r)) in
      case ex_end x of
        RequestInvalid \<Rightarrow> fail (failed_result 0 ReasonResponse errResponse)
      | ExchangeFailed e \<Rightarrow>
          (case classified of Some c \<Rightarrow> fail (canceled_result 0 c) | None \<Rightarrow> fail (failed_result 0 ReasonTransport (transportError e)))
      | Responded status _ data err \<Rightarrow>
          (case readBodyContext data err of
             Inl e \<Rightarrow>
               (case classified of
                  Some c \<Rightarrow> fail (canceled_result status c)
                | None \<Rightarrow> fail (failed_result status (dg_reason (diagnosticForError (Some e))) e))
           | Inr _ \<Rightarrow>
               (case classified of
                  Some c \<Rightarrow> fail (canceled_result status c)
                | None \<Rightarrow>
                    if status \<noteq> 200
                    then fail (failed_result status ReasonHTTPStatus (if status = 503 then transientCycleError errInvalidStatus else errInvalidStatus))
                    else (None, \<lparr>dg_status = status, dg_reason = ReasonHTTPStatus\<rparr>))))"

definition postStateResult :: "fzf_state \<Rightarrow> exchange \<Rightarrow> go_error option \<times> diagnostic" where
  "postStateResult s x =
     (case actionBody s of
        Inl e \<Rightarrow> (Some (wrapOperationError e), \<lparr>dg_status = 0, dg_reason = ReasonInvalidAction\<rparr>)
      | Inr _ \<Rightarrow> postActionResult x)"

section \<open>state_client.go: a snapshot\<close>

definition selectedPageSize :: int where "selectedPageSize = 100"
definition maxSelectedPages :: nat where "maxSelectedPages = 100"

text \<open>
  What one snapshot sees: the result of each page request (by its number and the offset asked for), the error of the
  cycle's context when it is read before the request of that number (at zero: after the first page), and the error of
  the caller's context.
\<close>

record snapshot_env =
  se_page :: "nat \<Rightarrow> int \<Rightarrow> fzf_page result \<times> diagnostic"
  se_cycle :: "nat \<Rightarrow> go_error option"
  se_ctx :: "go_error option"

definition invalid_state :: "go_error \<Rightarrow> reason \<Rightarrow> diagnostic \<Rightarrow> 'a result \<times> diagnostic" where
  "invalid_state e r d = (Inl (wrapOperationError e), d\<lparr>dg_reason := r\<rparr>)"

function page_loop :: "snapshot_env \<Rightarrow> int \<Rightarrow> int \<Rightarrow> int \<Rightarrow> int \<Rightarrow> nat \<Rightarrow> fzf_page \<Rightarrow> diagnostic \<Rightarrow> int result \<times> diagnostic" where
  "page_loop env m t selected offset pageCount page d =
     (if pg_selected page \<noteq> selectedPageSize then (Inr selected, d)
      else if pageCount \<ge> maxSelectedPages then invalid_state errStateTooLarge ReasonInvalidState d
      else case se_cycle env pageCount of
             Some e \<Rightarrow> invalid_state e ReasonContextCanceled d
           | None \<Rightarrow>
               (case se_page env pageCount offset of
                  (Inl e, d) \<Rightarrow> (Inl e, d)
                | (Inr page, d) \<Rightarrow>
                    if pg_matched page \<noteq> m \<or> pg_total page \<noteq> t then invalid_state errInconsistentSnapshot ReasonInconsistentSnapshot d
                    else if pg_selected page > selectedPageSize then invalid_state errInvalidState ReasonInvalidState d
                    else if selected > MaxCount - pg_selected page then invalid_state errInvalidState ReasonInvalidState d
                    else (case newFZFState PickerCP m t (selected + pg_selected page) of
                            Inl e \<Rightarrow> invalid_state e ReasonInvalidState d
                          | Inr _ \<Rightarrow> page_loop env m t (selected + pg_selected page) (offset + pg_selected page) (Suc pageCount) page d)))"
  by pat_completeness auto
termination
  by (relation "measure (\<lambda>(_, _, _, _, _, pageCount, _, _). maxSelectedPages - pageCount)") (auto simp: maxSelectedPages_def)

declare page_loop.simps [simp del]

definition finish_state :: "picker \<Rightarrow> int \<Rightarrow> int \<Rightarrow> int \<Rightarrow> diagnostic \<Rightarrow> fzf_state result \<times> diagnostic" where
  "finish_state p m t selected d =
     (case newFZFState p m t selected of Inl e \<Rightarrow> invalid_state e ReasonInvalidState d | Inr s \<Rightarrow> (Inr s, d))"

definition getStateResult :: "picker \<Rightarrow> snapshot_env \<Rightarrow> fzf_state result \<times> diagnostic" where
  "getStateResult p env =
     (case se_page env 0 0 of
        (Inl e, d) \<Rightarrow> (case se_ctx env of Some c \<Rightarrow> canceled_result 0 c | None \<Rightarrow> (Inl e, d))
      | (Inr page, d) \<Rightarrow>
          (case se_cycle env 0 of
             Some e \<Rightarrow> (case se_ctx env of Some c \<Rightarrow> canceled_result 0 c | None \<Rightarrow> invalid_state e ReasonContextCanceled d)
           | None \<Rightarrow>
               if pg_selected page > selectedPageSize then invalid_state errInvalidState ReasonInvalidState d
               else (case newFZFState PickerCP (pg_matched page) (pg_total page) (pg_selected page) of
                       Inl e \<Rightarrow> invalid_state e ReasonInvalidState d
                     | Inr _ \<Rightarrow>
                         if p = PickerCD then finish_state p (pg_matched page) (pg_total page) 0 d
                         else (case page_loop env (pg_matched page) (pg_total page) (pg_selected page) (pg_selected page) 1 page d of
                                 (Inl e, d) \<Rightarrow> (Inl e, d)
                               | (Inr selected, d) \<Rightarrow> finish_state p (pg_matched page) (pg_total page) selected d))))"

section \<open>session_polling.go, session_observer.go\<close>

definition transientRetryInterval :: int where "transientRetryInterval = 25000000"
definition transientRetryWindow :: int where "transientRetryWindow = 2000000000"
definition selectedPaginationTimeout :: int where "selectedPaginationTimeout = 2000000000"

text \<open>The transient window: the time it started, when it is active.\<close>

definition window_allow :: "int \<Rightarrow> int option \<Rightarrow> bool \<times> int option" where
  "window_allow now w = (case w of None \<Rightarrow> (True, Some now) | Some started \<Rightarrow> (now - started < transientRetryWindow, w))"

definition observerDuration :: "int \<Rightarrow> int \<Rightarrow> int" where
  "observerDuration started finished =
     (let d = finished - started in if d < 0 then 0 else if d > selectedPaginationTimeout then selectedPaginationTimeout else d)"

definition classifyObserverOperation :: "error_classes \<Rightarrow> observer_kind \<Rightarrow> observer_kind \<Rightarrow> observer_kind \<Rightarrow> go_error option \<Rightarrow> observer_kind" where
  "classifyObserverOperation cls success transient terminal err =
     (case err of
        None \<Rightarrow> success
      | Some e \<Rightarrow> if errors_is e errTransientCycle \<or> isBoundedTransportError cls e then transient else terminal)"

text \<open>
  What one cycle of the polling loop meets: the result of the snapshot and of the post, whether the context had ended
  after each of them and when the loop stops, the clock at each of its readings, and whether the wait for the
  timer ended by the timer.
\<close>

record cycle =
  cy_get :: "fzf_state result"
  cy_get_start :: int
  cy_get_end :: int
  cy_get_done :: bool
  cy_post :: "go_error option"
  cy_post_start :: int
  cy_post_end :: int
  cy_post_done :: bool
  cy_now :: int
  cy_before_wait :: int
  cy_timer :: bool
  cy_after_wait :: int
  cy_stop_done :: bool

definition waitForNextCycle :: "cycle \<Rightarrow> bool" where "waitForNextCycle c = cy_timer c"

definition waitForReadiness :: "int \<Rightarrow> cycle \<Rightarrow> bool" where
  "waitForReadiness deadline c = (if cy_before_wait c > deadline then False else waitForNextCycle c \<and> cy_after_wait c < deadline)"

section \<open>session.go: the polling loop\<close>

text \<open>
  The variables of the loop that live from one cycle to the next.  A state is never kept for a later cycle: every
  path that has one gives it up before it continues.
\<close>

record poll =
  po_last :: "string option"
  po_pending :: bool
  po_ready :: bool
  po_window :: "int option"
  po_gets :: u64
  po_posts :: u64

definition new_poll :: poll where
  "new_poll = \<lparr>po_last = None, po_pending = False, po_ready = False, po_window = None, po_gets = 0, po_posts = 0\<rparr>"

datatype cycle_end = Continues poll | Stops observer_stop

record cycle_result =
  cr_events :: "observer_event list"
  cr_posted :: "string option"
  cr_end :: cycle_end

definition get_event :: "error_classes \<Rightarrow> cycle \<Rightarrow> u64 \<Rightarrow> observer_event list" where
  "get_event cls c attempt =
     (if \<not> isl (cy_get c) \<or> \<not> cy_get_done c
      then [\<lparr>oe_kind = classifyObserverOperation cls GetSuccess GetTransient GetTerminal (case cy_get c of Inl e \<Rightarrow> Some e | Inr _ \<Rightarrow> None),
             oe_stop_reason = StopReasonOther, oe_attempt = attempt, oe_duration = word_of_int (observerDuration (cy_get_start c) (cy_get_end c))\<rparr>]
      else [])"

definition post_event :: "error_classes \<Rightarrow> cycle \<Rightarrow> u64 \<Rightarrow> observer_event list" where
  "post_event cls c attempt =
     (if cy_post c = None \<or> \<not> cy_post_done c
      then [\<lparr>oe_kind = classifyObserverOperation cls PostSuccess PostTransient PostTerminal (cy_post c),
             oe_stop_reason = StopReasonOther, oe_attempt = attempt, oe_duration = word_of_int (observerDuration (cy_post_start c) (cy_post_end c))\<rparr>]
      else [])"

definition continue_if :: "bool \<Rightarrow> poll \<Rightarrow> observer_stop \<Rightarrow> cycle_end" where
  "continue_if ok p r = (if ok then Continues p else Stops r)"

text \<open>A snapshot that failed; the window is asked before the wait.\<close>

definition get_failed :: "error_classes \<Rightarrow> int \<Rightarrow> cycle \<Rightarrow> go_error \<Rightarrow> poll \<Rightarrow> cycle_end" where
  "get_failed cls deadline c e p =
     (let ready_wait = (\<lambda>p. if po_ready p then continue_if (waitForNextCycle c) p StopTerminal
                             else continue_if (waitForReadiness deadline c) p StopReadinessTimeout);
          (allowed, w) = window_allow (cy_now c) (po_window p) in
      if cy_get_done c then Stops StopContextCanceled
      else if errors_is e errInconsistentSnapshot then ready_wait p
      else if errors_is e errTransientCycle
      then if \<not> allowed then Stops StopTransientWindow else ready_wait (p\<lparr>po_window := w\<rparr>)
      else if po_ready p \<and> isBoundedTransportError cls e
      then if \<not> allowed then Stops StopTransientWindow else continue_if (waitForNextCycle c) (p\<lparr>po_window := w\<rparr>) StopTerminal
      else if \<not> po_ready p \<and> isReadinessTransportError cls e
      then continue_if (waitForReadiness deadline c) p StopReadinessTimeout
      else Stops StopTerminal)"

definition post_failed :: "error_classes \<Rightarrow> cycle \<Rightarrow> go_error \<Rightarrow> poll \<Rightarrow> cycle_end" where
  "post_failed cls c e p =
     (let (allowed, w) = window_allow (cy_now c) (po_window p) in
      if cy_post_done c then Stops StopContextCanceled
      else if errors_is e errTransientCycle \<or> isBoundedTransportError cls e
      then if \<not> allowed then Stops StopTransientWindow
           else continue_if (waitForNextCycle c) (p\<lparr>po_pending := True, po_window := w\<rparr>) StopTerminal
      else Stops StopTerminal)"

definition run_cycle :: "error_classes \<Rightarrow> int \<Rightarrow> cycle \<Rightarrow> poll \<Rightarrow> cycle_result" where
  "run_cycle cls deadline c p =
     (let p = p\<lparr>po_gets := po_gets p + 1\<rparr>; got = get_event cls c (po_gets p) in
      case cy_get c of
        Inl e \<Rightarrow> \<lparr>cr_events = got, cr_posted = None, cr_end = get_failed cls deadline c e p\<rparr>
      | Inr s \<Rightarrow>
          (let p = p\<lparr>po_ready := True\<rparr> in
           case renderedLabel s of
             Inl _ \<Rightarrow> \<lparr>cr_events = got, cr_posted = None, cr_end = Stops StopTerminal\<rparr>
           | Inr label \<Rightarrow>
               (let p = (if \<not> po_pending p then p\<lparr>po_window := None\<rparr> else p) in
                if \<not> po_pending p \<and> po_last p = Some label
                then \<lparr>cr_events = got, cr_posted = None, cr_end = continue_if (waitForNextCycle c) p StopTerminal\<rparr>
                else
                  (let p = p\<lparr>po_posts := po_posts p + 1\<rparr>; events = got @ post_event cls c (po_posts p) in
                   case cy_post c of
                     Some e \<Rightarrow> \<lparr>cr_events = events, cr_posted = None, cr_end = post_failed cls c e p\<rparr>
                   | None \<Rightarrow> \<lparr>cr_events = events, cr_posted = Some label,
                       cr_end = continue_if (waitForNextCycle c) (p\<lparr>po_window := None, po_last := Some label, po_pending := False\<rparr>) StopTerminal\<rparr>))))"

text \<open>The reason of the stop that is observed: a recorded stop cause wins when the context has ended.\<close>

definition finishRun :: "bool \<Rightarrow> observer_stop option \<Rightarrow> observer_stop \<Rightarrow> observer_stop" where
  "finishRun ctx_done stopCause fallback =
     (if ctx_done then (case stopCause of None \<Rightarrow> StopContextCanceled | Some r \<Rightarrow> r) else fallback)"

definition stop_event :: "observer_stop \<Rightarrow> observer_event" where
  "stop_event r = \<lparr>oe_kind = ObserverStop, oe_stop_reason = r, oe_attempt = 0, oe_duration = 0\<rparr>"

record poll_run =
  pr_events :: "observer_event list"
  pr_posted :: "string list"
  pr_end :: cycle_end

text \<open>The loop on the cycles it meets; it still runs when it has met all of them without a stop.\<close>

fun run_loop :: "error_classes \<Rightarrow> int \<Rightarrow> observer_stop option \<Rightarrow> cycle list \<Rightarrow> poll \<Rightarrow> poll_run" where
  "run_loop cls deadline cause [] p = \<lparr>pr_events = [], pr_posted = [], pr_end = Continues p\<rparr>"
| "run_loop cls deadline cause (c # cs) p =
     (let r = run_cycle cls deadline c p; posted = (case cr_posted r of None \<Rightarrow> [] | Some l \<Rightarrow> [l]) in
      case cr_end r of
        Stops reason \<Rightarrow>
          (let reason = finishRun (cy_stop_done c) cause reason in
           \<lparr>pr_events = cr_events r @ [stop_event reason], pr_posted = posted, pr_end = Stops reason\<rparr>)
      | Continues p' \<Rightarrow>
          (let rest = run_loop cls deadline cause cs p' in
           \<lparr>pr_events = cr_events r @ pr_events rest, pr_posted = posted @ pr_posted rest, pr_end = pr_end rest\<rparr>))"

section \<open>session.go: lifecycle\<close>

record sidecar_session =
  ss_started :: bool
  ss_stopped :: bool
  ss_waited :: bool
  ss_cancelled :: bool
  ss_stop_cause :: "observer_stop option"
  ss_goroutines :: nat
  ss_done :: bool
  ss_run_err :: "go_error option"

definition new_sidecar_session :: sidecar_session where
  "new_sidecar_session = \<lparr>ss_started = False, ss_stopped = False, ss_waited = False, ss_cancelled = False, ss_stop_cause = None,
     ss_goroutines = 0, ss_done = False, ss_run_err = None\<rparr>"

definition sidecar_Start :: "sidecar_session \<Rightarrow> sidecar_session" where
  "sidecar_Start s =
     (if ss_started s \<or> ss_stopped s \<or> ss_waited s then s else s\<lparr>ss_started := True, ss_goroutines := Suc (ss_goroutines s)\<rparr>)"

definition recordStopCause :: "observer_stop \<Rightarrow> sidecar_session \<Rightarrow> sidecar_session" where
  "recordStopCause r s = (if ss_stop_cause s = None then s\<lparr>ss_stop_cause := Some r\<rparr> else s)"

text \<open>\<open>ctx_done\<close> is whether the context of the loop had ended when \<open>Stop\<close> looked.\<close>

definition sidecar_Stop :: "bool \<Rightarrow> sidecar_session \<Rightarrow> sidecar_session" where
  "sidecar_Stop ctx_done s =
     (let s = (if \<not> ss_started s then s\<lparr>ss_stopped := True\<rparr> else s) in
      if ss_started s
      then (recordStopCause (if ctx_done then StopContextCanceled else StopRequested) s)\<lparr>ss_cancelled := True\<rparr> else s)"

text \<open>The goroutine ends.\<close>

definition sidecar_exit :: "go_error option \<Rightarrow> sidecar_session \<Rightarrow> sidecar_session" where
  "sidecar_exit err s = s\<lparr>ss_run_err := err, ss_done := True, ss_cancelled := True, ss_goroutines := ss_goroutines s - 1\<rparr>"

text \<open>\<^const>\<open>None\<close> while \<open>Wait\<close> blocks.\<close>

definition sidecar_Wait :: "sidecar_session \<Rightarrow> (go_error option \<times> sidecar_session) option" where
  "sidecar_Wait s =
     (if \<not> ss_started s then Some (None, s\<lparr>ss_waited := True\<rparr>) else if ss_done s then Some (ss_run_err s, s) else None)"

section \<open>session.go: New\<close>

text \<open>
  The listener's address: a TCP address with its IPv4 form (when it has one) and port, or the text of another kind of
  address, already split and parsed by \<open>net\<close>.  The reservation may give no listener, and a listener no address.
\<close>

datatype listener_address = TCPAddr "nat list option" int | TextAddr string string "nat list option" bool

definition errReservation :: go_error where "errReservation = ErrText ''fzf sidecar: reservation is not numeric IPv4 loopback''"

definition loopbackPort :: "listener_address option \<Rightarrow> int result" where
  "loopbackPort addr =
     (case addr of
        None \<Rightarrow> Inl errReservation
      | Some (TCPAddr ip port) \<Rightarrow> if port > 0 \<and> port \<le> 65535 \<and> ip = Some [127, 0, 0, 1] then Inr port else Inl errReservation
      | Some (TextAddr host portText ip split_ok) \<Rightarrow>
          if \<not> split_ok \<or> CHR '':'' \<in> set host \<or> ip \<noteq> Some [127, 0, 0, 1] then Inl errReservation
          else (case atoi portText of None \<Rightarrow> Inl errReservation | Some port \<Rightarrow> if port \<le> 0 \<or> port > 65535 then Inl errReservation else Inr port))"

record sidecar_setup =
  su_reserve :: "listener_address option option result"
  su_random :: "bytes result"
  su_close :: "go_error option"

definition errInvalidPicker :: go_error where "errInvalidPicker = ErrText ''fzf sidecar: invalid picker''"

text \<open>The address and the API key of a new session with the default options.\<close>

definition New_sidecar :: "picker \<Rightarrow> sidecar_setup \<Rightarrow> (string \<times> string) result" where
  "New_sidecar p su =
     (if p \<noteq> PickerCD \<and> p \<noteq> PickerCP then Inl errInvalidPicker
      else case su_reserve su of
             Inl e \<Rightarrow> Inl (ErrWrap ''fzf sidecar: reserve port'' e)
           | Inr None \<Rightarrow> Inl (ErrText ''fzf sidecar: port reservation returned nil listener'')
           | Inr (Some listener) \<Rightarrow>
               (let made = (case loopbackPort listener of
                              Inl e \<Rightarrow> Inl e
                            | Inr port \<Rightarrow>
                                (case su_random su of
                                   Inl e \<Rightarrow> Inl (ErrWrap ''fzf sidecar: generate API key'' e)
                                 | Inr key \<Rightarrow> Inr (''127.0.0.1:'' @ itoa (nat port), b64_encode RawURLEncoding key))) in
                case su_close su of
                  None \<Rightarrow> made
                | Some e \<Rightarrow>
                    (let e = ErrWrap ''fzf sidecar: close port reservation'' e in
                     case made of Inl err \<Rightarrow> Inl (ErrJoin err e) | Inr _ \<Rightarrow> Inl e)))"

section \<open>internal/app/sidecar.go\<close>

record sidecar_lifecycle =
  sl_session :: sidecar_session
  sl_credentials :: "string \<times> string"
  sl_created :: bool
  sl_started :: bool
  sl_stopped :: bool
  sl_waited :: bool
  sl_wait_err :: "go_error option"

definition new_lifecycle :: sidecar_lifecycle where
  "new_lifecycle = \<lparr>sl_session = new_sidecar_session, sl_credentials = ([], []), sl_created = False, sl_started = False, sl_stopped = False,
     sl_waited = False, sl_wait_err = None\<rparr>"

definition lifecycle_create :: "bool \<Rightarrow> picker \<Rightarrow> sidecar_setup \<Rightarrow> sidecar_lifecycle \<Rightarrow> go_error option \<times> sidecar_lifecycle" where
  "lifecycle_create enabled p su l =
     (if \<not> enabled then (None, l)
      else case New_sidecar p su of
             Inl e \<Rightarrow> (Some (ErrWrap ''create fzf sidecar'' e), l)
           | Inr cred \<Rightarrow> (None, l\<lparr>sl_session := new_sidecar_session, sl_credentials := cred, sl_created := True\<rparr>))"

definition lifecycle_credentials :: "sidecar_lifecycle \<Rightarrow> string \<times> string" where
  "lifecycle_credentials l = (if \<not> sl_created l then ([], []) else sl_credentials l)"

definition lifecycle_start :: "sidecar_lifecycle \<Rightarrow> sidecar_lifecycle" where
  "lifecycle_start l =
     (if \<not> sl_created l \<or> sl_started l then l else l\<lparr>sl_session := sidecar_Start (sl_session l), sl_started := True\<rparr>)"

text \<open>\<^const>\<open>None\<close> while it blocks in \<open>Wait\<close>.\<close>

definition lifecycle_stopAndWait :: "bool \<Rightarrow> (sidecar_session \<Rightarrow> sidecar_session) \<Rightarrow> sidecar_lifecycle \<Rightarrow> (go_error option \<times> sidecar_lifecycle) option" where
  "lifecycle_stopAndWait ctx_done meanwhile l =
     (if \<not> sl_created l then Some (None, l)
      else let l = (if \<not> sl_stopped l then l\<lparr>sl_session := sidecar_Stop ctx_done (sl_session l), sl_stopped := True\<rparr> else l) in
           if sl_waited l then Some (sl_wait_err l, l)
           else (case sidecar_Wait (meanwhile (sl_session l)) of
                   None \<Rightarrow> None
                 | Some (err, s) \<Rightarrow> Some (err, l\<lparr>sl_session := s, sl_wait_err := err, sl_waited := True\<rparr>)))"

section \<open>Labels\<close>

definition label_text :: "picker \<Rightarrow> int \<Rightarrow> int \<Rightarrow> int \<Rightarrow> string" where
  "label_text p m t s = itoa (nat m) @ [SLASH] @ itoa (nat t) @ (if p = PickerCP \<and> s > 0 then '' ('' @ itoa (nat s) @ '')'' else [])"

definition counts_ok :: "picker \<Rightarrow> int \<Rightarrow> int \<Rightarrow> int \<Rightarrow> bool" where
  "counts_ok p m t s \<longleftrightarrow> (p = PickerCD \<or> p = PickerCP) \<and> 0 \<le> m \<and> m \<le> t \<and> t \<le> MaxCount \<and> 0 \<le> s \<and> s \<le> t"

lemma renderedLabel_eq:
  "renderedLabel s = (if counts_ok (fz_picker s) (fz_matched s) (fz_total s) (fz_selected s)
     then Inr (label_text (fz_picker s) (fz_matched s) (fz_total s) (fz_selected s)) else Inl errInvalidState)"
  by (cases "fz_picker s") (auto simp: renderedLabel_def state_validate_def ValidateCounts_def validCount_def Format_def counts_ok_def label_text_def
      SLASH_def)

lemma newFZFState_eq:
  "newFZFState p m t s = (if counts_ok p m t s
     then Inr \<lparr>fz_picker = p, fz_matched = m, fz_total = t, fz_selected = s, fz_formatted = label_text p m t s\<rparr> else Inl errInvalidState)"
  by (simp add: newFZFState_def renderedLabel_eq)

lemma parseCanonicalCount_itoa: "n \<le> nat MaxCount \<Longrightarrow> parseCanonicalCount (itoa n) = Some (int n)"
proof -
  assume n: "n \<le> nat MaxCount"
  have "\<not> (length (itoa n) > 1 \<and> hd (itoa n) = CHR ''0'')" using itoa_hd [of n] by (cases "n = 0") auto
  moreover have "n < 2 ^ 63" using n by (simp add: MaxCount_def)
  ultimately show ?thesis by (simp add: parseCanonicalCount_def atoi_digits)
qed

lemma digit_other: "is_digit c \<Longrightarrow> c \<noteq> SLASH \<and> c \<noteq> CHR '' ''"
  by (auto simp: is_digit_conv byte_of_def SLASH_def)

lemma itoa_other: "SLASH \<notin> set (itoa n)" "CHR '' '' \<notin> set (itoa n)"
  using itoa_digits digit_other by blast+

lemma marks_none: "CHR '' '' \<notin> set s \<Longrightarrow> mark_from i s = []"
  by (induction s arbitrary: i) auto

lemma marks_one: "CHR '' '' \<notin> set a \<Longrightarrow> CHR '' '' \<notin> set b \<Longrightarrow> mark_from i (a @ '' ('' @ b) = [i + length a]"
  by (induction a arbitrary: i) (auto simp: marks_none)

lemma split_selected_plain: "CHR '' '' \<notin> set s \<Longrightarrow> split_selected s = Some (s, PickerCD, 0)"
  by (simp add: split_selected_def marks_none)

lemma split_selected_marked:
  assumes "0 < n" and "n \<le> nat MaxCount"
  shows "split_selected (itoa k @ '' ('' @ itoa n @ '')'') = Some (itoa k, PickerCP, int n)"
proof -
  have "mark_from 0 (itoa k @ '' ('' @ itoa n @ '')'') = [length (itoa k)]" using itoa_other marks_one [of "itoa k" "itoa n @ '')''" 0] by simp
  then show ?thesis using assms by (simp add: split_selected_def parseCanonicalCount_itoa)
qed

lemma index_slash: "SLASH \<notin> set a \<Longrightarrow> index_byte (a @ SLASH # b) SLASH = Some (length a)"
  by (induction a) auto

text \<open>
  The label is a faithful picture of the counts: the labels that \<open>parseFormattedLabel\<close> accepts are exactly those that a
  valid state shows, and it gives that state back (a label without a selection is read as one of the directory
  picker, which never shows one).
\<close>

theorem parseFormattedLabel_iff:
  "parseFormattedLabel l = Inr st \<longleftrightarrow>
     (\<exists>p m t s. (p = PickerCD \<and> s = 0 \<or> p = PickerCP \<and> 0 < s) \<and> newFZFState p m t s = Inr st \<and> l = fz_formatted st)"
proof
  assume "parseFormattedLabel l = Inr st"
  then obtain totalText p s m t where "split_selected totalText = Some (t, p, s)" "newFZFState p m (the (parseCanonicalCount t)) s = Inr st"
    "l = fz_formatted st"
    by (auto simp: parseFormattedLabel_def split: option.splits if_splits sum.splits prod.splits)
  moreover from this have "p = PickerCD \<and> s = 0 \<or> p = PickerCP \<and> 0 < s"
    by (auto simp: split_selected_def newFZFState_eq counts_ok_def split: list.splits if_splits option.splits)
  ultimately show "\<exists>p m t s. (p = PickerCD \<and> s = 0 \<or> p = PickerCP \<and> 0 < s) \<and> newFZFState p m t s = Inr st \<and> l = fz_formatted st"
    by blast
next
  assume "\<exists>p m t s. (p = PickerCD \<and> s = 0 \<or> p = PickerCP \<and> 0 < s) \<and> newFZFState p m t s = Inr st \<and> l = fz_formatted st"
  then obtain p m t s where kind: "p = PickerCD \<and> s = 0 \<or> p = PickerCP \<and> 0 < s" and new: "newFZFState p m t s = Inr st" and l: "l = fz_formatted st"
    by blast
  have ok: "counts_ok p m t s" using new by (auto simp: newFZFState_eq split: if_splits)
  let ?tail = "if p = PickerCP \<and> s > 0 then '' ('' @ itoa (nat s) @ '')'' else []"
  have shape: "l = itoa (nat m) @ SLASH # (itoa (nat t) @ ?tail)" using l new by (auto simp: newFZFState_eq label_text_def split: if_splits)
  have slash: "index_byte l SLASH = Some (length (itoa (nat m)))" unfolding shape using itoa_other(1) by (rule index_slash)
  have one: "count_byte SLASH l = 1"
    unfolding shape using itoa_other(1) count_byte_zero by (auto simp: count_byte_append count_byte_Cons count_byte_Nil SLASH_def)
  have tail: "split_selected (itoa (nat t) @ ?tail) = Some (itoa (nat t), p, s)"
    using kind ok split_selected_marked [of "nat s" "nat t"] split_selected_plain itoa_other(2) by (auto simp: counts_ok_def)
  have "parseCanonicalCount (itoa (nat m)) = Some m" "parseCanonicalCount (itoa (nat t)) = Some t"
    using ok parseCanonicalCount_itoa [of "nat m"] parseCanonicalCount_itoa [of "nat t"] by (auto simp: counts_ok_def)
  moreover have "take (length (itoa (nat m))) l = itoa (nat m)" "drop (Suc (length (itoa (nat m)))) l = itoa (nat t) @ ?tail"
    unfolding shape by simp_all
  ultimately show "parseFormattedLabel l = Inr st" using slash one tail new l
    by (simp add: parseFormattedLabel_def)
qed

section \<open>The listener and fzf\<close>

text \<open>
  What a new sidecar hands to fzf is what fzf's side accepts: the address passes the validation of the listen option and the
  key the validation of the listen key, when the random source gave its 32 bytes.
\<close>

theorem New_sidecar_accepted:
  assumes "New_sidecar p su = Inr (address, key)" and "\<forall>raw. su_random su = Inr raw \<longrightarrow> length raw = 32"
  shows "validateListenAddress address = None \<and> validateListenAPIKey key = None"
proof -
  from assms(1) obtain listener port raw where parts: "loopbackPort listener = Inr port" "su_random su = Inr raw"
    "address = ''127.0.0.1:'' @ itoa (nat port)" "key = b64_encode RawURLEncoding raw"
    by (auto simp: New_sidecar_def Let_def split: if_splits sum.splits option.splits)
  have "0 < port \<and> port \<le> 65535"
    using parts(1) by (auto simp: loopbackPort_def split: option.splits listener_address.splits if_splits)
  then have "validateListenAddress address = None"
    unfolding validateListenAddress_iff using parts(3) by (intro exI [of _ "nat port"]) (auto simp: listen_prefix_def)
  moreover have "validateListenAPIKey key = None" using assms(2) parts(2,4) by (simp add: validateListenAPIKey_def b64_decode_encode)
  ultimately show ?thesis by blast
qed

section \<open>Snapshots\<close>

text \<open>A listener that serves one state with so many selected items, page by page.\<close>

definition serves :: "int \<Rightarrow> int \<Rightarrow> int \<Rightarrow> snapshot_env \<Rightarrow> bool" where
  "serves m t n env \<longleftrightarrow> (\<forall>k off. 0 \<le> off \<longrightarrow> off \<le> n \<longrightarrow>
      (\<exists>d. se_page env k off = (Inr \<lparr>pg_matched = m, pg_total = t, pg_selected = min selectedPageSize (n - off)\<rparr>, d)))
     \<and> (\<forall>k. se_cycle env k = None)"

lemma page_loop_serves:
  assumes "serves m t n env" and "counts_ok PickerCP m t n"
    and "1 \<le> k" and "k \<le> maxSelectedPages" and "off = int k * selectedPageSize \<and> off \<le> n \<and> pg_selected page = selectedPageSize
      \<or> off = n \<and> pg_selected page < selectedPageSize \<and> n < int k * selectedPageSize"
  shows "if n < int maxSelectedPages * selectedPageSize then fst (page_loop env m t off off k page d) = Inr n
    else fst (page_loop env m t off off k page d) = Inl (wrapOperationError errStateTooLarge)"
  using assms(3-)
proof (induction "maxSelectedPages - k" arbitrary: k off page d rule: less_induct)
  case less
  show ?case
  proof (cases "pg_selected page = selectedPageSize")
    case False
    then have "off = n" "n < int k * selectedPageSize" using less.prems by auto
    moreover have "int k * selectedPageSize \<le> int maxSelectedPages * selectedPageSize" using less.prems(2) by (simp add: selectedPageSize_def)
    ultimately show ?thesis using False by (subst page_loop.simps) (simp add: page_loop.simps)
  next
    case full: True
    then have off: "off = int k * selectedPageSize" "off \<le> n" using less.prems(3) by auto
    show ?thesis
    proof (cases "k = maxSelectedPages")
      case True
      then have "\<not> n < int maxSelectedPages * selectedPageSize" using off by simp
      moreover have "fst (page_loop env m t off off k page d) = Inl (wrapOperationError errStateTooLarge)"
        using full True by (subst page_loop.simps) (simp add: invalid_state_def)
      ultimately show ?thesis by simp
    next
      case False
      then have k: "k < maxSelectedPages" using less.prems(2) by simp
      have off0: "0 \<le> off" using off(1) by (simp add: selectedPageSize_def)
      obtain d' where page: "se_page env k off = (Inr \<lparr>pg_matched = m, pg_total = t, pg_selected = min selectedPageSize (n - off)\<rparr>, d')"
        using assms(1) off(2) off0 unfolding serves_def by blast
      let ?sel = "min selectedPageSize (n - off)"
      let ?page = "\<lparr>pg_matched = m, pg_total = t, pg_selected = ?sel\<rparr>"
      have sum: "off + ?sel \<le> n" "0 \<le> ?sel" "n \<le> t" "t \<le> MaxCount" using off(2) assms(2) by (auto simp: selectedPageSize_def counts_ok_def)
      have new: "\<not> isl (newFZFState PickerCP m t (off + ?sel))"
        using assms(2) sum off0 by (simp add: newFZFState_eq counts_ok_def)
      have "page_loop env m t off off k page d = page_loop env m t (off + ?sel) (off + ?sel) (Suc k) ?page d'"
        using full k page assms(1) sum new by (subst page_loop.simps) (auto simp: serves_def split: sum.splits)
      moreover have "off + ?sel = int (Suc k) * selectedPageSize \<and> off + ?sel \<le> n \<and> pg_selected ?page = selectedPageSize
        \<or> off + ?sel = n \<and> pg_selected ?page < selectedPageSize \<and> n < int (Suc k) * selectedPageSize"
        using off by (auto simp: min_def algebra_simps)
      ultimately show ?thesis using less.hyps [of "Suc k" "off + ?sel" ?page d'] k by simp
    qed
  qed
qed

text \<open>
  C20: A snapshot of the multi-selection picker counts what is selected, and stops by itself: against a listener that serves one
  state, the loop over the pages gives exactly that state when fewer than ten thousand items are selected; from ten
  thousand on, after a hundred full pages, it gives the error for a state that is too large.
\<close>

theorem snapshot_exact:
  assumes "serves m t n env" and "0 \<le> m" and "m \<le> t" and "t \<le> MaxCount" and "0 \<le> n" and "n \<le> t"
  shows "fst (getStateResult PickerCP env) =
    (if n < 10000 then newFZFState PickerCP m t n else Inl (wrapOperationError errStateTooLarge))"
proof -
  let ?sel = "min selectedPageSize n"
  let ?page = "\<lparr>pg_matched = m, pg_total = t, pg_selected = ?sel\<rparr>"
  have ok: "counts_ok PickerCP m t n" using assms by (simp add: counts_ok_def)
  obtain d where page: "se_page env 0 0 = (Inr ?page, d)" using assms(1,5) by (fastforce simp: serves_def)
  have first: "\<not> isl (newFZFState PickerCP m t ?sel)" "?sel \<le> selectedPageSize"
    using assms by (simp_all add: newFZFState_eq counts_ok_def selectedPageSize_def)
  have "?sel = int 1 * selectedPageSize \<and> ?sel \<le> n \<and> pg_selected ?page = selectedPageSize
      \<or> ?sel = n \<and> pg_selected ?page < selectedPageSize \<and> n < int 1 * selectedPageSize" by auto
  from page_loop_serves [OF assms(1) ok _ _ this, of d]
  have loop: "fst (page_loop env m t ?sel ?sel 1 ?page d) = (if n < 10000 then Inr n else Inl (wrapOperationError errStateTooLarge))"
    by (simp add: maxSelectedPages_def selectedPageSize_def split: if_splits)
  have run: "getStateResult PickerCP env = (case page_loop env m t ?sel ?sel 1 ?page d of
        (Inl e, d) \<Rightarrow> (Inl e, d) | (Inr selected, d) \<Rightarrow> finish_state PickerCP m t selected d)"
    using page first assms(1) by (auto simp: getStateResult_def serves_def split: sum.splits prod.splits)
  show ?thesis unfolding run using loop ok
    by (auto simp: finish_state_def newFZFState_eq split: prod.splits sum.splits if_splits)
qed

definition demo_listener :: "int \<Rightarrow> int \<Rightarrow> int \<Rightarrow> snapshot_env" where
  "demo_listener m t n = \<lparr>se_page = (\<lambda>k off. (Inr \<lparr>pg_matched = m, pg_total = t, pg_selected = min selectedPageSize (n - off)\<rparr>,
     \<lparr>dg_status = 200, dg_reason = ReasonHTTPStatus\<rparr>)), se_cycle = (\<lambda>_. None), se_ctx = None\<rparr>"

theorem snapshot_exact_witness:
  "fst (getStateResult PickerCP (demo_listener 5 20000 250)) = newFZFState PickerCP 5 20000 250"
  using snapshot_exact [of 5 20000 250 "demo_listener 5 20000 250"] by (simp add: serves_def demo_listener_def MaxCount_def)

theorem New_sidecar_accepted_witness:
  "validateListenAddress ''127.0.0.1:80'' = None \<and> validateListenAPIKey (b64_encode RawURLEncoding (replicate 32 CHR 0x00)) = None"
proof (rule New_sidecar_accepted)
  show "New_sidecar PickerCD \<lparr>su_reserve = Inr (Some (Some (TCPAddr (Some [127, 0, 0, 1]) 80))), su_random = Inr (replicate 32 CHR 0x00), su_close = None\<rparr>
    = Inr (''127.0.0.1:80'', b64_encode RawURLEncoding (replicate 32 CHR 0x00))"
  proof -
    have "itoa 80 = ''80''" by code_simp
    then show ?thesis by (simp add: New_sidecar_def loopbackPort_def)
  qed
qed simp

section \<open>Retries\<close>

text \<open>
  A cycle that gets nowhere in a session that shows \<open>last\<close>: the snapshot fails (other than by an inconsistent
  one, which is simply taken again), or there is something new to show and the post fails.
\<close>

definition cycle_fails :: "string option \<Rightarrow> cycle \<Rightarrow> bool" where
  "cycle_fails shown c =
     (case cy_get c of
        Inl e \<Rightarrow> \<not> errors_is e errInconsistentSnapshot
      | Inr s \<Rightarrow> cy_post c \<noteq> None \<and> (case renderedLabel s of Inl _ \<Rightarrow> True | Inr l \<Rightarrow> shown \<noteq> Some l))"

text \<open>The clock moves by at least the retry interval from one cycle to the next.\<close>

fun spaced :: "cycle list \<Rightarrow> bool" where
  "spaced (a # b # cs) = (cy_now a + transientRetryInterval \<le> cy_now b \<and> spaced (b # cs))"
| "spaced _ = True"

lemma spaced_tl: "spaced (c # cs) \<Longrightarrow> spaced cs"
  by (cases cs) auto

lemma spaced_append: "spaced (xs @ ys) \<Longrightarrow> spaced ys"
  by (induction xs) (auto dest: spaced_tl)

lemma spaced_prefix: "spaced (xs @ ys) \<Longrightarrow> spaced xs"
proof (induction xs)
  case (Cons a xs)
  then show ?case by (cases xs) auto
qed simp

lemma spaced_last: "spaced (c # cs) \<Longrightarrow> cy_now c + int (length cs) * transientRetryInterval \<le> cy_now (last (c # cs))"
proof (induction cs arbitrary: c)
  case (Cons d cs)
  then have "cy_now c + transientRetryInterval \<le> cy_now d"
    "cy_now d + int (length cs) * transientRetryInterval \<le> cy_now (last (d # cs))" by auto
  then show ?case by (simp add: algebra_simps)
qed simp

lemma run_append:
  "pr_end (run_loop cls dl cause (xs @ ys) p) =
     (case pr_end (run_loop cls dl cause xs p) of Stops r \<Rightarrow> Stops r | Continues q \<Rightarrow> pr_end (run_loop cls dl cause ys q))"
  by (induction xs arbitrary: p) (auto simp: Let_def split: cycle_end.splits)

lemma run_Cons:
  "pr_end (run_loop cls dl cause (c # cs) p) = Continues q \<Longrightarrow>
     \<exists>p'. cr_end (run_cycle cls dl c p) = Continues p' \<and> pr_end (run_loop cls dl cause cs p') = Continues q"
  by (auto simp: Let_def split: cycle_end.splits)

lemma failed_get:
  assumes "cy_get c = Inl e" and "\<not> errors_is e errInconsistentSnapshot" and "po_ready p" and "cr_end (run_cycle cls dl c p) = Continues q"
  shows "po_window q = Some (case po_window p of None \<Rightarrow> cy_now c | Some s \<Rightarrow> s)" and "po_ready q" and "po_last q = po_last p"
    and "po_pending q = po_pending p" and "po_window p = Some s \<Longrightarrow> cy_now c - s < transientRetryWindow"
  using assms
  by (auto simp: run_cycle_def get_failed_def window_allow_def continue_if_def Let_def split: if_splits option.splits)

lemma failed_post:
  assumes "cy_get c = Inr s" and "cycle_fails (po_last p) c" and "cr_end (run_cycle cls dl c p) = Continues q"
  shows "po_window q = Some (case (if po_pending p then po_window p else None) of None \<Rightarrow> cy_now c | Some s \<Rightarrow> s)" and "po_ready q"
    and "po_last q = po_last p" and "po_pending q"
    and "po_pending p \<Longrightarrow> po_window p = Some s0 \<Longrightarrow> cy_now c - s0 < transientRetryWindow"
  using assms
  by (auto simp: run_cycle_def cycle_fails_def post_failed_def window_allow_def continue_if_def Let_def
      split: if_splits option.splits sum.splits)

text \<open>While a window is open and stays open, no cycle that goes on lies beyond it.\<close>

lemma open_window:
  assumes "po_ready p" and "po_window p = Some s0" and "\<forall>c\<in>set cs. cycle_fails (po_last p) c"
    and "po_pending p \<or> (\<forall>c\<in>set cs. isl (cy_get c))" and "pr_end (run_loop cls dl cause cs p) = Continues q"
  shows "\<forall>c\<in>set cs. cy_now c - s0 < transientRetryWindow"
  using assms
proof (induction cs arbitrary: p)
  case (Cons c cs)
  obtain p' where step: "cr_end (run_cycle cls dl c p) = Continues p'" and rest: "pr_end (run_loop cls dl cause cs p') = Continues q"
    using run_Cons [OF Cons.prems(5)] by blast
  have fails: "cycle_fails (po_last p) c" using Cons.prems(3) by simp
  have "po_ready p' \<and> po_window p' = Some s0 \<and> po_last p' = po_last p \<and> (po_pending p' \<or> (\<forall>c\<in>set cs. isl (cy_get c)))
    \<and> cy_now c - s0 < transientRetryWindow"
  proof (cases "cy_get c")
    case (Inl e)
    then have "\<not> errors_is e errInconsistentSnapshot" using fails by (simp add: cycle_fails_def)
    from failed_get [OF Inl this Cons.prems(1) step] Cons.prems(2,4) show ?thesis by auto
  next
    case (Inr s)
    then have "po_pending p" using Cons.prems(4) by auto
    with failed_post [OF Inr fails step] Cons.prems(2) show ?thesis by auto
  qed
  with Cons.IH [of p'] rest Cons.prems(3) show ?case by auto
qed simp

lemma window_runs_out:
  assumes "po_ready p" and "po_window p = Some s0" and "\<forall>c\<in>set cs. cycle_fails (po_last p) c"
    and "po_pending p \<or> (\<forall>c\<in>set cs. isl (cy_get c))" and "spaced cs" and "80 < length cs" and "s0 \<le> cy_now (hd cs)"
  shows "\<exists>r. pr_end (run_loop cls dl cause cs p) = Stops r"
proof (rule ccontr)
  assume "\<not> ?thesis"
  then obtain q where run: "pr_end (run_loop cls dl cause cs p) = Continues q" by (meson cycle_end.exhaust)
  obtain c ds where cs: "cs = c # ds" using assms(6) by (cases cs) auto
  have "cy_now (last cs) - s0 < transientRetryWindow" using open_window [OF assms(1-4) run] cs by auto
  moreover have "cy_now c + int (length ds) * transientRetryInterval \<le> cy_now (last cs)" using spaced_last assms(5) cs by blast
  moreover have "int (length ds) * transientRetryInterval \<ge> 80 * transientRetryInterval" using assms(6) cs by (simp add: transientRetryInterval_def)
  ultimately show False using assms(7) cs by (simp add: transientRetryWindow_def transientRetryInterval_def)
qed

text \<open>Snapshots that all fail: the first one opens a window if there is none.\<close>

lemma failing_gets_stop:
  assumes "po_ready p" and "\<forall>c\<in>set cs. cycle_fails (po_last p) c \<and> isl (cy_get c)" and "spaced cs" and "81 < length cs"
    and "\<forall>s. po_window p = Some s \<longrightarrow> s \<le> cy_now (hd cs)"
  shows "\<exists>r. pr_end (run_loop cls dl cause cs p) = Stops r"
proof (rule ccontr)
  assume not: "\<not> ?thesis"
  then obtain q where run: "pr_end (run_loop cls dl cause cs p) = Continues q" by (meson cycle_end.exhaust)
  obtain c ds where cs: "cs = c # ds" using assms(4) by (cases cs) auto
  obtain p' where step: "cr_end (run_cycle cls dl c p) = Continues p'" and rest: "pr_end (run_loop cls dl cause ds p') = Continues q"
    using run run_Cons unfolding cs by blast
  obtain e where e: "cy_get c = Inl e" "\<not> errors_is e errInconsistentSnapshot" using assms(2) cs by (cases "cy_get c") (auto simp: cycle_fails_def)
  note after = failed_get [OF e assms(1) step]
  obtain d es where ds: "ds = d # es" using assms(4) cs by (cases ds) auto
  let ?s0 = "case po_window p of None \<Rightarrow> cy_now c | Some s \<Rightarrow> s"
  have "?s0 \<le> cy_now (hd ds)" using assms(3,5) cs ds by (auto simp: transientRetryInterval_def split: option.splits)
  moreover have "spaced ds" using assms(3) cs spaced_tl by blast
  ultimately have "\<exists>r. pr_end (run_loop cls dl cause ds p') = Stops r"
    using after assms(2,4) cs by (intro window_runs_out [of p' ?s0]) auto
  with rest show False by simp
qed

lemma failing_gets_keep:
  "po_ready p \<Longrightarrow> \<forall>c\<in>set cs. cycle_fails (po_last p) c \<and> isl (cy_get c) \<Longrightarrow> pr_end (run_loop cls dl cause cs p) = Continues q
    \<Longrightarrow> po_ready q \<and> po_last q = po_last p \<and> po_pending q = po_pending p"
proof (induction cs arbitrary: p)
  case (Cons c cs)
  obtain p' where step: "cr_end (run_cycle cls dl c p) = Continues p'" and rest: "pr_end (run_loop cls dl cause cs p') = Continues q"
    using run_Cons [OF Cons.prems(3)] by blast
  obtain e where e: "cy_get c = Inl e" "\<not> errors_is e errInconsistentSnapshot" using Cons.prems(2) by (cases "cy_get c") (auto simp: cycle_fails_def)
  from failed_get(2-4) [OF e Cons.prems(1) step] Cons.IH [of p'] Cons.prems(2) rest show ?case by auto
qed simp

text \<open>After a failed post, or with one outstanding, every later failure counts against one window.\<close>

lemma pending_window:
  assumes "po_ready p" and "po_pending p \<or> \<not> isl (cy_get c)" and "\<forall>d\<in>set (c # ds). cycle_fails (po_last p) d" and "spaced (c # ds)"
    and "80 < length ds" and "po_pending p \<Longrightarrow> \<forall>s. po_window p = Some s \<longrightarrow> s \<le> cy_now c"
  shows "\<exists>r. pr_end (run_loop cls dl cause (c # ds) p) = Stops r"
proof (rule ccontr)
  assume "\<not> ?thesis"
  then obtain q where run: "pr_end (run_loop cls dl cause (c # ds) p) = Continues q" by (meson cycle_end.exhaust)
  obtain p' where step: "cr_end (run_cycle cls dl c p) = Continues p'" and rest: "pr_end (run_loop cls dl cause ds p') = Continues q"
    using run_Cons [OF run] by blast
  have fails: "cycle_fails (po_last p) c" using assms(3) by simp
  obtain s0 where after: "po_ready p'" "po_pending p'" "po_last p' = po_last p" "po_window p' = Some s0" "s0 \<le> cy_now c"
  proof (cases "cy_get c")
    case (Inl e)
    then have e: "\<not> errors_is e errInconsistentSnapshot" using fails by (simp add: cycle_fails_def)
    show thesis by (rule that [of "case po_window p of None \<Rightarrow> cy_now c | Some s \<Rightarrow> s"])
      (use failed_get(1-4) [OF Inl e assms(1) step] assms(2,6) Inl in \<open>auto split: option.splits\<close>)
  next
    case (Inr s)
    show thesis by (rule that [of "case (if po_pending p then po_window p else None) of None \<Rightarrow> cy_now c | Some s \<Rightarrow> s"])
      (use failed_post(1-4) [OF Inr fails step] assms(6) in \<open>auto split: option.splits\<close>)
  qed
  obtain d es where ds: "ds = d # es" using assms(5) by (cases ds) auto
  have "cy_now c \<le> cy_now (hd ds)" "spaced ds" using assms(4) ds by (auto simp: transientRetryInterval_def)
  then have "\<exists>r. pr_end (run_loop cls dl cause ds p') = Stops r"
    using after assms(3,5) by (intro window_runs_out [of p' s0]) auto
  with rest show False by simp
qed

text \<open>
  C19: The sidecar does not retry forever: when fzf stops answering a session that was ready, or no longer takes its labels, then
  after at most 164 failing cycles at the retry interval (about four seconds) the polling loop has stopped.  The bound
  is two windows of two seconds: failing snapshots share one window, and the first failing post opens the one that
  later failures, of either kind, share.
\<close>

theorem retries_give_up:
  assumes "po_ready p" and "\<forall>c\<in>set cs. cycle_fails (po_last p) c" and "spaced cs" and "164 \<le> length cs"
    and "\<forall>s. po_window p = Some s \<longrightarrow> s \<le> cy_now (hd cs)"
  shows "\<exists>r. pr_end (run_loop cls deadline cause cs p) = Stops r"
proof -
  define pre rest where "pre = takeWhile (\<lambda>c. isl (cy_get c)) cs" and "rest = dropWhile (\<lambda>c. isl (cy_get c)) cs"
  have split: "cs = pre @ rest" by (simp add: pre_def rest_def)
  have all_gets: "\<forall>c\<in>set pre. cycle_fails (po_last p) c \<and> isl (cy_get c)" using assms(2) by (auto simp: pre_def dest: set_takeWhileD)
  consider (pending) "po_pending p" | (gets) "\<not> po_pending p" "81 < length pre" | (post) "\<not> po_pending p" "length pre \<le> 81" by linarith
  then show ?thesis
  proof cases
    case pending
    obtain c ds where cs: "cs = c # ds" using assms(4) by (cases cs) auto
    show ?thesis unfolding cs by (rule pending_window) (use pending assms cs in auto)
  next
    case gets
    then have "hd pre = hd cs" unfolding split by (cases pre) auto
    then have "\<exists>r. pr_end (run_loop cls deadline cause pre p) = Stops r"
      using gets all_gets assms(1,3,5) spaced_prefix split by (intro failing_gets_stop) auto
    then show ?thesis unfolding split run_append by auto
  next
    case post
    have "82 < length rest" using post(2) assms(4) unfolding split by simp
    then obtain c ds where rest: "rest = c # ds" "80 < length ds" by (cases rest) auto
    then have c: "\<not> isl (cy_get c)" unfolding rest_def by (metis hd_dropWhile list.sel(1) list.distinct(1))
    show ?thesis
    proof (cases "pr_end (run_loop cls deadline cause pre p)")
      case (Continues q)
      from failing_gets_keep [OF assms(1) all_gets this] have q: "po_ready q" "po_last q = po_last p" "\<not> po_pending q" using post(1) by auto
      have "spaced rest" using assms(3) split spaced_append by blast
      then have "\<exists>r. pr_end (run_loop cls deadline cause rest q) = Stops r"
        unfolding rest(1) by (intro pending_window) (use q c rest assms(2) split in auto)
      then show ?thesis unfolding split run_append Continues by auto
    next
      case (Stops r)
      then show ?thesis unfolding split run_append by auto
    qed
  qed
qed

lemma spacedI: "(\<And>i. Suc i < length cs \<Longrightarrow> cy_now (cs ! i) + transientRetryInterval \<le> cy_now (cs ! Suc i)) \<Longrightarrow> spaced cs"
proof (induction cs rule: spaced.induct)
  case (1 a b cs)
  have "cy_now ((b # cs) ! i) + transientRetryInterval \<le> cy_now ((b # cs) ! Suc i)" if "Suc i < length (b # cs)" for i
    using that "1.prems" [of "Suc i"] by simp
  with "1.IH" "1.prems" [of 0] show ?case by simp
qed simp_all

definition demo_cycle :: "fzf_state result \<Rightarrow> int \<Rightarrow> cycle" where
  "demo_cycle got now = \<lparr>cy_get = got, cy_get_start = now, cy_get_end = now, cy_get_done = False, cy_post = None, cy_post_start = now,
     cy_post_end = now, cy_post_done = False, cy_now = now, cy_before_wait = now, cy_timer = True, cy_after_wait = now, cy_stop_done = False\<rparr>"

theorem retries_give_up_witness:
  "\<exists>r. pr_end (run_loop \<lparr>ec_net_temporary = (\<lambda>_. False), ec_url_cause = (\<lambda>_. None), ec_errno = (\<lambda>_. None)\<rparr> 0 None
     (map (\<lambda>i. demo_cycle (Inl errTransientCycle) (int i * transientRetryInterval)) [0..<164]) (new_poll\<lparr>po_ready := True\<rparr>)) = Stops r"
proof (rule retries_give_up)
  show "spaced (map (\<lambda>i. demo_cycle (Inl errTransientCycle) (int i * transientRetryInterval)) [0..<164])"
    by (rule spacedI) (simp add: demo_cycle_def algebra_simps)
qed (auto simp: new_poll_def demo_cycle_def cycle_fails_def sidecar_errors)

section \<open>What fzf shows\<close>

lemma posted_last:
  "pr_end (run_loop cls dl cause cs p) = Continues q \<Longrightarrow>
     po_last q = (if pr_posted (run_loop cls dl cause cs p) = [] then po_last p else Some (last (pr_posted (run_loop cls dl cause cs p))))"
proof (induction cs arbitrary: p)
  case (Cons c cs)
  obtain p' where step: "cr_end (run_cycle cls dl c p) = Continues p'" and rest: "pr_end (run_loop cls dl cause cs p') = Continues q"
    using run_Cons [OF Cons.prems] by blast
  have "po_last p' = (case cr_posted (run_cycle cls dl c p) of None \<Rightarrow> po_last p | Some l \<Rightarrow> Some l)"
    using step by (auto simp: run_cycle_def get_failed_def post_failed_def continue_if_def Let_def
        split: sum.splits option.splits if_splits prod.splits)
  with Cons.IH [OF rest] step show ?case by (auto simp: Let_def split: option.splits)
qed simp

lemma cycle_shows:
  assumes "cy_get c = Inr s" and "cr_end (run_cycle cls dl c p) = Continues q" and "\<not> po_pending q"
  shows "\<exists>l. renderedLabel s = Inr l \<and> po_last q = Some l"
  using assms
  by (auto simp: run_cycle_def post_failed_def continue_if_def Let_def split: sum.splits option.splits if_splits prod.splits)

lemma no_needless_posts:
  "\<forall>c\<in>set cs. cy_post c = None \<Longrightarrow> \<not> po_pending p
    \<Longrightarrow> distinct_adj ((case po_last p of None \<Rightarrow> [] | Some l \<Rightarrow> [l]) @ pr_posted (run_loop cls dl cause cs p))"
proof (induction cs arbitrary: p)
  case (Cons c cs)
  let ?r = "run_cycle cls dl c p"
  have new: "cr_posted ?r = Some l \<Longrightarrow> po_last p \<noteq> Some l" for l
    using Cons.prems by (auto simp: run_cycle_def Let_def split: sum.splits option.splits if_splits)
  show ?case
  proof (cases "cr_end ?r")
    case (Stops r)
    then show ?thesis using new by (auto simp: Let_def split: option.splits)
  next
    case (Continues p')
    have "\<not> po_pending p' \<and> po_last p' = (case cr_posted ?r of None \<Rightarrow> po_last p | Some l \<Rightarrow> Some l)"
      using Continues Cons.prems by (auto simp: run_cycle_def get_failed_def continue_if_def Let_def
          split: sum.splits option.splits if_splits prod.splits)
    then show ?thesis using Cons.IH [of p'] Cons.prems new Continues
      by (auto simp: Let_def split: option.splits)
  qed
qed (simp split: option.splits)

text \<open>
  C21: What fzf shows is current: while the session polls, the label it counts as shown is the last one fzf accepted; when its
  last cycle had a snapshot and no post is outstanding, that label is the one of this snapshot; and as long as no
  post fails, no label is posted twice in a row.
\<close>

theorem label_current:
  assumes "pr_end (run_loop cls deadline cause (cs @ [c]) new_poll) = Continues q"
  defines "posted \<equiv> pr_posted (run_loop cls deadline cause (cs @ [c]) new_poll)"
  shows "po_last q = (if posted = [] then None else Some (last posted))
    \<and> (\<forall>s. cy_get c = Inr s \<longrightarrow> \<not> po_pending q \<longrightarrow> posted \<noteq> [] \<and> renderedLabel s = Inr (last posted))
    \<and> ((\<forall>d\<in>set (cs @ [c]). cy_post d = None) \<longrightarrow> distinct_adj posted)"
proof (intro conjI)
  show last: "po_last q = (if posted = [] then None else Some (last posted))"
    using posted_last [OF assms(1)] by (simp add: posted_def new_poll_def)
  obtain p where "cr_end (run_cycle cls deadline c p) = Continues q"
    using assms(1) by (auto simp: run_append Let_def split: cycle_end.splits)
  then have "\<exists>l. renderedLabel s = Inr l \<and> po_last q = Some l" if "cy_get c = Inr s" "\<not> po_pending q" for s
    using cycle_shows that by blast
  with last show "\<forall>s. cy_get c = Inr s \<longrightarrow> \<not> po_pending q \<longrightarrow> posted \<noteq> [] \<and> renderedLabel s = Inr (last posted)"
    by (fastforce split: if_splits)
  show "(\<forall>d\<in>set (cs @ [c]). cy_post d = None) \<longrightarrow> distinct_adj posted"
    using no_needless_posts [of "cs @ [c]" new_poll] by (simp add: posted_def new_poll_def)
qed

theorem label_current_witness:
  "\<exists>q. pr_end (run_loop \<lparr>ec_net_temporary = (\<lambda>_. False), ec_url_cause = (\<lambda>_. None), ec_errno = (\<lambda>_. None)\<rparr> 0 None
     ([] @ [demo_cycle (Inr \<lparr>fz_picker = PickerCD, fz_matched = 1, fz_total = 2, fz_selected = 0, fz_formatted = []\<rparr>) 0]) new_poll) = Continues q
     \<and> po_last q = Some (label_text PickerCD 1 2 0)"
proof -
  let ?s = "\<lparr>fz_picker = PickerCD, fz_matched = 1, fz_total = 2, fz_selected = 0, fz_formatted = []\<rparr>"
  let ?cls = "\<lparr>ec_net_temporary = (\<lambda>_. False), ec_url_cause = (\<lambda>_. None), ec_errno = (\<lambda>_. None)\<rparr>"
  let ?c = "demo_cycle (Inr ?s) 0"
  have ok: "renderedLabel ?s = Inr (label_text PickerCD 1 2 0)" by (simp add: renderedLabel_eq counts_ok_def MaxCount_def)
  then obtain q where run: "pr_end (run_loop ?cls 0 None ([] @ [?c]) new_poll) = Continues q" and q: "\<not> po_pending q"
    by (simp add: run_cycle_def demo_cycle_def new_poll_def continue_if_def waitForNextCycle_def Let_def)
  let ?posted = "pr_posted (run_loop ?cls 0 None ([] @ [?c]) new_poll)"
  note current = label_current [OF run]
  have "cy_get ?c = Inr ?s" by (simp add: demo_cycle_def)
  then have "?posted \<noteq> []" "renderedLabel ?s = Inr (last ?posted)" using current q by blast+
  moreover have "po_last q = (if ?posted = [] then None else Some (last ?posted))" using current by blast
  ultimately have "po_last q = Some (label_text PickerCD 1 2 0)" using ok by (simp del: run_loop.simps)
  with run show ?thesis by blast
qed

section \<open>What the sidecar reports\<close>

definition event_ok :: "observer_event \<Rightarrow> bool" where
  "event_ok e \<longleftrightarrow> (oe_kind e = ObserverStop \<and> oe_stop_reason e \<noteq> StopReasonOther \<and> oe_attempt e = 0 \<and> oe_duration e = 0)
     \<or> (oe_kind e \<in> {GetSuccess, GetTransient, GetTerminal, PostSuccess, PostTransient, PostTerminal}
        \<and> oe_attempt e \<noteq> 0 \<and> oe_attempt e \<le> 1000000 \<and> 0 \<le> sint (oe_duration e) \<and> sint (oe_duration e) \<le> 2000000000)"

lemma observerDuration_word: "0 \<le> sint (word_of_int (observerDuration a b) :: duration) \<and> sint (word_of_int (observerDuration a b) :: duration) \<le> 2000000000"
proof -
  have "0 \<le> observerDuration a b" "observerDuration a b \<le> 2000000000"
    by (simp_all add: observerDuration_def selectedPaginationTimeout_def Let_def)
  then show ?thesis by (simp add: sint_sbintrunc' signed_take_bit_int_eq_self)
qed

lemma next_attempt:
  assumes "unat (a::u64) < 1000000"
  shows "a + 1 \<noteq> 0" and "a + 1 \<le> 1000000" and "unat (a + 1) = Suc (unat a)"
proof -
  show suc: "unat (a + 1) = Suc (unat a)" using assms by (simp add: unat_word_ariths)
  then show "a + 1 \<noteq> 0" by (metis nat.distinct(1) unat_0)
  show "a + 1 \<le> 1000000" using suc assms by (simp add: word_le_nat_alt)
qed

lemma cycle_events:
  assumes "unat (po_gets p) < 1000000" and "unat (po_posts p) < 1000000"
  shows "\<forall>e\<in>set (cr_events (run_cycle cls dl c p)). event_ok e"
    and "cr_end (run_cycle cls dl c p) = Continues q \<Longrightarrow> unat (po_gets q) \<le> Suc (unat (po_gets p)) \<and> unat (po_posts q) \<le> Suc (unat (po_posts p))"
    and "cr_end (run_cycle cls dl c p) = Stops r \<Longrightarrow> r \<noteq> StopReasonOther"
proof -
  have get: "\<forall>e\<in>set (get_event cls c (po_gets p + 1)). event_ok e"
    using next_attempt [OF assms(1)] observerDuration_word
    by (auto simp: get_event_def event_ok_def classifyObserverOperation_def split: option.splits)
  have post: "\<forall>e\<in>set (post_event cls c (po_posts p + 1)). event_ok e"
    using next_attempt [OF assms(2)] observerDuration_word
    by (auto simp: post_event_def event_ok_def classifyObserverOperation_def split: option.splits)
  show "\<forall>e\<in>set (cr_events (run_cycle cls dl c p)). event_ok e"
    using get post by (auto simp: run_cycle_def Let_def split: sum.splits option.splits)
  show "cr_end (run_cycle cls dl c p) = Continues q \<Longrightarrow> unat (po_gets q) \<le> Suc (unat (po_gets p)) \<and> unat (po_posts q) \<le> Suc (unat (po_posts p))"
    using next_attempt(3) [OF assms(1)] next_attempt(3) [OF assms(2)]
    by (auto simp: run_cycle_def get_failed_def post_failed_def continue_if_def Let_def split: sum.splits option.splits if_splits prod.splits)
  show "cr_end (run_cycle cls dl c p) = Stops r \<Longrightarrow> r \<noteq> StopReasonOther"
    by (auto simp: run_cycle_def get_failed_def post_failed_def continue_if_def Let_def split: sum.splits option.splits if_splits prod.splits)
qed

lemma run_events:
  "unat (po_gets p) + length cs \<le> 1000000 \<Longrightarrow> unat (po_posts p) + length cs \<le> 1000000 \<Longrightarrow> cause \<noteq> Some StopReasonOther
    \<Longrightarrow> \<forall>e\<in>set (pr_events (run_loop cls dl cause cs p)). event_ok e"
proof (induction cs arbitrary: p)
  case (Cons c cs)
  have room: "unat (po_gets p) < 1000000" "unat (po_posts p) < 1000000" using Cons.prems by auto
  note cycle = cycle_events [OF room]
  show ?case
  proof (cases "cr_end (run_cycle cls dl c p)")
    case (Stops r)
    then show ?thesis using cycle(1) cycle(3) [OF Stops] Cons.prems(3)
      by (auto simp: Let_def event_ok_def stop_event_def finishRun_def split: option.splits)
  next
    case (Continues q)
    with cycle(2) [OF Continues] Cons.prems have "\<forall>e\<in>set (pr_events (run_loop cls dl cause cs q)). event_ok e"
      by (intro Cons.IH) auto
    then show ?thesis using cycle(1) Continues by (auto simp: Let_def)
  qed
qed simp

lemma event_ok_traced:
  assumes "event_ok e"
  obtains te where "newSidecarTraceObserver e = Some te" and "validateTraceEvent now te = None"
proof -
  obtain name outcome where cat: "sidecarTraceCategory e = Some (name, outcome)" "name \<in> {''sidecar.get'', ''sidecar.post'', ''sidecar.stop''}"
    "validTraceOutcomeWithSchema name outcome productionTraceSchema" "name = ''sidecar.stop'' \<longleftrightarrow> oe_kind e = ObserverStop"
    using assms by (cases "oe_kind e"; cases "oe_stop_reason e")
      (auto simp: event_ok_def sidecarTraceCategory_def validTraceOutcomeWithSchema_def productionTraceSchema_def schemaContains_def)
  let ?te = "(event_of name outcome)\<lparr>te_sidecar_attempt := oe_attempt e, te_local := sint (oe_duration e)\<rparr>"
  have "validate_event_fields ?te productionTraceSchema = None"
    using cat(2) by (auto simp: validate_event_fields_def event_of_def schema_bounds isPreviewEvent_def)
  moreover have "validateZoxideFields ?te productionTraceSchema = None"
    using cat(2) by (auto simp: validateZoxideFields_def has_zoxide_fields_def event_of_def schema_bounds)
  moreover have "validateSidecarFields ?te productionTraceSchema = None"
  proof (cases "oe_kind e = ObserverStop")
    case True
    then have "name = ''sidecar.stop''" "oe_attempt e = 0" using cat(4) assms by (auto simp: event_ok_def)
    then show ?thesis by (simp add: validateSidecarFields_def event_of_def)
  next
    case False
    then have "name = ''sidecar.get'' \<or> name = ''sidecar.post''" "oe_attempt e \<noteq> 0" "oe_attempt e \<le> 1000000"
      using cat(2,4) assms by (auto simp: event_ok_def)
    then show ?thesis by (auto simp: validateSidecarFields_def event_of_def schema_bounds)
  qed
  moreover have "validateTimingFields ?te productionTraceSchema = None"
  proof -
    have "0 \<le> sint (oe_duration e)" "sint (oe_duration e) \<le> 2000000000" using assms by (auto simp: event_ok_def)
    then show ?thesis using cat(2) by (auto simp: validateTimingFields_def event_of_def schema_bounds)
  qed
  ultimately have valid: "validateTraceEvent now ?te = None"
    using cat(3) unfolding validateTraceEvent_def no_failure by (simp add: event_of_def timestamp_ok_def)
  have "newSidecarTraceObserver e = Some ?te" by (simp add: newSidecarTraceObserver_def cat(1))
  then show thesis using valid by (rule that)
qed

text \<open>
  C22: Everything the sidecar reports is kept by the trace: for a run of up to a million cycles, each event of the polling loop,
  its stop included, becomes a trace event that the validation accepts.
\<close>

theorem sidecar_events_traced:
  assumes "length cs \<le> 1000000" and "cause \<noteq> Some StopReasonOther" and "e \<in> set (pr_events (run_loop cls deadline cause cs new_poll))"
  shows "\<exists>te. newSidecarTraceObserver e = Some te \<and> validateTraceEvent now te = None"
proof -
  have "event_ok e" using run_events [of new_poll cs cause cls deadline] assms by (auto simp: new_poll_def)
  then show ?thesis using event_ok_traced by blast
qed

theorem sidecar_events_traced_witness:
  "\<exists>te. newSidecarTraceObserver (stop_event StopTerminal) = Some te \<and> validateTraceEvent 0 te = None"
proof (rule sidecar_events_traced)
  show "stop_event StopTerminal \<in> set (pr_events (run_loop \<lparr>ec_net_temporary = (\<lambda>_. False), ec_url_cause = (\<lambda>_. None), ec_errno = (\<lambda>_. None)\<rparr>
      0 None [demo_cycle (Inl errInvalidStatus) 0] new_poll))"
    by (simp add: run_cycle_def demo_cycle_def get_failed_def new_poll_def window_allow_def sidecar_errors isBoundedTransportError_def
        isTransientTransportCause_def isConnectionRefused_def isBoundedHTTPTransportError_def isReadinessTransportError_def finishRun_def
        ErrDeadlineExceeded_def io_EOF_def ErrUnexpectedEOF_def ErrNetClosed_def ECONNRESET_def ECONNREFUSED_def ECONNABORTED_def EPIPE_def)
qed simp_all

section \<open>Lifecycle\<close>

inductive session_step :: "sidecar_session \<Rightarrow> sidecar_session \<Rightarrow> bool" where
  session_start: "session_step s (sidecar_Start s)"
| session_stop: "session_step s (sidecar_Stop ctx_done s)"
| session_exit: "0 < ss_goroutines s \<Longrightarrow> session_step s (sidecar_exit err s)"
| session_wait: "sidecar_Wait s = Some (err, t) \<Longrightarrow> session_step s t"

definition session_inv :: "sidecar_session \<Rightarrow> bool" where
  "session_inv s \<longleftrightarrow> ss_goroutines s = (if ss_started s \<and> \<not> ss_done s then 1 else 0) \<and> (ss_done s \<longrightarrow> ss_started s)"

interpretation sessions: transition_system "\<lambda>s. s = new_sidecar_session" session_step session_inv
proof
  show "session_inv s" if "s = new_sidecar_session" for s using that by (simp add: session_inv_def new_sidecar_session_def)
  show "session_inv t" if "session_inv s" "session_step s t" for s t
    using that(2,1)
    by cases (auto simp: session_inv_def sidecar_Start_def sidecar_Stop_def recordStopCause_def sidecar_exit_def sidecar_Wait_def Let_def
        split: if_splits)
qed

definition joined :: "sidecar_session \<Rightarrow> bool" where
  "joined s \<longleftrightarrow> session_inv s \<and> (ss_done s \<or> ss_waited s \<and> \<not> ss_started s)"

interpretation joined: transition_system joined session_step joined
proof
  show "joined t" if "joined s" "session_step s t" for s t
    using that(2,1)
    by cases (auto simp: joined_def session_inv_def sidecar_Start_def sidecar_Stop_def recordStopCause_def sidecar_exit_def sidecar_Wait_def Let_def
        split: if_splits)
qed

text \<open>
  The sidecar has at most one polling goroutine, and none after a join: whatever calls were made before, once \<open>Wait\<close>
  has returned there is no goroutine, and no later call, \<open>Start\<close> included, makes one.
\<close>

theorem sidecar_join_final:
  assumes "reach (\<lambda>s. s = new_sidecar_session) session_step s"
  shows "ss_goroutines s \<le> 1 \<and> (\<forall>err t u. sidecar_Wait s = Some (err, t) \<longrightarrow> session_step\<^sup>*\<^sup>* t u \<longrightarrow> ss_goroutines u = 0)"
proof -
  have inv: "session_inv s" using assms by (rule sessions.reach_inv)
  have "ss_goroutines u = 0" if "sidecar_Wait s = Some (err, t)" "session_step\<^sup>*\<^sup>* t u" for err t u
  proof -
    have "joined t" using that(1) inv by (auto simp: joined_def session_inv_def sidecar_Wait_def split: if_splits)
    then have "joined u" using that(2) by (rule joined.steps_inv)
    then show ?thesis by (auto simp: joined_def session_inv_def)
  qed
  moreover have "ss_goroutines s \<le> 1" using inv by (simp add: session_inv_def split: if_splits)
  ultimately show ?thesis by blast
qed

theorem sidecar_join_final_witness:
  "ss_goroutines (sidecar_Start new_sidecar_session) \<le> 1"
proof -
  have "reach (\<lambda>s. s = new_sidecar_session) session_step (sidecar_Start new_sidecar_session)"
    by (rule reach_next [where s = new_sidecar_session]) (auto intro: reach_start session_start)
  from sidecar_join_final [OF this] show ?thesis by blast
qed

end
