(* ===== verification/Picker.thy ===== *)
theory Picker
  imports Sidecar
begin

text \<open>
  \<open>internal/app/cli.go\<close>, \<open>run.go\<close>, \<open>session_builder.go\<close>, \<open>frames.go\<close>, \<open>version.go\<close>: the command line, the exit codes and one
  run of the picker from its options to its outcome.

  A run is a function of what it meets: the results of the calls into the operating system, the actor and fzf, and the
  cause of its context at every point where the run reads it.  The gate of the initial enrichment and fzf's input
  are the states of \<open>Enrichment\<close> and \<open>Fzf_Process\<close>; the source goroutine, which runs beside, may change them
  between any two steps of the publication and before fzf starts, by functions of the environment.  Trace events of the run are not part of the model.
\<close>

section \<open>version.go, frames.go\<close>

definition DefaultVersion :: string where "DefaultVersion = ''dev''"

definition Version :: "string \<Rightarrow> string" where
  "Version build = (if build = [] then DefaultVersion else build)"

definition frameCandidateRecords :: "candidate list \<Rightarrow> bytes" where
  "frameCandidateRecords records = FrameRecordValues Wire records"

section \<open>cli.go: arguments\<close>

record picker_options =
  op_picker :: picker
  op_cwd :: bytes
  op_home :: bytes
  op_output :: output_format
  op_fzf :: string
  op_executable :: string
  op_policy :: nat
  op_timeout :: int
  op_trace :: string

definition DefaultZoxideTimeout :: int where "DefaultZoxideTimeout = 75000000"

definition picker_of_text :: "string \<Rightarrow> picker" where
  "picker_of_text s = (if s = ''cd'' then PickerCD else if s = ''cp'' then PickerCP else PickerOther s)"

definition output_of_text :: "string \<Rightarrow> output_format" where
  "output_of_text s = (if s = ''nul'' then OutputNUL else if s = ''nuon'' then OutputNUON else OutputOther s)"

definition default_options :: "string \<Rightarrow> string \<Rightarrow> picker_options" where
  "default_options command executable = \<lparr>op_picker = picker_of_text command, op_cwd = [], op_home = [], op_output = OutputNUL, op_fzf = ''fzf'',
     op_executable = executable, op_policy = ZoxideCached, op_timeout = DefaultZoxideTimeout, op_trace = []\<rparr>"

text \<open>\<open>time.ParseDuration\<close>, in nanoseconds, is the parameter \<open>duration\<close>.\<close>

definition apply_flag :: "(string \<Rightarrow> int option) \<Rightarrow> string \<Rightarrow> string \<Rightarrow> picker_options \<Rightarrow> picker_options result" where
  "apply_flag duration flag v po =
     (if flag = ''--cwd'' then Inr (po\<lparr>op_cwd := v\<rparr>)
      else if flag = ''--home'' then Inr (po\<lparr>op_home := v\<rparr>)
      else if flag = ''--output''
      then (let f = output_of_text v in
            if f \<noteq> OutputNUL \<and> f \<noteq> OutputNUON then Inl (ErrText ''invalid output format'') else Inr (po\<lparr>op_output := f\<rparr>))
      else if flag = ''--fzf'' then (if v = [] then Inl (ErrText ''empty fzf path'') else Inr (po\<lparr>op_fzf := v\<rparr>))
      else if flag = ''--zoxide-policy'' then (case ParseZoxidePolicy v of Inl e \<Rightarrow> Inl e | Inr p \<Rightarrow> Inr (po\<lparr>op_policy := p\<rparr>))
      else if flag = ''--zoxide-timeout''
      then (case duration v of
              None \<Rightarrow> Inl (ErrText ''invalid zoxide timeout'')
            | Some t \<Rightarrow> if t < 0 then Inl (ErrText ''invalid zoxide timeout'') else Inr (po\<lparr>op_timeout := t\<rparr>))
      else if flag = ''--trace'' then (if v = [] then Inl (ErrText ''empty trace path'') else Inr (po\<lparr>op_trace := v\<rparr>))
      else Inl (ErrText ''unknown picker flag''))"

fun parse_flags :: "(string \<Rightarrow> int option) \<Rightarrow> string list \<Rightarrow> string list \<Rightarrow> picker_options \<Rightarrow> (string list \<times> picker_options) result" where
  "parse_flags duration [] seen po = Inr (seen, po)"
| "parse_flags duration [flag] seen po = Inl (ErrText ''invalid or duplicate picker flag'')"
| "parse_flags duration (flag # v # rest) seen po =
     (if \<not> has_prefix flag ''--'' \<or> flag \<in> set seen then Inl (ErrText ''invalid or duplicate picker flag'')
      else case apply_flag duration flag v po of
             Inl e \<Rightarrow> Inl e
           | Inr po' \<Rightarrow> parse_flags duration rest (flag # seen) po')"

definition parsePickerArgs :: "(string \<Rightarrow> int option) \<Rightarrow> string list \<Rightarrow> string \<Rightarrow> picker_options result" where
  "parsePickerArgs duration args executable =
     (case args of
        [] \<Rightarrow> Inl (ErrText ''invalid picker command'')
      | command # rest \<Rightarrow>
          if command \<noteq> ''cd'' \<and> command \<noteq> ''cp'' then Inl (ErrText ''invalid picker command'')
          else case parse_flags duration rest [] (default_options command executable) of
                 Inl e \<Rightarrow> Inl e
               | Inr (seen, po) \<Rightarrow>
                   if ''--cwd'' \<notin> set seen \<or> ''--home'' \<notin> set seen \<or> \<not> is_abs (op_cwd po) \<or> \<not> is_abs (op_home po)
                   then Inl (ErrText ''cwd and home must be absolute'')
                   else if \<not> is_abs executable then Inl (ErrText ''executable path must be absolute'')
                   else Inr po)"

section \<open>cli.go: previews\<close>

definition previewDimension :: "string \<Rightarrow> int \<Rightarrow> int" where
  "previewDimension raw fallback =
     (if raw = [] \<or> \<not> list_all is_digit raw then fallback
      else case atoi raw of None \<Rightarrow> fallback | Some v \<Rightarrow> if v \<le> 0 then fallback else min v 1000)"

definition previewDimensions :: "(string \<Rightarrow> string) \<Rightarrow> int \<times> int" where
  "previewDimensions lookup = (previewDimension (lookup ''FZF_PREVIEW_COLUMNS'') 80, previewDimension (lookup ''FZF_PREVIEW_LINES'') 40)"

definition preview_allowed :: "string list" where
  "preview_allowed = [''PATH'', ''LANG'', ''LANGUAGE'', ''LC_ALL'', ''LC_CTYPE'', ''LC_MESSAGES'', ''LC_COLLATE'', ''LC_MONETARY'', ''LC_NUMERIC'',
     ''LC_TIME'', ''LC_PAPER'', ''LC_NAME'', ''LC_ADDRESS'', ''LC_TELEPHONE'', ''LC_MEASUREMENT'', ''LC_IDENTIFICATION'', ''TERM'', ''COLORTERM'',
     ''NO_COLOR'']"

definition previewEnvironment :: "case_map \<Rightarrow> string list \<Rightarrow> string list" where
  "previewEnvironment cm inherited =
     SanitizeEnv cm False (filter (\<lambda>entry. case cut_equals entry of None \<Rightarrow> False | Some (key, _) \<Rightarrow> key \<in> set preview_allowed) inherited) []"

section \<open>cli.go: exit codes\<close>

record 'w exit_result =
  xr_code :: nat
  xr_out :: 'w
  xr_err :: "string option"

definition callbackMain :: "(string \<Rightarrow> ipc_client) \<Rightarrow> 'w writer \<Rightarrow> (string \<Rightarrow> string)
    \<Rightarrow> (resolved_candidate \<Rightarrow> 'w \<Rightarrow> go_error option \<times> telemetry \<times> 'w) \<Rightarrow> string list \<Rightarrow> 'w \<Rightarrow> 'w exit_result" where
  "callbackMain connect w env render args st =
     (let invalid = \<lparr>xr_code = 2, xr_out = st, xr_err = Some ''invalid callback command''\<rparr> in
      case args of
        [_, text] \<Rightarrow>
          (case Parse text of
             Inl _ \<Rightarrow> invalid
           | Inr c \<Rightarrow>
               (case ValidateLocal c (Some env) of
                  Some _ \<Rightarrow> invalid
                | None \<Rightarrow>
                    if command_Local c
                    then (let d = Dispatch None w env None c st in
                          if di_err d \<noteq> None then \<lparr>xr_code = 1, xr_out = di_out d, xr_err = Some ''callback failed''\<rparr>
                          else \<lparr>xr_code = 0, xr_out = di_out d, xr_err = None\<rparr>)
                    else (case NewClientFromEnv (Some env) of
                            Inl _ \<Rightarrow> \<lparr>xr_code = 1, xr_out = st, xr_err = Some ''callback connection unavailable''\<rparr>
                          | Inr (address, _) \<Rightarrow>
                              (let d = Dispatch (Some (connect address)) w env (Some render) c st in
                               case di_err d of
                                 None \<Rightarrow> \<lparr>xr_code = 0, xr_out = di_out d, xr_err = None\<rparr>
                               | Some e \<Rightarrow>
                                   if errors_is e ErrGrammar \<or> errors_is e ErrKey
                                   then \<lparr>xr_code = 2, xr_out = di_out d, xr_err = Some ''invalid callback command''\<rparr>
                                   else \<lparr>xr_code = 1, xr_out = di_out d, xr_err = Some ''callback failed''\<rparr>))))
      | _ \<Rightarrow> invalid)"

text \<open>Running the picker is a parameter here; \<open>RunPicker\<close> below is one.\<close>

definition runPickerCLI :: "(string \<Rightarrow> int option) \<Rightarrow> (picker_options \<Rightarrow> outcome \<times> go_error option) \<Rightarrow> 'w writer \<Rightarrow> string list \<Rightarrow> string
    \<Rightarrow> 'w \<Rightarrow> 'w exit_result" where
  "runPickerCLI duration run w args executable st =
     (case parsePickerArgs duration args executable of
        Inl _ \<Rightarrow> \<lparr>xr_code = 2, xr_out = st, xr_err = Some ''usage: shell-picker cd|cp --cwd PATH --home PATH''\<rparr>
      | Inr po \<Rightarrow>
          (case run po of
             (_, Some _) \<Rightarrow> \<lparr>xr_code = 1, xr_out = st, xr_err = Some ''shell-picker: picker failed''\<rparr>
           | (outcome, None) \<Rightarrow>
               (case EncodeOutcome w st (op_output po) outcome of
                  (Some _, st') \<Rightarrow> \<lparr>xr_code = 1, xr_out = st', xr_err = Some ''shell-picker: output failed''\<rparr>
                | (None, st') \<Rightarrow> \<lparr>xr_code = 0, xr_out = st', xr_err = None\<rparr>)))"

text \<open>Which of the programs behind the one command line an argument list asks for.\<close>

datatype main_mode = ModeVersion | ModeProbe | ModeCallback | ModePicker

definition Main_mode :: "string list \<Rightarrow> main_mode" where
  "Main_mode args =
     (if args = [''version''] then ModeVersion
      else if args \<noteq> [] \<and> hd args = ''probe'' then ModeProbe
      else if args \<noteq> [] \<and> hd args = ''--fzf-shell'' then ModeCallback
      else ModePicker)"

section \<open>session_builder.go\<close>

datatype builder_config = ConfiguredCached | ConfiguredFresh

definition NewZoxideCache_err :: "int \<Rightarrow> go_error option" where
  "NewZoxideCache_err timeout = (if timeout < 0 then Some (ErrText ''zoxide timeout must not be negative'') else None)"

definition sessionBuilder :: "picker_options \<Rightarrow> builder_config result" where
  "sessionBuilder po =
     (if op_policy po = ZoxideCached
      then (case NewZoxideCache_err (op_timeout po) of Some e \<Rightarrow> Inl e | None \<Rightarrow> Inr ConfiguredCached)
      else Inr ConfiguredFresh)"

section \<open>run.go\<close>

text \<open>The check of the two directories, in the order in which Go walks the map.\<close>

fun validate_directories :: "(bytes \<Rightarrow> bool option) \<Rightarrow> bytes list \<Rightarrow> go_error option" where
  "validate_directories stat [] = None"
| "validate_directories stat (path # rest) =
     (if \<not> is_abs path then Some (ErrText ''run picker: must be absolute'')
      else if stat path \<noteq> Some True then Some (ErrText ''run picker: must be an existing directory'')
      else validate_directories stat rest)"

definition validatePickerOptions :: "(bytes \<Rightarrow> bool option) \<Rightarrow> bool \<Rightarrow> go_error option \<Rightarrow> bool \<Rightarrow> picker_options \<Rightarrow> go_error option" where
  "validatePickerOptions stat nil_ctx cause home_first po =
     (if nil_ctx then Some (ErrText ''run picker: nil context'')
      else if op_picker po \<noteq> PickerCD \<and> op_picker po \<noteq> PickerCP then Some (ErrText ''run picker: invalid picker'')
      else if op_output po \<noteq> OutputNUL \<and> op_output po \<noteq> OutputNUON then Some (ErrText ''run picker: invalid output'')
      else if op_policy po \<noteq> ZoxideCached \<and> op_policy po \<noteq> ZoxideFresh then Some (ErrText ''run picker: invalid zoxide policy'')
      else if op_timeout po < 0 then Some (ErrText ''run picker: negative zoxide timeout'')
      else if \<not> is_abs (op_executable po) then Some (ErrText ''run picker: executable path must be absolute'')
      else case validate_directories stat (if home_first then [op_home po, op_cwd po] else [op_cwd po, op_home po]) of
             Some e \<Rightarrow> Some e
           | None \<Rightarrow> cause)"

definition selectLifecycleError :: "go_error option \<Rightarrow> go_error option \<Rightarrow> go_error option \<Rightarrow> go_error option" where
  "selectLifecycleError selected actorClose parentCause =
     (if selected \<noteq> None then selected else if actorClose \<noteq> None then actorClose else parentCause)"

definition traceDiscardOutcome :: "go_error \<Rightarrow> string" where
  "traceDiscardOutcome e =
     (if errors_is e ErrCanceled \<or> errors_is e ErrDeadlineExceeded \<or> errors_is e ErrClosed then ''cancelled''
      else if errors_is e ErrStaleGeneration then ''stale''
      else if errors_is e ErrSuperseded then ''superseded''
      else ''error'')"

text \<open>The closure through which the actor builds candidates.\<close>

definition run_generate :: "unicode \<Rightarrow> bytes \<Rightarrow> (build_request \<Rightarrow> build_result result) \<Rightarrow> build_request \<Rightarrow> build_result result" where
  "run_generate u home buildLocal request =
     (case buildLocal request of
        Inl e \<Rightarrow> Inl e
      | Inr b \<Rightarrow> Inr (b\<lparr>bl_records := CompactHomeDisplays u (bl_records b) home\<rparr>))"

definition initialPrompt :: string where "initialPrompt = ''[I] ''"

definition initialState :: "picker_options \<Rightarrow> sstate" where
  "initialState po = \<lparr>st_picker = op_picker po, st_mode = ModeInsert, st_location = Filesystem (op_cwd po), st_home = Filesystem (op_home po),
     st_prompt = initialPrompt, st_add_error = False\<rparr>"

definition initial_transition :: "picker_options \<Rightarrow> proposed" where
  "initial_transition po = \<lparr>pt_base = 0, pt_state = initialState po,
     pt_build = Some \<lparr>br_generation = 0, br_picker = op_picker po, br_location = Filesystem (op_cwd po), br_stat_workers = 0, br_initial = True\<rparr>,
     pt_effect = no_effect\<lparr>ef_mode := ModeInsert, ef_prompt := initialPrompt, ef_search := ''on'', ef_rebind := ModeInsert,
       ef_cursor := CursorLine\<rparr>,
     pt_created = None\<rparr>"

text \<open>The points at which a run reads the cause of its context.\<close>

datatype read_point = AtValidate | AtAppend | AtActivate | AfterLaunch | AtEnd | AtCleanup | AtLast

text \<open>
  What fzf is started on: its input, the gate of the enrichment when there is one, its options and the API key of the
  sidecar.  A run that does not start fzf has none.
\<close>

record published =
  la_input :: input_stream
  la_gate :: "gate option"

record launched = published +
  la_options :: "string list option"
  la_api_key :: string

record run_env =
  re_unicode :: unicode
  re_stat :: "bytes \<Rightarrow> bool option"
  re_nil_ctx :: bool
  re_home_first :: bool
  re_cause :: "read_point \<Rightarrow> go_error option"
  re_random :: "go_error option"
  re_trace :: "go_error option"
  re_terminal :: "go_error option"
  re_enrichment :: "go_error option"
  re_gate :: gate
  re_published :: "gate \<Rightarrow> gate"
  re_started :: "gate \<Rightarrow> gate"
  re_apply :: "proposed \<Rightarrow> snapshot result"
  re_parent :: "go_error option"
  re_token :: "go_error option"
  re_listen :: "go_error option"
  re_environment :: "string list"
  re_sidecar_setup :: sidecar_setup
  re_launch :: "launched \<Rightarrow> fzf_result result"
  re_current :: "snapshot result"
  re_sidecar_wait :: "go_error option"
  re_gate_end :: gate
  re_source_end :: "gate \<Rightarrow> gate"
  re_close_server :: "go_error option"
  re_close_actor :: "go_error option"

definition no_outcome :: outcome where "no_outcome = \<lparr>out_status = StatusOther [], out_paths = []\<rparr>"

text \<open>
  The publication of the initial view: the frames of the initial snapshot are appended to fzf's input, and the enrichment is
  activated on its generation, or the input is closed when there is no enrichment.  The source goroutine runs beside it:
  \<open>re_gate\<close> is the coordinator it has left at the append, and \<open>re_published\<close> and \<open>re_started\<close> are what it does to it between the
  append and the activation and between the activation and the launch of fzf.
\<close>

definition publish_initial :: "run_env \<Rightarrow> picker_options \<Rightarrow> snapshot \<Rightarrow> published result" where
  "publish_initial env po initial =
     (let input = (if op_picker po = PickerCD then ga_input (re_gate env) else NewInputStream []) in
      case input_Append (FramedRecords initial) input of
        (Some e, _) \<Rightarrow> Inl (case re_cause env AtAppend of Some c \<Rightarrow> c | None \<Rightarrow> ErrWrap ''publish initial candidates'' e)
      | (None, input) \<Rightarrow>
          if op_picker po = PickerCD
          then (case Activate (re_parent env) (sn_generation initial) (re_published env (re_gate env\<lparr>ga_input := input\<rparr>)) of
                  (Some e, _) \<Rightarrow> Inl (case re_cause env AtActivate of Some c \<Rightarrow> c | None \<Rightarrow> ErrWrap ''activate initial candidates'' e)
                | (None, g) \<Rightarrow> Inr \<lparr>la_input = ga_input g, la_gate = Some g\<rparr>)
          else Inr \<lparr>la_input = input_Close input, la_gate = None\<rparr>)"

text \<open>The token, the server, the sidecar and the options of fzf, in this order.\<close>

definition run_sidecar :: "run_env \<Rightarrow> picker_options \<Rightarrow> go_error option \<times> sidecar_lifecycle" where
  "run_sidecar env po = lifecycle_create (Enabled (=) False (re_environment env)) (op_picker po) (re_sidecar_setup env) new_lifecycle"

definition run_options :: "run_env \<Rightarrow> picker_options \<Rightarrow> sidecar_lifecycle \<Rightarrow> string list option result" where
  "run_options env po l =
     (case optionsForPlatform \<lparr>oc_picker = op_picker po, oc_prompt = initialPrompt,
         oc_header = PromptDisplayHome (re_unicode env) (Filesystem (op_cwd po)) (Filesystem (op_home po)),
         oc_listen = fst (lifecycle_credentials l)\<rparr> ''linux'' of
        Inl e \<Rightarrow> Inl (ErrWrap ''build fzf options'' e)
      | Inr opts \<Rightarrow> Inr opts)"

definition prepare_launch :: "run_env \<Rightarrow> picker_options \<Rightarrow> published \<Rightarrow> launched result" where
  "prepare_launch env po p =
     (case first_failure [re_token env, re_listen env, fst (run_sidecar env po)] of
        Some e \<Rightarrow> Inl e
      | None \<Rightarrow>
          (case run_options env po (snd (run_sidecar env po)) of
             Inl e \<Rightarrow> Inl e
           | Inr opts \<Rightarrow>
               let g = map_option (re_started env) (la_gate p) in
               Inr \<lparr>la_input = (case g of None \<Rightarrow> la_input p | Some g \<Rightarrow> ga_input g), la_gate = g, la_options = opts,
               la_api_key = snd (lifecycle_credentials (snd (run_sidecar env po)))\<rparr>))"

text \<open>From the result of fzf to the outcome.\<close>

definition validate_result :: "run_env \<Rightarrow> picker_options \<Rightarrow> fzf_result \<Rightarrow> outcome result" where
  "validate_result env po r =
     (if fr_aborted r then Inr \<lparr>out_status = StatusAborted, out_paths = []\<rparr>
      else case re_current env of
             Inl e \<Rightarrow> Inl e
           | Inr current \<Rightarrow> if op_picker po = PickerCD then ValidateCD current (fr_records r) else ValidateCP current (fr_records r) (op_cwd po))"

definition run_result :: "run_env \<Rightarrow> picker_options \<Rightarrow> launched \<Rightarrow> outcome result" where
  "run_result env po l =
     (let launched = re_launch env l;
          first = re_cause env AfterLaunch;
          res = (case launched of
                   Inl e \<Rightarrow> Inl (ErrWrap ''run picker'' e)
                 | Inr r \<Rightarrow> if first = None then validate_result env po r else Inr no_outcome);
          parent = (case re_cause env AtEnd of Some c \<Rightarrow> Some c | None \<Rightarrow> first)
      in case (res, parent) of
           (Inr _, Some c) \<Rightarrow> Inl c
         | _ \<Rightarrow> res)"

text \<open>The run after the actor has been made, up to the deferred cleanup.\<close>

definition run_body :: "run_env \<Rightarrow> picker_options \<Rightarrow> outcome result \<times> launched option" where
  "run_body env po =
     (case (if op_picker po = PickerCD then re_enrichment env else None) of
        Some e \<Rightarrow> (Inl e, None)
      | None \<Rightarrow>
          (case re_apply env (initial_transition po) of
             Inl e \<Rightarrow> (Inl (ErrWrap ''build initial candidates'' e), None)
           | Inr initial \<Rightarrow>
               (case publish_initial env po initial of
                  Inl e \<Rightarrow> (Inl e, None)
                | Inr p \<Rightarrow>
                    (case prepare_launch env po p of
                       Inl e \<Rightarrow> (Inl e, None)
                     | Inr l \<Rightarrow> (run_result env po l, Some l)))))"

text \<open>The cleanup selects the error of the run; the coordinator exists for the directory picker once it was made.\<close>

definition coordinator_error :: "run_env \<Rightarrow> go_error option \<Rightarrow> go_error option" where
  "coordinator_error env stopCause =
     (case Stop (re_parent env) stopCause (re_gate_end env) of
        (e, g) \<Rightarrow> joinLifecycleErrors e (fst (Wait (re_parent env) (re_source_end env g))))"

definition cleanup :: "run_env \<Rightarrow> picker_options \<Rightarrow> go_error option \<Rightarrow> go_error option" where
  "cleanup env po err =
     (let stopCause = (case re_cause env AtCleanup of Some c \<Rightarrow> Some c | None \<Rightarrow> err);
          coordinator = (if op_picker po = PickerCD \<and> re_enrichment env = None then coordinator_error env stopCause else None);
          err = (if err = None then first_failure [if sl_created (snd (run_sidecar env po)) then re_sidecar_wait env else None, coordinator, re_close_server env] else err)
      in selectLifecycleError err (re_close_actor env) (re_cause env AtLast))"

definition RunPicker :: "run_env \<Rightarrow> picker_options \<Rightarrow> (outcome \<times> go_error option) \<times> launched option" where
  "RunPicker env po =
     (case first_failure [validatePickerOptions (re_stat env) (re_nil_ctx env) (re_cause env AtValidate) (re_home_first env) po,
                        map_option (\<lambda>_. ErrText ''generate trace session ID'') (re_random env), re_trace env, re_terminal env,
                        case sessionBuilder po of Inl e \<Rightarrow> Some e | Inr _ \<Rightarrow> None] of
        Some e \<Rightarrow> ((no_outcome, Some e), None)
      | None \<Rightarrow>
          (case run_body env po of
             (Inl e, l) \<Rightarrow> ((no_outcome, cleanup env po (Some e)), l)
           | (Inr outcome, l) \<Rightarrow> ((outcome, cleanup env po None), l)))"

section \<open>Arguments\<close>

text \<open>The flags as a finite map: what each may hold, and the options it stands for.\<close>

definition picker_flags :: "string list" where
  "picker_flags = [''--cwd'', ''--home'', ''--output'', ''--fzf'', ''--zoxide-policy'', ''--zoxide-timeout'', ''--trace'']"

definition flag_ok :: "(string \<Rightarrow> int option) \<Rightarrow> string \<Rightarrow> string \<Rightarrow> bool" where
  "flag_ok duration f v \<longleftrightarrow> f \<in> set picker_flags
     \<and> (f = ''--output'' \<longrightarrow> v = ''nul'' \<or> v = ''nuon'') \<and> (f = ''--fzf'' \<longrightarrow> v \<noteq> [])
     \<and> (f = ''--zoxide-policy'' \<longrightarrow> v = ''cached'' \<or> v = ''fresh'')
     \<and> (f = ''--zoxide-timeout'' \<longrightarrow> (\<exists>t. duration v = Some t \<and> 0 \<le> t)) \<and> (f = ''--trace'' \<longrightarrow> v \<noteq> [])"

definition flag_field :: "(string \<rightharpoonup> string) \<Rightarrow> string \<Rightarrow> (string \<Rightarrow> 'b) \<Rightarrow> 'b \<Rightarrow> 'b" where
  "flag_field m f g d = (case m f of None \<Rightarrow> d | Some v \<Rightarrow> g v)"

definition override :: "(string \<Rightarrow> int option) \<Rightarrow> (string \<rightharpoonup> string) \<Rightarrow> picker_options \<Rightarrow> picker_options" where
  "override duration m po = po\<lparr>op_cwd := flag_field m ''--cwd'' id (op_cwd po), op_home := flag_field m ''--home'' id (op_home po),
     op_output := flag_field m ''--output'' output_of_text (op_output po), op_fzf := flag_field m ''--fzf'' id (op_fzf po),
     op_policy := flag_field m ''--zoxide-policy'' (\<lambda>v. if v = ''cached'' then ZoxideCached else ZoxideFresh) (op_policy po),
     op_timeout := flag_field m ''--zoxide-timeout'' (\<lambda>v. the (duration v)) (op_timeout po),
     op_trace := flag_field m ''--trace'' id (op_trace po)\<rparr>"

definition flag_args :: "(string \<times> string) list \<Rightarrow> string list" where
  "flag_args kvs = concat (map (\<lambda>(f, v). [f, v]) kvs)"

lemma flag_args_simps [simp]: "flag_args [] = []" "flag_args ((f, v) # kvs) = f # v # flag_args kvs"
  by (simp_all add: flag_args_def)

lemma picker_flags_prefix: "f \<in> set picker_flags \<Longrightarrow> has_prefix f ''--''"
  by (auto simp: picker_flags_def has_prefix_def)

lemma override_single:
  "override duration [''--cwd'' \<mapsto> v] po = po\<lparr>op_cwd := v\<rparr>"
  "override duration [''--home'' \<mapsto> v] po = po\<lparr>op_home := v\<rparr>"
  "override duration [''--output'' \<mapsto> v] po = po\<lparr>op_output := output_of_text v\<rparr>"
  "override duration [''--fzf'' \<mapsto> v] po = po\<lparr>op_fzf := v\<rparr>"
  "override duration [''--zoxide-policy'' \<mapsto> v] po = po\<lparr>op_policy := (if v = ''cached'' then ZoxideCached else ZoxideFresh)\<rparr>"
  "override duration [''--zoxide-timeout'' \<mapsto> v] po = po\<lparr>op_timeout := the (duration v)\<rparr>"
  "override duration [''--trace'' \<mapsto> v] po = po\<lparr>op_trace := v\<rparr>"
  by (simp_all add: override_def flag_field_def)

lemma picker_flags_all: "(\<forall>f \<in> set picker_flags. P f) \<longleftrightarrow> P ''--cwd'' \<and> P ''--home'' \<and> P ''--output'' \<and> P ''--fzf'' \<and> P ''--zoxide-policy''
    \<and> P ''--zoxide-timeout'' \<and> P ''--trace''"
  by (simp only: picker_flags_def list.set ball_simps simp_thms)

lemma apply_flag_simps:
  "apply_flag duration ''--cwd'' v po = Inr (po\<lparr>op_cwd := v\<rparr>)"
  "apply_flag duration ''--home'' v po = Inr (po\<lparr>op_home := v\<rparr>)"
  "apply_flag duration ''--output'' v po = (if v = ''nul'' then Inr (po\<lparr>op_output := OutputNUL\<rparr>)
     else if v = ''nuon'' then Inr (po\<lparr>op_output := OutputNUON\<rparr>) else Inl (ErrText ''invalid output format''))"
  "apply_flag duration ''--fzf'' v po = (if v = [] then Inl (ErrText ''empty fzf path'') else Inr (po\<lparr>op_fzf := v\<rparr>))"
  "apply_flag duration ''--zoxide-policy'' v po = (if v = ''cached'' then Inr (po\<lparr>op_policy := ZoxideCached\<rparr>)
     else if v = ''fresh'' then Inr (po\<lparr>op_policy := ZoxideFresh\<rparr>) else Inl (ErrText ''invalid zoxide policy''))"
  "apply_flag duration ''--zoxide-timeout'' v po = (case duration v of None \<Rightarrow> Inl (ErrText ''invalid zoxide timeout'')
     | Some t \<Rightarrow> if t < 0 then Inl (ErrText ''invalid zoxide timeout'') else Inr (po\<lparr>op_timeout := t\<rparr>))"
  "apply_flag duration ''--trace'' v po = (if v = [] then Inl (ErrText ''empty trace path'') else Inr (po\<lparr>op_trace := v\<rparr>))"
  by (simp_all add: apply_flag_def ParseZoxidePolicy_def ZoxideCached_def ZoxideFresh_def output_of_text_def)

lemma flag_ok_simps:
  "flag_ok duration ''--cwd'' v \<longleftrightarrow> True" "flag_ok duration ''--home'' v \<longleftrightarrow> True"
  "flag_ok duration ''--output'' v \<longleftrightarrow> v = ''nul'' \<or> v = ''nuon''" "flag_ok duration ''--fzf'' v \<longleftrightarrow> v \<noteq> []"
  "flag_ok duration ''--zoxide-policy'' v \<longleftrightarrow> v = ''cached'' \<or> v = ''fresh''"
  "flag_ok duration ''--zoxide-timeout'' v \<longleftrightarrow> (\<exists>t. duration v = Some t \<and> 0 \<le> t)" "flag_ok duration ''--trace'' v \<longleftrightarrow> v \<noteq> []"
  by (simp_all add: flag_ok_def picker_flags_def)

lemma apply_known_flag:
  "\<forall>f \<in> set picker_flags. if flag_ok duration f v then apply_flag duration f v po = Inr (override duration [f \<mapsto> v] po)
     else isl (apply_flag duration f v po)"
  unfolding picker_flags_all override_single apply_flag_simps flag_ok_simps
  by (intro conjI; cases "duration v"; simp add: output_of_text_def)

lemma apply_flag_iff: "apply_flag duration f v po = Inr po' \<longleftrightarrow> flag_ok duration f v \<and> po' = override duration [f \<mapsto> v] po"
proof (cases "f \<in> set picker_flags")
  case True
  with apply_known_flag[of duration v po] show ?thesis by (cases "flag_ok duration f v") auto
next
  case False
  then have "apply_flag duration f v po = Inl (ErrText ''unknown picker flag'')" by (simp add: apply_flag_def picker_flags_def)
  with False show ?thesis by (simp add: flag_ok_def)
qed

lemma flag_field_Cons:
  "f \<notin> fst ` set kvs \<Longrightarrow> flag_field (map_of kvs) x g (flag_field [f \<mapsto> v] x g d) = flag_field (map_of ((f, v) # kvs)) x g d"
  by (cases "x = f") (simp_all add: flag_field_def map_of_eq_None_iff[THEN iffD2] split: option.split)

lemma override_Cons:
  "f \<notin> fst ` set kvs \<Longrightarrow> override duration (map_of kvs) (override duration [f \<mapsto> v] po) = override duration (map_of ((f, v) # kvs)) po"
  by (simp add: override_def flag_field_Cons del: map_of.simps)

lemma override_empty [simp]: "override duration Map.empty po = po"
  by (simp add: override_def flag_field_def)

lemma parse_flags_iff:
  "parse_flags duration args seen po = Inr (seen', po') \<longleftrightarrow>
   (\<exists>kvs. args = flag_args kvs \<and> distinct (map fst kvs) \<and> set (map fst kvs) \<inter> set seen = {} \<and> list_all (\<lambda>(f, v). flag_ok duration f v) kvs
     \<and> seen' = rev (map fst kvs) @ seen \<and> po' = override duration (map_of kvs) po)" (is "?l args seen po \<longleftrightarrow> ?r args seen po")
proof
  show "?l args seen po \<Longrightarrow> ?r args seen po"
  proof (induction duration args seen po rule: parse_flags.induct)
    case (3 duration flag v rest seen po)
    from 3(2) obtain o1 where flag: "has_prefix flag ''--''" "flag \<notin> set seen" and o1: "apply_flag duration flag v po = Inr o1"
      and rest: "parse_flags duration rest (flag # seen) o1 = Inr (seen', po')" by (auto split: if_splits sum.splits)
    from 3(1)[OF _ o1 rest] flag obtain kvs where kvs: "rest = flag_args kvs" "distinct (map fst kvs)" "set (map fst kvs) \<inter> set (flag # seen) = {}"
      "list_all (\<lambda>(f, v). flag_ok duration f v) kvs" "seen' = rev (map fst kvs) @ flag # seen" "po' = override duration (map_of kvs) o1" by auto
    show ?case
      by (rule exI[of _ "(flag, v) # kvs"]) (use kvs flag o1 in \<open>auto simp: apply_flag_iff override_Cons simp del: map_of.simps\<close>)
  qed (auto intro: exI[of _ "[]"])
next
  have "parse_flags duration (flag_args kvs) seen po = Inr (rev (map fst kvs) @ seen, override duration (map_of kvs) po)"
    if "distinct (map fst kvs)" "set (map fst kvs) \<inter> set seen = {}" "list_all (\<lambda>(f, v). flag_ok duration f v) kvs" for kvs
    using that
  proof (induction kvs arbitrary: seen po)
    case (Cons kv kvs)
    obtain f v where kv: "kv = (f, v)" by (cases kv)
    have "apply_flag duration f v po = Inr (override duration [f \<mapsto> v] po)" using Cons.prems kv by (simp add: apply_flag_iff)
    moreover have "has_prefix f ''--''" using Cons.prems kv by (auto simp: flag_ok_def intro: picker_flags_prefix)
    moreover have "parse_flags duration (flag_args kvs) (f # seen) (override duration [f \<mapsto> v] po)
       = Inr (rev (map fst kvs) @ f # seen, override duration (map_of kvs) (override duration [f \<mapsto> v] po))"
      using Cons.prems kv by (intro Cons.IH) auto
    ultimately show ?case using Cons.prems kv by (simp add: override_Cons del: map_of.simps)
  qed simp
  then show "?r args seen po \<Longrightarrow> ?l args seen po" by blast
qed

text \<open>
  C18: the command line is accepted exactly when it is a command followed by pairs of distinct known flags with admissible
  values, both directories are given and absolute, and so is the executable.  The options are then the defaults with the
  values of the flags, whatever their order.
\<close>

theorem parsePickerArgs_iff:
  "parsePickerArgs duration args executable = Inr po \<longleftrightarrow>
   (\<exists>command kvs cwd home. args = command # flag_args kvs \<and> (command = ''cd'' \<or> command = ''cp'')
     \<and> distinct (map fst kvs) \<and> list_all (\<lambda>(f, v). flag_ok duration f v) kvs
     \<and> map_of kvs ''--cwd'' = Some cwd \<and> map_of kvs ''--home'' = Some home \<and> is_abs cwd \<and> is_abs home \<and> is_abs executable
     \<and> po = override duration (map_of kvs) (default_options command executable))" (is "?l \<longleftrightarrow> ?r")
proof
  assume ?l
  then obtain command rest seen where args: "args = command # rest" "command = ''cd'' \<or> command = ''cp''"
    and p: "parse_flags duration rest [] (default_options command executable) = Inr (seen, po)"
    and ok: "''--cwd'' \<in> set seen" "''--home'' \<in> set seen" "is_abs (op_cwd po)" "is_abs (op_home po)" "is_abs executable"
    by (auto simp: parsePickerArgs_def split: list.splits if_splits sum.splits prod.splits)
  from p obtain kvs where kvs: "rest = flag_args kvs" "distinct (map fst kvs)" "list_all (\<lambda>(f, v). flag_ok duration f v) kvs"
    "seen = rev (map fst kvs)" "po = override duration (map_of kvs) (default_options command executable)" by (auto simp: parse_flags_iff)
  with ok(1,2) obtain cwd home where "map_of kvs ''--cwd'' = Some cwd" "map_of kvs ''--home'' = Some home"
    by (metis (no_types, lifting) map_of_eq_None_iff not_None_eq set_map set_rev)
  with args kvs ok show ?r by (auto simp: override_def flag_field_def)
next
  assume ?r
  then obtain command kvs cwd home where args: "args = command # flag_args kvs" "command = ''cd'' \<or> command = ''cp''"
    and kvs: "distinct (map fst kvs)" "list_all (\<lambda>(f, v). flag_ok duration f v) kvs"
    and dirs: "map_of kvs ''--cwd'' = Some cwd" "map_of kvs ''--home'' = Some home" "is_abs cwd" "is_abs home" "is_abs executable"
    and po: "po = override duration (map_of kvs) (default_options command executable)" by blast
  have "parse_flags duration (flag_args kvs) [] (default_options command executable) = Inr (rev (map fst kvs), po)"
    unfolding parse_flags_iff using kvs po by (intro exI[of _ kvs]) auto
  moreover have "''--cwd'' \<in> fst ` set kvs" "''--home'' \<in> fst ` set kvs" using dirs(1,2) by (force dest: map_of_SomeD)+
  moreover have "op_cwd po = cwd" "op_home po = home" using dirs po by (simp_all add: override_def flag_field_def)
  ultimately show ?l using args dirs by (auto simp: parsePickerArgs_def)
qed

section \<open>A run\<close>

lemma first_failure_all: "first_failure es = None \<longleftrightarrow> (\<forall>e \<in> set es. e = None)"
  by (induction es) (auto split: option.splits)

lemma input_Append_None:
  "input_Append data s = (None, s') \<longleftrightarrow> \<not> is_closed s \<and> s' = s\<lparr>is_buffer := is_buffer s @ data\<rparr>"
  by (cases s) (auto simp: input_Append_def)

lemma Activate_None:
  "Activate parent base g = (None, g') \<longleftrightarrow> base \<noteq> 0 \<and> \<not> ga_activated g \<and> ga_active g \<and> parent = None
     \<and> g' = g\<lparr>ga_activated := True, ga_initial := base, ga_base := base\<rparr>"
  by (auto simp: Activate_def split: option.splits)

lemma cleanup_None:
  assumes "cleanup env po err = None"
  shows "err = None \<and> re_close_server env = None \<and> re_close_actor env = None \<and> re_cause env AtLast = None"
proof -
  have "selectLifecycleError a b c = None \<longleftrightarrow> a = None \<and> b = None \<and> c = None" for a b c by (auto simp: selectLifecycleError_def)
  with assms show ?thesis by (auto simp: cleanup_def Let_def first_failure_all simp del: first_failure.simps split: if_splits)
qed

lemma RunPicker_cases:
  assumes "RunPicker env po = ((oc, e), l)"
  obtains (refused) e' where "e = Some e'" "l = None"
  | (ran) res where "validatePickerOptions (re_stat env) (re_nil_ctx env) (re_cause env AtValidate) (re_home_first env) po = None"
      "run_body env po = (res, l)" "e = cleanup env po (case res of Inl x \<Rightarrow> Some x | Inr _ \<Rightarrow> None)"
      "oc = (case res of Inl _ \<Rightarrow> no_outcome | Inr x \<Rightarrow> x)"
  using assms by (auto simp: RunPicker_def first_failure_all simp del: first_failure.simps split: option.splits prod.splits sum.splits)

lemma run_body_launched:
  assumes "run_body env po = (res, Some l)"
  shows "\<exists>initial p. re_apply env (initial_transition po) = Inr initial \<and> publish_initial env po initial = Inr p
     \<and> prepare_launch env po p = Inr l \<and> res = run_result env po l"
  using assms by (auto simp: run_body_def split: option.splits sum.splits if_splits)

lemma run_body_not_launched: "run_body env po = (res, None) \<Longrightarrow> isl res"
  by (auto simp: run_body_def split: option.splits sum.splits if_splits)

lemma run_result_Inr:
  assumes "run_result env po l = Inr oc"
  shows "\<exists>r. re_launch env l = Inr r \<and> validate_result env po r = Inr oc \<and> re_cause env AfterLaunch = None \<and> re_cause env AtEnd = None"
  using assms by (auto simp: run_result_def Let_def split: sum.splits option.splits if_splits)

lemma validatePickerOptions_None:
  "validatePickerOptions stat nil_ctx cause home_first po = None \<Longrightarrow>
     \<not> nil_ctx \<and> cause = None \<and> (op_picker po = PickerCD \<or> op_picker po = PickerCP) \<and> stat (op_cwd po) = Some True \<and> stat (op_home po) = Some True"
  by (auto simp: validatePickerOptions_def split: if_splits option.splits)

lemma RunPicker_ok:
  assumes "RunPicker env po = ((oc, None), launch)"
  obtains l where "launch = Some l" "run_result env po l = Inr oc" "cleanup env po None = None"
    "validatePickerOptions (re_stat env) (re_nil_ctx env) (re_cause env AtValidate) (re_home_first env) po = None"
  using assms
proof (cases rule: RunPicker_cases)
  case (ran res)
  with cleanup_None[OF ran(3)[symmetric]] obtain x where x: "res = Inr x" by (cases res) auto
  with ran(2) run_body_not_launched[of env po res] obtain l where l: "launch = Some l" by (cases launch) auto
  show thesis using run_body_launched[of env po res l] ran x l that by auto
qed simp

text \<open>
  C16: a run that reports no error has launched fzf and got a result from it, its context was not cancelled at any point at
  which the outcome was decided, and closing the server and the actor succeeded.  The outcome is an abort when fzf was
  aborted, and otherwise what the validation of fzf's records against the current snapshot of the session gives.
\<close>

theorem RunPicker_success:
  assumes "RunPicker env po = ((oc, None), launch)"
  shows "\<exists>l r. launch = Some l \<and> re_launch env l = Inr r
     \<and> (if fr_aborted r then oc = \<lparr>out_status = StatusAborted, out_paths = []\<rparr>
        else \<exists>current. re_current env = Inr current \<and>
          (if op_picker po = PickerCD then ValidateCD current (fr_records r) else ValidateCP current (fr_records r) (op_cwd po)) = Inr oc)
     \<and> list_all (\<lambda>point. re_cause env point = None) [AtValidate, AfterLaunch, AtEnd, AtLast]
     \<and> re_close_server env = None \<and> re_close_actor env = None"
proof -
  from assms obtain l where l: "launch = Some l" "run_result env po l = Inr oc" "cleanup env po None = None"
    "validatePickerOptions (re_stat env) (re_nil_ctx env) (re_cause env AtValidate) (re_home_first env) po = None" by (rule RunPicker_ok)
  from run_result_Inr[OF l(2)] obtain r where r: "re_launch env l = Inr r" "validate_result env po r = Inr oc"
    and causes: "re_cause env AfterLaunch = None" "re_cause env AtEnd = None" by blast
  have "if fr_aborted r then oc = \<lparr>out_status = StatusAborted, out_paths = []\<rparr>
        else \<exists>current. re_current env = Inr current \<and>
          (if op_picker po = PickerCD then ValidateCD current (fr_records r) else ValidateCP current (fr_records r) (op_cwd po)) = Inr oc"
    using r(2) by (cases "re_current env") (auto simp: validate_result_def split: if_splits)
  with r(1) causes cleanup_None[OF l(3)] validatePickerOptions_None[OF l(4)] l(1) show ?thesis by auto
qed

text \<open>The coordinator after the activation, and what it still is when fzf starts.\<close>

definition published_gate :: "snapshot \<Rightarrow> gate \<Rightarrow> bool" where
  "published_gate initial g \<longleftrightarrow> ga_active g \<and> ga_activated g \<and> ga_initial g = sn_generation initial \<and> ga_base g = sn_generation initial
     \<and> sn_generation initial \<noteq> 0 \<and> is_buffer (ga_input g) = FramedRecords initial \<and> \<not> is_closed (ga_input g)
     \<and> ga_cancels g = {} \<and> ga_pending g = Map.empty"

lemma publish_initial_cd:
  assumes "publish_initial env po initial = Inr p" and "op_picker po = PickerCD"
    and "source_step\<^sup>*\<^sup>* (newInitialEnrichment []) (re_gate env)" and "\<And>g. source_step\<^sup>*\<^sup>* g (re_published env g)"
  shows "\<exists>g. la_gate p = Some g \<and> published_gate initial g \<and> starting (FramedRecords initial) g"
proof -
  let ?before = "re_gate env\<lparr>ga_input := (ga_input (re_gate env))\<lparr>is_buffer := is_buffer (ga_input (re_gate env)) @ FramedRecords initial\<rparr>\<rparr>"
  let ?g = "re_published env ?before"
  from assms(1,2) obtain g where g: "la_gate p = Some g" and act: "Activate (re_parent env) (sn_generation initial) ?g = (None, g)"
    and open_input: "\<not> is_closed (ga_input (re_gate env))"
    by (auto simp: publish_initial_def Let_def input_Append_None split: prod.splits option.splits)
  have start: "starting [] (re_gate env)" "ga_activated (re_gate env) = False"
    using source_steps(2) [OF assms(3) starting_new] source_steps(1) [OF assms(3)] by (simp_all add: newInitialEnrichment_def)
  then have "starting (FramedRecords initial) ?before" using open_input by (simp add: starting_def)
  then have "starting (FramedRecords initial) ?g" "ga_activated ?g = False"
    using source_steps [OF assms(4) [of ?before]] start(2) by (simp_all del: input_stream.update_convs)
  with act have "published_gate initial g \<and> starting (FramedRecords initial) g"
    by (auto simp: Activate_None published_gate_def starting_def)
  with g show ?thesis by blast
qed

lemma prepare_launch_gate: "prepare_launch env po p = Inr l \<Longrightarrow> la_gate l = map_option (re_started env) (la_gate p)
    \<and> la_input l = (case la_gate l of None \<Rightarrow> la_input p | Some g \<Rightarrow> ga_input g)"
  by (auto simp: prepare_launch_def Let_def split: option.splits sum.splits)

text \<open>
  C17: when fzf is started, both directories exist and the initial transition has been applied.  For the directory picker the
  coordinator has been activated on the nonzero generation of the initial snapshot when its input held exactly the frames of that
  snapshot and was open; the source goroutine, which the activation releases, has only taken its own steps since
  (it may have committed, or have ended and closed the input), so fzf's input is the coordinator's and begins with these
  frames, it is open as long as the enrichment is active, and no event is known yet.  For the other picker the input holds
  exactly the frames and is closed.
\<close>

theorem RunPicker_publishes:
  assumes "snd (RunPicker env po) = Some l" and "source_step\<^sup>*\<^sup>* (newInitialEnrichment []) (re_gate env)"
    and "\<And>g. source_step\<^sup>*\<^sup>* g (re_published env g)" and "\<And>g. ga_activated g \<Longrightarrow> source_step\<^sup>*\<^sup>* g (re_started env g)"
  shows "\<exists>initial. re_apply env (initial_transition po) = Inr initial \<and> re_stat env (op_cwd po) = Some True \<and> re_stat env (op_home po) = Some True
     \<and> (if op_picker po = PickerCD
        then \<exists>g0 g more. published_gate initial g0 \<and> source_step\<^sup>*\<^sup>* g0 g \<and> la_gate l = Some g \<and> la_input l = ga_input g
          \<and> is_buffer (la_input l) = FramedRecords initial @ more \<and> (ga_active g \<longrightarrow> \<not> is_closed (la_input l))
          \<and> ga_activated g \<and> ga_initial g = sn_generation initial \<and> ga_cancels g = {} \<and> ga_pending g = Map.empty
        else is_buffer (la_input l) = FramedRecords initial \<and> is_closed (la_input l) \<and> la_gate l = None)"
proof -
  obtain oc e where "RunPicker env po = ((oc, e), Some l)" using assms(1) by (metis prod.exhaust_sel)
  then show ?thesis
  proof (cases rule: RunPicker_cases)
    case (ran res)
    from run_body_launched[OF ran(2)] obtain initial p where applied: "re_apply env (initial_transition po) = Inr initial"
      and p: "publish_initial env po initial = Inr p" "prepare_launch env po p = Inr l" by blast
    note l = prepare_launch_gate [OF p(2)]
    have view: "if op_picker po = PickerCD
        then \<exists>g0 g more. published_gate initial g0 \<and> source_step\<^sup>*\<^sup>* g0 g \<and> la_gate l = Some g \<and> la_input l = ga_input g
          \<and> is_buffer (la_input l) = FramedRecords initial @ more \<and> (ga_active g \<longrightarrow> \<not> is_closed (la_input l))
          \<and> ga_activated g \<and> ga_initial g = sn_generation initial \<and> ga_cancels g = {} \<and> ga_pending g = Map.empty
        else is_buffer (la_input l) = FramedRecords initial \<and> is_closed (la_input l) \<and> la_gate l = None"
    proof (cases "op_picker po = PickerCD")
      case True
      from publish_initial_cd [OF p(1) True assms(2,3)] obtain g0
        where g0: "la_gate p = Some g0" "published_gate initial g0" "starting (FramedRecords initial) g0" by blast
      let ?g = "re_started env g0"
      have steps: "source_step\<^sup>*\<^sup>* g0 ?g" using assms(4) [of g0] g0(2) by (simp add: published_gate_def)
      have "starting (FramedRecords initial) ?g" "ga_activated ?g" "ga_initial ?g = sn_generation initial"
        using source_steps [OF steps] g0 by (simp_all add: published_gate_def)
      moreover obtain more where "is_buffer (ga_input ?g) = is_buffer (ga_input g0) @ more"
        using latched_steps [OF source_gate_steps [OF steps]] by (auto simp: latched_def)
      moreover have "is_buffer (ga_input g0) = FramedRecords initial" using g0(2) by (simp add: published_gate_def)
      moreover have "la_gate l = Some ?g" "la_input l = ga_input ?g" using l g0(1) by simp_all
      ultimately have "published_gate initial g0 \<and> source_step\<^sup>*\<^sup>* g0 ?g \<and> la_gate l = Some ?g \<and> la_input l = ga_input ?g
          \<and> is_buffer (la_input l) = FramedRecords initial @ more \<and> (ga_active ?g \<longrightarrow> \<not> is_closed (la_input l))
          \<and> ga_activated ?g \<and> ga_initial ?g = sn_generation initial \<and> ga_cancels ?g = {} \<and> ga_pending ?g = Map.empty"
        using g0(2) steps by (simp add: starting_def)
      with True show ?thesis by auto
    next
      case False
      with p(1) have "p = \<lparr>la_input = input_Close (NewInputStream (FramedRecords initial)), la_gate = None\<rparr>"
        by (auto simp: publish_initial_def Let_def input_Append_None NewInputStream_def split: prod.splits option.splits)
      with l False show ?thesis by (simp add: input_Close_def closeWithError_def NewInputStream_def)
    qed
    with applied show ?thesis using validatePickerOptions_None[OF ran(1)] by blast
  qed simp
qed

section \<open>From the arguments to the output\<close>

lemma ValidateCD_printed:
  assumes "ValidateCD s accepted = Inr oc" "indexed s"
  shows "\<exists>r \<in> set (recordValues s). selectable r \<and> oc = \<lparr>out_status = StatusAccepted, out_paths = [rec_path r]\<rparr>"
  using assms(1) lookupRecord_first[OF assms(2)]
  by (fastforce simp: ValidateCD_def selectable_def find_Some_iff split: list.splits sum.splits option.splits if_splits)

lemma ValidateCP_printed:
  assumes "ValidateCP s accepted base = Inr oc"
  shows "\<exists>sel. subseq sel (recordValues s) \<and> list_all selectable sel
     \<and> oc = \<lparr>out_status = StatusAccepted, out_paths = map (\<lambda>r. Relative base (rec_path r)) sel\<rparr>"
proof -
  obtain counts paths where "take_selected base (recordValues s) counts [] = Inr paths" "oc = \<lparr>out_status = StatusAccepted, out_paths = paths\<rparr>"
    using assms by (auto simp: ValidateCP_def split: if_splits option.splits sum.splits)
  with take_selected_Inr[of base "recordValues s" counts "[]" paths] show ?thesis by auto
qed

lemma runPickerCLI_success:
  assumes "xr_out (runPickerCLI duration run w args executable st) \<noteq> st"
  obtains po oc where "parsePickerArgs duration args executable = Inr po" "run po = (oc, None)"
    "xr_out (runPickerCLI duration run w args executable st) = snd (EncodeOutcome w st (op_output po) oc)"
  using assms by (auto simp: runPickerCLI_def split: sum.splits prod.splits option.splits)

text \<open>What the program may print for one record of the session.\<close>

definition printed_path :: "picker_options \<Rightarrow> candidate \<Rightarrow> bytes" where
  "printed_path po r = (if op_picker po = PickerCD then rec_path r else Relative (op_cwd po) (rec_path r))"

text \<open>
  C15: whatever reaches the standard output of the picker, on any writer, is the encoding of an outcome of a run that was not
  cancelled: an abort, or the paths of a subsequence of the selectable records of the session's current snapshot, as they
  are for the directory picker and relative to the working directory for the other.
\<close>

theorem picker_prints_selection:
  assumes "\<forall>s. re_current env = Inr s \<longrightarrow> indexed s"
    and "xr_out (runPickerCLI duration (\<lambda>po. fst (RunPicker env po)) w args executable st) \<noteq> st"
  shows "\<exists>po oc. parsePickerArgs duration args executable = Inr po
     \<and> xr_out (runPickerCLI duration (\<lambda>po. fst (RunPicker env po)) w args executable st) = snd (EncodeOutcome w st (op_output po) oc)
     \<and> (oc = \<lparr>out_status = StatusAborted, out_paths = []\<rparr>
        \<or> (\<exists>s sel. re_current env = Inr s \<and> subseq sel (recordValues s) \<and> list_all selectable sel
             \<and> oc = \<lparr>out_status = StatusAccepted, out_paths = map (printed_path po) sel\<rparr>))
     \<and> re_cause env AtLast = None"
  using assms(2)
proof (rule runPickerCLI_success)
  fix po oc
  assume "parsePickerArgs duration args executable = Inr po"
    and "fst (RunPicker env po) = (oc, None)"
    and "xr_out (runPickerCLI duration (\<lambda>po. fst (RunPicker env po)) w args executable st) = snd (EncodeOutcome w st (op_output po) oc)"
  moreover from this(2) obtain launch where "RunPicker env po = ((oc, None), launch)" by (metis prod.collapse)
  then obtain l where l: "run_result env po l = Inr oc" "cleanup env po None = None" by (rule RunPicker_ok)
  from run_result_Inr[OF l(1)] obtain r where r: "validate_result env po r = Inr oc" by blast
  have "oc = \<lparr>out_status = StatusAborted, out_paths = []\<rparr>
      \<or> (\<exists>s sel. re_current env = Inr s \<and> subseq sel (recordValues s) \<and> list_all selectable sel
           \<and> oc = \<lparr>out_status = StatusAccepted, out_paths = map (printed_path po) sel\<rparr>)"
  proof (cases "fr_aborted r")
    case False
    with r obtain s where s: "re_current env = Inr s"
      and v: "(if op_picker po = PickerCD then ValidateCD s (fr_records r) else ValidateCP s (fr_records r) (op_cwd po)) = Inr oc"
      by (auto simp: validate_result_def split: sum.splits)
    have "\<exists>sel. subseq sel (recordValues s) \<and> list_all selectable sel \<and> oc = \<lparr>out_status = StatusAccepted, out_paths = map (printed_path po) sel\<rparr>"
    proof (cases "op_picker po = PickerCD")
      case True
      with v ValidateCD_printed[of s "fr_records r" oc] assms(1) s obtain x where "x \<in> set (recordValues s)" "selectable x"
        "oc = \<lparr>out_status = StatusAccepted, out_paths = [rec_path x]\<rparr>" by auto
      with True show ?thesis by (intro exI[of _ "[x]"]) (simp add: printed_path_def subseq_singleton_left)
    next
      case False
      then have "printed_path po = (\<lambda>r. Relative (op_cwd po) (rec_path r))" by (auto simp: printed_path_def)
      with False v ValidateCP_printed[of s "fr_records r" "op_cwd po" oc] show ?thesis by simp
    qed
    with s show ?thesis by blast
  qed (use r in \<open>simp add: validate_result_def\<close>)
  ultimately show ?thesis using cleanup_None[OF l(2)] by blast
qed

section \<open>Concrete runs\<close>

definition demo_args :: "string list" where
  "demo_args = [''cd'', ''--home'', ''/h'', ''--cwd'', ''/a'']"

definition demo_options :: picker_options where
  "demo_options = default_options ''cd'' ''/bin/sp''\<lparr>op_cwd := ''/a'', op_home := ''/h''\<rparr>"

definition demo_run_gate :: gate where "demo_run_gate = newInitialEnrichment []"

text \<open>A run in which fzf prints the only record of the snapshot.\<close>

definition demo_run_env :: run_env where
  "demo_run_env = \<lparr>re_unicode = latin1, re_stat = (\<lambda>p. if p = ''/a'' \<or> p = ''/h'' then Some True else None), re_nil_ctx = False,
     re_home_first = False, re_cause = (\<lambda>_. None), re_random = None, re_trace = None, re_terminal = None, re_enrichment = None,
     re_gate = demo_run_gate, re_published = id, re_started = (\<lambda>g. finishSource None None (snd (beginCommit g))), re_apply = (\<lambda>_. Inr (demo_snapshot ModeInsert)), re_parent = None, re_token = None, re_listen = None,
     re_environment = [], re_sidecar_setup = \<lparr>su_reserve = Inl ErrCanceled, su_random = Inl ErrCanceled, su_close = None\<rparr>,
     re_launch = (\<lambda>_. Inr \<lparr>fr_query = [], fr_key = [], fr_records = [FullKey demo_record], fr_aborted = False, fr_exit = 0\<rparr>),
     re_current = Inr (demo_snapshot ModeInsert), re_sidecar_wait = None, re_gate_end = demo_run_gate, re_source_end = id,
     re_close_server = None, re_close_actor = None\<rparr>"

lemma demo_parse: "parsePickerArgs (\<lambda>_. None) demo_args ''/bin/sp'' = Inr demo_options"
  by (simp add: parsePickerArgs_def demo_args_def demo_options_def apply_flag_simps has_prefix_def is_abs_def default_options_def SLASH_def)

lemma demo_run_result: "run_result demo_run_env demo_options l = Inr \<lparr>out_status = StatusAccepted, out_paths = [''/a/b'']\<rparr>"
proof -
  have "\<exists>w. ParseRecord (FullKey demo_record) = Inr w" using record_ok_parse [OF demo_record_ok] by blast
  then have "ValidateCD (demo_snapshot ModeInsert) [FullKey demo_record] = Inr \<lparr>out_status = StatusAccepted, out_paths = [''/a/b'']\<rparr>"
    by (auto simp: ValidateCD_def demo_lookup) (simp_all add: demo_record_def cdSelectionKind_def)
  then show ?thesis
    by (simp add: run_result_def Let_def demo_run_env_def validate_result_def demo_options_def default_options_def picker_of_text_def)
qed

lemma demo_publish: "\<exists>p. publish_initial demo_run_env demo_options (demo_snapshot ModeInsert) = Inr p"
  by (simp add: publish_initial_def Let_def demo_run_env_def demo_run_gate_def newInitialEnrichment_def NewInputStream_def input_Append_def
      Activate_def demo_snapshot_def)

lemma demo_prepare: "\<exists>l. prepare_launch demo_run_env demo_options p = Inr l"
  by (simp add: prepare_launch_def demo_run_env_def run_sidecar_def lifecycle_create_def Enabled_def run_options_def optionsForPlatform_def
      lifecycle_credentials_def new_lifecycle_def demo_options_def default_options_def picker_of_text_def Let_def)

lemma demo_cleanup: "cleanup demo_run_env demo_options None = None"
  by (simp add: cleanup_def Let_def demo_run_env_def selectLifecycleError_def coordinator_error_def demo_run_gate_def newInitialEnrichment_def
      Stop_def deactivateLocked_def joinLifecycleErrors_def finish_def cancelSource_def Wait_def clear_events_def run_sidecar_def
      lifecycle_create_def Enabled_def new_lifecycle_def)

lemma demo_validate: "validatePickerOptions (re_stat demo_run_env) (re_nil_ctx demo_run_env) (re_cause demo_run_env AtValidate)
   (re_home_first demo_run_env) demo_options = None"
  by (simp add: validatePickerOptions_def demo_run_env_def demo_options_def default_options_def picker_of_text_def is_abs_def SLASH_def
      DefaultZoxideTimeout_def)

lemma demo_run: "\<exists>l. RunPicker demo_run_env demo_options = ((\<lparr>out_status = StatusAccepted, out_paths = [''/a/b'']\<rparr>, None), Some l)"
proof -
  obtain p l where p: "publish_initial demo_run_env demo_options (demo_snapshot ModeInsert) = Inr p"
    "prepare_launch demo_run_env demo_options p = Inr l" using demo_publish demo_prepare by blast
  have env: "re_apply demo_run_env = (\<lambda>_. Inr (demo_snapshot ModeInsert))" "re_random demo_run_env = None" "re_trace demo_run_env = None"
    "re_terminal demo_run_env = None" "re_enrichment demo_run_env = None" by (simp_all add: demo_run_env_def)
  have "run_body demo_run_env demo_options = (Inr \<lparr>out_status = StatusAccepted, out_paths = [''/a/b'']\<rparr>, Some l)"
    using p by (simp add: run_body_def env demo_run_result)
  moreover have "sessionBuilder demo_options = Inr ConfiguredCached"
    by (simp add: sessionBuilder_def demo_options_def default_options_def NewZoxideCache_err_def DefaultZoxideTimeout_def)
  ultimately show ?thesis using demo_validate demo_cleanup by (simp add: RunPicker_def env)
qed

theorem RunPicker_success_witness:
  "\<exists>oc l. RunPicker demo_run_env demo_options = ((oc, None), Some l) \<and> list_all (\<lambda>point. re_cause demo_run_env point = None) [AtEnd, AtLast]"
proof -
  obtain l where run: "RunPicker demo_run_env demo_options = ((\<lparr>out_status = StatusAccepted, out_paths = [''/a/b'']\<rparr>, None), Some l)"
    using demo_run by blast
  with RunPicker_success [OF run] show ?thesis by auto
qed

lemma demo_steps: "source_step\<^sup>*\<^sup>* (newInitialEnrichment []) (re_gate demo_run_env)" "source_step\<^sup>*\<^sup>* g (re_published demo_run_env g)"
  by (simp_all add: demo_run_env_def demo_run_gate_def)

theorem RunPicker_publishes_witness:
  "\<exists>l more. snd (RunPicker demo_run_env demo_options) = Some l \<and> is_buffer (la_input l) = FramedRecords (demo_snapshot ModeInsert) @ more"
proof -
  obtain l where run: "snd (RunPicker demo_run_env demo_options) = Some l" using demo_run by auto
  have "source_step\<^sup>*\<^sup>* g (re_started demo_run_env g)" if "ga_activated g" for g
    using source_two [OF source_begin_commit [OF that] source_finish] by (simp add: demo_run_env_def)
  from RunPicker_publishes [OF run demo_steps this] have "\<exists>initial more. re_apply demo_run_env (initial_transition demo_options) = Inr initial
      \<and> is_buffer (la_input l) = FramedRecords initial @ more"
    by (auto simp: demo_options_def default_options_def picker_of_text_def)
  with run show ?thesis by (auto simp: demo_run_env_def)
qed

theorem picker_prints_selection_witness:
  "\<exists>sel. xr_out (runPickerCLI (\<lambda>_. None) (\<lambda>po. fst (RunPicker demo_run_env po)) buffer_writer demo_args ''/bin/sp'' []) = ''/a/b'' @ [NUL]
     \<and> subseq sel [demo_record]"
proof -
  have out: "xr_out (runPickerCLI (\<lambda>_. None) (\<lambda>po. fst (RunPicker demo_run_env po)) buffer_writer demo_args ''/bin/sp'' []) = ''/a/b'' @ [NUL]"
    using demo_run by (auto simp: runPickerCLI_def demo_parse EncodeOutcome_def encodeNULOutcome_def demo_options_def default_options_def)
  have law: "\<forall>s. re_current demo_run_env = Inr s \<longrightarrow> indexed s" by (simp add: demo_run_env_def)
  have "xr_out (runPickerCLI (\<lambda>_. None) (\<lambda>po. fst (RunPicker demo_run_env po)) buffer_writer demo_args ''/bin/sp'' []) \<noteq> []" using out by simp
  from picker_prints_selection [OF law this] obtain po oc where
    "oc = \<lparr>out_status = StatusAborted, out_paths = []\<rparr> \<or> (\<exists>s sel. re_current demo_run_env = Inr s \<and> subseq sel (recordValues s)
       \<and> list_all selectable sel \<and> oc = \<lparr>out_status = StatusAccepted, out_paths = map (printed_path po) sel\<rparr>)" by blast
  then show ?thesis using out by (auto simp: demo_run_env_def)
qed

end
