(* ===== verification/Preview_Limits.thy ===== *)
theory Preview_Limits
  imports Fzf_Process
begin

text \<open>
  \<open>internal/preview/limit.go\<close>, \<open>child.go\<close> and the bounded copies and writers of \<open>archive.go\<close>: what bounds a preview.

  A writer is a function of a state of its destination, as in \<open>Protocol\<close>; the mutex of an output budget makes each write one step.
  The clock, the results of killing a process tree and of cleaning up are read from arguments.
\<close>

unbundle bit_operations_syntax

section \<open>limit.go: errors and limits\<close>

definition ErrOutputLimit :: go_error where "ErrOutputLimit = ErrText ''preview: output limit exceeded''"
definition ErrInputLimit :: go_error where "ErrInputLimit = ErrText ''preview: input limit exceeded''"
definition ErrArtifactLimit :: go_error where "ErrArtifactLimit = ErrText ''preview: artifact limit exceeded''"
definition ErrArchiveEntries :: go_error where "ErrArchiveEntries = ErrText ''preview: archive entry limit exceeded''"
definition ErrPathNotAbsolute :: go_error where "ErrPathNotAbsolute = ErrText ''preview: path is not an absolute filesystem candidate''"
definition ErrTerminalResource :: go_error where "ErrTerminalResource = ErrText ''preview: terminal resource failure''"

text \<open>The deadline in nanoseconds.\<close>

record limits =
  li_deadline :: int
  li_output :: int
  li_input :: int
  li_lines :: int
  li_entries :: int
  li_decompressed :: int
  li_artifact :: int

definition DefaultLimits :: limits where
  "DefaultLimits = \<lparr>li_deadline = 10000000000, li_output = 4194304, li_input = 4194304, li_lines = 10000, li_entries = 100,
     li_decompressed = 4194304, li_artifact = 67108864\<rparr>"

definition normalizedLimits :: "limits \<Rightarrow> limits" where
  "normalizedLimits l =
     (let l = (if li_deadline l \<le> 0 then l\<lparr>li_deadline := li_deadline DefaultLimits\<rparr> else l);
          l = (if li_output l \<le> 0 then l\<lparr>li_output := li_output DefaultLimits\<rparr> else l);
          l = (if li_input l \<le> 0 then l\<lparr>li_input := li_input DefaultLimits\<rparr> else l);
          l = (if li_lines l \<le> 0 then l\<lparr>li_lines := li_lines DefaultLimits\<rparr> else l);
          l = (if li_entries l \<le> 0 then l\<lparr>li_entries := li_entries DefaultLimits\<rparr> else l);
          l = (if li_decompressed l \<le> 0 then l\<lparr>li_decompressed := li_decompressed DefaultLimits\<rparr> else l)
      in if li_artifact l \<le> 0 then l\<lparr>li_artifact := li_artifact DefaultLimits\<rparr> else l)"

section \<open>limit.go: the output budget\<close>

text \<open>The callback for the exceeded limit is absent, or counted.\<close>

record output_budget =
  ob_remaining :: int
  ob_written :: int
  ob_exceeded :: bool
  ob_on_limit :: bool
  ob_calls :: nat

record budget_writer =
  bw_written :: int
  bw_meaningful :: int

definition newOutputBudget :: "int \<Rightarrow> bool \<Rightarrow> output_budget" where
  "newOutputBudget maximum onLimit = \<lparr>ob_remaining = maximum, ob_written = 0, ob_exceeded = False, ob_on_limit = onLimit, ob_calls = 0\<rparr>"

definition new_budget_writer :: budget_writer where
  "new_budget_writer = \<lparr>bw_written = 0, bw_meaningful = 0\<rparr>"

definition limitReachedLocked :: "output_budget \<Rightarrow> output_budget" where
  "limitReachedLocked b =
     (if ob_exceeded b then b
      else b\<lparr>ob_exceeded := True, ob_calls := ob_calls b + (if ob_on_limit b then 1 else 0)\<rparr>)"

definition is_meaningful :: "char \<Rightarrow> bool" where
  "is_meaningful c \<longleftrightarrow> c \<noteq> CHR '' '' \<and> c \<noteq> TAB \<and> c \<noteq> LF \<and> c \<noteq> CR \<and> c \<noteq> CHR 0x0B \<and> c \<noteq> CHR 0x0C"

definition budget_Write :: "'w writer \<Rightarrow> bytes \<Rightarrow> output_budget \<Rightarrow> budget_writer \<Rightarrow> 'w
    \<Rightarrow> (int \<times> go_error option) \<times> output_budget \<times> budget_writer \<times> 'w" where
  "budget_Write w data b bw st =
     (if ob_remaining b \<le> 0 then ((0, Some ErrOutputLimit), limitReachedLocked b, bw, st)
      else let limited = (int (length data) > ob_remaining b);
               allowed = (if limited then nat (ob_remaining b) else length data) in
        case w st (take allowed data) of
          (n, err, st') \<Rightarrow>
            let b = b\<lparr>ob_remaining := ob_remaining b - n, ob_written := ob_written b + n\<rparr>;
                bw = bw\<lparr>bw_written := bw_written bw + n,
                  bw_meaningful := bw_meaningful bw + int (length (filter is_meaningful (take (nat n) data)))\<rparr>
            in if err \<noteq> None then ((n, err), b, bw, st')
               else if limited \<and> n = int allowed then ((n, Some ErrOutputLimit), limitReachedLocked b, bw, st')
               else ((n, None), b, bw, st'))"

definition budget_status :: "output_budget \<Rightarrow> int \<times> bool" where
  "budget_status b = (ob_written b, ob_exceeded b)"

text \<open>\<open>io.Discard\<close>, the destination of a writer without one.\<close>

definition discard_writer :: "'w writer" where
  "discard_writer st data = (int (length data), None, st)"

definition resourceFailure :: "go_error option \<Rightarrow> output_budget \<Rightarrow> go_error option \<Rightarrow> go_error option" where
  "resourceFailure ctx_err b err =
     (if snd (budget_status b) then Some ErrOutputLimit
      else case ctx_err of
             Some e \<Rightarrow> Some e
           | None \<Rightarrow>
               (case err of
                  None \<Rightarrow> None
                | Some e \<Rightarrow> if errors_is e ErrWaitDelay \<or> errors_is e ErrOutputLimit then Some e else None))"

section \<open>limit.go: environment and tools\<close>

fun preview_environmentValue :: "string list \<Rightarrow> string \<Rightarrow> string" where
  "preview_environmentValue [] name = []"
| "preview_environmentValue (entry # rest) name =
     (case cut_equals entry of
        Some (key, v) \<Rightarrow> if key = name then v else preview_environmentValue rest name
      | None \<Rightarrow> preview_environmentValue rest name)"

text \<open>A directory entry as \<open>os.Stat\<close> shows it: whether it is a directory, and its permission bits.\<close>

fun first_tool :: "(bytes \<Rightarrow> (bool \<times> nat) option) \<Rightarrow> (bytes \<Rightarrow> bytes option) \<Rightarrow> string \<Rightarrow> string list \<Rightarrow> string" where
  "first_tool stat absolute_path name [] = []"
| "first_tool stat absolute_path name (directory # rest) =
     (let candidate = path_join directory name in
      case stat candidate of
        Some (is_dir, mode) \<Rightarrow>
          if \<not> is_dir \<and> (mode AND 73) \<noteq> 0
          then (case absolute_path candidate of Some absolute \<Rightarrow> absolute | None \<Rightarrow> first_tool stat absolute_path name rest)
          else first_tool stat absolute_path name rest
      | None \<Rightarrow> first_tool stat absolute_path name rest)"

definition lookupTool :: "(bytes \<Rightarrow> (bool \<times> nat) option) \<Rightarrow> (bytes \<Rightarrow> bytes option) \<Rightarrow> string \<Rightarrow> string list \<Rightarrow> string" where
  "lookupTool stat absolute_path name environment =
     (let search = preview_environmentValue environment ''PATH'' in
      if search = [] then [] else first_tool stat absolute_path name (split_list search))"

section \<open>limit.go: the session of a rendering\<close>

text \<open>
  \<open>rs_tree\<close>: a process tree is retained; \<open>rs_cleanup\<close> and \<open>rs_abandon\<close>: the functions are set; \<open>rs_abandoned\<close> and
  \<open>rs_killed\<close> count their calls and those of \<open>KillTree\<close>.
\<close>

record render_session =
  rs_tree :: bool
  rs_started :: bool
  rs_cleanup :: bool
  rs_abandon :: bool
  rs_abandoned :: nat
  rs_killed :: nat
  rs_closed :: nat

definition newRenderSession :: render_session where
  "newRenderSession = \<lparr>rs_tree = False, rs_started = False, rs_cleanup = False, rs_abandon = False, rs_abandoned = 0, rs_killed = 0, rs_closed = 0\<rparr>"

text \<open>\<open>retain\<close> is the result of retaining the tree of the child.\<close>

definition session_start :: "go_error option \<Rightarrow> render_session \<Rightarrow> (bool \<times> go_error option) \<times> render_session" where
  "session_start retain s =
     (let first = \<not> rs_started s; s = s\<lparr>rs_started := True\<rparr> in
      if \<not> first then ((False, None), s)
      else ((True, retain), if retain = None then s\<lparr>rs_tree := True\<rparr> else s))"

definition release :: "bool \<Rightarrow> render_session \<Rightarrow> render_session" where
  "release cleaned s =
     (if cleaned then s\<lparr>rs_cleanup := False, rs_abandon := False\<rparr>
      else if rs_abandon s then s\<lparr>rs_cleanup := False, rs_abandon := False, rs_abandoned := rs_abandoned s + 1\<rparr>
      else s)"

text \<open>
  \<open>attempts\<close> are the results of the cleanups that a terminal failure can make before its deadline: the first one, and
  those of the retries.
\<close>

definition session_terminal :: "bool \<Rightarrow> bool list \<Rightarrow> go_error option \<Rightarrow> go_error \<Rightarrow> render_session \<Rightarrow> go_error \<times> render_session" where
  "session_terminal first retries kill cause s =
     (let cleaned = (\<not> rs_cleanup s \<or> first);
          s = (if rs_tree s then s\<lparr>rs_killed := rs_killed s + 1\<rparr> else s);
          killErr = (if rs_tree s then kill else None);
          cleaned = (cleaned \<or> True \<in> set retries);
          joined = ErrJoin ErrTerminalResource cause
      in (case killErr of None \<Rightarrow> joined | Some e \<Rightarrow> ErrJoin joined e, release cleaned s))"

definition session_close :: "bool \<Rightarrow> bool \<Rightarrow> render_session \<Rightarrow> render_session" where
  "session_close first second s =
     (let s = (if rs_cleanup s \<and> first then s\<lparr>rs_cleanup := False, rs_abandon := False\<rparr> else s);
          s = (if rs_tree s then s\<lparr>rs_closed := rs_closed s + 1\<rparr> else s)
      in release (rs_cleanup s \<and> second) s)"

section \<open>child.go\<close>

definition maxCachedArtifactBytes :: int where "maxCachedArtifactBytes = 67108864"

text \<open>What the loop over a converter meets: its end, or a tick at which the size of the artifact can be read or not.\<close>

datatype converter_event = ConverterDone "go_error option" | ConverterTick "int option"

text \<open>
  The result of the converter, or the terminal error and the session of a converter that was stopped; \<^const>\<open>None\<close> while
  it runs.
\<close>

fun waitConverter :: "(go_error \<Rightarrow> render_session \<Rightarrow> go_error \<times> render_session) \<Rightarrow> converter_event list \<Rightarrow> render_session
    \<Rightarrow> ((go_error option + go_error) \<times> render_session) option" where
  "waitConverter terminal [] s = None"
| "waitConverter terminal (ConverterDone err # events) s = Some (Inl err, s)"
| "waitConverter terminal (ConverterTick measured # events) s =
     (case measured of
        Some n \<Rightarrow>
          if n > maxCachedArtifactBytes
          then (let s = (if rs_tree s then s\<lparr>rs_killed := rs_killed s + 1\<rparr> else s) in
                case terminal ErrArtifactLimit s of (e, s) \<Rightarrow> Some (Inr e, s))
          else waitConverter terminal events s
      | None \<Rightarrow> waitConverter terminal events s)"

section \<open>archive.go: bounded writers and copies\<close>

text \<open>The bytes up to the last line that may still be written, and the lines left.\<close>

fun line_scan :: "int \<Rightarrow> bytes \<Rightarrow> nat \<times> int" where
  "line_scan remaining [] = (0, remaining)"
| "line_scan remaining (c # cs) =
     (if c = LF then (if remaining - 1 = 0 then (1, 0)
                      else (case line_scan (remaining - 1) cs of (n, r) \<Rightarrow> (Suc n, r)))
      else (case line_scan remaining cs of (n, r) \<Rightarrow> (Suc n, r)))"

definition line_limit_Write :: "'w writer \<Rightarrow> bytes \<Rightarrow> int \<Rightarrow> 'w \<Rightarrow> (int \<times> go_error option) \<times> int \<times> 'w" where
  "line_limit_Write w data remaining st =
     (if remaining \<le> 0 then ((0, Some ErrArchiveEntries), remaining, st)
      else (case line_scan remaining data of
              (allowed, remaining) \<Rightarrow>
                (case w st (take allowed data) of
                   (n, err, st') \<Rightarrow> ((n, if err = None \<and> allowed < length data then Some ErrArchiveEntries else err), remaining, st'))))"

text \<open>
  A copy that is thrown away: a read is the error of the context before it, the bytes at hand and the error with them.
  \<^const>\<open>None\<close> while the copy goes on.
\<close>

record copy_read =
  cr_ctx :: "go_error option"
  cr_bytes :: nat
  cr_err :: "go_error option"

fun copy_loop :: "int \<Rightarrow> int \<Rightarrow> int \<Rightarrow> copy_read list \<Rightarrow> (int \<times> go_error option) option" where
  "copy_loop buffer maximum done_bytes [] = None"
| "copy_loop buffer maximum done_bytes (r # rs) =
     (case cr_ctx r of
        Some e \<Rightarrow> Some (done_bytes, Some e)
      | None \<Rightarrow>
          if maximum - done_bytes \<le> 0 then Some (done_bytes, Some ErrInputLimit)
          else (let buffer = min buffer (maximum - done_bytes);
                   done_bytes = done_bytes + min (int (cr_bytes r)) buffer in
            case cr_err r of
              Some e \<Rightarrow> if errors_is e ErrEOF then Some (done_bytes, None) else Some (done_bytes, Some e)
            | None \<Rightarrow> copy_loop buffer maximum done_bytes rs))"

definition copyBounded :: "copy_read list \<Rightarrow> int \<Rightarrow> (int \<times> go_error option) option" where
  "copyBounded reads maximum = copy_loop 32768 maximum 0 reads"

section \<open>Writers that cut their output\<close>

text \<open>
  A writer that lets pass what its room allows: the contract of the output budget and of the line limit.  How the data is cut
  into writes then makes no difference to the output.
\<close>

locale capped_writer =
  fixes "write" :: "'d \<Rightarrow> 's \<Rightarrow> 's" and payload :: "'d \<Rightarrow> bytes" and out :: "'s \<Rightarrow> bytes" and room :: "'s \<Rightarrow> int"
    and pass :: "int \<Rightarrow> bytes \<Rightarrow> bytes" and left_over :: "int \<Rightarrow> bytes \<Rightarrow> int"
  assumes out_write: "out (write d s) = out s @ pass (room s) (payload d)"
    and room_write: "room (write d s) = left_over (room s) (payload d)"
    and pass_append: "pass c (xs @ ys) = pass c xs @ pass (left_over c xs) ys"
    and left_append: "left_over c (xs @ ys) = left_over (left_over c xs) ys"
    and pass_Nil: "pass c [] = []" and left_Nil: "left_over c [] = c"
begin

lemma writes: "out (fold write ds s) = out s @ pass (room s) (concat (map payload ds))
   \<and> room (fold write ds s) = left_over (room s) (concat (map payload ds))"
  by (induction ds arbitrary: s) (simp_all add: out_write room_write pass_append left_append pass_Nil left_Nil)

lemma chunks_irrelevant:
  "concat (map payload ds) = concat (map payload es) \<Longrightarrow> out (fold write ds s) = out (fold write es s)"
  by (simp add: writes)

end

section \<open>The output budget\<close>

text \<open>The writers of one budget, by number, over a shared destination; a run of writes through them.\<close>

type_synonym 'w budget_state = "output_budget \<times> (nat \<Rightarrow> budget_writer) \<times> 'w"

definition budget_step :: "(nat \<Rightarrow> 'w writer) \<Rightarrow> nat \<times> bytes \<Rightarrow> 'w budget_state \<Rightarrow> 'w budget_state" where
  "budget_step ws item s =
     (case (item, s) of ((i, data), (b, bws, st)) \<Rightarrow>
        (case budget_Write (ws i) data b (bws i) st of (_, b', bw', st') \<Rightarrow> (b', bws(i := bw'), st')))"

definition budget_run :: "(nat \<Rightarrow> 'w writer) \<Rightarrow> int \<Rightarrow> bool \<Rightarrow> (nat \<times> bytes) list \<Rightarrow> 'w \<Rightarrow> 'w budget_state" where
  "budget_run ws maximum onLimit items st =
     fold (budget_step ws) items (newOutputBudget maximum onLimit, \<lambda>_. new_budget_writer, st)"

text \<open>The contract of \<open>io.Writer\<close>: the count it returns lies between zero and the length of the data.\<close>

definition writer_ok :: "'w writer \<Rightarrow> bool" where
  "writer_ok w \<longleftrightarrow> (\<forall>st data. 0 \<le> fst (w st data) \<and> fst (w st data) \<le> int (length data))"

definition budget_inv :: "int \<Rightarrow> bool \<Rightarrow> output_budget \<Rightarrow> bool" where
  "budget_inv maximum f b \<longleftrightarrow> 0 \<le> ob_remaining b \<and> 0 \<le> ob_written b \<and> ob_remaining b + ob_written b = maximum \<and> ob_on_limit b = f
     \<and> ob_calls b = (if ob_exceeded b \<and> f then 1 else 0)"

lemma limitReachedLocked_inv: "budget_inv m f b \<Longrightarrow> budget_inv m f (limitReachedLocked b)"
  by (auto simp: budget_inv_def limitReachedLocked_def)

lemma budget_Write_inv:
  assumes inv: "budget_inv m f b" and w: "writer_ok w" and run: "budget_Write w data b bw st = (r, b', bw', st')"
  shows "budget_inv m f b' \<and> bw_written bw' - bw_written bw = ob_written b' - ob_written b \<and> bw_written bw \<le> bw_written bw'"
proof (cases "ob_remaining b \<le> 0")
  case True
  with run inv show ?thesis by (auto simp: budget_Write_def limitReachedLocked_inv) (simp_all add: limitReachedLocked_def)
next
  case False
  let ?k = "if int (length data) > ob_remaining b then nat (ob_remaining b) else length data"
  obtain n err s' where n: "w st (take ?k data) = (n, err, s')" by (cases "w st (take ?k data)") auto
  with w have "0 \<le> n" "n \<le> int (length (take ?k data))" by (metis fst_conv writer_ok_def)+
  then have n0: "0 \<le> n" "n \<le> ob_remaining b" using False by (auto split: if_splits)
  let ?b = "b\<lparr>ob_remaining := ob_remaining b - n, ob_written := ob_written b + n\<rparr>"
  have b: "budget_inv m f ?b" using inv n0 by (auto simp: budget_inv_def)
  have "b' = ?b \<or> b' = limitReachedLocked ?b" and "bw_written bw' = bw_written bw + n"
    using run False n by (auto simp: budget_Write_def Let_def split: if_splits)
  moreover have "ob_written (limitReachedLocked ?b) = ob_written b + n" by (simp add: limitReachedLocked_def)
  ultimately show ?thesis using b limitReachedLocked_inv [OF b] n0 by auto
qed

lemma budget_fold_inv:
  assumes "\<And>i. writer_ok (ws i)" and "budget_inv m f b" and "fold (budget_step ws) items (b, bws, st) = (b', bws', st')"
  shows "budget_inv m f b' \<and> (\<forall>i. bw_written (bws i) \<le> bw_written (bws' i))
     \<and> (\<forall>I. finite I \<longrightarrow> fst ` set items \<subseteq> I \<longrightarrow> (\<Sum>i \<in> I. bw_written (bws' i) - bw_written (bws i)) = ob_written b' - ob_written b)"
  using assms(2,3)
proof (induction items arbitrary: b bws st)
  case (Cons item items)
  obtain i data where item: "item = (i, data)" by (cases item)
  obtain r b1 bw1 st1 where w: "budget_Write (ws i) data b (bws i) st = (r, b1, bw1, st1)" by (metis prod_cases4)
  note inv = budget_Write_inv [OF Cons.prems(1) assms(1) w]
  let ?bws = "bws(i := bw1)"
  have "budget_step ws item (b, bws, st) = (b1, ?bws, st1)" by (simp add: budget_step_def item w)
  then have "fold (budget_step ws) items (b1, ?bws, st1) = (b', bws', st')" using Cons.prems(2) by simp
  note IH = Cons.IH [OF conjunct1 [OF inv] this]
  have "(\<Sum>j \<in> I. bw_written (bws' j) - bw_written (bws j)) = ob_written b' - ob_written b"
    if I: "finite I" "fst ` set (item # items) \<subseteq> I" for I
  proof -
    have "(\<Sum>j \<in> I. bw_written (bws' j) - bw_written (bws j))
        = (\<Sum>j \<in> I. (bw_written (bws' j) - bw_written (?bws j)) + (if j = i then bw_written bw1 - bw_written (bws i) else 0))"
      by (rule sum.cong) auto
    also have "\<dots> = (\<Sum>j \<in> I. bw_written (bws' j) - bw_written (?bws j)) + (bw_written bw1 - bw_written (bws i))"
      using I item by (simp add: sum.distrib)
    also have "\<dots> = (ob_written b' - ob_written b1) + (ob_written b1 - ob_written b)" using IH I inv by simp
    finally show ?thesis by simp
  qed
  moreover have "bw_written (bws j) \<le> bw_written (bws' j)" for j using IH inv by (cases "j = i") (force dest: spec [of _ j])+
  ultimately show ?case using IH by blast
qed simp

text \<open>
  C26: whatever its writers are given and whatever the destinations do with it, an output budget never lets more than its
  maximum through, it accounts for every byte of every writer, and it calls its callback once when the limit is exceeded.
\<close>

theorem budget_bounded:
  assumes "\<forall>i. writer_ok (ws i)" and "0 \<le> maximum" and "budget_run ws maximum onLimit items st = (b, bws, st')"
  shows "0 \<le> ob_written b \<and> ob_written b \<le> maximum \<and> ob_remaining b = maximum - ob_written b
     \<and> (\<Sum>i \<in> fst ` set items. bw_written (bws i)) = ob_written b \<and> ob_calls b = (if ob_exceeded b \<and> onLimit then 1 else 0)"
proof -
  have "budget_inv maximum onLimit (newOutputBudget maximum onLimit)" using assms(2) by (simp add: budget_inv_def newOutputBudget_def)
  from budget_fold_inv [OF _ this assms(3) [unfolded budget_run_def]] assms(1) show ?thesis
    by (auto simp: budget_inv_def newOutputBudget_def new_budget_writer_def)
qed

section \<open>What passes a budget\<close>

text \<open>Destinations that take everything and note, in one log, which writer wrote what.\<close>

definition log_writer :: "nat \<Rightarrow> (nat \<times> bytes) list writer" where
  "log_writer i log data = (int (length data), None, log @ [(i, data)])"

definition logged :: "(nat \<times> bytes) list budget_state \<Rightarrow> bytes" where
  "logged s = concat (map snd (snd (snd s)))"

lemma budget_Write_log:
  "budget_Write (log_writer i) data b bw log =
     (if ob_remaining b \<le> 0 then ((0, Some ErrOutputLimit), limitReachedLocked b, bw, log)
      else let n = min (length data) (nat (ob_remaining b));
               b' = b\<lparr>ob_remaining := ob_remaining b - int n, ob_written := ob_written b + int n\<rparr>;
               bw' = bw\<lparr>bw_written := bw_written bw + int n, bw_meaningful := bw_meaningful bw + int (length (filter is_meaningful (take n data)))\<rparr>;
               log' = log @ [(i, take n data)]
           in if int (length data) > ob_remaining b then ((int n, Some ErrOutputLimit), limitReachedLocked b', bw', log')
              else ((int n, None), b', bw', log'))"
  by (auto simp: budget_Write_def log_writer_def Let_def min_def)

interpretation budget: capped_writer "budget_step log_writer" snd logged "\<lambda>s. ob_remaining (fst s)"
    "\<lambda>c xs. take (nat c) xs" "\<lambda>c xs. if c \<le> 0 then c else c - min c (int (length xs))"
proof unfold_locales
  fix d :: "nat \<times> bytes" and s :: "(nat \<times> bytes) list budget_state"
  obtain i data b bws log where eq: "d = (i, data)" "s = (b, bws, log)" by (metis prod.exhaust)
  have reach: "ob_remaining (limitReachedLocked b') = ob_remaining b'" for b' by (simp add: limitReachedLocked_def)
  show "logged (budget_step log_writer d s) = logged s @ take (nat (ob_remaining (fst s))) (snd d)"
    by (auto simp: eq budget_step_def budget_Write_log logged_def Let_def min_def)
  show "ob_remaining (fst (budget_step log_writer d s))
      = (if ob_remaining (fst s) \<le> 0 then ob_remaining (fst s) else ob_remaining (fst s) - min (ob_remaining (fst s)) (int (length (snd d))))"
    by (auto simp: eq budget_step_def budget_Write_log Let_def min_def reach)
qed (auto simp: min_def nat_diff_distrib)

lemma budget_exceeded_fold:
  "ob_exceeded (fst (fold (budget_step log_writer) items (b, bws, log)))
     \<longleftrightarrow> ob_exceeded b \<or> items \<noteq> [] \<and> (ob_remaining b < int (length (concat (map snd items)))
           \<or> ob_remaining b \<le> int (length (concat (map snd (butlast items)))))"
proof (induction items arbitrary: b bws log)
  case (Cons item items)
  obtain i data where item: "item = (i, data)" by (cases item)
  have reach: "ob_exceeded (limitReachedLocked b')" "ob_remaining (limitReachedLocked b') = ob_remaining b'" for b'
    by (simp_all add: limitReachedLocked_def)
  obtain b1 bws1 log1 where step: "budget_step log_writer item (b, bws, log) = (b1, bws1, log1)" by (metis prod.exhaust)
  let ?over = "ob_remaining b < int (length data) \<or> ob_remaining b \<le> 0"
  have b1: "ob_exceeded b1 \<longleftrightarrow> ob_exceeded b \<or> ?over" "\<not> ?over \<Longrightarrow> ob_remaining b1 = ob_remaining b - int (length data)"
    using step by (auto simp: item budget_step_def budget_Write_log Let_def reach min_def split: if_splits)
  show ?case
  proof (cases ?over)
    case True then show ?thesis using Cons b1 by (auto simp: item step [unfolded item])
  next
    case False
    with Cons b1(2) [OF False] show ?thesis by (cases "items = []") (auto simp: item step [unfolded item] b1(1))
  qed
qed simp

text \<open>
  C27: with destinations that take what they are given, what all the writers of a budget put out together, in the order of the
  writes, is the first bytes of what they were given, up to the maximum.  The budget is exceeded exactly when more was
  given, or when a write, even an empty one, came after the maximum had been given; in particular, when no write
  is empty, exactly when more was given.
\<close>

theorem budget_passes_prefix:
  "logged (budget_run log_writer (int n) onLimit items []) = take n (concat (map snd items))
     \<and> (ob_exceeded (fst (budget_run log_writer (int n) onLimit items []))
          \<longleftrightarrow> n < length (concat (map snd items)) \<or> items \<noteq> [] \<and> n \<le> length (concat (map snd (butlast items))))
     \<and> (list_all (\<lambda>item. snd item \<noteq> []) items \<longrightarrow>
          (ob_exceeded (fst (budget_run log_writer (int n) onLimit items [])) \<longleftrightarrow> n < length (concat (map snd items))))"
proof -
  have passed: "logged (budget_run log_writer (int n) onLimit items []) = take n (concat (map snd items))"
    using budget.writes [of items "(newOutputBudget (int n) onLimit, \<lambda>_. new_budget_writer, [])"]
    by (simp add: budget_run_def logged_def newOutputBudget_def)
  have over: "ob_exceeded (fst (budget_run log_writer (int n) onLimit items []))
          \<longleftrightarrow> n < length (concat (map snd items)) \<or> items \<noteq> [] \<and> n \<le> length (concat (map snd (butlast items)))"
    unfolding budget_run_def by (subst budget_exceeded_fold) (cases items; auto simp: newOutputBudget_def)
  have "n < length (concat (map snd items))"
    if all: "list_all (\<lambda>item. snd item \<noteq> []) items" and ne: "items \<noteq> []" and le: "n \<le> length (concat (map snd (butlast items)))"
  proof -
    obtain ys y where items: "items = ys @ [y]" using ne by (metis rev_exhaust)
    then have "snd y \<noteq> []" using all by simp
    then have "length (concat (map snd (butlast items))) < length (concat (map snd items))" by (simp add: items)
    with le show ?thesis by simp
  qed
  with over passed show ?thesis by blast
qed

section \<open>What passes a limit of lines\<close>

fun take_lines :: "nat \<Rightarrow> bytes \<Rightarrow> bytes" where
  "take_lines 0 cs = []"
| "take_lines (Suc n) [] = []"
| "take_lines (Suc n) (c # cs) = c # (if c = LF then take_lines n cs else take_lines (Suc n) cs)"

lemma take_lines_count: "count_byte LF (take_lines n cs) \<le> n"
  by (induction n cs rule: take_lines.induct) (auto simp: count_byte_def)

lemma take_lines_Nil [simp]: "take_lines n [] = []"
  by (cases n) simp_all

lemma take_lines_append: "take_lines n (xs @ ys) = take_lines n xs @ take_lines (n - count_byte LF xs) ys"
  by (induction n xs rule: take_lines.induct) (auto simp: count_byte_def)

lemma line_scan_eq:
  "0 < c \<Longrightarrow> take (fst (line_scan c cs)) cs = take_lines (nat c) cs \<and> snd (line_scan c cs) = int (nat c - count_byte LF cs)"
proof (induction c cs rule: line_scan.induct)
  case (1 c)
  then have "nat c = Suc (nat (c - 1))" by simp
  then show ?case using 1 by (simp add: count_byte_def)
next
  case (2 c x cs)
  define n where "n = nat (c - 1)"
  have n: "nat c = Suc n" "c - 1 = int n" using 2(3) by (simp_all add: n_def)
  show ?case
  proof (cases "x = LF")
    case True
    show ?thesis
    proof (cases "n = 0")
      case True then show ?thesis using \<open>x = LF\<close> n by simp
    next
      case False
      then show ?thesis using 2(1) True n by (auto simp: count_byte_def split: prod.splits)
    qed
  next
    case False
    then show ?thesis using 2(2,3) n by (auto simp: count_byte_def split: prod.splits)
  qed
qed

definition line_step :: "bytes \<Rightarrow> int \<times> bytes \<Rightarrow> int \<times> bytes" where
  "line_step data s = snd (line_limit_Write buffer_writer data (fst s) (snd s))"

interpretation lines: capped_writer line_step "\<lambda>d. d" snd fst "\<lambda>c xs. take_lines (nat c) xs"
    "\<lambda>c xs. if c \<le> 0 then c else int (nat c - count_byte LF xs)"
proof unfold_locales
  fix d and s :: "int \<times> bytes"
  show "snd (line_step d s) = snd s @ take_lines (nat (fst s)) d" "fst (line_step d s) = (if fst s \<le> 0 then fst s else int (nat (fst s) - count_byte LF d))"
    using line_scan_eq [of "fst s" d] by (auto simp: line_step_def line_limit_Write_def buffer_writer_def split: prod.splits)
qed (auto simp: take_lines_append count_byte_def)

text \<open>
  C28: however an external lister cuts its output into writes, what passes the writer of an archive is the first \<open>n\<close> lines of
  it, and never holds more than \<open>n\<close> line feeds.
\<close>

theorem line_limit_exact:
  "snd (fold line_step chunks (int n, [])) = take_lines n (concat chunks) \<and> count_byte LF (snd (fold line_step chunks (int n, []))) \<le> n"
  using lines.writes [of chunks "(int n, [])"] by (simp add: take_lines_count)

section \<open>Copies\<close>

lemma copy_loop_bounds:
  "copy_loop buffer maximum d reads = Some (t, e) \<Longrightarrow> 0 \<le> buffer \<Longrightarrow> d \<le> maximum \<Longrightarrow> d \<le> t \<and> t \<le> maximum"
proof (induction reads arbitrary: buffer d)
  case (Cons r reads)
  let ?b = "min buffer (maximum - d)" and ?d = "d + min (int (cr_bytes r)) (min buffer (maximum - d))"
  show ?case
  proof (cases "cr_ctx r = None \<and> 0 < maximum - d \<and> cr_err r = None")
    case True
    then have "copy_loop ?b maximum ?d reads = Some (t, e)" using Cons.prems(1) by (simp add: Let_def)
    moreover have "d \<le> ?d" "?d \<le> maximum" "0 \<le> ?b" using Cons.prems(2,3) by (simp_all add: min_def)
    ultimately show ?thesis using Cons.IH by fastforce
  next
    case False
    then show ?thesis using Cons.prems by (auto simp: Let_def split: option.splits if_splits)
  qed
qed simp

lemma copy_loop_total:
  "list_all (\<lambda>r. 0 < cr_bytes r \<or> cr_err r \<noteq> None) reads \<Longrightarrow> 0 < buffer \<Longrightarrow> nat (maximum - d) < length reads
     \<Longrightarrow> \<exists>t e. copy_loop buffer maximum d reads = Some (t, e)"
proof (induction reads arbitrary: buffer d)
  case (Cons r reads)
  let ?b = "min buffer (maximum - d)" and ?d = "d + min (int (cr_bytes r)) (min buffer (maximum - d))"
  show ?case
  proof (cases "cr_ctx r = None \<and> 0 < maximum - d \<and> cr_err r = None")
    case True
    have "\<exists>t e. copy_loop ?b maximum ?d reads = Some (t, e)" using Cons.prems True by (intro Cons.IH) auto
    then show ?thesis using True by (simp add: Let_def)
  next
    case False
    then show ?thesis by (auto simp: Let_def split: option.splits)
  qed
qed simp

text \<open>
  a bounded copy ends, whatever its source is, as long as the source does not return empty reads without an error for
  ever: it takes at most one read more than the maximum, and never counts more than the maximum.
\<close>

theorem copyBounded_ends:
  assumes "list_all (\<lambda>r. 0 < cr_bytes r \<or> cr_err r \<noteq> None) reads" and "0 \<le> maximum" and "nat maximum < length reads"
  shows "\<exists>t e. copyBounded reads maximum = Some (t, e) \<and> 0 \<le> t \<and> t \<le> maximum"
  using copy_loop_total [OF assms(1), of 32768 maximum 0] copy_loop_bounds [of 32768 maximum 0 reads] assms(2,3)
  by (fastforce simp: copyBounded_def)

section \<open>Concrete runs\<close>

theorem budget_bounded_witness:
  "\<exists>b bws out. budget_run (\<lambda>_. buffer_writer) 3 True [(0, ''ab''), (1, ''cde'')] [] = (b, bws, out) \<and> ob_written b = 3 \<and> ob_calls b = 1"
proof -
  have ok: "\<forall>i::nat. writer_ok buffer_writer" by (simp add: writer_ok_def buffer_writer_def)
  obtain b bws out where run: "budget_run (\<lambda>_. buffer_writer) 3 True [(0, ''ab''), (1, ''cde'')] [] = (b, bws, out)" by (metis prod.exhaust)
  then have "ob_written b = 3" "ob_exceeded b"
    by (auto simp: budget_run_def budget_step_def newOutputBudget_def budget_Write_def buffer_writer_def limitReachedLocked_def Let_def)
  with budget_bounded [OF ok _ run] run show ?thesis by auto
qed

theorem budget_passes_prefix_witness:
  "logged (budget_run log_writer (int 3) True [(0, ''ab''), (1, ''cde'')] []) = ''abc''
     \<and> ob_exceeded (fst (budget_run log_writer (int 3) True [(0, ''ab''), (1, ''cde'')] []))"
  using budget_passes_prefix [of 3 True "[(0, ''ab''), (1, ''cde'')]"] by simp

theorem copyBounded_ends_witness:
  "\<exists>t e. copyBounded [\<lparr>cr_ctx = None, cr_bytes = 5, cr_err = None\<rparr>, \<lparr>cr_ctx = None, cr_bytes = 1, cr_err = Some ErrEOF\<rparr>] 1 = Some (t, e) \<and> t \<le> 1"
  using copyBounded_ends [of "[\<lparr>cr_ctx = None, cr_bytes = 5, cr_err = None\<rparr>, \<lparr>cr_ctx = None, cr_bytes = 1, cr_err = Some ErrEOF\<rparr>]" 1] by auto

end
