(* ===== verification/Preview_Detect.thy ===== *)
theory Preview_Detect
  imports Protocol
begin

text \<open>
  \<open>internal/preview/detect.go\<close> and the categories of \<open>limit.go\<close>: what kind of preview a file gets from its first bytes and
  its name, and how the text of a completion is read back as a path and a line.
\<close>

section \<open>Categories\<close>

datatype category =
    CategoryDirectory | CategoryMarkdown | CategoryText | CategoryImage | CategoryPDF | CategoryVideo | CategoryAudio
  | CategoryZip | CategoryGzip | CategoryXz | CategoryTar | CategoryBzip | CategoryBinary

definition category_text :: "category \<Rightarrow> string" where
  "category_text c =
     (case c of CategoryDirectory \<Rightarrow> ''directory'' | CategoryMarkdown \<Rightarrow> ''markdown'' | CategoryText \<Rightarrow> ''text''
      | CategoryImage \<Rightarrow> ''image'' | CategoryPDF \<Rightarrow> ''pdf'' | CategoryVideo \<Rightarrow> ''video'' | CategoryAudio \<Rightarrow> ''audio''
      | CategoryZip \<Rightarrow> ''zip'' | CategoryGzip \<Rightarrow> ''gzip'' | CategoryXz \<Rightarrow> ''xz'' | CategoryTar \<Rightarrow> ''tar''
      | CategoryBzip \<Rightarrow> ''bzip'' | CategoryBinary \<Rightarrow> ''binary'')"

text \<open>\<open>strings.ToLower\<close> and \<open>filepath.Ext\<close>.\<close>

definition lower_byte :: "char \<Rightarrow> char" where
  "lower_byte c = (if 65 \<le> byte_of c \<and> byte_of c \<le> 90 then char_of (byte_of c + 32) else c)"

definition strings_ToLower :: "unicode \<Rightarrow> string \<Rightarrow> string" where
  "strings_ToLower u s =
     (if list_all (\<lambda>c. byte_of c < 128) s then map lower_byte s
      else concat (map (\<lambda>r. encode_rune (to_lower u r)) (runes s)))"

definition path_ext :: "bytes \<Rightarrow> bytes" where
  "path_ext p =
     (let inside = (\<lambda>c. c \<noteq> CHR ''.'' \<and> c \<noteq> SLASH); rest = dropWhile inside (rev p) in
      if rest \<noteq> [] \<and> hd rest = CHR ''.'' then CHR ''.'' # rev (takeWhile inside (rev p)) else [])"

definition bytes_of :: "nat list \<Rightarrow> bytes" where
  "bytes_of ns = map char_of ns"

definition isTar :: "bytes \<Rightarrow> bool" where
  "isTar prefix \<longleftrightarrow> 262 \<le> length prefix \<and> take 5 (drop 257 prefix) = ''ustar''"

definition isImage :: "bytes \<Rightarrow> string \<Rightarrow> bool" where
  "isImage prefix extension \<longleftrightarrow>
     has_prefix prefix (bytes_of [137, 80, 78, 71, 13, 10, 26, 10]) \<or> has_prefix prefix (bytes_of [255, 216, 255])
     \<or> has_prefix prefix ''GIF87a'' \<or> has_prefix prefix ''GIF89a''
     \<or> extension = ''.png'' \<or> extension = ''.jpg'' \<or> extension = ''.jpeg'' \<or> extension = ''.gif''"

definition isVideo :: "bytes \<Rightarrow> string \<Rightarrow> bool" where
  "isVideo prefix extension \<longleftrightarrow>
     8 \<le> length prefix \<and> take 4 (drop 4 prefix) = ''ftyp''
     \<or> extension = ''.mp4'' \<or> extension = ''.mkv'' \<or> extension = ''.webm'' \<or> extension = ''.avi''"

definition isAudio :: "bytes \<Rightarrow> string \<Rightarrow> bool" where
  "isAudio prefix extension \<longleftrightarrow>
     has_prefix prefix ''ID3'' \<or> has_prefix prefix ''OggS''
     \<or> extension = ''.mp3'' \<or> extension = ''.flac'' \<or> extension = ''.wav'' \<or> extension = ''.ogg''"

definition looksText :: "bytes \<Rightarrow> bool" where
  "looksText prefix \<longleftrightarrow> NUL \<notin> set prefix \<and> valid_utf8 prefix
     \<and> list_all (\<lambda>c. \<not> (byte_of c < 9 \<or> 13 < byte_of c \<and> byte_of c < 32)) prefix"

definition looksMarkdown :: "bytes \<Rightarrow> bool" where
  "looksMarkdown prefix \<longleftrightarrow> has_prefix prefix ''# '' \<or> has_prefix prefix ''## ''"

text \<open>The information on a file: its name and whether it is a directory.\<close>

record file_info =
  fi_name :: string
  fi_dir :: bool

definition Detect :: "unicode \<Rightarrow> bytes \<Rightarrow> file_info option \<Rightarrow> category result" where
  "Detect u prefix info =
     (case info of
        None \<Rightarrow> Inl (ErrText ''preview: nil file information'')
      | Some fi \<Rightarrow>
          if fi_dir fi then Inr CategoryDirectory
          else let prefix = take 65536 prefix; extension = strings_ToLower u (path_ext (fi_name fi)) in
            Inr (if has_prefix prefix (bytes_of [80, 75, 3, 4]) then CategoryZip
                 else if has_prefix prefix (bytes_of [31, 139]) then CategoryGzip
                 else if has_prefix prefix (bytes_of [253, 55, 122, 88, 90, 0]) then CategoryXz
                 else if has_prefix prefix ''BZh'' then CategoryBzip
                 else if isTar prefix then CategoryTar
                 else if has_prefix prefix ''%PDF-'' then CategoryPDF
                 else if isImage prefix [] then CategoryImage
                 else if isVideo prefix [] then CategoryVideo
                 else if isAudio prefix [] then CategoryAudio
                 else if extension = ''.zip'' then CategoryZip
                 else if extension = ''.gz'' then CategoryGzip
                 else if extension = ''.xz'' then CategoryXz
                 else if extension = ''.bz2'' then CategoryBzip
                 else if extension = ''.tar'' then CategoryTar
                 else if extension = ''.pdf'' then CategoryPDF
                 else if isImage [] extension then CategoryImage
                 else if isVideo [] extension then CategoryVideo
                 else if isAudio [] extension then CategoryAudio
                 else if extension = ''.md'' \<or> extension = ''.markdown'' \<or> looksMarkdown prefix then CategoryMarkdown
                 else if looksText prefix then CategoryText
                 else CategoryBinary))"

definition categoryFromMIME :: "string \<Rightarrow> category \<Rightarrow> category" where
  "categoryFromMIME mime fallback =
     (if mime = ''text/markdown'' then CategoryMarkdown
      else if has_prefix mime ''text/'' then CategoryText
      else if has_prefix mime ''image/'' then CategoryImage
      else if mime = ''application/pdf'' then CategoryPDF
      else if has_prefix mime ''video/'' then CategoryVideo
      else if has_prefix mime ''audio/'' then CategoryAudio
      else if mime = ''application/zip'' then CategoryZip
      else if mime = ''application/gzip'' \<or> mime = ''application/x-gzip'' then CategoryGzip
      else if mime = ''application/x-xz'' then CategoryXz
      else if mime = ''application/x-tar'' then CategoryTar
      else if mime = ''application/x-bzip2'' then CategoryBzip
      else fallback)"

section \<open>Completions\<close>

record parsed_input =
  pi_path :: bytes
  pi_line :: int

text \<open>\<open>bytes.Split\<close> at the two bytes of U+00A0.\<close>

fun split_nbsp :: "bytes \<Rightarrow> bytes list" where
  "split_nbsp [] = [[]]"
| "split_nbsp [x] = [[x]]"
| "split_nbsp (x # y # zs) =
     (if byte_of x = 194 \<and> byte_of y = 160 then [] # split_nbsp zs
      else (case split_nbsp (y # zs) of [] \<Rightarrow> [[x]] | p # ps \<Rightarrow> (x # p) # ps))"

text \<open>The bytes, each with whether a backslash stood before it; the code keeps the two lists side by side.\<close>

fun unescapeCompletion :: "bytes \<Rightarrow> (char \<times> bool) list" where
  "unescapeCompletion [] = []"
| "unescapeCompletion [c] = [(c, False)]"
| "unescapeCompletion (c # d # cs) =
     (if c = BACKSLASH then (d, True) # unescapeCompletion cs else (c, False) # unescapeCompletion (d # cs))"

fun lastUnescapedColon :: "bytes \<Rightarrow> bool list \<Rightarrow> nat \<Rightarrow> nat option" where
  "lastUnescapedColon path escaped 0 = None"
| "lastUnescapedColon path escaped (Suc i) =
     (if path ! i = CHR '':'' \<and> (length escaped \<le> i \<or> \<not> escaped ! i) then Some i
      else lastUnescapedColon path escaped i)"

definition splitReadableLine :: "(bytes \<Rightarrow> bool) \<Rightarrow> bytes \<Rightarrow> bool list \<Rightarrow> bytes \<times> int" where
  "splitReadableLine readable path escaped =
     (case lastUnescapedColon path escaped (length path) of
        None \<Rightarrow> (path, 0)
      | Some colon \<Rightarrow>
          (case atoi (drop (colon + 1) path) of
             None \<Rightarrow> (path, 0)
           | Some line \<Rightarrow>
               if line < 1 then (path, 0)
               else let base = take colon path;
                        whole = (if readable base then (base, line) else (path, 0)) in
                 (case lastUnescapedColon path escaped colon of
                    None \<Rightarrow> whole
                  | Some previous \<Rightarrow>
                      (case atoi (drop (previous + 1) base) of
                         None \<Rightarrow> whole
                       | Some parsed \<Rightarrow>
                           if parsed > 0 \<and> readable (take previous base) then (take previous base, parsed) else whole))))"

definition expand_home :: "bytes \<Rightarrow> bytes \<times> bool list \<Rightarrow> bytes \<times> bool list" where
  "expand_home home p =
     (case p of
        (path, escaped) \<Rightarrow>
          if home \<noteq> [] \<and> has_prefix path ''~/''
          then (let remainder = drop 2 path; remainderEscaped = (if 2 \<le> length escaped then drop 2 escaped else []);
                    base = (if last home \<noteq> SLASH \<and> last home \<noteq> BACKSLASH then home @ [SLASH] else home)
                in (base @ remainder, replicate (length base) False @ remainderEscaped))
          else (path, escaped))"

definition ParseCompletionInput :: "(bytes \<Rightarrow> bool) \<Rightarrow> bytes \<Rightarrow> bool \<Rightarrow> bytes \<Rightarrow> parsed_input" where
  "ParseCompletionInput readable input literal home =
     (if literal then \<lparr>pi_path = fst (expand_home home (input, [])), pi_line = 0\<rparr>
      else let fields = split_nbsp input;
               path = (if 1 < length fields then fields ! 1 else input);
               path = (if path \<noteq> [] \<and> last path = CHR '' '' then butlast path else path);
               units = unescapeCompletion path
           in (case expand_home home (map fst units, map snd units) of
                 (path, escaped) \<Rightarrow>
                   (case splitReadableLine readable path escaped of (path, line) \<Rightarrow> \<lparr>pi_path = path, pi_line = line\<rparr>)))"

section \<open>Reading completions back\<close>

definition escape_completion :: "bytes \<Rightarrow> bytes" where
  "escape_completion p = concat (map (\<lambda>c. [BACKSLASH, c]) p)"

lemma escape_completion_simps [simp]:
  "escape_completion [] = []" "escape_completion (c # p) = BACKSLASH # c # escape_completion p"
  by (simp_all add: escape_completion_def)

definition nbsp_free :: "bytes \<Rightarrow> bool" where
  "nbsp_free s \<longleftrightarrow> list_all (\<lambda>c. byte_of c \<noteq> 160) s"

lemma split_nbsp_ascii:
  "nbsp_free s \<Longrightarrow> split_nbsp (x # s) = [x # s]"
proof (induction s arbitrary: x)
  case (Cons y s)
  then have "byte_of y \<noteq> 160" "split_nbsp (y # s) = [y # s]" by (simp_all add: nbsp_free_def)
  then show ?case by simp
qed simp

lemma split_nbsp_escaped:
  "nbsp_free s \<Longrightarrow> s \<noteq> [] \<Longrightarrow> split_nbsp (escape_completion p @ s) = [escape_completion p @ s]"
proof (induction p)
  case Nil then show ?case by (cases s) (simp_all add: split_nbsp_ascii nbsp_free_def)
next
  case (Cons c p)
  then have IH: "split_nbsp (escape_completion p @ s) = [escape_completion p @ s]" by simp
  obtain y zs where t: "escape_completion p @ s = y # zs" "byte_of y \<noteq> 160"
  proof (cases p)
    case Nil with Cons.prems that show ?thesis by (cases s) (auto simp: nbsp_free_def)
  next
    case (Cons d q) with that show ?thesis by (simp add: BACKSLASH_def byte_of_def)
  qed
  have "byte_of BACKSLASH \<noteq> 194" by (simp add: BACKSLASH_def byte_of_def)
  then show ?case using IH t by simp
qed

lemma unescape_plain: "BACKSLASH \<notin> set s \<Longrightarrow> unescapeCompletion s = map (\<lambda>c. (c, False)) s"
  by (induction s rule: unescapeCompletion.induct) auto

lemma unescape_escaped: "unescapeCompletion (escape_completion p @ s) = map (\<lambda>c. (c, True)) p @ unescapeCompletion s"
  by (induction p) auto

lemma colon_none:
  "n \<le> length path \<Longrightarrow> (\<And>i. i < n \<Longrightarrow> i < length escaped \<and> escaped ! i) \<Longrightarrow> lastUnescapedColon path escaped n = None"
proof (induction n)
  case (Suc n)
  from Suc.prems(2) [of n] have "n < length escaped" "escaped ! n" by simp_all
  moreover have "lastUnescapedColon path escaped n = None" using Suc by simp
  ultimately show ?case by simp
qed simp

lemma colon_at:
  "i < n \<Longrightarrow> path ! i = CHR '':'' \<Longrightarrow> \<not> escaped ! i \<Longrightarrow> (\<And>j. i < j \<Longrightarrow> j < n \<Longrightarrow> path ! j \<noteq> CHR '':'') \<Longrightarrow>
     lastUnescapedColon path escaped n = Some i"
proof (induction n)
  case (Suc n) then show ?case by (cases "i = n") auto
qed simp

lemma atoi_itoa: "int n < 2 ^ 63 \<Longrightarrow> atoi (itoa n) = Some (int n)"
  using itoa_digits [of _ n] is_digit_not_sign [of "hd (itoa n)"] by (auto simp: atoi_def Let_def)

lemma is_digit_facts: "is_digit c \<Longrightarrow> c \<noteq> BACKSLASH \<and> c \<noteq> CHR '':'' \<and> c \<noteq> CHR '' '' \<and> byte_of c \<noteq> 160"
  by (auto simp: is_digit_conv BACKSLASH_def byte_of_def)

lemma colon_found:
  "lastUnescapedColon path escaped n = Some i \<Longrightarrow> i < n \<and> path ! i = CHR '':'' \<and> (length escaped \<le> i \<or> \<not> escaped ! i)"
  by (induction n) (auto split: if_splits)

lemma atoi_None_mem:
  assumes "x \<in> set s" and "\<not> is_digit x" and "x \<noteq> CHR ''-''" and "x \<noteq> CHR ''+''"
  shows "atoi s = None"
proof -
  have "x \<in> set (tl s)" if "hd s = CHR ''-'' \<or> hd s = CHR ''+''" using assms that by (cases s) auto
  then show ?thesis using assms(1,2) by (auto simp: atoi_def Let_def list_all_iff)
qed

text \<open>
  The text the parser splits: a directory \<open>b\<close> put in front (nothing, or something that ends with a separator), the escaped bytes
  \<open>r\<close>, and the text \<open>s\<close> behind them.
\<close>

definition separated :: "bytes \<Rightarrow> bool" where
  "separated b \<longleftrightarrow> b = [] \<or> last b \<in> {SLASH, BACKSLASH}"

lemma colon_before:
  assumes "separated b"
    and "lastUnescapedColon (b @ r @ s) (replicate (length b) False @ replicate (length r) True @ replicate k False) (length b + length r) = Some i"
  shows "atoi (drop (Suc i) (b @ r)) = None"
proof -
  let ?esc = "replicate (length b) False @ replicate (length r) True @ replicate k False"
  note found = colon_found [OF assms(2)]
  have i: "i < length b"
  proof (rule ccontr)
    assume "\<not> i < length b"
    with found have "i - length b < length r" "i < length ?esc" by auto
    then have esc: "?esc ! i" using \<open>\<not> i < length b\<close> by (simp add: nth_append)
    from found \<open>i < length ?esc\<close> have "\<not> ?esc ! i" by (simp only: not_le [symmetric] simp_thms)
    with esc show False by simp
  qed
  have "b ! i \<noteq> last b" using found i assms(1) by (auto simp: separated_def nth_append SLASH_def BACKSLASH_def)
  then have "i \<noteq> length b - 1" using i by (metis last_conv_nth list.size(3) not_less_zero)
  with i have "last b \<in> set (drop (Suc i) b)" by (metis Suc_lessI diff_Suc_1 last_drop last_in_set length_drop length_greater_0_conv zero_less_diff)
  then have "last b \<in> set (drop (Suc i) (b @ r))" by (simp add: drop_append)
  then show ?thesis using assms(1) i by (intro atoi_None_mem) (auto simp: separated_def is_digit_conv SLASH_def BACKSLASH_def byte_of_def)
qed

lemma split_line_none:
  assumes "separated b"
  shows "splitReadableLine readable (b @ r) (replicate (length b) False @ replicate (length r) True) = (b @ r, 0)"
  using colon_before [OF assms, of r "[]" 0] by (auto simp: splitReadableLine_def split: option.split)

lemma split_line_back:
  assumes "separated b" and "int n < 2 ^ 63" and "1 \<le> n"
  shows "splitReadableLine readable (b @ r @ CHR '':'' # itoa n)
      (replicate (length b) False @ replicate (length r) True @ replicate (Suc (length (itoa n))) False)
    = (if readable (b @ r) then (b @ r, int n) else (b @ r @ CHR '':'' # itoa n, 0))"
proof -
  let ?m = "length b + length r"
  let ?path = "b @ r @ CHR '':'' # itoa n"
  let ?esc = "replicate (length b) False @ replicate (length r) True @ replicate (Suc (length (itoa n))) False"
  have digit: "itoa n ! k \<noteq> CHR '':''" if "k < length (itoa n)" for k using is_digit_facts [OF itoa_digits [OF nth_mem [OF that]]] by simp
  have behind: "?path ! j \<noteq> CHR '':''" if "?m < j" "j < length ?path" for j
  proof -
    have "\<not> j - length b < length r" "j - length b - length r = Suc (j - Suc ?m)" using that by auto
    then have "?path ! j = itoa n ! (j - Suc ?m)" using that by (simp add: nth_append)
    then show ?thesis using digit [of "j - Suc ?m"] that by simp
  qed
  have "?path ! ?m = CHR '':''" "\<not> ?esc ! ?m" by (simp_all add: nth_append)
  then have colon: "lastUnescapedColon ?path ?esc (length ?path) = Some ?m" using behind by (intro colon_at) auto
  have number: "drop (?m + 1) ?path = itoa n" and base: "take ?m ?path = b @ r" by simp_all
  show ?thesis
  proof (cases "lastUnescapedColon ?path ?esc ?m")
    case None
    then show ?thesis unfolding splitReadableLine_def colon option.case number base using assms(2,3) by (simp add: atoi_itoa Let_def)
  next
    case (Some i)
    note before = colon_before [OF assms(1) Some]
    show ?thesis unfolding splitReadableLine_def colon option.case number base Let_def Some
      using assms(2,3) before by (simp add: atoi_itoa del: drop_append)
  qed
qed

text \<open>How \<open>expand_home\<close> treats an escaped path with something behind it.\<close>

lemma expand_escaped:
  obtains b r where "separated b" "fst (expand_home home (p, [])) = b @ r"
    "\<And>s k. s = [] \<or> hd s = CHR '':'' \<Longrightarrow> expand_home home (p @ s, replicate (length p) True @ replicate k False)
      = (b @ r @ s, replicate (length b) False @ replicate (length r) True @ replicate k False)"
proof (cases "home \<noteq> [] \<and> has_prefix p ''~/''")
  case True
  let ?b = "if last home \<noteq> SLASH \<and> last home \<noteq> BACKSLASH then home @ [SLASH] else home"
  obtain r where p: "p = CHR ''~'' # CHR ''/'' # r"
    using True by (cases p; cases "tl p") (auto simp: has_prefix_def)
  show thesis
  proof (rule that [of ?b r])
    show "separated ?b" by (auto simp: separated_def)
    show "fst (expand_home home (p, [])) = ?b @ r" using True by (simp add: expand_home_def p has_prefix_def Let_def)
    show "expand_home home (p @ s, replicate (length p) True @ replicate k False)
        = (?b @ r @ s, replicate (length ?b) False @ replicate (length r) True @ replicate k False)" for s k
      using True by (simp add: expand_home_def p has_prefix_def Let_def)
  qed
next
  case False
  show thesis
  proof (rule that [of "[]" p])
    show "fst (expand_home home (p, [])) = [] @ p" using False by (auto simp: expand_home_def)
    show "expand_home home (p @ s, replicate (length p) True @ replicate k False)
        = ([] @ p @ s, replicate (length ([] :: bytes)) False @ replicate (length p) True @ replicate k False)"
      if "s = [] \<or> hd s = CHR '':''" for s k
    proof -
      have "has_prefix (p @ s) ''~/'' \<longleftrightarrow> has_prefix p ''~/''"
        using that by (cases p; cases "tl p"; cases s) (auto simp: has_prefix_def)
      then show ?thesis using False by (auto simp: expand_home_def)
    qed
  qed (simp add: separated_def)
qed

text \<open>
  C29: the text of a completion is read back exactly.  A path with a backslash before each byte, whatever its bytes are, followed
  by the space that ends a completion, yields the path; with a colon and a line number before the space it yields the
  path and the number when the path is readable, and otherwise the path with the colon and the number as part of it.
  The one thing that is not taken literally is a leading \<open>~/\<close>, which stands for the home directory, if there is
  one, although its bytes are escaped.
\<close>

theorem completion_roundtrip:
  fixes home p :: bytes
  defines "q \<equiv> fst (expand_home home (p, []))"
  assumes "1 \<le> n" and "int n < 2 ^ 63"
  shows "ParseCompletionInput readable (escape_completion p @ '' '') False home = \<lparr>pi_path = q, pi_line = 0\<rparr>
     \<and> ParseCompletionInput readable (escape_completion p @ CHR '':'' # itoa n @ '' '') False home
       = (if readable q then \<lparr>pi_path = q, pi_line = int n\<rparr> else \<lparr>pi_path = q @ CHR '':'' # itoa n, pi_line = 0\<rparr>)
     \<and> (home = [] \<or> \<not> has_prefix p ''~/'' \<longrightarrow> q = p)"
proof (intro conjI impI)
  obtain b r where b: "separated b" and q: "q = b @ r"
    and home: "\<And>s k. s = [] \<or> hd s = CHR '':'' \<Longrightarrow> expand_home home (p @ s, replicate (length p) True @ replicate k False)
      = (b @ r @ s, replicate (length b) False @ replicate (length r) True @ replicate k False)"
    unfolding q_def using expand_escaped [of home p] by metis
  have home0: "expand_home home (p, replicate (length p) True) = (q, replicate (length b) False @ replicate (length r) True)"
    using home [of "[]" 0] q by simp
  have units: "unescapeCompletion (escape_completion p) = map (\<lambda>c. (c, True)) p" using unescape_escaped [of p "[]"] by simp
  have "split_nbsp (escape_completion p @ '' '') = [escape_completion p @ '' '']"
    by (rule split_nbsp_escaped) (simp_all add: nbsp_free_def byte_of_def)
  then show "ParseCompletionInput readable (escape_completion p @ '' '') False home = \<lparr>pi_path = q, pi_line = 0\<rparr>"
    using home0 split_line_none [OF b, of readable r] q
    by (simp add: ParseCompletionInput_def Let_def units comp_def map_replicate_const)
  let ?s = "CHR '':'' # itoa n"
  let ?units = "map (\<lambda>c. (c, True)) p @ map (\<lambda>c. (c, False)) ?s"
  have digits: "\<forall>c \<in> set (itoa n). c \<noteq> BACKSLASH \<and> byte_of c \<noteq> 160" using is_digit_facts itoa_digits by blast
  moreover have "byte_of (CHR '':'') \<noteq> 160" "byte_of (CHR '' '') \<noteq> 160" "CHR '':'' \<noteq> BACKSLASH" by (simp_all add: byte_of_def BACKSLASH_def)
  ultimately have plain: "nbsp_free (?s @ '' '')" "BACKSLASH \<notin> set ?s" by (auto simp: nbsp_free_def list_all_iff simp del: itoa.simps)
  have fields: "split_nbsp (escape_completion p @ ?s @ '' '') = [escape_completion p @ ?s @ '' '']"
    by (rule split_nbsp_escaped [OF plain(1)]) simp
  have units: "unescapeCompletion (escape_completion p @ ?s) = ?units" by (simp only: unescape_escaped unescape_plain [OF plain(2)])
  have lists: "map fst ?units = p @ ?s" "map snd ?units = replicate (length p) True @ replicate (Suc (length (itoa n))) False"
    by (simp_all add: comp_def map_replicate_const)
  have cut: "butlast (escape_completion p @ ?s @ '' '') = escape_completion p @ ?s" "last (escape_completion p @ ?s @ '' '') = CHR '' ''"
    by (simp_all add: butlast_append)
  have home1: "expand_home home (p @ ?s, replicate (length p) True @ replicate (Suc (length (itoa n))) False)
      = (b @ r @ ?s, replicate (length b) False @ replicate (length r) True @ replicate (Suc (length (itoa n))) False)"
    by (rule home) simp
  have "ParseCompletionInput readable (escape_completion p @ ?s @ '' '') False home
      = (case splitReadableLine readable (b @ r @ ?s)
            (replicate (length b) False @ replicate (length r) True @ replicate (Suc (length (itoa n))) False) of
           (path, line) \<Rightarrow> \<lparr>pi_path = path, pi_line = line\<rparr>)"
    unfolding ParseCompletionInput_def Let_def fields using cut
    by (simp del: append.simps map_append list.map replicate.simps add: units lists home1)
  then show "ParseCompletionInput readable (escape_completion p @ CHR '':'' # itoa n @ '' '') False home
      = (if readable q then \<lparr>pi_path = q, pi_line = int n\<rparr> else \<lparr>pi_path = q @ CHR '':'' # itoa n, pi_line = 0\<rparr>)"
    using split_line_back [OF b assms(3,2), of readable r] q by simp
  show "q = p" if "home = [] \<or> \<not> has_prefix p ''~/''" using that by (auto simp: q_def expand_home_def)
qed

theorem completion_roundtrip_witness:
  "ParseCompletionInput (\<lambda>p. True) (escape_completion ''~/a b:3'' @ CHR '':'' # itoa 7 @ '' '') False ''/h'' = \<lparr>pi_path = ''/h/a b:3'', pi_line = 7\<rparr>"
  using completion_roundtrip [of 7 "\<lambda>p. True" "''~/a b:3''" "''/h''"] by (simp add: has_prefix_def expand_home_def Let_def SLASH_def BACKSLASH_def)

end
