(* ===== verification/Preview_Zip.thy ===== *)
theory Preview_Zip
  imports Preview_Limits Preview_Detect
begin

text \<open>
  \<open>internal/preview/archive.go\<close>, \<open>preflightZip\<close> and what it calls: the check of a zip archive before anything lists it.

  A file is its bytes, which do not change while it is checked; reading beyond them is the error of \<open>ReadAt\<close>.  Sizes and offsets
  are integers: the code's \<open>int64\<close> and \<open>uint64\<close> values stay in range, since it compares before it converts, and files
  are shorter than \<open>2^63\<close> bytes.
\<close>

section \<open>Reading\<close>

definition ErrZipFormat :: go_error where "ErrZipFormat = ErrText ''zip: not a valid zip file''"

text \<open>\<open>binary.LittleEndian\<close> on a slice.\<close>

fun le_value :: "bytes \<Rightarrow> nat" where
  "le_value [] = 0"
| "le_value (c # cs) = byte_of c + 256 * le_value cs"

definition le_field :: "bytes \<Rightarrow> nat \<Rightarrow> nat \<Rightarrow> nat" where
  "le_field xs i j = le_value (take (j - i) (drop i xs))"

definition read_at :: "bytes \<Rightarrow> int \<Rightarrow> nat \<Rightarrow> bytes option" where
  "read_at data offset n = (if offset < 0 \<or> int (length data) < offset + int n then None else Some (take n (drop (nat offset) data)))"

definition last_index :: "bytes \<Rightarrow> bytes \<Rightarrow> nat option" where
  "last_index xs sep =
     (case filter (\<lambda>i. has_prefix (drop i xs) sep) (rev [0..<Suc (length xs)]) of [] \<Rightarrow> None | i # _ \<Rightarrow> Some i)"

definition directory_signature :: bytes where "directory_signature = bytes_of [80, 75, 1, 2]"

section \<open>Directory headers\<close>

text \<open>The lengths of the name, the extra field and the comment.\<close>

definition name_length :: "bytes \<Rightarrow> nat" where "name_length header = le_field header 28 30"
definition extra_length :: "bytes \<Rightarrow> nat" where "extra_length header = le_field header 30 32"
definition comment_length :: "bytes \<Rightarrow> nat" where "comment_length header = le_field header 32 34"

definition variable_length :: "bytes \<Rightarrow> int" where
  "variable_length header = int (name_length header) + int (extra_length header) + int (comment_length header)"

text \<open>The zip64 values that are still needed: the uncompressed size, the compressed size and the offset.\<close>

record zip64_needs =
  zn_uncompressed :: bool
  zn_compressed :: bool
  zn_offset :: bool

fun take_needs :: "bytes \<Rightarrow> bool list \<Rightarrow> bool list option" where
  "take_needs field [] = Some []"
| "take_needs field (needed # rest) =
     (if \<not> needed then map_option (Cons False) (take_needs field rest)
      else if length field < 8 then None
      else map_option (Cons False) (take_needs (drop 8 field) rest))"

definition take_field :: "bytes \<Rightarrow> zip64_needs \<Rightarrow> zip64_needs option" where
  "take_field field needs =
     (case take_needs field [zn_uncompressed needs, zn_compressed needs, zn_offset needs] of
        Some [u, c, off] \<Rightarrow> Some \<lparr>zn_uncompressed = u, zn_compressed = c, zn_offset = off\<rparr>
      | _ \<Rightarrow> None)"

text \<open>The loop over the extra fields; \<^const>\<open>None\<close> is its early return.\<close>

function extra_scan :: "bytes \<Rightarrow> zip64_needs \<Rightarrow> zip64_needs option" where
  "extra_scan extra needs =
     (if length extra < 4 then Some needs
      else let tag = le_field extra 0 2; n = le_field extra 2 4; rest = drop 4 extra in
        if n > length rest then Some needs
        else if tag \<noteq> 1 then extra_scan (drop n rest) needs
        else (case take_field (take n rest) needs of None \<Rightarrow> None | Some needs' \<Rightarrow> extra_scan (drop n rest) needs'))"
  by pat_completeness auto
termination by (relation "measure (length \<circ> fst)") auto

declare extra_scan.simps [simp del]

definition validZipDirectoryHeaderAt :: "bytes \<Rightarrow> int \<Rightarrow> bool" where
  "validZipDirectoryHeaderAt data offset =
     (let fileSize = int (length data) in
      if offset < 0 \<or> offset > fileSize - 46 then False
      else case read_at data offset 46 of
             None \<Rightarrow> False
           | Some header \<Rightarrow>
               if take 4 header \<noteq> directory_signature then False
               else if variable_length header > fileSize - offset - 46 then False
               else (case read_at data (offset + 46 + int (name_length header)) (extra_length header) of
                       None \<Rightarrow> False
                     | Some extra \<Rightarrow>
                         (case extra_scan extra \<lparr>zn_uncompressed = (le_field header 24 28 = 4294967295),
                             zn_compressed = (le_field header 20 24 = 4294967295), zn_offset = (le_field header 42 46 = 4294967295)\<rparr> of
                            None \<Rightarrow> False
                          | Some needs \<Rightarrow> \<not> zn_compressed needs \<and> \<not> zn_offset needs)))"

section \<open>The scan of the central directory\<close>

text \<open>The conversion \<open>uint64(maximumEntries)\<close>.\<close>

definition unsigned_entries :: "int \<Rightarrow> nat" where "unsigned_entries maximum = nat (maximum mod 2 ^ 64)"

definition directory_end :: "nat \<Rightarrow> nat \<Rightarrow> go_error option" where
  "directory_end entries declared = (if entries mod 65536 \<noteq> declared mod 65536 then Some ErrZipFormat else None)"

function directory_scan :: "bytes \<Rightarrow> nat \<Rightarrow> int \<Rightarrow> int \<Rightarrow> nat \<Rightarrow> go_error option" where
  "directory_scan data declared maximum cursor entries =
     (if cursor > int (length data) - 46 then directory_end entries declared
      else case read_at data cursor 46 of
             None \<Rightarrow> Some ErrEOF
           | Some header \<Rightarrow>
               if take 4 header \<noteq> directory_signature then directory_end entries declared
               else if Suc entries > unsigned_entries maximum then Some ErrArchiveEntries
               else if 46 + variable_length header > int (length data) - cursor then Some ErrZipFormat
               else directory_scan data declared maximum (cursor + (46 + variable_length header)) (Suc entries))"
  by pat_completeness auto
termination
  by (relation "measure (\<lambda>(data, _, _, cursor, _). nat (int (length data) - cursor))") (auto simp: variable_length_def)

declare directory_scan.simps [simp del]

definition scanZipCentralDirectory :: "bytes \<Rightarrow> int \<Rightarrow> nat \<Rightarrow> int \<Rightarrow> go_error option" where
  "scanZipCentralDirectory data offset declaredEntries maximumEntries = directory_scan data declaredEntries maximumEntries offset 0"

section \<open>The check\<close>

text \<open>The number of entries, the size and the offset of the directory, and where it ends.\<close>

record zip_end =
  ze_entries :: nat
  ze_size :: nat
  ze_offset :: nat
  ze_end :: int

definition zip64_end :: "bytes \<Rightarrow> int \<Rightarrow> zip_end result" where
  "zip64_end data directoryEndOffset =
     (if directoryEndOffset < 20 then Inl ErrZipFormat
      else case read_at data (directoryEndOffset - 20) 20 of
             None \<Rightarrow> Inl ErrEOF
           | Some locator \<Rightarrow>
               if take 4 locator \<noteq> bytes_of [80, 75, 6, 7] \<or> le_field locator 4 8 \<noteq> 0 \<or> le_field locator 16 20 \<noteq> 1 then Inl ErrZipFormat
               else let raw = le_field locator 8 16 in
                 if raw > 2 ^ 63 - 1 then Inl ErrZipFormat
                 else (case read_at data (int raw) 56 of
                         None \<Rightarrow> Inl ErrEOF
                       | Some r \<Rightarrow>
                           if take 4 r \<noteq> bytes_of [80, 75, 6, 6] then Inl ErrZipFormat
                           else Inr \<lparr>ze_entries = le_field r 32 40, ze_size = le_field r 40 48, ze_offset = le_field r 48 56, ze_end = int raw\<rparr>))"

definition find_end :: "bytes \<Rightarrow> zip_end result" where
  "find_end data =
     (let fileSize = int (length data); tailSize = min fileSize 65557; tail = drop (nat (fileSize - tailSize)) data in
      case last_index tail (bytes_of [80, 75, 5, 6]) of
        None \<Rightarrow> Inl ErrZipFormat
      | Some index \<Rightarrow>
          if length tail - index < 22 then Inl ErrZipFormat
          else let eocd = drop index tail in
            if index + 22 + le_field eocd 20 22 \<noteq> length tail then Inl ErrZipFormat
            else let e = \<lparr>ze_entries = le_field eocd 10 12, ze_size = le_field eocd 12 16, ze_offset = le_field eocd 16 20,
                     ze_end = fileSize - tailSize + int index\<rparr> in
              if ze_entries e = 65535 \<or> ze_size e = 65535 \<or> ze_offset e = 4294967295 then zip64_end data (ze_end e) else Inr e)"

text \<open>The offset the directory is read from.\<close>

definition directory_offset :: "bytes \<Rightarrow> zip_end \<Rightarrow> int result" where
  "directory_offset data e =
     (if ze_size e > 2 ^ 63 - 1 \<or> ze_offset e > 2 ^ 63 - 1 \<or> int (ze_size e) > ze_end e then Inl ErrZipFormat
      else let effective = ze_end e - int (ze_size e) in
        if effective < 0 \<or> effective \<ge> int (length data) then Inl ErrZipFormat
        else if effective > int (ze_offset e) \<and> validZipDirectoryHeaderAt data (int (ze_offset e)) then Inr (int (ze_offset e))
        else Inr effective)"

text \<open>\<open>opened\<close> is the error of opening the file or of reading its size.\<close>

definition preflightZip :: "go_error option \<Rightarrow> bytes \<Rightarrow> int \<Rightarrow> go_error option" where
  "preflightZip opened data maximumEntries =
     (case opened of
        Some e \<Rightarrow> Some e
      | None \<Rightarrow>
          (case find_end data of
             Inl e \<Rightarrow> Some e
           | Inr e \<Rightarrow>
               if ze_entries e > unsigned_entries maximumEntries then Some ErrArchiveEntries
               else (case directory_offset data e of
                       Inl err \<Rightarrow> Some err
                     | Inr offset \<Rightarrow> scanZipCentralDirectory data offset (ze_entries e) maximumEntries)))"

section \<open>Central directories\<close>

text \<open>
  A directory of \<open>n\<close> entries between two offsets: each entry has a header with its signature and lies inside the file.  It ends
  where no further entry starts.
\<close>

definition directory_entry_at :: "bytes \<Rightarrow> int \<Rightarrow> bytes option" where
  "directory_entry_at data c = (case read_at data c 46 of None \<Rightarrow> None | Some h \<Rightarrow> if take 4 h = directory_signature then Some h else None)"

inductive central_directory :: "bytes \<Rightarrow> int \<Rightarrow> nat \<Rightarrow> int \<Rightarrow> bool" for data where
  stop: "directory_entry_at data c = None \<Longrightarrow> central_directory data c 0 c"
| entry: "directory_entry_at data c = Some h \<Longrightarrow> c + 46 + variable_length h \<le> int (length data)
    \<Longrightarrow> central_directory data (c + 46 + variable_length h) n e \<Longrightarrow> central_directory data c (Suc n) e"

inductive_cases central_directory_cases: "central_directory data c n e"

lemma variable_length_nonneg: "0 \<le> variable_length h"
  by (simp add: variable_length_def)

lemma directory_scan_None:
  "0 \<le> cursor \<Longrightarrow> directory_scan data declared maximum cursor entries = None \<longleftrightarrow>
     (\<exists>n e. central_directory data cursor n e \<and> (n = 0 \<or> entries + n \<le> unsigned_entries maximum) \<and> (entries + n) mod 65536 = declared mod 65536)"
proof (induction data declared maximum cursor entries rule: directory_scan.induct)
  case (1 data declared maximum cursor entries)
  note unfold = directory_scan.simps [of data declared maximum cursor entries]
  show ?case
  proof (cases "directory_entry_at data cursor")
    case None
    have scan: "directory_scan data declared maximum cursor entries = directory_end entries declared"
      using None \<open>0 \<le> cursor\<close> by (auto simp: unfold directory_entry_at_def read_at_def split: if_splits)
    have only: "central_directory data cursor n e \<longleftrightarrow> n = 0 \<and> e = cursor" for n e
      using None central_directory.stop [OF None] by (auto elim: central_directory_cases)
    show ?thesis unfolding scan only by (auto simp: directory_end_def)
  next
    case (Some h)
    then have h: "read_at data cursor 46 = Some h" "take 4 h = directory_signature" "\<not> cursor > int (length data) - 46"
      by (auto simp: directory_entry_at_def read_at_def split: option.splits if_splits)
    show ?thesis
    proof (cases "Suc entries > unsigned_entries maximum \<or> 46 + variable_length h > int (length data) - cursor")
      case True
      then have "directory_scan data declared maximum cursor entries \<noteq> None" using h unfolding unfold by (auto simp del: not_None_eq)
      moreover have False if "central_directory data cursor n e" "n = 0 \<or> entries + n \<le> unsigned_entries maximum" for n e
        using that(1) by (cases rule: central_directory_cases) (use True Some that(2) in auto)
      ultimately show ?thesis by auto
    next
      case False
      let ?c = "cursor + (46 + variable_length h)"
      have "directory_scan data declared maximum cursor entries = directory_scan data declared maximum ?c (Suc entries)"
        using h False by (simp add: unfold)
      also have "\<dots> = None \<longleftrightarrow> (\<exists>n e. central_directory data ?c n e \<and> (n = 0 \<or> Suc entries + n \<le> unsigned_entries maximum)
          \<and> (Suc entries + n) mod 65536 = declared mod 65536)"
        using 1(1) [OF h(3,1)] h(2) False 1(2) variable_length_nonneg [of h] by auto
      also have "\<dots> \<longleftrightarrow> (\<exists>n e. central_directory data cursor n e \<and> (n = 0 \<or> entries + n \<le> unsigned_entries maximum)
          \<and> (entries + n) mod 65536 = declared mod 65536)" (is "?l \<longleftrightarrow> ?r")
      proof
        assume ?l
        then obtain n e where n: "central_directory data ?c n e" "n = 0 \<or> Suc entries + n \<le> unsigned_entries maximum"
          "(Suc entries + n) mod 65536 = declared mod 65536" by blast
        have "central_directory data cursor (Suc n) e"
          using Some False n(1) by (intro central_directory.entry) (auto simp: add.assoc)
        with n False show ?r by (intro exI [of _ "Suc n"] exI [of _ e]) auto
      next
        assume ?r
        then obtain n e where n: "central_directory data cursor n e" "n = 0 \<or> entries + n \<le> unsigned_entries maximum"
          "(entries + n) mod 65536 = declared mod 65536" by blast
        from n(1) Some obtain m where "n = Suc m" "central_directory data ?c m e" by (auto elim: central_directory_cases simp: add.assoc)
        with n(2,3) show ?l by (intro exI [of _ m] exI [of _ e]) auto
      qed
      finally show ?thesis .
    qed
  qed
qed

lemma central_directory_end: "central_directory data c n e \<Longrightarrow> 0 \<le> c \<Longrightarrow> c \<le> e \<and> (0 < n \<longrightarrow> e \<le> int (length data)) \<and> directory_entry_at data e = None"
proof (induction rule: central_directory.induct)
  case (entry c h n e)
  then show ?case using variable_length_nonneg [of h] by (cases n) (auto elim: central_directory_cases)
qed simp

text \<open>
  C25: the scan of a central directory accepts it exactly when the entries that follow each other from its offset are at most the
  allowed number and agree with the declared number, modulo the sixteen bits that the code compares.
\<close>

theorem zip_scan_iff:
  assumes "0 \<le> offset" and "0 \<le> maximum" and "maximum < 2 ^ 63"
  shows "scanZipCentralDirectory data offset declared maximum = None \<longleftrightarrow>
    (\<exists>n e. central_directory data offset n e \<and> int n \<le> maximum \<and> n mod 65536 = declared mod 65536)"
proof -
  have "unsigned_entries maximum = nat maximum" using assms(2,3) by (simp add: unsigned_entries_def)
  then show ?thesis using assms(2) directory_scan_None [OF assms(1), of data declared maximum 0]
    by (auto simp: scanZipCentralDirectory_def)
qed

lemma directory_offset_range: "directory_offset data e = Inr offset \<Longrightarrow> 0 \<le> offset \<and> offset < int (length data)"
  by (auto simp: directory_offset_def Let_def split: if_splits)

text \<open>
  C24: an archive that passes the check has its directory inside the file, holding at most the allowed number of entries, and the
  number it declares is at most the allowed number too.
\<close>

theorem preflight_sound:
  assumes "preflightZip opened data maximum = None" and "0 \<le> maximum" and "maximum < 2 ^ 63"
  shows "\<exists>ze offset n e. find_end data = Inr ze \<and> directory_offset data ze = Inr offset \<and> 0 \<le> offset \<and> offset < int (length data)
     \<and> central_directory data offset n e \<and> e \<le> int (length data) \<and> int n \<le> maximum \<and> int (ze_entries ze) \<le> maximum
     \<and> n mod 65536 = ze_entries ze mod 65536"
proof -
  have max: "unsigned_entries maximum = nat maximum" using assms(2,3) by (simp add: unsigned_entries_def)
  obtain ze offset where ze: "find_end data = Inr ze" "directory_offset data ze = Inr offset" "ze_entries ze \<le> nat maximum"
    and scan: "directory_scan data (ze_entries ze) maximum offset 0 = None"
    using assms(1) max by (auto simp: preflightZip_def scanZipCentralDirectory_def split: option.splits sum.splits if_splits)
  note range = directory_offset_range [OF ze(2)]
  with scan obtain n e where n: "central_directory data offset n e" "n = 0 \<or> n \<le> nat maximum" "n mod 65536 = ze_entries ze mod 65536"
    using max by (auto simp: directory_scan_None)
  then have "e \<le> int (length data)" using central_directory_end [OF n(1)] range by (cases n) (auto elim: central_directory_cases)
  with ze range n assms(2) show ?thesis by (intro exI [of _ ze] exI [of _ offset] exI [of _ n] exI [of _ e]) auto
qed

section \<open>An archive\<close>

text \<open>The directory and the end record of an archive with one entry.\<close>

definition demo_zip :: bytes where
  "demo_zip = bytes_of ([80, 75, 1, 2] @ replicate 24 0 @ [1, 0] @ replicate 16 0 @ [97]
     @ [80, 75, 5, 6] @ replicate 6 0 @ [1, 0, 47, 0, 0, 0, 0, 0, 0, 0, 0, 0])"

lemma demo_zip_facts:
  "length demo_zip = 69" "last_index demo_zip (bytes_of [80, 75, 5, 6]) = Some 47"
  "le_field (drop 47 demo_zip) 20 22 = 0" "le_field (drop 47 demo_zip) 10 12 = 1" "le_field (drop 47 demo_zip) 12 16 = 47"
  "le_field (drop 47 demo_zip) 16 20 = 0"
  by code_simp+

lemma demo_zip_entry:
  "take 4 (take 46 demo_zip) = directory_signature" "variable_length (take 46 demo_zip) = 1"
  "take 4 (take 46 (drop 47 demo_zip)) \<noteq> directory_signature"
  by code_simp+

lemma demo_zip_end: "find_end demo_zip = Inr \<lparr>ze_entries = 1, ze_size = 47, ze_offset = 0, ze_end = 47\<rparr>"
  by (simp add: find_end_def Let_def demo_zip_facts)

lemma demo_zip_scan: "scanZipCentralDirectory demo_zip 0 1 5 = None"
  by (simp add: scanZipCentralDirectory_def directory_scan.simps [of _ _ _ 0] directory_scan.simps [of _ _ _ 47] read_at_def demo_zip_facts
      demo_zip_entry unsigned_entries_def directory_end_def del: take_take)

lemma demo_zip_passes: "preflightZip None demo_zip 5 = None"
  by (simp add: preflightZip_def demo_zip_end directory_offset_def demo_zip_facts demo_zip_scan [unfolded One_nat_def] unsigned_entries_def)

theorem preflight_sound_witness: "\<exists>offset n e. central_directory demo_zip offset n e \<and> int n \<le> 5"
  using preflight_sound [OF demo_zip_passes] by auto

theorem zip_scan_iff_witness: "\<exists>n e. central_directory demo_zip 0 n e \<and> int n \<le> 5 \<and> n mod 65536 = 1"
  using zip_scan_iff [of 0 5 demo_zip 1] demo_zip_scan by simp

end
