(* ===== verification/Preview_Native.thy ===== *)
theory Preview_Native
  imports Preview_Zip
begin

text \<open>
  The renderers of \<open>internal/preview/render.go\<close> and \<open>archive.go\<close> that use no other program: directories, text, images, documents
  and archives, on any writer.

  What the packages for images and archives and the file system read is an argument; the \<open>n\<close>-th check of the context in a loop
  is the \<open>n\<close>-th value of a function.  A listing of an archive is \<^const>\<open>None\<close> while a copy in it goes on.
\<close>

section \<open>escaped\<close>

text \<open>\<open>strconv.QuoteToASCII\<close> without its quotes.\<close>

fun json_digits :: "nat \<Rightarrow> nat \<Rightarrow> string" where
  "json_digits 0 v = []"
| "json_digits (Suc n) v = json_digits n (v div 16) @ [json_hex (v mod 16)]"

definition quote_rune :: "rune \<Rightarrow> string" where
  "quote_rune r =
     (if r = 34 \<or> r = 92 then [BACKSLASH, char_of r]
      else if 32 \<le> r \<and> r \<le> 126 then [char_of r]
      else if r = 7 then [BACKSLASH, CHR ''a''] else if r = 8 then [BACKSLASH, CHR ''b''] else if r = 12 then [BACKSLASH, CHR ''f'']
      else if r = 10 then [BACKSLASH, CHR ''n''] else if r = 13 then [BACKSLASH, CHR ''r''] else if r = 9 then [BACKSLASH, CHR ''t'']
      else if r = 11 then [BACKSLASH, CHR ''v'']
      else if r < 32 \<or> r = 127 then BACKSLASH # CHR ''x'' # json_digits 2 r
      else if r < 65536 then BACKSLASH # CHR ''u'' # json_digits 4 r
      else BACKSLASH # CHR ''U'' # json_digits 8 r)"

function escaped :: "bytes \<Rightarrow> string" where
  "escaped p =
     (if p = [] then []
      else (if invalid_head p then BACKSLASH # CHR ''x'' # json_digits 2 (byte_of (hd p)) else quote_rune (fst (decode_rune p)))
        @ escaped (drop (snd (decode_rune p)) p))"
  by pat_completeness auto
termination
  by (relation "measure length") (use decode_rune_size in \<open>auto simp: less_diff_conv\<close>)

declare escaped.simps [simp del]

section \<open>Printing\<close>

definition emit :: "'w writer \<Rightarrow> bytes \<Rightarrow> 'w \<Rightarrow> go_error option \<times> 'w" where
  "emit w data st = (case w st data of (_, e, st') \<Rightarrow> (e, st'))"

definition fmt_int :: "int \<Rightarrow> string" where
  "fmt_int i = (if i < 0 then CHR ''-'' # itoa (nat (- i)) else itoa (nat i))"

definition pad_left :: "nat \<Rightarrow> string \<Rightarrow> string" where
  "pad_left n s = replicate (n - length s) (CHR '' '') @ s"

text \<open>What a renderer knows of a file: \<open>pv_mtime\<close> is its modification time in RFC 3339 format.\<close>

record preview_info = file_info +
  pv_size :: int
  pv_mtime :: string

definition renderMetadata :: "'w writer \<Rightarrow> category \<Rightarrow> preview_info \<Rightarrow> 'w \<Rightarrow> go_error option \<times> 'w" where
  "renderMetadata w c info st =
     emit w (category_text c @ '' file: '' @ fmt_int (pv_size info) @ '' bytes, modified '' @ pv_mtime info @ [LF]) st"

section \<open>Directories and text\<close>

fun write_names :: "'w writer \<Rightarrow> (nat \<Rightarrow> go_error option) \<Rightarrow> nat \<Rightarrow> bytes list \<Rightarrow> 'w \<Rightarrow> go_error option \<times> 'w" where
  "write_names w ctx i [] st = (None, st)"
| "write_names w ctx i (name # names) st =
     (case ctx i of
        Some e \<Rightarrow> (Some e, st)
      | None \<Rightarrow>
          (case emit w (escaped name @ [LF]) st of
             (Some e, st') \<Rightarrow> (Some e, st')
           | (None, st') \<Rightarrow> write_names w ctx (Suc i) names st'))"

text \<open>\<open>listed\<close> are the names and the error of \<open>Readdirnames\<close>.\<close>

definition renderDirectory :: "'w writer \<Rightarrow> (nat \<Rightarrow> go_error option) \<Rightarrow> go_error option \<Rightarrow> bytes list \<times> go_error option \<Rightarrow> 'w
    \<Rightarrow> go_error option \<times> 'w" where
  "renderDirectory w ctx opened listed st =
     (case opened of
        Some e \<Rightarrow> (Some e, st)
      | None \<Rightarrow>
          (case listed of
             (names, err) \<Rightarrow>
               if err \<noteq> None \<and> err \<noteq> Some ErrEOF then (err, st)
               else (case emit w (''Directory:'' @ [LF]) st of
                       (Some e, st') \<Rightarrow> (Some e, st')
                     | (None, st') \<Rightarrow>
                         (case write_names w ctx 0 names st' of
                            (Some e, st'') \<Rightarrow> (Some e, st'')
                          | (None, st'') \<Rightarrow> if names = [] then emit w (''(empty)'' @ [LF]) st'' else (err, st'')))))"

text \<open>The lines of \<open>bufio.ScanLines\<close>.\<close>

definition drop_cr :: "bytes \<Rightarrow> bytes" where
  "drop_cr line = (if line \<noteq> [] \<and> last line = CR then butlast line else line)"

definition scan_lines :: "bytes \<Rightarrow> bytes list" where
  "scan_lines data = (let parts = split_on LF data in map drop_cr (if last parts = [] then butlast parts else parts))"

definition text_line :: "nat \<Rightarrow> bytes \<Rightarrow> bytes" where
  "text_line number line =
     pad_left 6 (itoa number) @ ''  '' @ escaped (take 65536 line) @ (if length line > 65536 then '' ... [truncated]'' else []) @ [LF]"

fun text_loop :: "'w writer \<Rightarrow> (nat \<Rightarrow> go_error option) \<Rightarrow> int \<Rightarrow> nat \<Rightarrow> bytes list \<Rightarrow> 'w \<Rightarrow> go_error option \<times> nat \<times> 'w" where
  "text_loop w ctx maximum n [] st = (None, n, st)"
| "text_loop w ctx maximum n (line # rest) st =
     (if int n \<ge> maximum then (None, n, st)
      else case ctx n of
             Some e \<Rightarrow> (Some e, n, st)
           | None \<Rightarrow>
               (case emit w (text_line (Suc n) line) st of
                  (Some e, st') \<Rightarrow> (Some e, Suc n, st')
                | (None, st') \<Rightarrow> text_loop w ctx maximum (Suc n) rest st'))"

text \<open>\<open>data\<close> is what can be read of the file, and \<open>read_err\<close> the error that the scanner has met at its end.\<close>

definition renderText :: "'w writer \<Rightarrow> (nat \<Rightarrow> go_error option) \<Rightarrow> go_error option \<Rightarrow> bytes \<Rightarrow> go_error option \<Rightarrow> limits \<Rightarrow> 'w
    \<Rightarrow> go_error option \<times> 'w" where
  "renderText w ctx opened data read_err limits st =
     (case opened of
        Some e \<Rightarrow> (Some e, st)
      | None \<Rightarrow>
          (case text_loop w ctx (li_lines limits) 0 (scan_lines (take (nat (li_input limits)) data)) st of
             (Some e, _, st') \<Rightarrow> (Some e, st')
           | (None, n, st') \<Rightarrow>
               if read_err \<noteq> None then (read_err, st')
               else if n = 0 then emit w (''(empty text file)'' @ [LF]) st'
               else (None, st')))"

section \<open>Images and documents\<close>

text \<open>\<open>decoded\<close> is the format, the width and the height that package \<open>image\<close> reads.\<close>

definition renderImage :: "'w writer \<Rightarrow> go_error option \<Rightarrow> (string \<times> int \<times> int) option \<Rightarrow> preview_info \<Rightarrow> 'w \<Rightarrow> go_error option \<times> 'w" where
  "renderImage w opened decoded info st =
     (case opened of
        Some e \<Rightarrow> (Some e, st)
      | None \<Rightarrow>
          (case decoded of
             None \<Rightarrow> renderMetadata w CategoryImage info st
           | Some (format, width, height) \<Rightarrow>
               emit w (''Image: '' @ format @ '', '' @ fmt_int width @ ''x'' @ fmt_int height @ '', '' @ fmt_int (pv_size info)
                 @ '' bytes, modified '' @ pv_mtime info @ [LF]) st))"

text \<open>\<open>unicode.IsPrint\<close> on one byte.\<close>

definition latin_print :: "char \<Rightarrow> bool" where
  "latin_print c \<longleftrightarrow> 32 \<le> byte_of c \<and> byte_of c \<le> 126 \<or> 161 \<le> byte_of c \<and> byte_of c \<noteq> 173"

definition renderPDF :: "'w writer \<Rightarrow> preview_info \<Rightarrow> bytes \<Rightarrow> 'w \<Rightarrow> go_error option \<times> 'w" where
  "renderPDF w info prefix st =
     (case emit w (''PDF document: '' @ fmt_int (pv_size info) @ '' bytes, modified '' @ pv_mtime info @ [LF]) st of
        (Some e, st') \<Rightarrow> (Some e, st')
      | (None, st') \<Rightarrow>
          emit w (escaped (map (\<lambda>c. if c = LF \<or> c = CR \<or> c = TAB \<or> latin_print c then c else CHR '' '') (take 4096 prefix)) @ [LF]) st')"

section \<open>Archives\<close>

definition entry_row :: "nat \<Rightarrow> int \<Rightarrow> bytes \<Rightarrow> bytes" where
  "entry_row number n name = pad_left 4 (itoa number) @ ''  '' @ pad_left 10 (fmt_int n) @ ''  '' @ escaped name @ [LF]"

text \<open>An entry as package \<open>zip\<close> gives it: its stream is opened, copied and closed.\<close>

record zip_entry =
  zy_name :: bytes
  zy_size :: nat
  zy_open :: "go_error option"
  zy_reads :: "copy_read list"
  zy_close :: "go_error option"

definition copy_failure :: "go_error option \<Rightarrow> go_error option" where
  "copy_failure err = (case err of Some e \<Rightarrow> if errors_is e ErrInputLimit then None else Some e | None \<Rightarrow> None)"

fun zip_loop :: "'w writer \<Rightarrow> (nat \<Rightarrow> go_error option) \<Rightarrow> limits \<Rightarrow> nat \<Rightarrow> int \<Rightarrow> zip_entry list \<Rightarrow> 'w \<Rightarrow> (go_error option \<times> 'w) option" where
  "zip_loop w ctx limits i decompressed [] st = Some (None, st)"
| "zip_loop w ctx limits i decompressed (x # xs) st =
     (if int i \<ge> li_entries limits \<or> decompressed \<ge> li_decompressed limits then Some (None, st)
      else case ctx i of
             Some e \<Rightarrow> Some (Some e, st)
           | None \<Rightarrow>
               (case emit w (entry_row (Suc i) (int (zy_size x)) (zy_name x)) st of
                  (Some e, st') \<Rightarrow> Some (Some e, st')
                | (None, st') \<Rightarrow>
                    (case zy_open x of
                       Some e \<Rightarrow> Some (Some e, st')
                     | None \<Rightarrow>
                         (case copyBounded (zy_reads x) (li_decompressed limits - decompressed) of
                            None \<Rightarrow> None
                          | Some (n, err) \<Rightarrow>
                              (case copy_failure err of
                                 Some e \<Rightarrow> Some (Some e, st')
                               | None \<Rightarrow>
                                   (case zy_close x of
                                      Some e \<Rightarrow> Some (Some e, st')
                                    | None \<Rightarrow> zip_loop w ctx limits (Suc i) (decompressed + n) xs st'))))))"

text \<open>\<open>opened\<close> are the error or the entries of \<open>zip.OpenReader\<close>, after the check of the file.\<close>

definition renderZip :: "'w writer \<Rightarrow> (nat \<Rightarrow> go_error option) \<Rightarrow> go_error option \<Rightarrow> bytes \<Rightarrow> zip_entry list result \<Rightarrow> limits \<Rightarrow> 'w
    \<Rightarrow> (go_error option \<times> 'w) option" where
  "renderZip w ctx file_err data opened limits st =
     (case preflightZip file_err data (li_entries limits) of
        Some e \<Rightarrow> Some (Some e, st)
      | None \<Rightarrow> (case opened of Inl e \<Rightarrow> Some (Some e, st) | Inr entries \<Rightarrow> zip_loop w ctx limits 0 0 entries st))"

record gzip_file =
  gz_open :: "go_error option"
  gz_reader :: "go_error option"
  gz_name :: bytes
  gz_stat :: "int result"
  gz_reads :: "copy_read list"

definition renderGzip :: "'w writer \<Rightarrow> gzip_file \<Rightarrow> limits \<Rightarrow> 'w \<Rightarrow> (go_error option \<times> 'w) option" where
  "renderGzip w g limits st =
     (case (gz_open g, gz_reader g) of
        (Some e, _) \<Rightarrow> Some (Some e, st)
      | (None, Some e) \<Rightarrow> Some (Some e, st)
      | (None, None) \<Rightarrow>
          (case gz_stat g of
             Inl e \<Rightarrow> Some (Some e, st)
           | Inr n \<Rightarrow>
               (case emit w (''Gzip archive: '' @ escaped (if gz_name g = [] then ''(unnamed stream)'' else gz_name g) @ '', '' @ fmt_int n
                   @ '' compressed bytes'' @ [LF]) st of
                  (Some e, st') \<Rightarrow> Some (Some e, st')
                | (None, st') \<Rightarrow>
                    (case copyBounded (gz_reads g) (li_decompressed limits) of
                       None \<Rightarrow> None
                     | Some (_, err) \<Rightarrow> Some (copy_failure err, st')))))"

text \<open>What \<open>Next\<close> of a tar reader gives.\<close>

datatype tar_next = TarError go_error | TarEntry bytes int "copy_read list"

fun tar_loop :: "'w writer \<Rightarrow> (nat \<Rightarrow> go_error option) \<Rightarrow> limits \<Rightarrow> nat \<Rightarrow> int \<Rightarrow> tar_next list \<Rightarrow> 'w \<Rightarrow> (go_error option \<times> 'w) option" where
  "tar_loop w ctx limits i decompressed [] st = Some (None, st)"
| "tar_loop w ctx limits i decompressed (x # xs) st =
     (if int i \<ge> li_entries limits \<or> decompressed \<ge> li_decompressed limits then Some (None, st)
      else case ctx i of
             Some e \<Rightarrow> Some (Some e, st)
           | None \<Rightarrow>
               (case x of
                  TarError e \<Rightarrow> Some (if errors_is e ErrEOF then None else Some e, st)
                | TarEntry name n reads \<Rightarrow>
                    (case emit w (entry_row (Suc i) n name) st of
                       (Some e, st') \<Rightarrow> Some (Some e, st')
                     | (None, st') \<Rightarrow>
                         (case copyBounded reads (li_decompressed limits - decompressed) of
                            None \<Rightarrow> None
                          | Some (k, err) \<Rightarrow>
                              (case copy_failure err of
                                 Some e \<Rightarrow> Some (Some e, st')
                               | None \<Rightarrow> tar_loop w ctx limits (Suc i) (decompressed + k) xs st')))))"

definition renderTar :: "'w writer \<Rightarrow> (nat \<Rightarrow> go_error option) \<Rightarrow> go_error option \<Rightarrow> tar_next list \<Rightarrow> limits \<Rightarrow> 'w
    \<Rightarrow> (go_error option \<times> 'w) option" where
  "renderTar w ctx opened nexts limits st =
     (case opened of Some e \<Rightarrow> Some (Some e, st) | None \<Rightarrow> tar_loop w ctx limits 0 0 nexts st)"

definition archiveCategory :: "category \<Rightarrow> bool" where
  "archiveCategory c \<longleftrightarrow> c = CategoryZip \<or> c = CategoryGzip \<or> c = CategoryXz \<or> c = CategoryTar \<or> c = CategoryBzip"

definition renderArchiveOrFallback :: "'w writer \<Rightarrow> go_error option \<Rightarrow> category \<Rightarrow> preview_info \<Rightarrow> (go_error option \<times> 'w) option
    \<Rightarrow> (go_error option \<times> 'w) option" where
  "renderArchiveOrFallback w ctx_err c info rendered =
     (case rendered of
        None \<Rightarrow> None
      | Some (None, st) \<Rightarrow> Some (None, st)
      | Some (Some e, st) \<Rightarrow>
          (case ctx_err of
             Some ce \<Rightarrow> Some (Some ce, st)
           | None \<Rightarrow>
               if errors_is e ErrOutputLimit \<or> errors_is e ErrInputLimit \<or> errors_is e ErrArchiveEntries then Some (Some e, st)
               else Some (renderMetadata w c info st)))"

section \<open>renderNative\<close>

text \<open>Everything a native renderer reads.\<close>

record native_env =
  ne_ctx :: "go_error option"
  ne_loop :: "nat \<Rightarrow> go_error option"
  ne_after :: "go_error option"
  ne_open :: "go_error option"
  ne_names :: "bytes list \<times> go_error option"
  ne_data :: bytes
  ne_read_err :: "go_error option"
  ne_image :: "(string \<times> int \<times> int) option"
  ne_zip :: "zip_entry list result"
  ne_gzip :: gzip_file
  ne_tar :: "tar_next list"

definition renderNative :: "'w writer \<Rightarrow> native_env \<Rightarrow> preview_info \<Rightarrow> bytes \<Rightarrow> category \<Rightarrow> limits \<Rightarrow> 'w \<Rightarrow> (go_error option \<times> 'w) option" where
  "renderNative w env info prefix c limits st =
     (case ne_ctx env of
        Some e \<Rightarrow> Some (Some e, st)
      | None \<Rightarrow>
          (case c of
             CategoryDirectory \<Rightarrow> Some (renderDirectory w (ne_loop env) (ne_open env) (ne_names env) st)
           | CategoryMarkdown \<Rightarrow> Some (renderText w (ne_loop env) (ne_open env) (ne_data env) (ne_read_err env) limits st)
           | CategoryText \<Rightarrow> Some (renderText w (ne_loop env) (ne_open env) (ne_data env) (ne_read_err env) limits st)
           | CategoryImage \<Rightarrow> Some (renderImage w (ne_open env) (ne_image env) info st)
           | CategoryPDF \<Rightarrow> Some (renderPDF w info prefix st)
           | CategoryVideo \<Rightarrow> Some (renderMetadata w c info st)
           | CategoryAudio \<Rightarrow> Some (renderMetadata w c info st)
           | CategoryZip \<Rightarrow> renderArchiveOrFallback w (ne_after env) c info
               (renderZip w (ne_loop env) (ne_open env) (ne_data env) (ne_zip env) limits st)
           | CategoryGzip \<Rightarrow> renderArchiveOrFallback w (ne_after env) c info (renderGzip w (ne_gzip env) limits st)
           | CategoryTar \<Rightarrow> renderArchiveOrFallback w (ne_after env) c info (renderTar w (ne_loop env) (ne_open env) (ne_tar env) limits st)
           | CategoryXz \<Rightarrow> Some (renderMetadata w c info st)
           | CategoryBzip \<Rightarrow> Some (renderMetadata w c info st)
           | CategoryBinary \<Rightarrow> Some (renderMetadata w c info st)))"

section \<open>What reaches the screen\<close>

text \<open>Printable ASCII and line feeds.\<close>

definition screen_safe :: "bytes \<Rightarrow> bool" where
  "screen_safe s \<longleftrightarrow> list_all (\<lambda>c. c = LF \<or> 32 \<le> byte_of c \<and> byte_of c \<le> 126) s"

lemma screen_safe_simps [simp]:
  "screen_safe []" "screen_safe (c # s) \<longleftrightarrow> (c = LF \<or> 32 \<le> byte_of c \<and> byte_of c \<le> 126) \<and> screen_safe s"
  "screen_safe (s @ t) \<longleftrightarrow> screen_safe s \<and> screen_safe t"
  by (simp_all add: screen_safe_def)

lemma screen_safe_take: "screen_safe s \<Longrightarrow> screen_safe (take k s)"
  by (auto simp: screen_safe_def list_all_iff dest: in_set_takeD)

lemma screen_safe_digits: "list_all is_digit s \<Longrightarrow> screen_safe s"
  by (auto simp: screen_safe_def list_all_iff is_digit_conv)

lemma json_hex_safe: "32 \<le> byte_of (json_hex (v mod 16)) \<and> byte_of (json_hex (v mod 16)) \<le> 126"
proof -
  have "\<forall>n < 16. 32 \<le> byte_of (json_hex n) \<and> byte_of (json_hex n) \<le> 126" by code_simp
  then show ?thesis by simp
qed

lemma json_digits_safe [simp]: "screen_safe (json_digits n v)"
  by (induction n arbitrary: v) (simp_all add: json_hex_safe)

lemma quote_rune_safe [simp]: "screen_safe (quote_rune r)"
  by (auto simp: quote_rune_def BACKSLASH_def) (auto simp: byte_of_def)

lemma escaped_safe [simp]: "screen_safe (escaped p)"
proof (induction p rule: escaped.induct)
  case (1 p)
  show ?case
  proof (cases "p = []")
    case False
    have "byte_of BACKSLASH = 92" "byte_of (CHR ''x'') = 120" by (simp_all add: BACKSLASH_def byte_of_def)
    with 1 False show ?thesis by (subst escaped.simps) simp
  qed (simp add: escaped.simps)
qed

lemma itoa_safe [simp]: "screen_safe (itoa n)"
  by (simp add: screen_safe_digits)

lemma fmt_int_safe [simp]: "screen_safe (fmt_int i)"
  by (simp add: fmt_int_def byte_of_def)

lemma pad_left_safe [simp]: "screen_safe (pad_left n s) \<longleftrightarrow> screen_safe s"
proof -
  have "screen_safe (replicate k (CHR '' ''))" for k by (induction k) (simp_all add: byte_of_def)
  then show ?thesis by (simp add: pad_left_def)
qed

lemma category_text_safe [simp]: "screen_safe (category_text c)"
  by (cases c) (simp_all add: category_text_def byte_of_def)

lemma entry_row_safe [simp]: "screen_safe (entry_row n k name)"
  by (simp add: entry_row_def byte_of_def)

lemma text_line_safe [simp]: "screen_safe (text_line n line)"
  by (simp add: text_line_def byte_of_def)

text \<open>
  What a renderer keeps, whatever it renders: a relation \<open>J\<close> of its error and the state of its writer that each write keeps,
  that an error from elsewhere keeps, and after which a renderer may go on unless the output limit was reached.  The fallback of
  an archive can replace an error by that of the context, which is what the weaker relation \<open>K\<close> allows.
\<close>

locale rendering =
  fixes w :: "'w writer" and ok :: "bytes \<Rightarrow> bool" and J K :: "go_error option \<Rightarrow> 'w \<Rightarrow> bool"
  assumes wrote: "J None st \<Longrightarrow> ok data \<Longrightarrow> w st data = (n, e, st') \<Longrightarrow> J e st'"
    and safe_ok: "screen_safe data \<Longrightarrow> ok data"
    and failed: "J None st \<Longrightarrow> J (Some x) st"
    and weaken: "J e st \<Longrightarrow> K e st" and replaced: "J (Some x) st \<Longrightarrow> K (Some y) st"
    and resumed: "J (Some x) st \<Longrightarrow> \<not> errors_is x ErrOutputLimit \<Longrightarrow> J None st"
begin

lemma any_error: "J None st \<Longrightarrow> J e st"
  using failed by (cases e) auto

lemma ok_if: "(\<not> (\<forall>d. ok d) \<Longrightarrow> screen_safe data) \<Longrightarrow> ok data"
  using safe_ok by blast

lemma emit_J: "emit w data st = (e, st') \<Longrightarrow> J None st \<Longrightarrow> ok data \<Longrightarrow> J e st'"
  by (auto simp: emit_def split: prod.splits intro: wrote)

lemma emit_safe: "emit w data st = (e, st') \<Longrightarrow> J None st \<Longrightarrow> screen_safe data \<Longrightarrow> J e st'"
  using emit_J safe_ok by blast

definition mtime_ok :: "preview_info \<Rightarrow> bool" where
  "mtime_ok info \<longleftrightarrow> screen_safe (pv_mtime info) \<or> (\<forall>d. ok d)"

lemma renderMetadata_J: "renderMetadata w c info st = (e, st') \<Longrightarrow> J None st \<Longrightarrow> mtime_ok info \<Longrightarrow> J e st'"
proof -
  assume run: "renderMetadata w c info st = (e, st')" "J None st" "mtime_ok info"
  have "ok (category_text c @ '' file: '' @ fmt_int (pv_size info) @ '' bytes, modified '' @ pv_mtime info @ [LF])"
    using run(3) by (intro ok_if) (auto simp: mtime_ok_def byte_of_def)
  with run(1,2) show ?thesis unfolding renderMetadata_def by (rule emit_J)
qed

lemma write_names_J: "write_names w ctx i names st = (e, st') \<Longrightarrow> J None st \<Longrightarrow> J e st'"
proof (induction names arbitrary: i st)
  case (Cons name names)
  show ?case
  proof (cases "ctx i")
    case None
    obtain e1 m where m: "emit w (escaped name @ [LF]) st = (e1, m)" by fastforce
    have "J e1 m" using emit_safe [OF m Cons.prems(2)] by simp
    with Cons m None show ?thesis by (cases e1) auto
  qed (use Cons.prems any_error in auto)
qed simp

lemma renderDirectory_J:
  assumes "renderDirectory w ctx opened listed st = (e, st')" and "J None st"
  shows "J e st'"
proof -
  obtain names err where listed: "listed = (names, err)" by (cases listed)
  let ?title = "''Directory:'' @ [LF]" and ?none = "''(empty)'' @ [LF]"
  have safe: "screen_safe ?title" "screen_safe ?none" by (simp_all add: byte_of_def)
  obtain e1 m where m: "emit w ?title st = (e1, m)" by fastforce
  obtain e2 m2 where m2: "write_names w ctx 0 names m = (e2, m2)" by fastforce
  obtain e3 m3 where m3: "emit w ?none m2 = (e3, m3)" by fastforce
  have J1: "J e1 m" using emit_safe [OF m assms(2) safe(1)] .
  have J2: "J e2 m2" if "e1 = None" using write_names_J [OF m2] J1 that by simp
  have J3: "J e3 m3" if "e1 = None" "e2 = None" using emit_safe [OF m3 _ safe(2)] J2 that by simp
  show ?thesis using assms m m2 m3 J1 J2 J3 any_error
    by (auto simp: renderDirectory_def listed simp del: append.simps split: option.splits if_splits)
qed

lemma text_loop_J: "text_loop w ctx maximum n lines st = (e, k, st') \<Longrightarrow> J None st \<Longrightarrow> J e st'"
proof (induction lines arbitrary: n st)
  case (Cons line rest)
  show ?case
  proof (cases "int n < maximum \<and> ctx n = None")
    case True
    obtain e1 m where m: "emit w (text_line (Suc n) line) st = (e1, m)" by fastforce
    have "J e1 m" using emit_safe [OF m Cons.prems(2)] by simp
    with Cons m True show ?thesis by (cases e1) auto
  qed (use Cons.prems any_error in \<open>auto split: if_splits option.splits\<close>)
qed simp

lemma renderText_J:
  assumes "renderText w ctx opened data read_err limits st = (e, st')" and "J None st"
  shows "J e st'"
proof -
  let ?none = "''(empty text file)'' @ [LF]"
  have safe: "screen_safe ?none" by (simp add: byte_of_def)
  obtain e1 k m where m: "text_loop w ctx (li_lines limits) 0 (scan_lines (take (nat (li_input limits)) data)) st = (e1, k, m)"
    by (metis prod.exhaust)
  obtain e2 m2 where m2: "emit w ?none m = (e2, m2)" by fastforce
  have J1: "J e1 m" using text_loop_J [OF m assms(2)] .
  have J2: "J e2 m2" if "e1 = None" using emit_safe [OF m2 _ safe] J1 that by simp
  show ?thesis using assms m m2 J1 J2 any_error
    by (auto simp: renderText_def simp del: append.simps split: option.splits if_splits)
qed

lemma renderImage_J:
  assumes "renderImage w opened decoded info st = (e, st')" and "J None st" and "mtime_ok info"
    and "\<And>f wd h. decoded = Some (f, wd, h) \<Longrightarrow> screen_safe f \<or> (\<forall>d. ok d)"
  shows "J e st'"
proof (cases decoded)
  case None
  with assms(1-3) any_error show ?thesis by (auto simp: renderImage_def split: option.splits dest: renderMetadata_J)
next
  case (Some x)
  obtain f wd h where x: "x = (f, wd, h)" by (cases x)
  let ?d = "''Image: '' @ f @ '', '' @ fmt_int wd @ ''x'' @ fmt_int h @ '', '' @ fmt_int (pv_size info) @ '' bytes, modified '' @ pv_mtime info @ [LF]"
  have "ok ?d" using assms(3,4) Some x by (intro ok_if) (auto simp: mtime_ok_def byte_of_def)
  then show ?thesis using assms(1,2) Some x any_error
    by (cases opened) (auto simp: renderImage_def simp del: append.simps dest: emit_J)
qed

lemma renderPDF_J:
  assumes "renderPDF w info prefix st = (e, st')" and "J None st" and "mtime_ok info"
  shows "J e st'"
proof -
  let ?d = "''PDF document: '' @ fmt_int (pv_size info) @ '' bytes, modified '' @ pv_mtime info @ [LF]"
  let ?t = "escaped (map (\<lambda>c. if c = LF \<or> c = CR \<or> c = TAB \<or> latin_print c then c else CHR '' '') (take 4096 prefix)) @ [LF]"
  obtain e1 m where m: "emit w ?d st = (e1, m)" by fastforce
  have "ok ?d" using assms(3) by (intro ok_if) (auto simp: mtime_ok_def byte_of_def)
  from emit_J [OF m assms(2) this] have J1: "J e1 m" .
  have safe: "screen_safe ?t" by simp
  show ?thesis
  proof (cases e1)
    case None
    with assms(1) m have "emit w ?t m = (e, st')" by (simp only: renderPDF_def prod.case option.case)
    from emit_safe [OF this _ safe] J1 None show ?thesis by simp
  next
    case (Some x)
    with assms(1) m have "m = st' \<and> e1 = e" by (simp only: renderPDF_def prod.case option.case) simp
    with J1 show ?thesis by simp
  qed
qed

lemma zip_loop_J: "zip_loop w ctx limits i d xs st = Some (e, st') \<Longrightarrow> J None st \<Longrightarrow> J e st'"
proof (induction xs arbitrary: i d st)
  case (Cons x xs)
  obtain e1 m where m: "emit w (entry_row (Suc i) (int (zy_size x)) (zy_name x)) st = (e1, m)" by fastforce
  have "J e1 m" using emit_safe [OF m Cons.prems(2)] by simp
  with Cons m any_error show ?case by (auto split: option.splits prod.splits if_splits)
qed simp

lemma tar_loop_J: "tar_loop w ctx limits i d xs st = Some (e, st') \<Longrightarrow> J None st \<Longrightarrow> J e st'"
proof (induction xs arbitrary: i d st)
  case (Cons x xs)
  show ?case
  proof (cases x)
    case (TarEntry name n reads)
    obtain e1 m where m: "emit w (entry_row (Suc i) n name) st = (e1, m)" by fastforce
    have "J e1 m" using emit_safe [OF m Cons.prems(2)] by simp
    with Cons m any_error TarEntry show ?thesis by (auto split: option.splits prod.splits if_splits)
  qed (use Cons.prems any_error in \<open>auto split: option.splits if_splits\<close>)
qed simp

lemma renderZip_J: "renderZip w ctx ferr data opened limits st = Some (e, st') \<Longrightarrow> J None st \<Longrightarrow> J e st'"
  using any_error by (auto simp: renderZip_def split: option.splits sum.splits dest: zip_loop_J)

lemma renderTar_J: "renderTar w ctx opened nexts limits st = Some (e, st') \<Longrightarrow> J None st \<Longrightarrow> J e st'"
  using any_error by (auto simp: renderTar_def split: option.splits dest: tar_loop_J)

lemma renderGzip_J:
  assumes "renderGzip w g limits st = Some (e, st')" and "J None st"
  shows "J e st'"
proof -
  let ?d = "\<lambda>n. ''Gzip archive: '' @ escaped (if gz_name g = [] then ''(unnamed stream)'' else gz_name g) @ '', '' @ fmt_int n @ '' compressed bytes'' @ [LF]"
  have safe: "screen_safe (?d n)" for n by (simp add: byte_of_def)
  have J1: "J e1 m" if "emit w (?d n) st = (e1, m)" for n e1 m using emit_safe [OF that assms(2) safe] .
  show ?thesis using assms any_error
    by (auto simp: renderGzip_def simp del: append.simps split: option.splits sum.splits prod.splits dest!: J1)
qed

lemma renderArchiveOrFallback_K:
  assumes "renderArchiveOrFallback w ctx_err c info rendered = Some (e, st')" and "mtime_ok info"
    and "\<And>e m. rendered = Some (e, m) \<Longrightarrow> J e m"
  shows "K e st'"
proof -
  obtain e1 m where m: "rendered = Some (e1, m)" using assms(1) by (cases rendered) (auto simp: renderArchiveOrFallback_def)
  note J1 = assms(3) [OF m]
  consider "e1 = e" "m = st'" | x y where "e1 = Some x" "e = Some y" "m = st'"
    | x where "e1 = Some x" "\<not> errors_is x ErrOutputLimit" "renderMetadata w c info m = (e, st')"
    using assms(1) m by (auto simp: renderArchiveOrFallback_def split: option.splits if_splits)
  then show ?thesis
  proof cases
    case 1 with J1 weaken show ?thesis by simp
  next
    case 2 with J1 replaced show ?thesis by simp
  next
    case 3
    with J1 have "J None m" using resumed by blast
    from renderMetadata_J [OF 3(3) this assms(2)] show ?thesis by (rule weaken)
  qed
qed

lemma renderNative_K:
  assumes "renderNative w env info prefix c limits st = Some (e, st')" and "J None st" and "mtime_ok info"
    and "\<And>f wd h. ne_image env = Some (f, wd, h) \<Longrightarrow> screen_safe f \<or> (\<forall>d. ok d)"
  shows "K e st'"
proof (cases "ne_ctx env")
  case None
  note run = assms(1) [unfolded renderNative_def None option.case]
  show ?thesis
  proof (cases c)
    case CategoryZip
    with run assms(2) show ?thesis by (auto intro: renderArchiveOrFallback_K [OF _ assms(3)] renderZip_J)
  next
    case CategoryGzip
    with run assms(2) show ?thesis by (auto intro: renderArchiveOrFallback_K [OF _ assms(3)] renderGzip_J)
  next
    case CategoryTar
    with run assms(2) show ?thesis by (auto intro: renderArchiveOrFallback_K [OF _ assms(3)] renderTar_J)
  next
    case CategoryImage
    with run have "renderImage w (ne_open env) (ne_image env) info st = (e, st')" by simp
    then show ?thesis by (rule weaken [OF renderImage_J [OF _ assms(2,3)]]) (rule assms(4))
  qed (use run assms(2,3) in \<open>auto intro!: weaken dest: renderDirectory_J renderText_J renderPDF_J renderMetadata_J\<close>)
qed (use assms(1,2) any_error weaken in \<open>auto simp: renderNative_def\<close>)

end

lemma take_all_of: "\<exists>k. data = take k data"
  by (rule exI [of _ "length data"]) simp

text \<open>A writer of an output budget, as a writer on the state of the budget; what it has shown is what its destination took.\<close>

definition budget_dest :: "nat \<Rightarrow> (nat \<times> bytes) list budget_state writer" where
  "budget_dest i s data =
     (case s of (b, bws, log) \<Rightarrow>
        (case budget_Write (log_writer i) data b (bws i) log of ((n, e), b', bw', log') \<Rightarrow> (n, e, (b', bws(i := bw'), log'))))"

definition shown_by :: "nat \<Rightarrow> (nat \<times> bytes) list budget_state \<Rightarrow> bytes" where
  "shown_by i s = concat (map snd (filter (\<lambda>item. fst item = i) (snd (snd s))))"

definition extends_safely :: "nat \<Rightarrow> (nat \<times> bytes) list budget_state \<Rightarrow> (nat \<times> bytes) list budget_state \<Rightarrow> bool" where
  "extends_safely i s s' \<longleftrightarrow> (\<exists>d. screen_safe d \<and> shown_by i s' = shown_by i s @ d)"

lemma budget_dest_part: "budget_dest i s data = (n, e, s') \<Longrightarrow> \<exists>k. shown_by i s' = shown_by i s @ take k data"
proof -
  obtain b bws log where s: "s = (b, bws, log)" by (metis prod.exhaust)
  assume "budget_dest i s data = (n, e, s')"
  then show ?thesis
    by (auto simp: s budget_dest_def budget_Write_log shown_by_def Let_def split: if_splits intro: take_all_of exI [of _ 0])
qed

interpretation screen: rendering "budget_dest i" screen_safe "\<lambda>_. extends_safely i s0" "\<lambda>_. extends_safely i s0" for i s0
proof unfold_locales
  fix s data n e s'
  assume "extends_safely i s0 s" "screen_safe data" "budget_dest i s data = (n, e, s')"
  then show "extends_safely i s0 s'"
    using budget_dest_part [of i s data n e s'] by (auto simp: extends_safely_def) (metis append.assoc screen_safe_simps(3) screen_safe_take)
qed simp_all

text \<open>
  The account of an output budget: what is written is what the log holds, and never more than the maximum.  Exceeding the budget
  is an error of its own.
\<close>

definition accounted :: "int \<Rightarrow> (nat \<times> bytes) list budget_state \<Rightarrow> bool" where
  "accounted maximum s \<longleftrightarrow> budget_inv maximum True (fst s) \<and> int (length (logged s)) = ob_written (fst s)"

definition budget_kept :: "int \<Rightarrow> go_error option \<Rightarrow> (nat \<times> bytes) list budget_state \<Rightarrow> bool" where
  "budget_kept maximum e s \<longleftrightarrow> accounted maximum s \<and> (ob_exceeded (fst s) \<longrightarrow> (\<exists>x. e = Some x \<and> errors_is x ErrOutputLimit))"

definition budget_kept_weakly :: "int \<Rightarrow> go_error option \<Rightarrow> (nat \<times> bytes) list budget_state \<Rightarrow> bool" where
  "budget_kept_weakly maximum e s \<longleftrightarrow> accounted maximum s \<and> (ob_exceeded (fst s) \<longrightarrow> e \<noteq> None)"

lemma log_writer_ok: "writer_ok (log_writer i)"
  by (simp add: writer_ok_def log_writer_def)

lemma budget_dest_step: "budget_dest i s data = (n, e, s') \<Longrightarrow> s' = budget_step log_writer (i, data) s"
  by (auto simp: budget_dest_def budget_step_def split: prod.splits)

lemma accounted_step:
  assumes "accounted maximum s" shows "accounted maximum (budget_step log_writer item s)"
proof -
  obtain i data b bws log where eq: "item = (i, data)" "s = (b, bws, log)" by (metis prod.exhaust)
  obtain r b' bw' log' where w: "budget_Write (log_writer i) data b (bws i) log = (r, b', bw', log')" by (metis prod_cases4)
  from budget_Write_inv [OF _ log_writer_ok w] assms have inv: "budget_inv maximum True b'" by (auto simp: accounted_def eq)
  have "int (length (concat (map snd log'))) - int (length (concat (map snd log))) = ob_written b' - ob_written b"
    using w by (auto simp: budget_Write_log Let_def limitReachedLocked_def split: if_splits)
  with inv assms show ?thesis by (auto simp: accounted_def eq budget_step_def w logged_def)
qed

lemma budget_dest_kept:
  assumes "budget_kept maximum None s" and "budget_dest i s data = (n, e, s')"
  shows "budget_kept maximum e s'"
proof -
  have "accounted maximum s'" using accounted_step [of maximum s] assms(1) unfolding budget_dest_step [OF assms(2)] by (simp add: budget_kept_def)
  moreover obtain b bws log where s: "s = (b, bws, log)" by (metis prod.exhaust)
  have "\<not> ob_exceeded b" using assms(1) by (simp add: budget_kept_def s)
  then have "ob_exceeded (fst s') \<longrightarrow> e = Some ErrOutputLimit"
    using assms(2) by (auto simp: s budget_dest_def budget_Write_log Let_def split: if_splits)
  ultimately show ?thesis by (auto simp: budget_kept_def)
qed

interpretation budgeted: rendering "budget_dest i" "\<lambda>_. True" "budget_kept maximum" "budget_kept_weakly maximum" for i maximum
proof unfold_locales
  show "budget_kept maximum e st'" if "budget_kept maximum None st" "budget_dest i st data = (n, e, st')" for st data n e st'
    using that by (rule budget_dest_kept)
qed (auto simp: budget_kept_def budget_kept_weakly_def)

text \<open>
  What a native preview puts on the screen, through a writer of an output budget, is printable ASCII and line feeds, whatever
  the file, its name and the names and contents of an archive are: no control sequence of a terminal gets through.  The two
  texts that other packages write, a time and the name of an image format, have to be of that kind.
\<close>

lemma native_preview_screen_safe:
  assumes "renderNative (budget_dest i) env info prefix c limits st = Some (e, st')" and "screen_safe (pv_mtime info)"
    and "\<forall>f wd h. ne_image env = Some (f, wd, h) \<longrightarrow> screen_safe f"
  shows "\<exists>s. screen_safe s \<and> shown_by i st' = shown_by i st @ s"
proof -
  have "extends_safely i st st" by (auto simp: extends_safely_def intro: exI [of _ "[]"])
  from screen.renderNative_K [OF assms(1) this] assms(2,3) show ?thesis by (auto simp: extends_safely_def screen.mtime_ok_def)
qed

text \<open>A directory with a name that would clear the screen.\<close>

definition demo_native_env :: native_env where
  "demo_native_env = \<lparr>ne_ctx = None, ne_loop = (\<lambda>_. None), ne_after = None, ne_open = None,
     ne_names = ([[CHR 0x1B, CHR ''['', CHR ''2'', CHR ''J'']], None), ne_data = [], ne_read_err = None, ne_image = None, ne_zip = Inr [],
     ne_gzip = \<lparr>gz_open = None, gz_reader = None, gz_name = [], gz_stat = Inr 0, gz_reads = []\<rparr>, ne_tar = []\<rparr>"

definition demo_info :: preview_info where
  "demo_info = \<lparr>fi_name = ''d'', fi_dir = True, pv_size = 0, pv_mtime = ''2024-01-01T00:00:00Z''\<rparr>"

lemma native_preview_clears_nothing:
  "\<exists>e st'. renderNative (budget_dest 0) demo_native_env demo_info [] CategoryDirectory DefaultLimits
      (newOutputBudget 100 True, \<lambda>_. new_budget_writer, []) = Some (e, st') \<and> screen_safe (shown_by 0 st')"
proof -
  let ?st = "(newOutputBudget 100 True, \<lambda>_. new_budget_writer, []) :: (nat \<times> bytes) list budget_state"
  obtain e st' where run: "renderNative (budget_dest 0) demo_native_env demo_info [] CategoryDirectory DefaultLimits ?st = Some (e, st')"
    by (cases "renderDirectory (budget_dest 0) (ne_loop demo_native_env) (ne_open demo_native_env) (ne_names demo_native_env) ?st")
      (auto simp: renderNative_def demo_native_env_def)
  have "screen_safe (pv_mtime demo_info)" by (simp add: demo_info_def byte_of_def)
  from native_preview_screen_safe [OF run this] run show ?thesis by (auto simp: demo_native_env_def shown_by_def)
qed

end
