(* ===== verification/Preview_Render.thy ===== *)
theory Preview_Render
  imports Preview_Native Sessionipc
begin

text \<open>
  \<open>internal/preview/render.go\<close>, \<open>tools.go\<close>, \<open>fileHint\<close> of \<open>limit.go\<close> and the rendering of cached artifacts of \<open>cache.go\<close>: the
  choice of the tools for a file, their runs, and a whole rendering with its fallbacks.

  A run of another program is what the code sees of it: whether it starts, the error of retaining its tree, what it writes to the
  two outputs, its end and the error of the context then.  A process that keeps writing after its output was cut is one whose
  further writes the budget refuses.
\<close>

section \<open>tools.go\<close>

type_synonym tool = "string \<times> string list"

fun contains_bytes :: "bytes \<Rightarrow> bytes \<Rightarrow> bool" where
  "contains_bytes [] sub = (sub = [])"
| "contains_bytes (c # s) sub = (has_prefix (c # s) sub \<or> contains_bytes s sub)"

fun terminalQualified :: "unicode \<Rightarrow> string list \<Rightarrow> bool" where
  "terminalQualified u [] = False"
| "terminalQualified u (entry # rest) =
     (case cut_equals entry of
        Some (key, v) \<Rightarrow> if key = ''TERM'' \<and> contains_bytes (strings_ToLower u v) ''kitty'' then True else terminalQualified u rest
      | None \<Rightarrow> terminalQualified u rest)"

definition place :: "int \<Rightarrow> int \<Rightarrow> string" where
  "place columns lines = fmt_int columns @ ''x'' @ fmt_int lines"

definition bat :: "bytes \<Rightarrow> tool" where
  "bat path = (''bat'', [''--color=always'', ''--style=plain'', ''--paging=never'', ''--'', path])"

definition externalTools :: "bool \<Rightarrow> int \<Rightarrow> int \<Rightarrow> category \<Rightarrow> bytes \<Rightarrow> tool list" where
  "externalTools kitty columns lines c path =
     (case c of
        CategoryDirectory \<Rightarrow> [(''eza'', [''--color=always'', ''--icons=always'', ''--group-directories-first'', ''--'', path])]
      | CategoryMarkdown \<Rightarrow> [(''glow'', [''--width'', fmt_int (max 1 (columns - 1)), path]), bat path]
      | CategoryText \<Rightarrow> [bat path]
      | CategoryImage \<Rightarrow>
          (if kitty then [(''kitten'', [''icat'', ''--clear'', ''--transfer-mode=memory'', ''--place'', place columns lines @ ''@0x0'', ''--'', path])] else [])
          @ [(''chafa'', [''--size'', place columns lines, ''--'', path])]
      | CategoryAudio \<Rightarrow> [(''exiftool'', [''--'', path])]
      | CategoryZip \<Rightarrow> [(''unzip'', [''-l'', ''--'', path])]
      | CategoryGzip \<Rightarrow> [(''gzip'', [''-l'', ''--'', path])]
      | CategoryXz \<Rightarrow> [(''xz'', [''-l'', ''--'', path])]
      | CategoryTar \<Rightarrow> [(''tar'', [''tf'', path])]
      | CategoryBzip \<Rightarrow> [(''tar'', [''tf'', path])]
      | _ \<Rightarrow> [])"

definition has_suffix :: "bytes \<Rightarrow> bytes \<Rightarrow> bool" where
  "has_suffix s t \<longleftrightarrow> has_prefix (rev s) (rev t)"

definition richConverterArguments :: "category \<Rightarrow> bytes \<Rightarrow> bytes \<Rightarrow> string list" where
  "richConverterArguments c path artifact =
     (if c = CategoryPDF then [''-singlefile'', ''-jpeg'', path, if has_suffix artifact ''.jpg'' then take (length artifact - 4) artifact else artifact]
      else if c = CategoryVideo then [''-i'', path, ''-o'', artifact, ''-s'', ''1080'', ''-m'']
      else [''-y'', ''-i'', path, ''-an'', ''-c:v'', ''copy'', artifact])"

text \<open>The identity, the tool and the suffix of a converter.\<close>

definition richConverterFor :: "category \<Rightarrow> (string \<times> string \<times> string) option" where
  "richConverterFor c =
     (if c = CategoryPDF then Some (''pdf-pdftoppm-v1'', ''pdftoppm'', ''.jpg'')
      else if c = CategoryVideo then Some (''video-ffmpegthumbnailer-v1'', ''ffmpegthumbnailer'', ''.jpg'')
      else if c = CategoryAudio then Some (''audio-ffmpeg-cover-v1'', ''ffmpeg'', ''.jpg'')
      else None)"

section \<open>Runs of other programs\<close>

record child_run =
  ch_retain :: "go_error option"
  ch_output :: "(nat \<times> bytes) list"
  ch_wait :: "go_error option"
  ch_ctx :: "go_error option"

text \<open>
  What the renderings of one file share: the environment, in whose \<open>PATH\<close> a tool is looked for, what the file system says of a
  path, the start of a tool, and how a terminal failure fares.
\<close>

record tool_env =
  xe_environment :: "string list"
  xe_stat :: "bytes \<Rightarrow> (bool \<times> nat) option"
  xe_abs :: "bytes \<Rightarrow> bytes option"
  xe_start :: "string \<Rightarrow> string list \<Rightarrow> child_run option"
  xe_cleanup :: bool
  xe_retries :: "bool list"
  xe_kill :: "go_error option"

definition look :: "tool_env \<Rightarrow> string \<Rightarrow> string" where
  "look env name = lookupTool (xe_stat env) (xe_abs env) name (xe_environment env)"

text \<open>
  The state of a rendering: the output budget with its log, in which output 0 is the screen, 1 the error output and 2 the text of
  \<open>file\<close>; the session; and the names given to \<open>OnDispatch\<close>.
\<close>

record render_state =
  ps_out :: "(nat \<times> bytes) list budget_state"
  ps_session :: render_session
  ps_dispatched :: "string list"

definition end_session :: "tool_env \<Rightarrow> go_error \<Rightarrow> render_state \<Rightarrow> go_error option \<times> render_state" where
  "end_session env cause ps =
     (case session_terminal (xe_cleanup env) (xe_retries env) (xe_kill env) cause (ps_session ps) of
        (e, s) \<Rightarrow> (Some e, ps\<lparr>ps_session := s\<rparr>))"

definition tool_write :: "bool \<Rightarrow> nat \<times> bytes \<Rightarrow> int \<times> (nat \<times> bytes) list budget_state \<Rightarrow> int \<times> (nat \<times> bytes) list budget_state" where
  "tool_write limited item s =
     (if limited \<and> fst item = 0
      then (case line_limit_Write (budget_dest 0) (snd item) (fst s) (snd s) of (_, remaining, out) \<Rightarrow> (remaining, out))
      else (fst s, budget_step log_writer item (snd s)))"

text \<open>A program that was started, and its end: a terminal failure, or nothing.\<close>

definition run_child :: "tool_env \<Rightarrow> bool \<Rightarrow> int \<Rightarrow> string \<Rightarrow> child_run \<Rightarrow> render_state \<Rightarrow> go_error option \<times> render_state" where
  "run_child env limited entries name ch ps =
     (case session_start (ch_retain ch) (ps_session ps) of
        ((first, retainErr), s) \<Rightarrow>
          let ps = ps\<lparr>ps_session := s, ps_dispatched := ps_dispatched ps @ (if first then [name] else []),
                 ps_out := snd (fold (tool_write limited) (ch_output ch) (entries, ps_out ps))\<rparr> in
          case retainErr of
            Some e \<Rightarrow> end_session env e ps
          | None \<Rightarrow>
              (case resourceFailure (ch_ctx ch) (fst (ps_out ps)) (ch_wait ch) of
                 Some e \<Rightarrow> end_session env e ps
               | None \<Rightarrow> (None, ps)))"

definition meaningfulBytes :: "render_state \<Rightarrow> int" where
  "meaningfulBytes ps = bw_meaningful (fst (snd (ps_out ps)) 0)"

text \<open>\<open>seek\<close> is the result of rewinding the files that a tool inherits.\<close>

fun external_loop :: "tool_env \<Rightarrow> (string \<Rightarrow> go_error option) \<Rightarrow> bool \<Rightarrow> int \<Rightarrow> tool list \<Rightarrow> render_state \<Rightarrow> (bool \<times> go_error option) \<times> render_state" where
  "external_loop env seek limited entries [] ps = ((False, None), ps)"
| "external_loop env seek limited entries ((name, args) # tools) ps =
     (if look env name = [] then external_loop env seek limited entries tools ps
      else case seek name of
             Some e \<Rightarrow> (case end_session env e ps of (err, ps) \<Rightarrow> ((False, err), ps))
           | None \<Rightarrow>
               (case xe_start env (look env name) args of
                  None \<Rightarrow> external_loop env seek limited entries tools ps
                | Some ch \<Rightarrow>
                    (case run_child env limited entries name ch ps of
                       (Some e, ps') \<Rightarrow> ((False, Some e), ps')
                     | (None, ps') \<Rightarrow>
                         if meaningfulBytes ps' > meaningfulBytes ps then ((True, None), ps')
                         else external_loop env seek limited entries tools ps')))"

definition renderExternal :: "tool_env \<Rightarrow> (string \<Rightarrow> go_error option) \<Rightarrow> bool \<Rightarrow> int \<Rightarrow> int \<Rightarrow> limits \<Rightarrow> category \<Rightarrow> bytes \<Rightarrow> render_state
    \<Rightarrow> (bool \<times> go_error option) \<times> render_state" where
  "renderExternal env seek kitty columns lines limits c path ps =
     external_loop env seek (archiveCategory c) (li_entries limits) (externalTools kitty columns lines c path) ps"

text \<open>The blanks of \<open>strings.TrimSpace\<close>, which \<open>file\<close> can only put around its answer as ASCII.\<close>

definition trim_blanks :: "bytes \<Rightarrow> bytes" where
  "trim_blanks s = (let blank = (\<lambda>c. \<not> is_meaningful c) in rev (dropWhile blank (rev (dropWhile blank s))))"

definition fileHint :: "tool_env \<Rightarrow> bytes \<Rightarrow> category \<Rightarrow> render_state \<Rightarrow> (category \<times> go_error option) \<times> render_state" where
  "fileHint env path fallback ps =
     (if look env ''file'' = [] then ((fallback, None), ps)
      else case xe_start env (look env ''file'') [''--brief'', ''--mime-type'', ''--'', path] of
             None \<Rightarrow> ((fallback, None), ps)
           | Some ch \<Rightarrow>
               (case run_child env False 0 ''file'' (ch\<lparr>ch_output := map (\<lambda>(i, d). (if i = 0 then 2 else i, d)) (ch_output ch)\<rparr>) ps of
                  (Some e, ps') \<Rightarrow> ((fallback, Some e), ps')
                | (None, ps') \<Rightarrow>
                    if ch_wait ch \<noteq> None then ((fallback, None), ps')
                    else ((categoryFromMIME (trim_blanks (shown_by 2 (ps_out ps'))) fallback, None), ps')))"

section \<open>cache.go: cached artifacts\<close>

text \<open>
  What a rendering meets in the cache: whether there is one, whether it has the artifact, whether a new artifact can be made, what
  its converter does, what the artifact is then, whether it can be put and staged, the path of the staged artifact, the result of rewinding it for a tool, and what
  removing the two files at the end of their functions gives.
\<close>

record cache_env =
  ce_available :: bool
  ce_hit :: bool
  ce_temp :: "bytes option"
  ce_events :: "converter_event list"
  ce_accepted :: "int result"
  ce_put :: "go_error option"
  ce_close :: "go_error option"
  ce_staged :: "bytes option"
  ce_seek :: "string \<Rightarrow> go_error option"
  ce_temp_cleanup :: bool
  ce_staged_cleanup :: bool

definition arm_cleanup :: "render_state \<Rightarrow> render_state" where
  "arm_cleanup ps = ps\<lparr>ps_session := (ps_session ps)\<lparr>rs_cleanup := True, rs_abandon := True\<rparr>\<rparr>"

definition disarm :: "bool \<Rightarrow> render_state \<Rightarrow> render_state" where
  "disarm removed ps = (if removed then ps\<lparr>ps_session := (ps_session ps)\<lparr>rs_cleanup := False, rs_abandon := False\<rparr>\<rparr> else ps)"

definition renderStagedCache :: "tool_env \<Rightarrow> cache_env \<Rightarrow> bool \<Rightarrow> int \<Rightarrow> int \<Rightarrow> limits \<Rightarrow> render_state
    \<Rightarrow> (bool \<times> bool \<times> go_error option) \<times> render_state" where
  "renderStagedCache env ce kitty columns lines limits ps =
     (case ce_staged ce of
        None \<Rightarrow> ((False, True, None), ps)
      | Some path \<Rightarrow>
          (case renderExternal env (ce_seek ce) kitty columns lines limits CategoryImage path (arm_cleanup ps) of
             ((rendered, err), ps') \<Rightarrow> ((rendered, True, err), disarm (ce_staged_cleanup ce) ps')))"

text \<open>After the converter; \<open>waited\<close> is what the wait for it gave.\<close>

definition accept_artifact :: "tool_env \<Rightarrow> cache_env \<Rightarrow> bool \<Rightarrow> int \<Rightarrow> int \<Rightarrow> limits \<Rightarrow> render_state
    \<Rightarrow> (bool \<times> bool \<times> go_error option) \<times> render_state" where
  "accept_artifact env ce kitty columns lines limits ps =
     (case ce_accepted ce of
        Inl e \<Rightarrow>
          if errors_is e ErrNotExist then ((False, False, None), ps)
          else (case end_session env e ps of (err, ps) \<Rightarrow> ((False, False, err), ps))
      | Inr n \<Rightarrow>
          if n = 0 then ((False, False, None), ps)
          else if ce_put ce \<noteq> None \<or> ce_close ce \<noteq> None
          then (case end_session env (the (errors_join (ce_put ce) (ce_close ce))) ps of (err, ps) \<Rightarrow> ((False, False, err), ps))
          else renderStagedCache env ce kitty columns lines limits ps)"

definition run_converter :: "tool_env \<Rightarrow> cache_env \<Rightarrow> bool \<Rightarrow> int \<Rightarrow> int \<Rightarrow> limits \<Rightarrow> string \<Rightarrow> child_run \<Rightarrow> render_state
    \<Rightarrow> ((bool \<times> bool \<times> go_error option) \<times> render_state) option" where
  "run_converter env ce kitty columns lines limits name ch ps =
     (case session_start (ch_retain ch) (ps_session ps) of
        ((first, retainErr), s) \<Rightarrow>
          let ps = ps\<lparr>ps_session := s, ps_dispatched := ps_dispatched ps @ (if first then [name] else []),
                 ps_out := fold (budget_step log_writer) (ch_output ch) (ps_out ps)\<rparr> in
          case waitConverter (session_terminal (xe_cleanup env) (xe_retries env) (xe_kill env)) (ce_events ce) (ps_session ps) of
            None \<Rightarrow> None
          | Some (Inr e, s) \<Rightarrow> Some ((False, False, Some e), ps\<lparr>ps_session := s\<rparr>)
          | Some (Inl waitErr, s) \<Rightarrow>
              (case retainErr of
                 Some e \<Rightarrow> (case end_session env e ps of (err, ps) \<Rightarrow> Some ((False, False, err), ps))
               | None \<Rightarrow>
                   (case resourceFailure (ch_ctx ch) (fst (ps_out ps)) waitErr of
                      Some e \<Rightarrow> (case end_session env e ps of (err, ps) \<Rightarrow> Some ((False, False, err), ps))
                    | None \<Rightarrow> Some (accept_artifact env ce kitty columns lines limits ps))))"

definition renderCachedArtifact :: "tool_env \<Rightarrow> cache_env \<Rightarrow> bool \<Rightarrow> int \<Rightarrow> int \<Rightarrow> limits \<Rightarrow> category \<Rightarrow> bytes \<Rightarrow> render_state
    \<Rightarrow> ((bool \<times> bool \<times> go_error option) \<times> render_state) option" where
  "renderCachedArtifact env ce kitty columns lines limits c path ps =
     (case richConverterFor c of
        None \<Rightarrow> Some ((False, False, None), ps)
      | Some (_, name, _) \<Rightarrow>
          if \<not> ce_available ce then Some ((False, False, None), ps)
          else if ce_hit ce then Some (renderStagedCache env ce kitty columns lines limits ps)
          else if look env name = [] then Some ((False, False, None), ps)
          else (case ce_temp ce of
                  None \<Rightarrow> Some ((False, False, None), ps)
                | Some artifact \<Rightarrow>
                    let ps = arm_cleanup ps in
                    map_option (\<lambda>(result, ps). (result, disarm (ce_temp_cleanup ce) ps))
                      (case xe_start env (look env name) (richConverterArguments c path artifact) of
                         None \<Rightarrow> Some ((False, False, None), ps)
                       | Some ch \<Rightarrow> run_converter env ce kitty columns lines limits name ch ps)))"

section \<open>Render\<close>

text \<open>What a rendering is given and meets.\<close>

record render_env =
  rv_unicode :: unicode
  rv_columns :: int
  rv_lines :: int
  rv_limits :: limits
  rv_ctx :: "go_error option"
  rv_stat :: "preview_info result"
  rv_ctx_read :: "go_error option"
  rv_open :: "go_error option"
  rv_data :: bytes
  rv_read_err :: "go_error option"
  rv_ctx_after :: "go_error option"
  rv_ctx_end :: "go_error option"
  rv_tools :: tool_env
  rv_cache :: cache_env
  rv_native :: native_env

text \<open>\<open>rv_data\<close> is what can be read of the file, up to \<open>rv_read_err\<close>.\<close>

definition readPrefix :: "render_env \<Rightarrow> file_info \<Rightarrow> int \<Rightarrow> bytes result" where
  "readPrefix env info maximum =
     (if fi_dir info then Inr []
      else case rv_ctx_read env of
        Some e \<Rightarrow> Inl e
      | None \<Rightarrow>
          (case rv_open env of
             Some e \<Rightarrow> Inl e
           | None \<Rightarrow>
               (case rv_read_err env of
                  Some e \<Rightarrow> if int (length (rv_data env)) < maximum then Inl e else Inr (take (nat maximum) (rv_data env))
                | None \<Rightarrow> Inr (take (nat maximum) (rv_data env)))))"

text \<open>What \<open>Detect\<close> is given of a file.\<close>

definition detect_info :: "preview_info \<Rightarrow> file_info" where
  "detect_info info = \<lparr>fi_name = fi_name info, fi_dir = fi_dir info\<rparr>"

definition note_native :: "render_state \<Rightarrow> render_state" where
  "note_native ps = (if rs_started (ps_session ps) then ps else ps\<lparr>ps_dispatched := ps_dispatched ps @ [''native'']\<rparr>)"

definition finish_native :: "render_env \<Rightarrow> preview_info \<Rightarrow> bytes \<Rightarrow> category \<Rightarrow> limits \<Rightarrow> render_state \<Rightarrow> (go_error option \<times> render_state) option" where
  "finish_native env info leading c limits ps =
     (let ps = note_native ps in
      case renderNative (budget_dest 0) (rv_native env) info leading c limits (ps_out ps) of
        None \<Rightarrow> None
      | Some (err, out) \<Rightarrow>
          let ps = ps\<lparr>ps_out := out\<rparr> in
          case (if rs_started (ps_session ps) then resourceFailure (rv_ctx_end env) (fst out) err else None) of
            Some e \<Rightarrow> Some (end_session (rv_tools env) e ps)
          | None \<Rightarrow> Some (err, ps))"

text \<open>The other programs, unless only the renderers of the package are to be used.\<close>

definition render_tools :: "render_env \<Rightarrow> bytes \<Rightarrow> category \<Rightarrow> limits \<Rightarrow> bool \<Rightarrow> render_state
    \<Rightarrow> ((bool \<times> go_error option) \<times> render_state) option" where
  "render_tools env path c limits nativeOnly ps =
     (let kitty = terminalQualified (rv_unicode env) (xe_environment (rv_tools env)) in
      if nativeOnly then Some ((False, None), ps)
      else case renderCachedArtifact (rv_tools env) (rv_cache env) kitty (rv_columns env) (rv_lines env) limits c path ps of
             None \<Rightarrow> None
           | Some ((rendered, handled, err), ps) \<Rightarrow>
               Some (if err = None \<and> \<not> rendered \<and> \<not> handled
                     then renderExternal (rv_tools env) (\<lambda>_. None) kitty (rv_columns env) (rv_lines env) limits c path ps
                     else ((rendered, err), ps)))"

text \<open>After them.\<close>

definition render_end :: "render_env \<Rightarrow> preview_info \<Rightarrow> bytes \<Rightarrow> category \<Rightarrow> limits \<Rightarrow> bool \<Rightarrow> render_state \<Rightarrow> (go_error option \<times> render_state) option" where
  "render_end env info leading c limits rendered ps =
     (case resourceFailure (rv_ctx_after env) (fst (ps_out ps)) None of
        Some e \<Rightarrow> Some (if rs_started (ps_session ps) then end_session (rv_tools env) e ps else (Some e, ps))
      | None \<Rightarrow> if rendered then Some (None, ps) else finish_native env info leading c limits ps)"

text \<open>From the category on.\<close>

definition render_category :: "render_env \<Rightarrow> bytes \<Rightarrow> preview_info \<Rightarrow> bytes \<Rightarrow> category \<Rightarrow> limits \<Rightarrow> render_state \<Rightarrow> (go_error option \<times> render_state) option" where
  "render_category env path info leading c limits ps =
     (if \<not> fi_dir info \<and> pv_size info > li_artifact limits \<and> \<not> archiveCategory c then Some (Some ErrArtifactLimit, ps)
      else let nativeOnly = (c = CategoryZip \<and> preflightZip (ne_open (rv_native env)) (ne_data (rv_native env)) (li_entries limits) \<noteq> None);
               ps = (if nativeOnly then note_native ps else ps)
           in case render_tools env path c limits nativeOnly ps of
                None \<Rightarrow> None
              | Some ((_, Some e), ps) \<Rightarrow> Some (Some e, ps)
              | Some ((rendered, None), ps) \<Rightarrow> render_end env info leading c limits rendered ps)"

definition new_render_state :: "limits \<Rightarrow> render_state" where
  "new_render_state limits = \<lparr>ps_out = (newOutputBudget (li_output limits) True, \<lambda>_. new_budget_writer, []),
     ps_session = newRenderSession, ps_dispatched = []\<rparr>"

text \<open>The end of the session, which the code defers, is \<open>session_close\<close> on the state that is returned.\<close>

definition Render :: "render_env \<Rightarrow> resolved_candidate \<Rightarrow> (go_error option \<times> render_state) option" where
  "Render env candidate =
     (let limits = normalizedLimits (rv_limits env); ps = new_render_state limits in
      if rc_kind candidate = KindVirtual \<or> \<not> is_abs (rc_path candidate) then Some (Some ErrPathNotAbsolute, ps)
      else case rv_ctx env of
        Some e \<Rightarrow> Some (Some e, ps)
      | None \<Rightarrow>
          (case rv_stat env of
             Inl e \<Rightarrow> Some (Some e, ps)
           | Inr info \<Rightarrow>
               (case readPrefix env (detect_info info) 65536 of
                  Inl e \<Rightarrow> Some (Some e, ps)
                | Inr leading \<Rightarrow>
                    (case Detect (rv_unicode env) leading (Some (detect_info info)) of
                       Inl e \<Rightarrow> Some (Some e, ps)
                     | Inr c \<Rightarrow>
                         (case (if c = CategoryBinary then fileHint (rv_tools env) (rc_path candidate) c ps else ((c, None), ps)) of
                            ((_, Some e), ps) \<Rightarrow> Some (Some e, ps)
                          | ((c, None), ps) \<Rightarrow> render_category env (rc_path candidate) info leading c limits ps)))))"

section \<open>The account of a rendering\<close>

lemma end_session_sel [simp]:
  "ps_out (snd (end_session env e ps)) = ps_out ps" "fst (end_session env e ps) \<noteq> None"
  by (simp_all add: end_session_def split: prod.splits)

lemma end_sessionD: "end_session env e ps = (err, ps') \<Longrightarrow> ps_out ps' = ps_out ps \<and> err \<noteq> None"
  using end_session_sel [of env e ps] by simp

lemma tool_write_accounted: "accounted m (snd s) \<Longrightarrow> accounted m (snd (tool_write limited item s))"
proof -
  assume acc: "accounted m (snd s)"
  have "accounted m st'" if "line_limit_Write (budget_dest 0) data remaining (snd s) = (r, k, st')" for data remaining r k st'
    using that acc by (auto simp: line_limit_Write_def split: if_splits prod.splits dest!: budget_dest_step intro: accounted_step)
  with acc show ?thesis by (auto simp: tool_write_def intro: accounted_step split: prod.splits)
qed

lemma tool_writes_accounted: "accounted m (snd s) \<Longrightarrow> accounted m (snd (fold (tool_write limited) items s))"
  by (induction items arbitrary: s) (simp_all add: tool_write_accounted)

lemma budget_steps_accounted: "accounted m s \<Longrightarrow> accounted m (fold (budget_step log_writer) items s)"
  by (induction items arbitrary: s) (simp_all add: accounted_step)

lemma resourceFailure_None: "resourceFailure ctx b err = None \<Longrightarrow> \<not> ob_exceeded b"
  by (auto simp: resourceFailure_def budget_status_def split: if_splits)

lemma run_child_accounted:
  "run_child env limited entries name ch ps = (e, ps') \<Longrightarrow> accounted m (ps_out ps) \<Longrightarrow> accounted m (ps_out ps')"
  using tool_writes_accounted [of m "(entries, ps_out ps)" limited "ch_output ch"]
  by (auto simp: run_child_def Let_def split: prod.splits option.splits dest!: end_sessionD)

lemma external_loop_accounted:
  "external_loop env seek limited entries tools ps = (r, ps') \<Longrightarrow> accounted m (ps_out ps) \<Longrightarrow> accounted m (ps_out ps')"
proof (induction env seek limited entries tools ps rule: external_loop.induct)
  case (2 env seek limited entries name args tools ps)
  show ?case
  proof (cases "look env name = [] \<or> seek name \<noteq> None \<or> xe_start env (look env name) args = None")
    case True
    with 2 show ?thesis by (auto split: if_splits option.splits prod.splits dest: end_sessionD)
  next
    case False
    then obtain ch where ch: "xe_start env (look env name) args = Some ch" by blast
    obtain e ps1 where run: "run_child env limited entries name ch ps = (e, ps1)" by fastforce
    note acc = run_child_accounted [OF run 2(5)]
    show ?thesis using 2(3) [OF _ _ ch run [symmetric]] 2(4) False ch run acc
      by (auto split: option.splits if_splits)
  qed
qed simp

lemma renderStagedCache_accounted:
  "renderStagedCache env ce kitty columns lines limits ps = (r, ps') \<Longrightarrow> accounted m (ps_out ps) \<Longrightarrow> accounted m (ps_out ps')"
  by (auto simp: renderStagedCache_def renderExternal_def arm_cleanup_def disarm_def split: option.splits prod.splits if_splits
      dest!: external_loop_accounted [of _ _ _ _ _ _ _ _ m])

lemma end_session_accounted: "accounted m (ps_out ps) \<Longrightarrow> accounted m (ps_out (snd (end_session env e ps)))"
  by simp

lemma accept_artifact_accounted:
  "accept_artifact env ce kitty columns lines limits ps = (r, ps') \<Longrightarrow> accounted m (ps_out ps) \<Longrightarrow> accounted m (ps_out ps')"
  by (auto simp: accept_artifact_def split: sum.splits if_splits prod.splits dest: end_sessionD renderStagedCache_accounted)

lemma run_converter_accounted:
  assumes "run_converter env ce kitty columns lines limits name ch ps = Some (r, ps')" and "accounted m (ps_out ps)"
  shows "accounted m (ps_out ps')"
proof -
  have acc: "accounted m (fold (budget_step log_writer) (ch_output ch) (ps_out ps))" using assms(2) by (rule budget_steps_accounted)
  then have end_acc: "accounted m (ps_out q')"
    if "end_session env e q = (err, q')" "ps_out q = fold (budget_step log_writer) (ch_output ch) (ps_out ps)" for e q err q'
    using end_sessionD [OF that(1)] that(2) by simp
  have art_acc: "accounted m (ps_out q')"
    if "accept_artifact env ce kitty columns lines limits q = (r', q')" "ps_out q = fold (budget_step log_writer) (ch_output ch) (ps_out ps)" for q r' q'
    using accept_artifact_accounted [OF that(1)] acc that(2) by simp
  show ?thesis using assms(1) acc
    by (auto simp: run_converter_def Let_def split: prod.splits option.splits sum.splits intro: end_acc art_acc)
qed

lemma disarm_out [simp]: "ps_out (disarm b ps) = ps_out ps" "ps_out (arm_cleanup ps) = ps_out ps" "ps_out (note_native ps) = ps_out ps"
  by (simp_all add: disarm_def arm_cleanup_def note_native_def)

lemma renderCachedArtifact_accounted:
  assumes "renderCachedArtifact env ce kitty columns lines limits c path ps = Some (r, ps')" and "accounted m (ps_out ps)"
  shows "accounted m (ps_out ps')"
proof -
  have conv: "accounted m (ps_out q)" if "run_converter env ce kitty columns lines limits name ch (arm_cleanup ps) = Some (r', q)" for name ch r' q
    using run_converter_accounted [OF that] assms(2) by simp
  have staged: "accounted m (ps_out q)" if "renderStagedCache env ce kitty columns lines limits ps = (r', q)" for r' q
    using renderStagedCache_accounted [OF that assms(2)] .
  show ?thesis using assms
    by (auto simp: renderCachedArtifact_def Let_def split: option.splits if_splits) (erule staged conv)+
qed

lemma fileHint_accounted: "fileHint env path c ps = (r, ps') \<Longrightarrow> accounted m (ps_out ps) \<Longrightarrow> accounted m (ps_out ps')"
  by (auto simp: fileHint_def split: if_splits option.splits prod.splits dest: run_child_accounted)

text \<open>A rendering that reports no error has not exceeded its budget.\<close>

definition within :: "int \<Rightarrow> go_error option \<Rightarrow> render_state \<Rightarrow> bool" where
  "within m e ps \<longleftrightarrow> accounted m (ps_out ps) \<and> (e = None \<longrightarrow> \<not> ob_exceeded (fst (ps_out ps)))"

lemma within_error: "accounted m (ps_out ps) \<Longrightarrow> within m (Some e) ps"
  by (simp add: within_def)

lemma within_end: "end_session env e ps = (err, ps') \<Longrightarrow> accounted m (ps_out ps) \<Longrightarrow> within m err ps'"
  using end_sessionD [of env e ps err ps'] by (auto simp: within_def)

lemma finish_native_within:
  assumes "finish_native env info leading c limits ps = Some (e, ps')" and "accounted m (ps_out ps)" and "\<not> ob_exceeded (fst (ps_out ps))"
  shows "within m e ps'"
proof -
  obtain err out where run: "renderNative (budget_dest 0) (rv_native env) info leading c limits (ps_out ps) = Some (err, out)"
    using assms(1) by (auto simp: finish_native_def Let_def split: option.splits)
  have "budget_kept m None (ps_out ps)" using assms(2,3) by (simp add: budget_kept_def)
  then have kept: "budget_kept_weakly m err out" by (intro budgeted.renderNative_K [OF run]) (auto simp: budgeted.mtime_ok_def)
  let ?ps = "(note_native ps)\<lparr>ps_out := out\<rparr>"
  consider (ended) x where "end_session (rv_tools env) x ?ps = (e, ps')" | (kept) "e = err" "ps' = ?ps"
    using assms(1) run by (auto simp: finish_native_def Let_def split: option.splits if_splits)
  then show ?thesis
  proof cases
    case ended
    then show ?thesis using kept by (intro within_end [OF ended]) (simp add: budget_kept_weakly_def)
  next
    case kept
    then show ?thesis using \<open>budget_kept_weakly m err out\<close> by (auto simp: within_def budget_kept_weakly_def)
  qed
qed

lemma render_tools_accounted:
  assumes "render_tools env path c limits nativeOnly ps = Some ((r, e), ps')" and "accounted m (ps_out ps)"
  shows "accounted m (ps_out ps')"
proof -
  let ?kitty = "terminalQualified (rv_unicode env) (xe_environment (rv_tools env))"
  have external: "accounted m (ps_out q')"
    if "renderExternal (rv_tools env) (\<lambda>_. None) ?kitty (rv_columns env) (rv_lines env) limits c path q = (r', q')" "accounted m (ps_out q)" for q r' q'
    using that by (auto simp: renderExternal_def dest: external_loop_accounted)
  have cached: "accounted m (ps_out q)"
    if "renderCachedArtifact (rv_tools env) (rv_cache env) ?kitty (rv_columns env) (rv_lines env) limits c path ps = Some (r', q)" for r' q
    using renderCachedArtifact_accounted [OF that assms(2)] .
  show ?thesis using assms
    by (auto simp: render_tools_def Let_def split: if_splits option.splits) (erule external, erule cached | erule cached)+
qed

lemma render_end_within:
  assumes "render_end env info leading c limits rendered ps = Some (e, ps')" and "accounted m (ps_out ps)"
  shows "within m e ps'"
proof (cases "resourceFailure (rv_ctx_after env) (fst (ps_out ps)) None")
  case None
  note free = resourceFailure_None [OF None]
  show ?thesis
  proof (cases rendered)
    case True
    with assms None free show ?thesis by (auto simp: render_end_def within_def)
  next
    case False
    with assms(1) None have "finish_native env info leading c limits ps = Some (e, ps')" by (simp add: render_end_def)
    then show ?thesis using assms(2) free by (rule finish_native_within)
  qed
next
  case (Some x)
  show ?thesis
  proof (cases "rs_started (ps_session ps)")
    case True
    with assms(1) Some have "end_session (rv_tools env) x ps = (e, ps')" by (simp add: render_end_def)
    then show ?thesis using assms(2) by (rule within_end)
  next
    case False
    with assms Some show ?thesis by (auto simp: render_end_def within_def)
  qed
qed

lemma render_category_within:
  assumes "render_category env path info leading c limits ps = Some (e, ps')" and "accounted m (ps_out ps)"
  shows "within m e ps'"
proof (cases "\<not> fi_dir info \<and> pv_size info > li_artifact limits \<and> \<not> archiveCategory c")
  case True
  with assms show ?thesis by (auto simp: render_category_def within_def)
next
  case False
  let ?native = "c = CategoryZip \<and> preflightZip (ne_open (rv_native env)) (ne_data (rv_native env)) (li_entries limits) \<noteq> None"
  obtain r x q where tools: "render_tools env path c limits ?native (if ?native then note_native ps else ps) = Some ((r, x), q)"
    and rest: "(case x of Some e \<Rightarrow> Some (Some e, q) | None \<Rightarrow> render_end env info leading c limits r q) = Some (e, ps')"
    using assms(1) False unfolding render_category_def if_not_P [OF False] Let_def by (auto split: option.splits)
  have acc: "accounted m (ps_out q)" using render_tools_accounted [OF tools] assms(2) by simp
  show ?thesis
  proof (cases x)
    case (Some y)
    with rest acc show ?thesis by (auto simp: within_def)
  next
    case None
    with rest have "render_end env info leading c limits r q = Some (e, ps')" by simp
    then show ?thesis using acc by (rule render_end_within)
  qed
qed

section \<open>Renderings that start no program\<close>

definition silent :: "render_state \<Rightarrow> render_state \<Rightarrow> bool" where
  "silent ps ps' \<longleftrightarrow> rs_started (ps_session ps') \<or> \<not> rs_started (ps_session ps) \<and> ps_out ps' = ps_out ps"

lemma silent_refl [simp]: "silent ps ps"
  by (simp add: silent_def)

lemma silent_trans [trans]: "silent ps q \<Longrightarrow> silent q ps' \<Longrightarrow> silent ps ps'"
  by (auto simp: silent_def)

lemma silent_same [simp]: "silent ps (arm_cleanup ps)" "silent ps (disarm b ps)" "silent ps (note_native ps)"
  by (simp_all add: silent_def arm_cleanup_def disarm_def note_native_def)

lemma session_terminal_started: "session_terminal first retries kill cause s = (e, s') \<Longrightarrow> rs_started s' = rs_started s"
  by (auto simp: session_terminal_def Preview_Limits.release_def Let_def split: if_splits)

lemma end_session_silent: "end_session env e ps = (err, ps') \<Longrightarrow> silent ps ps'"
  by (auto simp: end_session_def silent_def dest: session_terminal_started split: prod.splits)

lemma end_session_started: "end_session env e ps = (err, ps') \<Longrightarrow> rs_started (ps_session ps') = rs_started (ps_session ps)"
  by (auto simp: end_session_def dest: session_terminal_started split: prod.splits)

lemma session_start_started: "session_start retain s = (r, s') \<Longrightarrow> rs_started s'"
  by (auto simp: session_start_def Let_def split: if_splits)

lemma waitConverter_started:
  "waitConverter (session_terminal a b c) events s = Some (r, s') \<Longrightarrow> rs_started s \<Longrightarrow> rs_started s'"
proof (induction "session_terminal a b c" events s rule: waitConverter.induct)
  case (3 measured events s)
  then show ?case by (auto simp: Let_def split: option.splits if_splits prod.splits dest: session_terminal_started)
qed auto

lemma run_child_started: "run_child env limited entries name ch ps = (e, ps') \<Longrightarrow> rs_started (ps_session ps')"
  by (auto simp: run_child_def Let_def split: prod.splits option.splits dest!: session_start_started end_session_started)

lemma external_loop_silent: "external_loop env seek limited entries tools ps = (r, ps') \<Longrightarrow> silent ps ps'"
proof (induction env seek limited entries tools ps rule: external_loop.induct)
  case (2 env seek limited entries name args tools ps)
  show ?case
  proof (cases "look env name = [] \<or> seek name \<noteq> None \<or> xe_start env (look env name) args = None")
    case True
    with 2 show ?thesis by (auto split: if_splits option.splits prod.splits dest: end_session_silent)
  next
    case False
    then obtain ch where ch: "xe_start env (look env name) args = Some ch" by blast
    obtain e ps1 where run: "run_child env limited entries name ch ps = (e, ps1)" by fastforce
    have silent: "silent ps ps1" using run_child_started [OF run] by (simp add: silent_def)
    show ?thesis using 2(3) [OF _ _ ch run [symmetric]] 2(4) False ch run silent
      by (auto split: option.splits if_splits intro: silent_trans)
  qed
qed simp

lemma renderStagedCache_silent:
  assumes "renderStagedCache env ce kitty columns lines limits ps = (r, ps')"
  shows "silent ps ps'"
proof (cases "ce_staged ce")
  case (Some path)
  obtain rendered err q where q: "renderExternal env (ce_seek ce) kitty columns lines limits CategoryImage path (arm_cleanup ps) = ((rendered, err), q)"
    by (metis prod.exhaust)
  have "silent ps (arm_cleanup ps)" by simp
  also have "silent (arm_cleanup ps) q" using q by (simp add: renderExternal_def external_loop_silent)
  also have "silent q ps'" using assms Some q by (auto simp: renderStagedCache_def)
  finally show ?thesis .
qed (use assms in \<open>simp add: renderStagedCache_def\<close>)

lemma accept_artifact_silent: "accept_artifact env ce kitty columns lines limits ps = (r, ps') \<Longrightarrow> silent ps ps'"
  by (auto simp: accept_artifact_def split: sum.splits if_splits prod.splits dest: end_session_silent renderStagedCache_silent)

lemma run_converter_started:
  assumes "run_converter env ce kitty columns lines limits name ch ps = Some (r, ps')"
  shows "rs_started (ps_session ps')"
proof -
  obtain first retain s where s: "session_start (ch_retain ch) (ps_session ps) = ((first, retain), s)" by (metis prod.exhaust)
  note started = session_start_started [OF s]
  have ended: "rs_started (ps_session q')" if "end_session env e q = (err, q')" "rs_started (ps_session q)" for e q err q'
    using end_session_started [OF that(1)] that(2) by simp
  have art: "rs_started (ps_session q')" if "accept_artifact env ce kitty columns lines limits q = (r', q')" "rs_started (ps_session q)" for q r' q'
    using accept_artifact_silent [OF that(1)] that(2) by (auto simp: silent_def)
  show ?thesis using assms s started
    by (auto simp: run_converter_def Let_def split: prod.splits option.splits sum.splits dest: waitConverter_started
        intro: ended art)
qed

lemma renderCachedArtifact_silent:
  assumes "renderCachedArtifact env ce kitty columns lines limits c path ps = Some (r, ps')"
  shows "silent ps ps'"
proof -
  have conv: "silent ps (disarm b q)" if "run_converter env ce kitty columns lines limits name ch (arm_cleanup ps) = Some (r', q)" for name ch r' q b
    using run_converter_started [OF that] by (simp add: silent_def disarm_def)
  have kept: "silent ps (disarm b (arm_cleanup ps))" for b by (simp add: silent_def arm_cleanup_def disarm_def)
  show ?thesis using assms
    by (auto simp: renderCachedArtifact_def Let_def intro: kept conv dest: renderStagedCache_silent split: option.splits if_splits)
qed

lemma fileHint_silent: "fileHint env path c ps = (r, ps') \<Longrightarrow> silent ps ps'"
  by (auto simp: fileHint_def silent_def split: if_splits option.splits prod.splits dest: run_child_started)

lemma render_tools_silent:
  assumes "render_tools env path c limits nativeOnly ps = Some (r, ps')"
  shows "silent ps ps'"
proof -
  let ?kitty = "terminalQualified (rv_unicode env) (xe_environment (rv_tools env))"
  have cached: "silent ps q"
    if "renderCachedArtifact (rv_tools env) (rv_cache env) ?kitty (rv_columns env) (rv_lines env) limits c path ps = Some (r', q)" for r' q
    using that by (rule renderCachedArtifact_silent)
  have external: "silent ps q'"
    if "renderCachedArtifact (rv_tools env) (rv_cache env) ?kitty (rv_columns env) (rv_lines env) limits c path ps = Some (r1, q)"
      "renderExternal (rv_tools env) (\<lambda>_. None) ?kitty (rv_columns env) (rv_lines env) limits c path q = (r', q')" for r1 q r' q'
    using cached [OF that(1)] external_loop_silent that(2) unfolding renderExternal_def by (blast intro: silent_trans)
  show ?thesis using assms
    by (auto simp: render_tools_def Let_def split: if_splits option.splits)
      ((erule external, assumption) | (rule cached, assumption))+
qed

text \<open>The texts that other packages write.\<close>

definition texts_safe :: "render_env \<Rightarrow> bool" where
  "texts_safe env \<longleftrightarrow>
     (case rv_stat env of Inl _ \<Rightarrow> True | Inr info \<Rightarrow> screen_safe (pv_mtime info)) \<and>
     (case ne_image (rv_native env) of None \<Rightarrow> True | Some (format, _, _) \<Rightarrow> screen_safe format)"

definition screened :: "render_state \<Rightarrow> render_state \<Rightarrow> bool" where
  "screened ps ps' \<longleftrightarrow>
     rs_started (ps_session ps') \<or> \<not> rs_started (ps_session ps) \<and> extends_safely 0 (ps_out ps) (ps_out ps')"

lemma extends_safely_refl: "extends_safely i s s"
  by (auto simp: extends_safely_def intro: exI [of _ "[]"])

lemma silent_screened: "silent ps ps' \<Longrightarrow> screened ps ps'"
  by (auto simp: silent_def screened_def extends_safely_refl)

lemma silent_then_screened: "silent ps q \<Longrightarrow> screened q ps' \<Longrightarrow> screened ps ps'"
  by (auto simp: silent_def screened_def)

lemma finish_native_screened:
  assumes "finish_native env info leading c limits ps = Some (e, ps')" and "rv_stat env = Inr info" and "texts_safe env"
  shows "screened ps ps'"
proof -
  obtain err out where run: "renderNative (budget_dest 0) (rv_native env) info leading c limits (ps_out ps) = Some (err, out)"
    using assms(1) by (auto simp: finish_native_def Let_def split: option.splits)
  have "extends_safely 0 (ps_out ps) out"
    using assms(2,3) by (intro screen.renderNative_K [OF run extends_safely_refl]) (auto simp: screen.mtime_ok_def texts_safe_def)
  with assms(1) run show ?thesis
    by (auto simp: finish_native_def screened_def note_native_def Let_def split: option.splits if_splits dest: end_session_started)
qed

lemma render_end_screened:
  assumes "render_end env info leading c limits rendered ps = Some (e, ps')" and "rv_stat env = Inr info" and "texts_safe env"
  shows "screened ps ps'"
  using assms
  by (auto simp: render_end_def split: option.splits if_splits
      dest: finish_native_screened end_session_silent intro: silent_screened)

lemma render_category_screened:
  assumes "render_category env path info leading c limits ps = Some (e, ps')" and "rv_stat env = Inr info" and "texts_safe env"
  shows "screened ps ps'"
proof (cases "\<not> fi_dir info \<and> pv_size info > li_artifact limits \<and> \<not> archiveCategory c")
  case True
  with assms(1) show ?thesis by (auto simp: render_category_def intro: silent_screened)
next
  case False
  let ?native = "c = CategoryZip \<and> preflightZip (ne_open (rv_native env)) (ne_data (rv_native env)) (li_entries limits) \<noteq> None"
  let ?ps = "if ?native then note_native ps else ps"
  obtain r x q where tools: "render_tools env path c limits ?native ?ps = Some ((r, x), q)"
    and rest: "(case x of Some e \<Rightarrow> Some (Some e, q) | None \<Rightarrow> render_end env info leading c limits r q) = Some (e, ps')"
    using assms(1) False unfolding render_category_def if_not_P [OF False] Let_def by (auto split: option.splits)
  have "silent ps ?ps" by simp
  also have "silent ?ps q" using tools by (rule render_tools_silent)
  finally have "silent ps q" .
  moreover have "screened q ps'"
    using rest assms(2,3) by (auto split: option.splits dest: render_end_screened intro: silent_screened)
  ultimately show ?thesis by (rule silent_then_screened)
qed

section \<open>Whole renderings\<close>

lemma new_state_accounted: "0 \<le> li_output limits \<Longrightarrow> accounted (li_output limits) (ps_out (new_render_state limits)) \<and>
    \<not> ob_exceeded (fst (ps_out (new_render_state limits)))"
  by (simp add: accounted_def new_render_state_def newOutputBudget_def budget_inv_def logged_def)

lemma normalized_positive: "0 < li_output (normalizedLimits l)"
  by (simp add: normalizedLimits_def Let_def DefaultLimits_def)

text \<open>A zip archive that the check refuses.\<close>

lemma refused_zip_native:
  assumes "render_category env path info leading CategoryZip limits ps = Some (e, ps')" and "\<not> rs_started (ps_session ps)"
    and "preflightZip (ne_open (rv_native env)) (ne_data (rv_native env)) (li_entries limits) \<noteq> None"
  shows "ps_session ps' = ps_session ps"
  using assms
  by (auto simp: render_category_def render_tools_def render_end_def finish_native_def note_native_def archiveCategory_def Let_def
      split: option.splits if_splits)


text \<open>A zip archive that cannot be opened for the check.\<close>

definition demo_tool_env :: tool_env where
  "demo_tool_env = \<lparr>xe_environment = [''PATH=/bin''], xe_stat = (\<lambda>_. Some (False, 493)), xe_abs = Some,
     xe_start = (\<lambda>_ _. Some \<lparr>ch_retain = None, ch_output = [(0, ''x'')], ch_wait = None, ch_ctx = None\<rparr>),
     xe_cleanup = True, xe_retries = [], xe_kill = None\<rparr>"

definition demo_cache_env :: cache_env where
  "demo_cache_env = \<lparr>ce_available = False, ce_hit = False, ce_temp = None, ce_events = [], ce_accepted = Inr 0, ce_put = None, ce_close = None,
     ce_staged = None, ce_seek = (\<lambda>_. None), ce_temp_cleanup = True, ce_staged_cleanup = True\<rparr>"

definition demo_render_env :: render_env where
  "demo_render_env = \<lparr>rv_unicode = latin1, rv_columns = 80, rv_lines = 24, rv_limits = DefaultLimits, rv_ctx = None,
     rv_stat = Inr (demo_info\<lparr>fi_name := ''a.zip'', fi_dir := False\<rparr>), rv_ctx_read = None, rv_open = None, rv_data = bytes_of [80, 75, 3, 4], rv_read_err = None, rv_ctx_after = None,
     rv_ctx_end = None, rv_tools = demo_tool_env, rv_cache = demo_cache_env, rv_native = demo_native_env\<lparr>ne_open := Some ErrCanceled\<rparr>\<rparr>"

definition demo_candidate :: resolved_candidate where
  "demo_candidate = \<lparr>rc_kind = KindLocal, rc_path = ''/a.zip'', rc_size = 0, rc_mod_time = 0, rc_mode = 0\<rparr>"

lemma demo_detect: "Detect latin1 (bytes_of [80, 75, 3, 4]) (Some \<lparr>fi_name = n, fi_dir = False\<rparr>) = Inr CategoryZip"
  by (simp add: Detect_def bytes_of_def has_prefix_def)

lemma demo_native: "\<exists>e out. renderNative (budget_dest 0) (demo_native_env\<lparr>ne_open := Some ErrCanceled\<rparr>) info leading CategoryZip limits st = Some (e, out)"
proof -
  have "\<exists>r. renderNative (budget_dest 0) (demo_native_env\<lparr>ne_open := Some ErrCanceled\<rparr>) info leading CategoryZip limits st = Some r"
    by (simp add: renderNative_def demo_native_env_def renderArchiveOrFallback_def renderZip_def preflightZip_def del: split_paired_Ex)
  then show ?thesis by auto
qed

lemma demo_prefix: "rv_stat demo_render_env = Inr (demo_info\<lparr>fi_name := ''a.zip'', fi_dir := False\<rparr>)"
    "readPrefix demo_render_env (detect_info (demo_info\<lparr>fi_name := ''a.zip'', fi_dir := False\<rparr>)) 65536 = Inr (bytes_of [80, 75, 3, 4])"
    "preflightZip (ne_open (rv_native demo_render_env)) (ne_data (rv_native demo_render_env)) n = Some ErrCanceled"
    "rv_unicode demo_render_env = latin1" "rv_limits demo_render_env = DefaultLimits" "rv_ctx demo_render_env = None"
    "rv_native demo_render_env = demo_native_env\<lparr>ne_open := Some ErrCanceled\<rparr>" "rv_ctx_after demo_render_env = None"
  by (simp_all add: demo_render_env_def readPrefix_def detect_info_def demo_info_def preflightZip_def bytes_of_def)

lemma demo_finish: "\<exists>r. finish_native demo_render_env info leading CategoryZip limits ps = Some r"
  using demo_native [of info leading limits "ps_out (note_native ps)"]
  by (auto simp: finish_native_def Let_def demo_prefix split: option.splits simp del: split_paired_Ex disarm_out)

lemma demo_rendering: "\<exists>r. Render demo_render_env demo_candidate = Some r"
proof -
  let ?l = "normalizedLimits DefaultLimits" and ?info = "demo_info\<lparr>fi_name := ''a.zip'', fi_dir := False\<rparr>"
  have free: "resourceFailure None (fst (ps_out (new_render_state ?l))) None = None"
    by (simp add: resourceFailure_def budget_status_def newOutputBudget_def new_render_state_def)
  have refused: "preflightZip (Some ErrCanceled) data n = Some ErrCanceled" for data n
    by (simp add: preflightZip_def)
  have detect: "Detect latin1 (bytes_of [80, 75, 3, 4]) (Some (detect_info ?info)) = Inr CategoryZip"
    unfolding detect_info_def by (simp add: demo_detect demo_info_def)
  have "\<exists>r. render_category demo_render_env path ?info leading CategoryZip ?l (new_render_state ?l) = Some r" for path leading
    using demo_finish free refused
    by (simp add: render_category_def render_tools_def render_end_def demo_prefix archiveCategory_def Let_def del: split_paired_Ex)
  then show ?thesis
    by (simp add: Render_def Let_def demo_prefix detect demo_candidate_def is_abs_def SLASH_def del: split_paired_Ex)
qed


end
