(* ===== verification/Spec2Isabelle.thy ===== *)
theory Spec2Isabelle
  imports Go_Base64 Go_Utf8 Go_Filepath Protocol Pathutil Candidate Zoxide Session Session_Actor
    Fzf_Action Fzf_Process Process Sessionipc Callback Enrichment Metrics Backend Trace Sidecar Picker
    Preview_Limits Preview_Detect Preview_Zip Preview_Native Preview_Render
begin

text \<open>
  Verification of shell-picker, an interactive directory and file picker around fzf.

  The program.  A picker session builds a list of candidates for a location (\<open>internal/candidate\<close>), feeds them to
  fzf as NUL-framed records (\<open>internal/protocol\<close>, \<open>internal/fzf\<close>), and runs fzf as a child with a sanitised
  environment (\<open>internal/process\<close>).  Every key that fzf binds runs the picker again as a callback
  (\<open>internal/callback\<close>), which talks over authenticated loopback HTTP (\<open>internal/sessionipc\<close>) to the session.
  The session is an actor (\<open>internal/session\<close>): a pure reducer proposes a transition for an event, the actor builds
  the new candidates and publishes a snapshot under a new generation, and the callback prints the fzf actions
  of the resulting effect, among them the reload of exactly that generation.  A coordinator
  (\<open>internal/app/enrichment*.go\<close>) lets the zoxide source, which is slower than the local enumeration, add its
  records to the running list.  The records fzf prints at the end are validated against the last snapshot and
  written as the outcome.

  Layout.  One theory per component; the definitions of a theory stand in the order of the Go files it names and
  carry the Go names where HOL allows it.
  \<^item> Prelude: errors as values (\<open>errors.Is\<close>, \<open>errors.Join\<close>, wrapping), the locales \<open>transition_system\<close>,
    \<open>monotone_system\<close> and \<open>versioned_system\<close> for step relations, and reachability.
  \<^item> Go_Bytes, Go_Base64, Go_Utf8, Go_Filepath: what the sources use of the standard library (splitting, decimal
    numbers, base64, runes, lexical paths), with the laws the components need.
  \<^item> Protocol (\<open>internal/protocol\<close>): enumerations, wire records, framing, display escaping, outcomes.
  \<^item> Pathutil (\<open>internal/pathutil\<close>, Unix): locations, home compaction, creation of a directory tree over an abstract
    file system with rollback.
  \<^item> Candidate (\<open>record.go\<close>, \<open>local.go\<close>, the merge of \<open>builder.go\<close>): enumeration over an abstract directory reader, the
    classification of symbolic links by concurrent workers, sorting, merging by target identity.
  \<^item> Zoxide (\<open>zoxide_limits.go\<close>, \<open>zoxide.go\<close>, \<open>builder.go\<close>): the limit on the child's output as a writer that sees
    chunks, the row parser, the once-only cache, the two policies and the parallel build.
  \<^item> Session (\<open>types.go\<close>, \<open>record_set.go\<close>, \<open>events.go\<close>, \<open>selection.go\<close>): the reducer and the validation of selections.
  \<^item> Session_Actor (\<open>actor.go\<close>, \<open>actor_api.go\<close>): the select loop as the step relation \<open>actor_step\<close> over one function
    per case, with the answers, builds and cleanups it issues as part of the state.
  \<^item> Process, Fzf_Action, Fzf_Process (\<open>internal/process\<close>, \<open>internal/fzf\<close>): the child's environment, the action
    language, the options, the input stream under its mutex, the output parser, the version check.
  \<^item> Sessionipc (\<open>internal/sessionipc\<close>): request validation, credentials, admission and every handler, over an
    abstract backend and JSON decoder; status codes and endpoints on the client's side.
  \<^item> Callback (\<open>internal/callback\<close>, \<open>internal/finderinfo\<close>): the command grammar, header and counters, the dispatch of
    every command over an abstract client, the telemetry of previews.
  \<^item> Enrichment (\<open>internal/app/enrichment*.go\<close>): the fields under the coordinator's mutex as a record, every critical
    section as a function on it, their interleavings as \<open>gate_step\<close>, the part of them that the source goroutine may
    take as \<open>source_step\<close>, and the commit together with the actor and the input stream.  Inside \<open>commit\<close> the gate is taken
    as unchanged between the query for the base and the publication; the code reads its flags again there.
  \<^item> Metrics (\<open>internal/app/metrics.go\<close>): saturating counters, durations and label maps of a session.
  \<^item> Backend (\<open>internal/app/backend.go\<close>): the operations behind the server, composed of the actor, the coordinator and
    the metrics.
  \<^item> Trace (\<open>internal/integration/trace*.go\<close>, \<open>internal/app/trace.go\<close>): the schema of the trace file, the validation of events
    and of records, the writing loop, and the picker trace around it.
  \<^item> Sidecar (\<open>internal/fzfsidecar\<close>, \<open>internal/app/sidecar.go\<close>): the optional poller of a running fzf: its activation, the
    counts and their label, page requests and snapshots, the polling loop as a function of the cycles it meets, and
    the lifecycle around it.
  \<^item> Picker (\<open>internal/app/cli.go\<close>, \<open>run.go\<close>, \<open>session_builder.go\<close>): the command line, the exit codes, and one run of the picker
    over what it meets: the initial view, the launch of fzf, the validation of its result and the cleanup.  What the source
    goroutine does to the coordinator beside the run, before and after the activation, are functions of the environment.
  \<^item> Preview_Limits, Preview_Detect, Preview_Zip (\<open>internal/preview\<close>): the output budget of a preview, the limits of lines and of
    copies, the session of a rendering; the category of a file and the text of a completion; the check of a zip archive
    before it is listed.
  \<^item> Preview_Native, Preview_Render (\<open>internal/preview/render.go\<close>, \<open>archive.go\<close>, \<open>tools.go\<close>, \<open>cache.go\<close>): the renderers of the
    package on any writer, and a whole rendering: the choice of the tools, the runs of other programs as the code sees them,
    the conversion of documents, the output budget and the fallbacks.  The storage of the cache is not modelled.

  State and effects.  Goroutines that communicate are step relations or functions on the state under a mutex; a
  wait is a value (\<open>MustWait\<close>, \<open>CommitWait\<close>) after which the caller tries again.  Contexts are the errors they carry
  when they are read, given as arguments.  The file system, directory readers, writers, the child process, the
  JSON decoder and the Unicode tables are parameters; what a theorem needs of them is a hypothesis with a
  concrete instance (for example \<open>controls_hidden\<close> with the instance \<open>latin1\<close>).  Generations and event identifiers
  are 64-bit words, and their exhaustion is a branch of the model as it is of the code.  Side effects on the terminal's
  cursor are left out of the callback's dispatch, and a rolled-back tree of directories is not reset to empty.

  Termination.  All functions are total.  The write loop \<open>write_rest\<close> of the callback carries as fuel one more than
  the length of the data: each round writes at least one byte or returns.  The other loops are structural or have
  a measure (the escape loop and the header's trailing cells decrease the length of the text that is left).

  What is shown.  Records and displays survive encoding and parsing exactly; directory creation either succeeds
  or leaves the file system as it was; enumeration and classification do not depend on scheduling; the zoxide
  limits do not depend on how the output is cut into chunks; the reducer moves only to places the snapshot names,
  and every effect the session applies can be rendered, as it is proposed and as the callback rewrites it; the
  actor has at most one build, answers every command once, cleans up exactly what a refused command created, and a
  generation names its records; the coordinator admits one event at a time, frees it exactly after its
  acknowledgements, never serves the same load twice, admits nothing after a failed callback, and what it appends to
  fzf's input is exactly what the published records gained; the server acts only on requests that carry the session's credential, and never runs more handlers than it admits; the commands that the actions hand to fzf are
  the ones the callback parses; a selection of shown records is accepted; a preview keeps within its output budget, and where no
  other program was started it shows no control sequence of a terminal.

  Findings.  At the file-system root the enrichment drops the parent entry that fzf still shows
  (\<open>root_enrichment_drops_parent\<close>); an empty last row of zoxide's output is accepted although every other empty row
  is refused (\<open>parseZoxideRecords_trailing_row\<close>).

  Not modelled.  The system-call layers (process groups, signal masks, job objects, terminals, sockets and
  net/http), the storage of the preview cache, the fzf sidecar's HTTP transport, release tooling, test
  helpers, and the Windows variants of files: they are either calls into the operating system or outside the
  picker's own logic.  Wall-clock durations are not part of any state except in the metrics.
\<close>

section \<open>What fzf runs is what the callback parses\<close>

text \<open>
  C14: The command lines that the actions hand to fzf are the commands the callback program accepts: a reload for a
  generation and an event runs exactly the load of that generation for that event, a bound event runs exactly
  that event, and the fixed actions run the empty source, the two previews and the display.
\<close>

theorem rendered_commands_parse:
  "(g \<noteq> 0 \<longrightarrow> (\<exists>c. reloadForEvent g i = ''reload-sync('' @ c @ '')''
      \<and> Parse c = Inr ((plain_command CbLoad)\<lparr>cc_generation := g, cc_event_id := i\<rparr>)))
   \<and> (x \<in> set known_opcodes \<longrightarrow> (\<exists>c. transformEvent x = ''transform('' @ c @ '')''
      \<and> Parse c = Inr ((plain_command CbEvent)\<lparr>cc_opcode := x\<rparr>)))
   \<and> (\<exists>c. reloadEmpty = ''reload-sync('' @ c @ '')'' \<and> Parse c = Inr (plain_command CbEmptySource))
   \<and> (\<exists>c. changePreviewDefault = ''change-preview('' @ c @ '')'' \<and> Parse c = Inr (plain_command CbPreview))
   \<and> (\<exists>c. changePreviewInvalid = ''change-preview('' @ c @ '')'' \<and> Parse c = Inr (plain_command CbInvalidPreview))
   \<and> (\<exists>c. transformDisplay = ''transform('' @ c @ '')'' \<and> Parse c = Inr (plain_command CbDisplay))"
proof (intro conjI impI)
  assume "g \<noteq> 0"
  let ?c = "(plain_command CbLoad)\<lparr>cc_generation := g, cc_event_id := i\<rparr>"
  have "Parse (command_text ?c) = Inr ?c" using \<open>g \<noteq> 0\<close> by (intro Parse_command is_command.intros) simp_all
  moreover have "reloadForEvent g i = ''reload-sync('' @ command_text ?c @ '')''"
    by (simp add: reloadForEvent_def reload_def command_text_def plain_command_def)
  ultimately show "\<exists>c. reloadForEvent g i = ''reload-sync('' @ c @ '')'' \<and> Parse c = Inr ?c" by blast
next
  assume "x \<in> set known_opcodes"
  let ?c = "(plain_command CbEvent)\<lparr>cc_opcode := x\<rparr>"
  have "Parse (command_text ?c) = Inr ?c" using \<open>x \<in> set known_opcodes\<close> by (intro Parse_command is_command.intros) simp_all
  moreover have "transformEvent x = ''transform('' @ command_text ?c @ '')''"
    by (simp add: transformEvent_def command_text_def plain_command_def)
  ultimately show "\<exists>c. transformEvent x = ''transform('' @ c @ '')'' \<and> Parse c = Inr ?c" by blast
next
  show "\<exists>c. reloadEmpty = ''reload-sync('' @ c @ '')'' \<and> Parse c = Inr (plain_command CbEmptySource)"
    by (intro exI [of _ "''l:empty''"]) (simp add: reloadEmpty_def Parse_def event_table_def)
  show "\<exists>c. changePreviewDefault = ''change-preview('' @ c @ '')'' \<and> Parse c = Inr (plain_command CbPreview)"
    by (intro exI [of _ "''p''"]) (simp add: changePreviewDefault_def Parse_def event_table_def)
  show "\<exists>c. changePreviewInvalid = ''change-preview('' @ c @ '')'' \<and> Parse c = Inr (plain_command CbInvalidPreview)"
    by (intro exI [of _ "''p:invalid''"]) (simp add: changePreviewInvalid_def Parse_def event_table_def)
  show "\<exists>c. transformDisplay = ''transform('' @ c @ '')'' \<and> Parse c = Inr (plain_command CbDisplay)"
    by (intro exI [of _ "''d''"]) (simp add: transformDisplay_def Parse_def event_table_def)
qed

theorem rendered_commands_parse_witness:
  "\<exists>c. reloadForEvent 7 3 = ''reload-sync('' @ c @ '')'' \<and> Parse c = Inr ((plain_command CbLoad)\<lparr>cc_generation := 7, cc_event_id := 3\<rparr>)"
  using rendered_commands_parse [of 7 3 OpEnter] by simp

section \<open>From the records shown to the paths printed\<close>

lemma ParseOutput_cp_frames:
  assumes "recs \<noteq> []" and "\<forall>rec \<in> set recs. rec \<noteq> [] \<and> NUL \<notin> set rec"
  shows "\<exists>r. ParseOutput PickerCP (nul_terminated (''enter'' # recs)) 0 = Inr r \<and> fr_records r = recs"
proof -
  have "NUL \<notin> set ''enter''" by (simp add: NUL_def)
  with assms have "nulFrames (nul_terminated (''enter'' # recs)) = Inr (''enter'' # recs)" by (simp add: nulFrames_iff)
  moreover have "\<not> list_ex (\<lambda>rec. rec = []) recs" using assms(2) by (auto simp: list_ex_iff)
  ultimately show ?thesis using assms(1) by (cases recs) (simp_all add: ParseOutput_def split_accepted_def)
qed

lemma ValidateCP_frames:
  assumes "ValidateCP s accepted base = Inr oc"
  shows "\<exists>sel. subseq sel (recordValues s) \<and> mset (map FullKey sel) = mset accepted
    \<and> out_paths oc = map (\<lambda>r. Relative base (rec_path r)) sel"
proof -
  from ValidateCP_sound [OF assms] obtain sel keys where v: "subseq sel (recordValues s)"
    "list_all2 (\<lambda>raw k. ParseRecord raw = Inr k) accepted keys" "mset (map Wire sel) = mset keys"
    "oc = \<lparr>out_status = StatusAccepted, out_paths = map (\<lambda>r. Relative base (rec_path r)) sel\<rparr>" by blast
  from v(2) have "accepted = map wire_bytes keys"
    by (induction rule: list_all2_induct) (auto dest: ParseRecord_Inr)
  then have "mset accepted = image_mset wire_bytes (mset keys)" by simp
  also have "\<dots> = image_mset wire_bytes (mset (map Wire sel))" by (simp only: v(3))
  finally have "mset accepted = mset (map (\<lambda>r. wire_bytes (Wire r)) sel)" by (simp add: comp_def multiset.map_comp)
  moreover have "FullKey = (\<lambda>r. wire_bytes (Wire r))" by (simp add: FullKey_def fun_eq_iff)
  ultimately have "mset (map FullKey sel) = mset accepted" by simp
  with v(1,4) show ?thesis by auto
qed

text \<open>
  C13: A cp selection survives the whole way: let the records of the snapshot be well formed (their display and
  path have passed the record encoder, \<open>record_ok\<close>) and the directory the copy starts from be nonempty.  Whatever
  nonempty choice fzf makes among the frames of the records (each at most as often as it is shown, none of them
  virtual), its NUL-terminated output after the accepting key is parsed to exactly those frames in that order, and
  their validation against the snapshot succeeds with one path per choice: the relative paths, in the order of
  the snapshot, of records whose frames are the choice.
\<close>

theorem cp_selection_accepted:
  assumes "base \<noteq> []" and "chosen \<noteq> []" and "\<forall>r \<in> set (recordValues s). record_ok r"
    and "mset chosen \<subseteq># mset (map FullKey (filter selectable (recordValues s)))"
  shows "\<exists>r oc sel. ParseOutput PickerCP (nul_terminated (''enter'' # chosen)) 0 = Inr r \<and> fr_records r = chosen
    \<and> ValidateCP s (fr_records r) base = Inr oc \<and> length (out_paths oc) = length chosen
    \<and> subseq sel (recordValues s) \<and> mset (map FullKey sel) = mset chosen
    \<and> out_paths oc = map (\<lambda>r. Relative base (rec_path r)) sel"
proof -
  have "rec \<noteq> [] \<and> NUL \<notin> set rec" if "rec \<in> set chosen" for rec
  proof -
    from that assms(4) obtain v where v: "v \<in> set (recordValues s)" "rec = FullKey v"
      by (metis (no_types, lifting) filter_is_subset image_iff list.set_map mset_subset_eqD set_mset_mset subsetD)
    with assms(3) have "wire_ok (Wire v)" by (simp add: record_ok_def)
    then show ?thesis using v wire_ok_clean [of "Wire v"] by (simp add: FullKey_def wire_bytes_alt)
  qed
  then obtain r where "ParseOutput PickerCP (nul_terminated (''enter'' # chosen)) 0 = Inr r" "fr_records r = chosen"
    using ParseOutput_cp_frames [OF assms(2)] by blast
  moreover from ValidateCP_accepts [OF assms] obtain oc where "ValidateCP s chosen base = Inr oc" "length (out_paths oc) = length chosen"
    by blast
  ultimately show ?thesis using ValidateCP_frames by metis
qed

theorem cp_selection_accepted_witness:
  "\<exists>r oc. ParseOutput PickerCP (nul_terminated [''enter'', FullKey demo_record]) 0 = Inr r \<and> fr_records r = [FullKey demo_record]
    \<and> ValidateCP (demo_snapshot ModeInsert) (fr_records r) ''/a'' = Inr oc \<and> length (out_paths oc) = 1"
proof -
  have "mset [FullKey demo_record] \<subseteq># mset (map FullKey (filter selectable (recordValues (demo_snapshot ModeInsert))))"
    by (simp add: selectable_def demo_record_def)
  then show ?thesis
    using cp_selection_accepted [of "''/a''" "[FullKey demo_record]" "demo_snapshot ModeInsert"] demo_record_ok by auto
qed

section \<open>Every effect the session proposes can be shown\<close>

lemma plain_escaped: "controls_hidden u \<Longrightarrow> plain (EscapeDisplay u p)"
  using EscapeDisplay_printable [of u _ p] by (force simp: plain_def char_consts byte_of_def)

lemma plain_append: "plain (a @ b) \<longleftrightarrow> plain a \<and> plain b"
  by (auto simp: plain_def)

lemma plain_prompt: "controls_hidden u \<Longrightarrow> plain (PromptDisplayHome u l home)"
  by (auto simp: PromptDisplayHome_def PromptDisplay_def Let_def plain_append plain_escaped char_consts)

lemma effect_ok_mode:
  assumes "st_mode st \<in> {ModeInsert, ModeNormal, ModeAdd}" and "st_prompt st = modePrompt (st_mode st) b"
  shows "effect_ok (modeEffect st clear restore)"
    and "plain h \<Longrightarrow> effect_ok ((modeEffect st clear 0)\<lparr>ef_header := h, ef_clear_multi := m, ef_reload_generation := g\<rparr>)"
  using assms by (auto simp: modeEffect_def effect_ok_def no_effect_def modePrompt_def Let_def)

lemma effect_ok_plain:
  "effect_ok no_effect" "effect_ok (no_effect\<lparr>ef_ignore := True\<rparr>)" "effect_ok (no_effect\<lparr>ef_abort := True\<rparr>)"
  "effect_ok (no_effect\<lparr>ef_accept := True\<rparr>)" "effect_ok (no_effect\<lparr>ef_put := ''/''\<rparr>)" "effect_ok (no_effect\<lparr>ef_put := ''~''\<rparr>)"
  "effect_ok (no_effect\<lparr>ef_put := ''/'', ef_invalid_path := True\<rparr>)" "effect_ok (no_effect\<lparr>ef_restore_generation := g\<rparr>)"
  by (simp_all add: effect_ok_def no_effect_def)

text \<open>The effect of a proposal, and what it becomes when the actor publishes the build it asks for as generation \<open>g\<close>.\<close>

definition shows_ok :: "u64 \<Rightarrow> proposed \<Rightarrow> bool" where
  "shows_ok g p \<longleftrightarrow> effect_ok (pt_effect p) \<and> (pt_build p \<noteq> None \<longrightarrow> effect_ok ((pt_effect p)\<lparr>ef_reload_generation := g\<rparr>))"

lemma shows_navigation:
  assumes "controls_hidden u" and "st_mode (pt_state p) \<in> {ModeInsert, ModeNormal, ModeAdd}"
  shows "shows_ok g (setNavigationUnchecked u p target)"
proof -
  let ?p = "setNavigationUnchecked u p target"
  have st: "st_mode (pt_state ?p) \<in> {ModeInsert, ModeNormal, ModeAdd}" "st_prompt (pt_state ?p) = modePrompt (st_mode (pt_state ?p)) False"
    using assms(2) by (auto simp: setNavigationUnchecked_def Let_def)
  have e: "pt_effect ?p = (modeEffect (pt_state ?p) True 0)\<lparr>ef_header := PromptDisplayHome u target (st_home (pt_state ?p)), ef_clear_multi := True\<rparr>"
    by (simp add: setNavigationUnchecked_def Let_def)
  have none: "(modeEffect (pt_state ?p) True 0)\<lparr>ef_header := h, ef_clear_multi := True\<rparr>
      = (modeEffect (pt_state ?p) True 0)\<lparr>ef_header := h, ef_clear_multi := True, ef_reload_generation := 0\<rparr>" for h
    by (simp add: modeEffect_def Let_def no_effect_def)
  have ok: "effect_ok ((modeEffect (pt_state ?p) True 0)\<lparr>ef_header := PromptDisplayHome u target (st_home (pt_state ?p)), ef_clear_multi := True, ef_reload_generation := k\<rparr>)" for k
    using effect_ok_mode(2) [OF st plain_prompt [OF assms(1)]] .
  show ?thesis unfolding shows_ok_def e using ok [of g] ok [of 0] none by simp
qed

lemma shows_mode: "m \<in> {ModeInsert, ModeNormal, ModeAdd} \<Longrightarrow> pt_build p = None \<Longrightarrow> shows_ok g (setMode p m c)"
  by (auto simp: shows_ok_def setMode_def Let_def intro!: effect_ok_mode(1) [where b = False])

lemma shows_record: "controls_hidden u \<Longrightarrow> st_mode (pt_state p) \<in> {ModeInsert, ModeNormal, ModeAdd} \<Longrightarrow>
    navigate_record u p r = Inr (ProposalReduction q) \<Longrightarrow> shows_ok g q"
  by (auto simp: navigate_record_def shows_navigation split: sum.splits)

lemma shows_add_error: "shows_ok g (addErrorProposal s)"
  by (simp add: shows_ok_def addErrorProposal_def Let_def addErrorHeader_def effect_ok_def no_effect_def modePrompt_def)

lemma shows_Reduce:
  assumes "controls_hidden u" and "state_ok (sn_state s)" and "Reduce u s ev = Inr (ProposalReduction p)"
  shows "shows_ok g p"
proof -
  have m: "st_mode (sn_state s) \<in> {ModeInsert, ModeNormal, ModeAdd}" using assms(2) by (simp add: state_ok_def)
  have plain: "effect_ok e \<Longrightarrow> shows_ok g \<lparr>pt_base = sn_generation s, pt_state = sn_state s, pt_build = None, pt_effect = e, pt_created = None\<rparr>" for e
    by (simp_all add: shows_ok_def effect_ok_plain)
  have nav: "shows_ok g (setNavigationUnchecked u (start_proposal s) t)" for t using shows_navigation [OF assms(1)] m by simp
  have rec: "navigate_record u (start_proposal s) r = Inr (ProposalReduction p) \<Longrightarrow> shows_ok g p" for r
    using shows_record [OF assms(1), of "start_proposal s" r p g] m by simp
  have "shows_ok g p"
  proof (cases "ev_opcode ev")
    case OpEscape
    with assms(3) m show ?thesis
      by (auto simp: Reduce_def Let_def reduceEscape_def shows_mode effect_ok_plain plain)
  next
    case OpEnter
    with assms(3) rec show ?thesis
      by (auto simp: Reduce_def Let_def reduceEnter_def shows_add_error effect_ok_plain plain split: if_splits option.splits sum.splits)
  next
    case OpSlash
    with assms(3) rec nav show ?thesis
      by (auto simp: Reduce_def Let_def reduce_slash_def effect_ok_plain plain split: if_splits option.splits)
  next
    case OpForward
    with assms(3) rec show ?thesis
      by (auto simp: Reduce_def Let_def effect_ok_plain plain split: if_splits sum.splits)
  qed (use assms(3) nav in \<open>auto simp: Reduce_def Let_def effect_ok_plain plain shows_mode split: if_splits\<close>)
  then show ?thesis .
qed

text \<open>What the session applies for an event, the add path included.\<close>

lemma shows_prepared:
  assumes "controls_hidden u" and "state_ok (sn_state s)" and "handle_prepare u fs cause s ev f = (Inr p, f')"
  shows "shows_ok g p"
proof (cases "Reduce u s ev")
  case (Inr red)
  show ?thesis
  proof (cases red)
    case (ProposalReduction q)
    with assms(3) Inr have "Reduce u s ev = Inr (ProposalReduction p)" by (simp add: handle_prepare_def proposalValue_def)
    then show ?thesis by (rule shows_Reduce [OF assms(1,2)])
  next
    case (AddReduction intent)
    have m: "st_mode (sn_state s) \<in> {ModeInsert, ModeNormal, ModeAdd}" using assms(2) by (simp add: state_ok_def)
    show ?thesis using assms(3) Inr AddReduction shows_add_error shows_navigation [OF assms(1)] m
      by (auto simp: handle_prepare_def proposalValue_def addIntentValue_def Let_def split: sum.splits option.splits prod.splits)
  qed
qed (use assms(3) in \<open>simp add: handle_prepare_def\<close>)

text \<open>The changes on the way to fzf: the coordinator drops a restore, the callback fits the header to its window.\<close>

lemma effect_ok_suppress: "effect_ok e \<Longrightarrow> effect_ok (suppressActiveRestore b x e)"
  by (auto simp: suppressActiveRestore_def effect_ok_def)

lemma plain_visible: "plain h \<Longrightarrow> visibleHeader h env = Some v \<Longrightarrow> plain v"
proof -
  assume h: "plain h" and v: "visibleHeader h env = Some v"
  have "plain (trailingCells h n)" for n using h set_drop_subset [of _ h] by (force simp: plain_def trailingCells_def)
  moreover have "plain marker" by (simp add: marker_def char_consts)
  ultimately show ?thesis using h v by (auto simp: visibleHeader_def Let_def split: if_splits option.splits)
qed

lemma effect_ok_shown: "effect_ok e \<Longrightarrow> effect_ok (shown_effect env e)"
  using plain_visible by (auto simp: shown_effect_def effect_ok_def split: option.split)

lemma effect_ok_renders: "effect_ok e \<Longrightarrow> \<exists>line. RenderEffectForEvent e i = Inr line \<and> plain line"
  using renderEffect_ok [of e i] by (auto simp: RenderEffectForEvent_def)

text \<open>
  C12: Every effect that the session applies for an event, whatever bytes the event carries, is one the fzf action
  language can express: the effect of a reduction, and on the add path the navigation into the new directories or
  the add error.  This holds for the effect as it was proposed and as the actor stamps it with a generation \<open>g\<close> to reload,
  after the coordinator has dropped a restore from it or not, and after the callback has rewritten its header for the
  window: rendering it gives a line without carriage return, line feed or NUL.  The session's state is well formed
  (an invariant of the reducer) and the display escapes hide control characters.
\<close>

theorem Handle_renders:
  assumes "controls_hidden u" and "state_ok (sn_state s)" and "handle_prepare u fs cause s ev f = (Inr p, f')"
    and "e = pt_effect p \<or> pt_build p \<noteq> None \<and> e = (pt_effect p)\<lparr>ef_reload_generation := g\<rparr>"
  shows "(\<exists>line. RenderEffectForEvent (suppressActiveRestore active x e) i = Inr line \<and> plain line)
    \<and> (\<exists>line. RenderEffectForEvent (shown_effect env (suppressActiveRestore active x e)) i = Inr line \<and> plain line)"
proof -
  have "effect_ok e" using shows_prepared [OF assms(1-3), of g] assms(4) by (auto simp: shows_ok_def)
  then show ?thesis by (simp add: effect_ok_renders effect_ok_shown effect_ok_suppress)
qed

theorem Handle_renders_witness:
  "\<exists>p line. handle_prepare latin1 (mem_fs [] [] []) None (demo_snapshot ModeNormal) (demo_event OpModeAdd []) [] = (Inr p, [])
     \<and> RenderEffectForEvent (shown_effect (\<lambda>_. []) (suppressActiveRestore True OpModeAdd (pt_effect p))) 4 = Inr line"
proof -
  let ?s = "demo_snapshot ModeNormal"
  have run: "handle_prepare latin1 (mem_fs [] [] []) None ?s (demo_event OpModeAdd []) [] = (Inr (setMode (start_proposal ?s) ModeAdd True), [])"
    by (simp add: handle_prepare_def proposalValue_def Reduce_def demo_event_def demo_snapshot_def)
  have "state_ok (sn_state ?s)" by (simp add: state_ok_def demo_snapshot_def)
  from Handle_renders [OF controls_hidden_latin1 this run, of _ 0 True OpModeAdd 4 "\<lambda>_. []"] run show ?thesis by blast
qed

end
